(* ===== verification/Prelude.thy ===== *)
theory Prelude
  imports Main "HOL-Library.Word" "HOL-Library.Signed_Division"
begin

text \<open>
  What the components share: the result type of JavaScript code, the bigint and
  typed-array operations of the language, and generic lemmas about them.

  A JavaScript computation either does not return (\<open>None\<close>), throws
  (\<open>Some (Inl e)\<close>) or returns a value (\<open>Some (Inr x)\<close>): this is the type
  \<open>'a js\<close>, with \<open>ret\<close>, \<open>throw\<close> and the sequencing \<open>bindJ\<close>.  A \<open>bigint\<close> is an
  \<open>int\<close>; its \<open>/\<close> and \<open>%\<close> truncate (\<open>sdiv\<close>, \<open>smod\<close> of
  HOL-Library.Signed\_Division), its \<open>>>\<close> is the arithmetic shift, \<open>&\<close>, \<open>|\<close> and \<open>^\<close>
  are the two's complement operations of the library on \<open>int\<close>.  A \<open>Uint8Array\<close> is a
  list of 8-bit words.  A JavaScript string is represented by the list of the bytes
  of its UTF-8 encoding.
\<close>

unbundle bit_operations_syntax

named_theorems js_simps \<open>rewrite rules for computations of type \<open>'a js\<close>\<close>

section \<open>Results of JavaScript code\<close>

datatype js_error =
    Error string
  | TypeError string
  | RangeError string
  | SyntaxError string
  | AssertionError

type_synonym 'a js = "(js_error + 'a) option"

definition ret :: "'a \<Rightarrow> 'a js" where
  "ret x = Some (Inr x)"

definition throw :: "js_error \<Rightarrow> 'a js" where
  "throw e = Some (Inl e)"

definition bindJ :: "'a js \<Rightarrow> ('a \<Rightarrow> 'b js) \<Rightarrow> 'b js" where
  "bindJ m f = (case m of None \<Rightarrow> None | Some r \<Rightarrow> (case r of Inl e \<Rightarrow> Some (Inl e) | Inr x \<Rightarrow> f x))"

text \<open>The value of a returned computation.\<close>

fun returns :: "'a js \<Rightarrow> bool" where
  "returns None = False"
| "returns (Some (Inl e)) = False"
| "returns (Some (Inr x)) = True"

lemma bindJ_ret [simp, js_simps]: "bindJ (ret x) f = f x"
  by (simp add: bindJ_def ret_def)

lemma bindJ_throw [simp, js_simps]: "bindJ (throw e) f = throw e"
  by (simp add: bindJ_def throw_def)

lemma bindJ_None [simp, js_simps]: "bindJ None f = None"
  by (simp add: bindJ_def)

lemma ret_inject [simp]: "ret x = ret y \<longleftrightarrow> x = y"
  by (simp add: ret_def)

lemma throw_inject [simp]: "throw e = throw e' \<longleftrightarrow> e = e'"
  by (simp add: throw_def)

lemma ret_not_throw [simp]: "ret x \<noteq> throw e" "throw e \<noteq> ret x"
  by (simp_all add: ret_def throw_def)

lemma ret_not_None [simp]: "ret x \<noteq> None" "None \<noteq> ret x"
  by (simp_all add: ret_def)

lemma throw_not_None [simp]: "throw e \<noteq> None" "None \<noteq> throw e"
  by (simp_all add: throw_def)

lemma js_cases [case_names diverge throw ret]:
  obtains "m = None" | e where "m = throw e" | x where "m = ret x"
proof (cases m)
  case None
  then show ?thesis using that by simp
next
  case (Some r)
  then show ?thesis using that by (cases r) (auto simp: ret_def throw_def)
qed

lemma bindJ_eq_ret [js_simps]: "bindJ m f = ret y \<longleftrightarrow> (\<exists>x. m = ret x \<and> f x = ret y)"
  by (cases m rule: js_cases) auto

lemma bindJ_assoc: "bindJ (bindJ m f) g = bindJ m (\<lambda>x. bindJ (f x) g)"
  by (cases m rule: js_cases) auto

lemma bindJ_ret_right [simp]: "bindJ m ret = m"
  by (cases m rule: js_cases) auto

lemma bindJ_cong [fundef_cong]:
  "m = m' \<Longrightarrow> (\<And>x. m' = ret x \<Longrightarrow> f x = f' x) \<Longrightarrow> bindJ m f = bindJ m' f'"
  by (cases m' rule: js_cases) auto

text \<open>Recursive calls of a \<^theory_text>\<open>partial_function\<close> may stand on either side of \<open>bindJ\<close>.\<close>

lemma bindJ_mono [partial_function_mono]:
  fixes A :: "('x \<Rightarrow> 'y option) \<Rightarrow> 'a js" and B :: "'a \<Rightarrow> ('x \<Rightarrow> 'y option) \<Rightarrow> 'b js"
  assumes "monotone (fun_ord option_ord) option_ord A"
    and "\<And>y. monotone (fun_ord option_ord) option_ord (\<lambda>f. B y f)"
  shows "monotone (fun_ord option_ord) option_ord (\<lambda>f. bindJ (A f) (\<lambda>y. B y f))"
proof (rule monotoneI)
  fix f g :: "'x \<Rightarrow> 'y option"
  assume fg: "fun_ord option_ord f g"
  have A: "option_ord (A f) (A g)"
    using assms(1) fg by (rule monotoneD [of _ _ _ f g])
  have B: "option_ord (B y f) (B y g)" for y
    using assms(2) fg by (rule monotoneD [of _ _ _ f g])
  show "option_ord (bindJ (A f) (\<lambda>y. B y f)) (bindJ (A g) (\<lambda>y. B y g))"
  proof (cases "A g" rule: js_cases)
    case (ret x)
    with A have "A f = None \<or> A f = ret x" by (simp add: flat_ord_def)
    with ret B [of x] show ?thesis by (auto simp: flat_ord_def)
  qed (use A in \<open>auto simp: flat_ord_def\<close>)
qed

primrec mapJ :: "('a \<Rightarrow> 'b js) \<Rightarrow> 'a list \<Rightarrow> 'b list js" where
  "mapJ f [] = ret []"
| "mapJ f (x # xs) = bindJ (f x) (\<lambda>y. bindJ (mapJ f xs) (\<lambda>ys. ret (y # ys)))"

primrec foldJ :: "('b \<Rightarrow> 'a \<Rightarrow> 'b js) \<Rightarrow> 'b \<Rightarrow> 'a list \<Rightarrow> 'b js" where
  "foldJ f acc [] = ret acc"
| "foldJ f acc (x # xs) = bindJ (f acc x) (\<lambda>acc'. foldJ f acc' xs)"

lemma mapJ_cong [fundef_cong]:
  "xs = ys \<Longrightarrow> (\<And>x. x \<in> set ys \<Longrightarrow> f x = g x) \<Longrightarrow> mapJ f xs = mapJ g ys"
  by (induction ys arbitrary: xs) auto

lemma foldJ_cong [fundef_cong]:
  "a = b \<Longrightarrow> xs = ys \<Longrightarrow> (\<And>acc x. x \<in> set ys \<Longrightarrow> f acc x = g acc x) \<Longrightarrow> foldJ f a xs = foldJ g b ys"
proof (induction ys arbitrary: xs a b)
  case Nil
  then show ?case by simp
next
  case (Cons y ys)
  then show ?case by (auto intro!: bindJ_cong)
qed

lemma mapJ_ret [simp]: "(\<And>x. x \<in> set xs \<Longrightarrow> f x = ret (g x)) \<Longrightarrow> mapJ f xs = ret (map g xs)"
  by (induction xs) auto

lemma foldJ_ret: "(\<And>acc x. x \<in> set xs \<Longrightarrow> f acc x = ret (g acc x)) \<Longrightarrow> foldJ f acc xs = ret (foldl g acc xs)"
  by (induction xs arbitrary: acc) auto

lemma foldJ_append: "foldJ f acc (xs @ ys) = bindJ (foldJ f acc xs) (\<lambda>acc'. foldJ f acc' ys)"
  by (induction xs arbitrary: acc) (auto simp: bindJ_assoc)

lemma mapJ_append: "mapJ f (xs @ ys) = bindJ (mapJ f xs) (\<lambda>us. bindJ (mapJ f ys) (\<lambda>vs. ret (us @ vs)))"
  by (induction xs) (auto simp: bindJ_assoc)

lemma in_set_zip_upt: "x \<in> set (zip xs [0..<length xs]) \<Longrightarrow> snd x < length xs \<and> fst x = xs ! snd x \<and> fst x \<in> set xs"
  by (auto simp: set_zip)

text \<open>Totality of a map and of a loop from the totality of a step.\<close>

lemma mapJ_total:
  assumes "\<And>x. x \<in> set xs \<Longrightarrow> \<exists>y. f x = ret y \<and> P y"
  shows "\<exists>ys. mapJ f xs = ret ys \<and> length ys = length xs \<and> (\<forall>y \<in> set ys. P y)"
  using assms
proof (induction xs)
  case (Cons x xs)
  obtain y where "f x = ret y" "P y" using Cons.prems [of x] by auto
  moreover obtain ys where "mapJ f xs = ret ys" "length ys = length xs" "\<forall>y \<in> set ys. P y" using Cons by auto
  ultimately show ?case by (intro exI [of _ "y # ys"]) simp
qed simp

lemma foldJ_total:
  assumes "P acc" "\<And>acc x. x \<in> set xs \<Longrightarrow> P acc \<Longrightarrow> \<exists>acc'. f acc x = ret acc' \<and> P acc'"
  shows "\<exists>acc'. foldJ f acc xs = ret acc' \<and> P acc'"
  using assms
proof (induction xs arbitrary: acc)
  case (Cons x xs)
  obtain y where "f acc x = ret y" "P y" using Cons.prems by force
  moreover obtain z where "foldJ f y xs = ret z" "P z" using Cons.IH [of y] Cons.prems \<open>P y\<close> by auto
  ultimately show ?case by simp
qed simp

text \<open>
  An array element that the code uses at once as an operand: past the end it is
  \<open>undefined\<close>, and arithmetic on \<open>undefined\<close> and a bigint is a \<open>TypeError\<close>.
\<close>

definition elem_at :: "'a list \<Rightarrow> nat \<Rightarrow> 'a js" where
  "elem_at xs i = (if i < length xs then ret (xs ! i) else throw (TypeError ''undefined operand''))"

lemma elem_at_ret [simp]: "i < length xs \<Longrightarrow> elem_at xs i = ret (xs ! i)"
  by (simp add: elem_at_def)

section \<open>Bigint arithmetic\<close>

definition bigint_div :: "int \<Rightarrow> int \<Rightarrow> int js" where
  "bigint_div a b = (if b = 0 then throw (RangeError ''Division by zero'') else ret (a sdiv b))"

definition bigint_rem :: "int \<Rightarrow> int \<Rightarrow> int js" where
  "bigint_rem a b = (if b = 0 then throw (RangeError ''Division by zero'') else ret (a smod b))"

definition bigint_pow :: "int \<Rightarrow> int \<Rightarrow> int js" where
  "bigint_pow a b = (if b < 0 then throw (RangeError ''Exponent must be non-negative'') else ret (a ^ nat b))"

text \<open>\<open>a >> n\<close> and \<open>a << n\<close>: a negative count shifts the other way.\<close>

definition bigint_shr :: "int \<Rightarrow> int \<Rightarrow> int" where
  "bigint_shr a n = (if 0 \<le> n then a div 2 ^ nat n else a * 2 ^ nat (- n))"

definition bigint_shl :: "int \<Rightarrow> int \<Rightarrow> int" where
  "bigint_shl a n = (if 0 \<le> n then a * 2 ^ nat n else a div 2 ^ nat (- n))"

lemma smod_nonneg: "0 \<le> a \<Longrightarrow> 0 < b \<Longrightarrow> a smod b = a mod (b::int)"
  by (cases "a = 0") (simp_all add: signed_modulo_int_def)

lemma sdiv_nonneg: "0 \<le> a \<Longrightarrow> 0 < b \<Longrightarrow> a sdiv b = a div (b::int)"
  by (cases "a = 0") (simp_all add: signed_divide_int_def)

lemma smod_abs_less: "b \<noteq> 0 \<Longrightarrow> \<bar>a smod b\<bar> < \<bar>b :: int\<bar>"
  by (simp add: signed_modulo_int_def abs_mult)

lemma and_one_mod2: "(n::int) AND 1 = n mod 2"
  by (simp add: and_one_eq)

text \<open>Congruence modulo \<open>p\<close>, and the primality the field needs, in terms of \<open>gcd\<close>.\<close>

definition prime_modulus :: "int \<Rightarrow> bool" where
  "prime_modulus p \<longleftrightarrow> 1 < p \<and> (\<forall>a \<in> {1..<p}. coprime a p)"

lemma prime_modulus_gt_1: "prime_modulus p \<Longrightarrow> 1 < p"
  by (simp add: prime_modulus_def)

lemma prime_modulus_coprime:
  assumes "prime_modulus p" "\<not> p dvd a"
  shows "coprime a p"
proof -
  have p: "0 < p" using assms(1) by (simp add: prime_modulus_def)
  have "a mod p \<noteq> 0" using assms(2) by (simp add: dvd_eq_mod_eq_0)
  moreover have "0 \<le> a mod p" "a mod p < p"
    using p by (rule pos_mod_sign, use p in \<open>rule pos_mod_bound\<close>)
  ultimately have "0 < a mod p \<and> a mod p < p"
    by (metis order_less_le)
  then have "a mod p \<in> {1..<p}"
    by simp
  then have "coprime (a mod p) p"
    using assms(1) by (simp add: prime_modulus_def)
  then show ?thesis
    using p by (simp add: coprime_mod_left_iff)
qed

lemma prime_modulus_dvd_mult:
  assumes "prime_modulus p" "p dvd a * b"
  shows "p dvd a \<or> p dvd b"
proof (rule disjCI)
  assume "\<not> p dvd b"
  then have "coprime p b"
    using prime_modulus_coprime [OF assms(1)] by (simp add: coprime_commute)
  then show "p dvd a"
    using assms(2) by (simp add: coprime_dvd_mult_left_iff)
qed

section \<open>Strings of digits\<close>

text \<open>\<open>n.toString(radix)\<close> and \<open>Number.parseInt(s, 16)\<close> work on digit characters.\<close>

definition digit_char :: "nat \<Rightarrow> char" where
  "digit_char d = (if d < 10 then char_of (48 + d) else char_of (87 + d))"

definition digit_val :: "char \<Rightarrow> nat option" where
  "digit_val c = (let n = of_char c :: nat in
     if 48 \<le> n \<and> n \<le> 57 then Some (n - 48)
     else if 97 \<le> n \<and> n \<le> 122 then Some (n - 87)
     else if 65 \<le> n \<and> n \<le> 90 then Some (n - 55)
     else None)"

lemma of_char_char_of_small: "n < 256 \<Longrightarrow> (of_char (char_of n) :: nat) = n"
  by simp

lemma digit_val_char [simp]: "d < 36 \<Longrightarrow> digit_val (digit_char d) = Some d"
  by (auto simp: digit_val_def digit_char_def Let_def)

text \<open>The digits of a natural number, most significant first, and their value.\<close>

fun radix_digits :: "nat \<Rightarrow> nat \<Rightarrow> nat list" where
  "radix_digits r n = (if r < 2 \<or> n < r then [n] else radix_digits r (n div r) @ [n mod r])"

declare radix_digits.simps [simp del]

definition digits_value :: "nat \<Rightarrow> nat list \<Rightarrow> nat" where
  "digits_value r ds = foldl (\<lambda>a d. a * r + d) 0 ds"

definition to_radix :: "nat \<Rightarrow> int \<Rightarrow> string" where
  "to_radix r n = (if n < 0 then CHR ''-'' # map digit_char (radix_digits r (nat (- n)))
                   else map digit_char (radix_digits r (nat n)))"

lemma foldl_digits: "foldl (\<lambda>a d. a * r + d) x ds = x * r ^ length ds + foldl (\<lambda>a d. a * r + d) 0 (ds :: nat list)"
proof (induction ds arbitrary: x)
  case Nil
  show ?case by simp
next
  case (Cons d ds)
  show ?case
    using Cons.IH [of "x * r + d"] Cons.IH [of d] by (simp add: algebra_simps)
qed

lemma digits_value_append:
  "digits_value r (xs @ ys) = digits_value r xs * r ^ length ys + digits_value r ys"
  by (simp add: digits_value_def foldl_digits [of r "foldl (\<lambda>a d. a * r + d) 0 xs"])

lemma digits_value_simps [simp]: "digits_value r [] = 0" "digits_value r [d] = d"
  by (simp_all add: digits_value_def)

lemma digits_value_radix_digits: "2 \<le> r \<Longrightarrow> digits_value r (radix_digits r n) = n"
proof (induction r n rule: radix_digits.induct)
  case (1 r n)
  then show ?case
    by (cases "n < r") (simp_all add: radix_digits.simps [of r n] digits_value_append)
qed

lemma radix_digits_less: "2 \<le> r \<Longrightarrow> d \<in> set (radix_digits r n) \<Longrightarrow> d < r"
proof (induction r n rule: radix_digits.induct)
  case (1 r n)
  then show ?case
    by (cases "n < r") (auto simp: radix_digits.simps [of r n])
qed

lemma radix_digits_nonempty [simp]: "radix_digits r n \<noteq> []"
  by (subst radix_digits.simps) simp

lemma digits_value_less: "(\<And>d. d \<in> set ds \<Longrightarrow> d < r) \<Longrightarrow> digits_value r ds < r ^ length ds"
proof (induction ds rule: rev_induct)
  case Nil
  then show ?case by simp
next
  case (snoc d ds)
  then have "digits_value r ds + 1 \<le> r ^ length ds" and d: "d < r" by (simp_all add: Suc_leI)
  then have "(digits_value r ds + 1) * r \<le> r ^ length ds * r" by (rule_tac mult_le_mono1) simp
  with d show ?case by (simp add: digits_value_append algebra_simps)
qed

text \<open>\<open>BigInt(s)\<close>: a hexadecimal literal, a decimal literal with an optional sign, or
  the empty string (which is 0); anything else is a \<open>SyntaxError\<close>.\<close>

definition is_space :: "char \<Rightarrow> bool" where
  "is_space c \<longleftrightarrow> (of_char c :: nat) \<in> {9, 10, 11, 12, 13, 32}"

definition trim :: "string \<Rightarrow> string" where
  "trim s = rev (dropWhile is_space (rev (dropWhile is_space s)))"

definition parse_digits :: "nat \<Rightarrow> string \<Rightarrow> nat option" where
  "parse_digits r s =
     (if s \<noteq> [] \<and> (\<forall>c \<in> set s. case digit_val c of None \<Rightarrow> False | Some d \<Rightarrow> d < r)
      then Some (digits_value r (map (the \<circ> digit_val) s)) else None)"

definition BigInt_of_string :: "string \<Rightarrow> int js" where
  "BigInt_of_string s0 =
    (let s = trim s0; bad = throw (SyntaxError ''Cannot convert string to a BigInt'');
         nonneg = (\<lambda>r t. case parse_digits r t of None \<Rightarrow> bad | Some n \<Rightarrow> ret (int n)) in
     if s = [] then ret 0
     else if take 2 s = ''0x'' \<or> take 2 s = ''0X'' then nonneg 16 (drop 2 s)
     else if take 2 s = ''0o'' \<or> take 2 s = ''0O'' then nonneg 8 (drop 2 s)
     else if take 2 s = ''0b'' \<or> take 2 s = ''0B'' then nonneg 2 (drop 2 s)
     else if hd s = CHR ''-'' then bindJ (nonneg 10 (tl s)) (\<lambda>n. ret (- n))
     else if hd s = CHR ''+'' then nonneg 10 (tl s)
     else nonneg 10 s)"

text \<open>\<open>BigInt(x)\<close> of an argument that is a string, a bigint or an integral number.\<close>

datatype bigint_arg = Arg_int int | Arg_string string

definition BigInt_arg :: "bigint_arg \<Rightarrow> int js" where
  "BigInt_arg v = (case v of Arg_int n \<Rightarrow> ret n | Arg_string s \<Rightarrow> BigInt_of_string s)"

lemma BigInt_arg_int [simp]: "BigInt_arg (Arg_int n) = ret n"
  by (simp add: BigInt_arg_def)

text \<open>\<open>Number.parseInt(s, 16)\<close>: the longest prefix of hexadecimal digits; \<open>None\<close> is NaN.\<close>

definition parseInt16 :: "string \<Rightarrow> int option" where
  "parseInt16 s0 =
    (let s = dropWhile is_space s0;
         neg = (s \<noteq> [] \<and> hd s = CHR ''-'');
         t = (if s \<noteq> [] \<and> (hd s = CHR ''-'' \<or> hd s = CHR ''+'') then tl s else s);
         u = (if take 2 t = ''0x'' \<or> take 2 t = ''0X'' then drop 2 t else t);
         ds = takeWhile (\<lambda>c. case digit_val c of None \<Rightarrow> False | Some d \<Rightarrow> d < 16) u in
     if ds = [] then None
     else Some (let n = int (digits_value 16 (map (the \<circ> digit_val) ds)) in if neg then - n else n))"

text \<open>\<open>s.substring(a, b)\<close>: the bounds are clamped to the string and put in order.\<close>

definition substring :: "'a list \<Rightarrow> int \<Rightarrow> int \<Rightarrow> 'a list" where
  "substring s a b =
    (let clamp = (\<lambda>x. min (length s) (nat x)); lo = min (clamp a) (clamp b); hi = max (clamp a) (clamp b)
     in take (hi - lo) (drop lo s))"

text \<open>\<open>s.padStart(n, c)\<close> for a single character.\<close>

definition padStart :: "nat \<Rightarrow> char \<Rightarrow> string \<Rightarrow> string" where
  "padStart n c s = replicate (n - length s) c @ s"

lemma parse_digits_map_digit_char:
  assumes "ds \<noteq> []" "\<forall>d \<in> set ds. d < r" "r \<le> 36"
  shows "parse_digits r (map digit_char ds) = Some (digits_value r ds)"
proof -
  have "\<forall>c \<in> set (map digit_char ds). case digit_val c of None \<Rightarrow> False | Some d \<Rightarrow> d < r"
    using assms by force
  moreover have "map (the \<circ> digit_val) (map digit_char ds) = ds"
    unfolding map_map by (rule map_idI) (use assms in \<open>force simp: comp_def\<close>)
  ultimately show ?thesis
    using assms(1) by (simp add: parse_digits_def)
qed

section \<open>Byte strings\<close>

type_synonym bytes = "8 word list"

text \<open>The \<open>n\<close> low bytes of an integer, least significant first, and the value of such bytes.\<close>

definition le_bytes :: "nat \<Rightarrow> int \<Rightarrow> bytes" where
  "le_bytes n x = map (\<lambda>i. word_of_int (x div 256 ^ i)) [0..<n]"

primrec le_val :: "bytes \<Rightarrow> int" where
  "le_val [] = 0"
| "le_val (b # bs) = uint b + 256 * le_val bs"

definition be_bytes :: "nat \<Rightarrow> int \<Rightarrow> bytes" where
  "be_bytes n x = rev (le_bytes n x)"

definition be_val :: "bytes \<Rightarrow> int" where
  "be_val bs = le_val (rev bs)"

lemma length_le_bytes [simp]: "length (le_bytes n x) = n"
  by (simp add: le_bytes_def)

lemma length_be_bytes [simp]: "length (be_bytes n x) = n"
  by (simp add: be_bytes_def)

lemma le_bytes_0 [simp]: "le_bytes 0 x = []"
  by (simp add: le_bytes_def)

lemma le_bytes_Suc: "le_bytes (Suc n) x = word_of_int x # le_bytes n (x div 256)"
proof -
  have "[0..<Suc n] = 0 # map Suc [0..<n]"
    by (simp add: map_Suc_upt upt_conv_Cons del: upt_Suc)
  then show ?thesis
    by (simp add: le_bytes_def zdiv_zmult2_eq del: upt_Suc)
qed

lemma uint8_bounds: "0 \<le> uint (b :: 8 word)" "uint (b :: 8 word) < 256"
  using uint_lt2p [of b] by simp_all

lemma uint8_word_of_int: "uint (word_of_int x :: 8 word) = x mod 256"
  by (simp add: uint_word_of_int)

lemma le_val_le_bytes: "le_val (le_bytes n x) = x mod 256 ^ n"
proof (induction n arbitrary: x)
  case 0
  show ?case by simp
next
  case (Suc n)
  show ?case
    by (simp add: le_bytes_Suc Suc.IH uint8_word_of_int zmod_zmult2_eq)
qed

lemma le_val_nonneg: "0 \<le> le_val bs"
  by (induction bs) (simp_all add: uint8_bounds)

lemma le_val_less: "le_val bs < 256 ^ length bs"
proof (induction bs)
  case Nil
  show ?case by simp
next
  case (Cons b bs)
  have "le_val bs + 1 \<le> 256 ^ length bs" using Cons.IH by simp
  then show ?case using uint8_bounds(2) [of b] by simp
qed

lemma le_bytes_le_val: "le_bytes (length bs) (le_val bs) = bs"
proof (induction bs)
  case Nil
  show ?case by simp
next
  case (Cons b bs)
  have "(uint b + 256 * le_val bs) div 256 = le_val bs"
    using uint8_bounds [of b] by (simp add: div_add1_eq)
  moreover have "uint (word_of_int (uint b + 256 * le_val bs) :: 8 word) = uint b"
    by (simp only: uint8_word_of_int) (simp add: uint8_bounds)
  then have "word_of_int (uint b + 256 * le_val bs) = b"
    by (rule word_uint_eqI)
  ultimately show ?case
    by (simp add: le_bytes_Suc Cons.IH)
qed

lemma le_bytes_add: "le_bytes (m + n) x = le_bytes m x @ le_bytes n (x div 256 ^ m)"
proof (induction m arbitrary: x)
  case 0
  show ?case by simp
next
  case (Suc m)
  show ?case by (simp add: le_bytes_Suc Suc.IH zdiv_zmult2_eq)
qed

lemma le_val_append: "le_val (xs @ ys) = le_val xs + 256 ^ length xs * le_val ys"
  by (induction xs) (simp_all add: algebra_simps)

lemma be_val_be_bytes: "be_val (be_bytes n x) = x mod 256 ^ n"
  by (simp add: be_val_def be_bytes_def le_val_le_bytes)

lemma be_bytes_be_val: "be_bytes (length bs) (be_val bs) = bs"
  using le_bytes_le_val [of "rev bs"] by (simp add: be_val_def be_bytes_def)

lemma be_val_nonneg: "0 \<le> be_val bs"
  by (simp add: be_val_def le_val_nonneg)

lemma be_val_less: "be_val bs < 256 ^ length bs"
  using le_val_less [of "rev bs"] by (simp add: be_val_def)

lemma be_val_append: "be_val (xs @ ys) = be_val xs * 256 ^ length ys + be_val ys"
  by (simp add: be_val_def le_val_append)

text \<open>\<open>buff.set(src, o)\<close>, and writing a window of a buffer in general.\<close>

definition put_bytes :: "'a list \<Rightarrow> nat \<Rightarrow> 'a list \<Rightarrow> 'a list" where
  "put_bytes buff off src = take off buff @ src @ drop (off + length src) buff"

definition typed_set :: "'a list \<Rightarrow> nat \<Rightarrow> 'a list \<Rightarrow> 'a list js" where
  "typed_set buff off src =
    (if off + length src > length buff then throw (RangeError ''offset is out of bounds'')
     else ret (put_bytes buff off src))"

lemma length_put_bytes [simp]: "off + length src \<le> length buff \<Longrightarrow> length (put_bytes buff off src) = length buff"
  by (simp add: put_bytes_def)

lemma take_drop_put_bytes [simp]:
  "off + length src \<le> length buff \<Longrightarrow> take (length src) (drop off (put_bytes buff off src)) = src"
  by (simp add: put_bytes_def)

end
