(* ===== verification/ScalarOps.thy ===== *)
theory ScalarOps
  imports Prelude
begin

text \<open>
  Plain bigint helpers: packages/albus-core/src/crypto/ff/scalar.ts, in its order.
  Loops on the bigint that need not end (\<open>bits\<close> and \<open>naf\<close> of a negative number) are
  partial functions.  The lemmas show that bits and the non-adjacent form denote their
  argument, what \<open>bitLength\<close> counts, and that the little- and big-endian
  representations written to and read from a buffer are inverse to each other.
\<close>

section \<open>Conversions\<close>

definition hexLen :: "nat list" where
  "hexLen = [0, 1, 2, 2, 3, 3, 3, 3, 4, 4, 4, 4, 4, 4, 4, 4]"

definition Scalar_zero :: int where "Scalar_zero = 0"

definition Scalar_one :: int where "Scalar_one = 1"

text \<open>An absent radix is \<open>None\<close>.\<close>

definition Scalar_fromString :: "string \<Rightarrow> nat option \<Rightarrow> int js" where
  "Scalar_fromString s radix =
    (if radix = None \<or> radix = Some 0 \<or> radix = Some 10 then BigInt_of_string s
     else if radix = Some 16 then
       (if take 2 s = ''0x'' then BigInt_of_string s else BigInt_of_string (''0x'' @ s))
     else throw (Error ''Unsupported radix''))"

fun fromArray_loop :: "bytes \<Rightarrow> int \<Rightarrow> int \<Rightarrow> int" where
  "fromArray_loop [] radix acc = acc"
| "fromArray_loop (b # bs) radix acc = fromArray_loop bs radix (acc * radix + uint b)"

definition Scalar_fromArray :: "bytes \<Rightarrow> int \<Rightarrow> int" where
  "Scalar_fromArray a r = fromArray_loop a r 0"

text \<open>For a negative number the first character is \<open>-\<close> and the result is NaN (\<open>None\<close>).\<close>

definition Scalar_bitLength :: "int \<Rightarrow> nat option" where
  "Scalar_bitLength a =
    (let aS = to_radix 16 a in
     case parseInt16 [hd aS] of None \<Rightarrow> None
     | Some d \<Rightarrow> Some ((length aS - 1) * 4 + hexLen ! nat d))"

definition Scalar_isNegative :: "int \<Rightarrow> bool" where
  "Scalar_isNegative a \<longleftrightarrow> a < 0"

definition Scalar_isZero :: "int \<Rightarrow> bool" where
  "Scalar_isZero a \<longleftrightarrow> a = Scalar_zero"

definition Scalar_shiftLeft :: "int \<Rightarrow> int \<Rightarrow> int" where
  "Scalar_shiftLeft a n = bigint_shl a n"

definition Scalar_shiftRight :: "int \<Rightarrow> int \<Rightarrow> int" where
  "Scalar_shiftRight a n = bigint_shr a n"

definition Scalar_isOdd :: "int \<Rightarrow> bool" where
  "Scalar_isOdd a \<longleftrightarrow> a AND Scalar_one = Scalar_one"

partial_function (option) naf_loop :: "int \<Rightarrow> int list \<Rightarrow> int list js" where
  "naf_loop E res =
    (if E = 0 then ret res
     else if E AND 1 \<noteq> 0
       then naf_loop (bigint_shr (E - (2 - E smod 4)) 1) (res @ [2 - E smod 4])
       else naf_loop (bigint_shr E 1) (res @ [0]))"

definition Scalar_naf :: "int \<Rightarrow> int list js" where
  "Scalar_naf n = naf_loop n []"

partial_function (option) bits_loop :: "int \<Rightarrow> int list \<Rightarrow> int list js" where
  "bits_loop E res =
    (if E = 0 then ret res
     else bits_loop (bigint_shr E 1) (res @ [if E AND 1 \<noteq> 0 then 1 else 0]))"

definition Scalar_bits :: "int \<Rightarrow> int list js" where
  "Scalar_bits n = bits_loop n []"

definition MAX_SAFE_INTEGER :: int where
  "MAX_SAFE_INTEGER = 2 ^ 53 - 1"

definition Scalar_toNumber :: "int \<Rightarrow> int js" where
  "Scalar_toNumber s = (if s > MAX_SAFE_INTEGER then throw (Error ''Number too big'') else ret s)"

partial_function (option) toArray_loop :: "int \<Rightarrow> int \<Rightarrow> int list \<Rightarrow> int list js" where
  "toArray_loop rem radix res =
    (if rem = 0 then ret res
     else bindJ (bigint_rem rem radix) (\<lambda>d.
          bindJ (bigint_div rem radix) (\<lambda>q. toArray_loop q radix (d # res))))"

definition Scalar_toArray :: "int \<Rightarrow> int \<Rightarrow> int list js" where
  "Scalar_toArray s r = toArray_loop s r []"

section \<open>Arithmetic\<close>

definition Scalar_add :: "int \<Rightarrow> int \<Rightarrow> int" where "Scalar_add a b = a + b"

definition Scalar_sub :: "int \<Rightarrow> int \<Rightarrow> int" where "Scalar_sub a b = a - b"

definition Scalar_neg :: "int \<Rightarrow> int" where "Scalar_neg a = - a"

definition Scalar_mul :: "int \<Rightarrow> int \<Rightarrow> int" where "Scalar_mul a b = a * b"

definition Scalar_square :: "int \<Rightarrow> int" where "Scalar_square a = a * a"

definition Scalar_pow :: "int \<Rightarrow> int \<Rightarrow> int js" where "Scalar_pow a b = bigint_pow a b"

definition Scalar_exp :: "int \<Rightarrow> int \<Rightarrow> int js" where "Scalar_exp a b = bigint_pow a b"

definition Scalar_abs :: "int \<Rightarrow> int" where "Scalar_abs a = (if a \<ge> 0 then a else - a)"

definition Scalar_div :: "int \<Rightarrow> int \<Rightarrow> int js" where "Scalar_div a b = bigint_div a b"

definition Scalar_mod :: "int \<Rightarrow> int \<Rightarrow> int js" where "Scalar_mod a b = bigint_rem a b"

definition Scalar_eq :: "int \<Rightarrow> int \<Rightarrow> bool" where "Scalar_eq a b \<longleftrightarrow> a = b"

definition Scalar_neq :: "int \<Rightarrow> int \<Rightarrow> bool" where "Scalar_neq a b \<longleftrightarrow> a \<noteq> b"

definition Scalar_lt :: "int \<Rightarrow> int \<Rightarrow> bool" where "Scalar_lt a b \<longleftrightarrow> a < b"

definition Scalar_gt :: "int \<Rightarrow> int \<Rightarrow> bool" where "Scalar_gt a b \<longleftrightarrow> a > b"

definition Scalar_leq :: "int \<Rightarrow> int \<Rightarrow> bool" where "Scalar_leq a b \<longleftrightarrow> a \<le> b"

definition Scalar_geq :: "int \<Rightarrow> int \<Rightarrow> bool" where "Scalar_geq a b \<longleftrightarrow> a \<ge> b"

definition Scalar_band :: "int \<Rightarrow> int \<Rightarrow> int" where "Scalar_band a b = a AND b"

definition Scalar_bor :: "int \<Rightarrow> int \<Rightarrow> int" where "Scalar_bor a b = a OR b"

definition Scalar_bxor :: "int \<Rightarrow> int \<Rightarrow> int" where "Scalar_bxor a b = a XOR b"

definition Scalar_land :: "int \<Rightarrow> int \<Rightarrow> int" where "Scalar_land a b = (if a = 0 then a else b)"

definition Scalar_lor :: "int \<Rightarrow> int \<Rightarrow> int" where "Scalar_lor a b = (if a \<noteq> 0 then a else b)"

section \<open>Representations in buffers\<close>

text \<open>
  A buffer starts at offset 0 of its storage, so the 32-bit view of \<open>toRprLE\<close> needs an
  offset that is a multiple of 4.  \<open>hex_word s i\<close> is the \<open>i\<close>-th group of eight
  hexadecimal digits from the right; storing NaN in a typed array stores 0.
\<close>

definition hex_padded :: "int \<Rightarrow> string" where
  "hex_padded e = ''0000000'' @ to_radix 16 e"

definition hex_word :: "string \<Rightarrow> nat \<Rightarrow> int" where
  "hex_word s i =
    (case parseInt16 (substring s (int (length s) - 8 * int i - 8) (int (length s) - 8 * int i)) of
       None \<Rightarrow> 0 | Some w \<Rightarrow> w)"

definition hex_word_count :: "string \<Rightarrow> nat" where
  "hex_word_count s = nat (((int (length s) - 7) * 4 - 1) div 2 ^ 5 + 1)"

fun poke_tail :: "bytes \<Rightarrow> int \<Rightarrow> nat list \<Rightarrow> bytes js" where
  "poke_tail buff e [] = ret buff"
| "poke_tail buff e (i # is) =
    bindJ (Scalar_toNumber (Scalar_band (Scalar_shiftRight e (int (i * 8))) 255))
      (\<lambda>x. poke_tail (buff[i := word_of_int x]) e is)"

definition Scalar_toRprLE :: "bytes \<Rightarrow> nat \<Rightarrow> int \<Rightarrow> nat \<Rightarrow> bytes js" where
  "Scalar_toRprLE buff off e n8 =
    (let s = hex_padded e; nv = n8 div 4; l = hex_word_count s;
         v = map (\<lambda>i. if i < l then hex_word s i else 0) [0..<nv] in
     if off mod 4 \<noteq> 0 \<or> off + 4 * nv > length buff
     then throw (RangeError ''Invalid typed array length or offset'')
     else poke_tail (put_bytes buff off (concat (map (le_bytes 4) v))) e [nv * 4..<n8])"

fun setUint32s :: "bytes \<Rightarrow> nat \<Rightarrow> string \<Rightarrow> nat \<Rightarrow> nat list \<Rightarrow> bytes js" where
  "setUint32s buff off s n8 [] = ret buff"
| "setUint32s buff off s n8 (i # is) =
    (if n8 < i * 4 + 4 then throw (RangeError ''Offset is outside the bounds of the DataView'')
     else setUint32s (put_bytes buff (off + (n8 - i * 4 - 4)) (be_bytes 4 (hex_word s i))) off s n8 is)"

text \<open>The last loop writes the word at offset 0 each time it runs.\<close>

definition Scalar_toRprBE :: "bytes \<Rightarrow> nat \<Rightarrow> int \<Rightarrow> nat \<Rightarrow> bytes js" where
  "Scalar_toRprBE buff off e n8 =
    (let s = hex_padded e; l = hex_word_count s in
     if off + n8 > length buff then throw (RangeError ''Invalid DataView length'')
     else bindJ (setUint32s buff off s n8 [0..<l]) (\<lambda>b.
       if 4 * l < n8
       then (if n8 < 4 then throw (RangeError ''Offset is outside the bounds of the DataView'')
             else ret (put_bytes b off (be_bytes 4 0)))
       else ret b))"

definition hex8 :: "int \<Rightarrow> string" where
  "hex8 w = padStart 8 (CHR ''0'') (to_radix 16 w)"

text \<open>\<open>n8 || buff.byteLength\<close>: an absent or zero length is the length of the buffer.\<close>

definition Scalar_fromRprLE :: "bytes \<Rightarrow> nat \<Rightarrow> nat \<Rightarrow> int js" where
  "Scalar_fromRprLE buff off n80 =
    (let n8 = (if n80 = 0 then length buff else n80); nv = n8 div 4;
         v = map (\<lambda>i. le_val (take 4 (drop (off + 4 * i) buff))) [0..<nv] in
     if off mod 4 \<noteq> 0 \<or> off + 4 * nv > length buff
     then throw (RangeError ''Invalid typed array length or offset'')
     else Scalar_fromString (concat (map hex8 (rev v))) (Some 16))"

text \<open>With a length that is no multiple of 4 the last \<open>getUint32\<close> is out of bounds.\<close>

definition Scalar_fromRprBE :: "bytes \<Rightarrow> nat \<Rightarrow> nat \<Rightarrow> int js" where
  "Scalar_fromRprBE buff off n80 =
    (let n8 = (if n80 = 0 then length buff else n80); nv = n8 div 4;
         v = map (\<lambda>i. be_val (take 4 (drop (off + 4 * i) buff))) [0..<nv] in
     if off + n8 > length buff then throw (RangeError ''Invalid DataView length'')
     else if n8 mod 4 \<noteq> 0 then throw (RangeError ''Offset is outside the bounds of the DataView'')
     else Scalar_fromString (concat (map hex8 v)) (Some 16))"

definition Scalar_toString :: "int \<Rightarrow> nat \<Rightarrow> string" where
  "Scalar_toString a radix = to_radix radix a"

text \<open>For \<open>a = 0\<close> the length is \<open>floor(-1 / 8) + 1 = 0\<close>; a NaN length makes an empty buffer.\<close>

definition Scalar_toLEBuff :: "int \<Rightarrow> bytes js" where
  "Scalar_toLEBuff a =
    (let n = (case Scalar_bitLength a of None \<Rightarrow> 0 | Some b \<Rightarrow> nat ((int b - 1) div 8 + 1))
     in Scalar_toRprLE (replicate n 0) 0 a n)"

section \<open>Bits and non-adjacent form\<close>

fun binary :: "nat \<Rightarrow> int list" where
  "binary n = (if n = 0 then [] else int (n mod 2) # binary (n div 2))"

declare binary.simps [simp del]

primrec signed_value :: "int list \<Rightarrow> int" where
  "signed_value [] = 0"
| "signed_value (d # ds) = d + 2 * signed_value ds"

lemma binary_0 [simp]: "binary 0 = []"
  by (simp add: binary.simps)

lemma binary_pos: "n \<noteq> 0 \<Longrightarrow> binary n = int (n mod 2) # binary (n div 2)"
  by (simp add: binary.simps)

lemma signed_value_binary: "signed_value (binary n) = int n"
proof (induction n rule: less_induct)
  case (less n)
  show ?case
  proof (cases "n = 0")
    case False
    then have "signed_value (binary (n div 2)) = int (n div 2)" by (intro less.IH) simp
    with False show ?thesis
      by (simp add: binary_pos) (metis mod_mult_div_eq of_nat_add of_nat_mult of_nat_numeral)
  qed simp
qed

lemma binary_digits: "d \<in> set (binary n) \<Longrightarrow> d = 0 \<or> d = 1"
proof (induction n rule: less_induct)
  case (less n)
  show ?case
  proof (cases "n = 0")
    case False
    with less.prems have "d = int (n mod 2) \<or> d \<in> set (binary (n div 2))"
      by (simp add: binary_pos)
    then show ?thesis
      using less.IH [of "n div 2"] False by auto
  qed (use less.prems in simp)
qed

lemma bits_loop_binary: "0 \<le> n \<Longrightarrow> bits_loop n res = ret (res @ binary (nat n))"
proof (induction "nat n" arbitrary: n res rule: less_induct)
  case less
  show ?case
  proof (cases "n = 0")
    case True
    then show ?thesis by (simp add: bits_loop.simps)
  next
    case False
    with less.prems have n: "0 < n" by simp
    have half: "nat (n div 2) = nat n div 2" by (simp add: nat_div_distrib)
    have "int (nat n mod 2) = n mod 2" using n by (simp add: zmod_int)
    then have bit: "(if n AND 1 \<noteq> 0 then 1 else 0) = int (nat n mod 2)"
      by (simp add: and_one_mod2)
    have "bits_loop (n div 2) (res @ [int (nat n mod 2)])
        = ret ((res @ [int (nat n mod 2)]) @ binary (nat (n div 2)))"
      using n by (intro less.hyps) auto
    with n show ?thesis
      unfolding bits_loop.simps [of n] by (simp add: bigint_shr_def bit half binary_pos)
  qed
qed

lemma Scalar_bits_binary: "0 \<le> n \<Longrightarrow> Scalar_bits n = ret (binary (nat n))"
  by (simp add: Scalar_bits_def bits_loop_binary)

text \<open>On a negative number the shift never reaches 0: \<open>bits\<close> does not return.\<close>

lemma bits_loop_returns_nonneg:
  assumes "bits_loop n res = Some r"
  shows "0 \<le> n"
proof (rule bits_loop.raw_induct [where P = "\<lambda>n res r. 0 \<le> n", OF _ assms])
  fix f E res r
  assume IH: "\<And>E res r. f E res = Some r \<Longrightarrow> 0 \<le> E"
    and eq: "(if E = 0 then ret res
      else f (bigint_shr E 1) (res @ [if E AND 1 \<noteq> 0 then 1 else 0])) = Some r"
  show "0 \<le> E"
  proof (cases "E = 0")
    case False
    with eq have "0 \<le> bigint_shr E 1" by (auto dest: IH)
    then show ?thesis by (simp add: bigint_shr_def)
  qed simp
qed

text \<open>
  The non-adjacent form: it denotes its argument, its digits are -1, 0 and 1, no two
  neighbours are both non-zero, and the top digit of a positive number is 1.
\<close>

fun non_adjacent :: "int list \<Rightarrow> bool" where
  "non_adjacent (d # e # ds) \<longleftrightarrow> (d = 0 \<or> e = 0) \<and> non_adjacent (e # ds)"
| "non_adjacent ds \<longleftrightarrow> True"

definition naf_of :: "int \<Rightarrow> int list \<Rightarrow> bool" where
  "naf_of n ds \<longleftrightarrow> signed_value ds = n \<and> set ds \<subseteq> {-1, 0, 1} \<and> non_adjacent ds \<and> (0 < n \<longrightarrow> ds \<noteq> [] \<and> last ds = 1)
     \<and> (even n \<longrightarrow> ds = [] \<or> hd ds = 0) \<and> (n = 0 \<longrightarrow> ds = [])"

lemma naf_of_Cons:
  assumes m: "0 \<le> m" "naf_of m ds" and n: "n = d + 2 * m" "0 < n"
    and d: "d = 0 \<or> (d = 1 \<or> d = -1) \<and> even m"
  shows "naf_of n (d # ds)"
proof -
  have "non_adjacent (d # ds)"
    using m d by (cases ds) (auto simp: naf_of_def)
  moreover have "last (d # ds) = 1"
  proof (cases "m = 0")
    case True
    then have "d = 1" using n d by auto
    moreover have "ds = []" using True m by (simp add: naf_of_def)
    ultimately show ?thesis by simp
  qed (use m in \<open>auto simp: naf_of_def\<close>)
  ultimately show ?thesis
    using m n d by (auto simp: naf_of_def)
qed

lemma naf_loop_naf:
  "0 \<le> n \<Longrightarrow> \<exists>ds. naf_loop n res = ret (res @ ds) \<and> naf_of n ds"
proof (induction "nat n" arbitrary: n res rule: less_induct)
  case less
  show ?case
  proof (cases "n = 0")
    case True
    then show ?thesis by (simp add: naf_loop.simps naf_of_def)
  next
    case False
    with less.prems have n: "0 < n" by simp
    define d where "d = (if odd n then 2 - n mod 4 else 0)"
    define m where "m = (n - d) div 2"
    have d: "d = 0 \<or> (d = 1 \<or> d = -1) \<and> even m" and nm: "n = d + 2 * m" "0 \<le> m" "m < n"
      using n unfolding m_def d_def by presburger+
    have step: "naf_loop n res = naf_loop m (res @ [d])"
      unfolding naf_loop.simps [of n] using n
      by (auto simp: bigint_shr_def and_one_mod2 m_def d_def smod_nonneg odd_iff_mod_2_eq_one)
    have "nat m < nat n" using nm n by simp
    then obtain ds where "naf_loop m (res @ [d]) = ret ((res @ [d]) @ ds)" "naf_of m ds"
      using less.hyps nm(2) by blast
    then show ?thesis
      using step naf_of_Cons [OF nm(2) _ nm(1) n d] by auto
  qed
qed

lemma Scalar_naf_naf: "0 \<le> n \<Longrightarrow> \<exists>ds. Scalar_naf n = ret ds \<and> naf_of n ds"
  using naf_loop_naf [of n "[]"] by (simp add: Scalar_naf_def)

section \<open>Representations in buffers\<close>

lemma length_radix_digits:
  assumes "2 \<le> r"
  shows "n < r ^ length (radix_digits r n)" "0 < n \<Longrightarrow> r ^ (length (radix_digits r n) - 1) \<le> n"
proof -
  show "n < r ^ length (radix_digits r n)"
    using digits_value_less [of "radix_digits r n" r] radix_digits_less [OF assms]
      digits_value_radix_digits [OF assms, of n] by auto
  show "0 < n \<Longrightarrow> r ^ (length (radix_digits r n) - 1) \<le> n"
  proof (induction r n rule: radix_digits.induct)
    case (1 r n)
    show ?case
    proof (cases "r < 2 \<or> n < r")
      case True
      then show ?thesis using "1.prems" by (simp add: radix_digits.simps [of r n])
    next
      case False
      then have "0 < n div r" by (simp add: div_greater_zero_iff)
      with False "1.IH" have IH: "r ^ (length (radix_digits r (n div r)) - 1) \<le> n div r" by simp
      have "r ^ length (radix_digits r (n div r)) = r * r ^ (length (radix_digits r (n div r)) - 1)"
        by (metis length_greater_0_conv power_minus_mult mult.commute radix_digits_nonempty)
      also have "\<dots> \<le> r * (n div r)" using IH by simp
      also have "\<dots> \<le> n" by simp
      finally show ?thesis using False by (simp add: radix_digits.simps [of r n])
    qed
  qed
qed

lemma digit_char_facts:
  assumes "d < 16"
  shows "digit_char d \<noteq> CHR ''-''" "digit_char d \<noteq> CHR ''+''" "digit_char d \<noteq> CHR ''x''"
    "digit_char d \<noteq> CHR ''X''" "\<not> is_space (digit_char d)"
proof -
  have d: "(of_char (digit_char d) :: nat) = (if d < 10 then 48 + d else 87 + d)"
    using assms by (simp add: digit_char_def)
  have neq: "digit_char d \<noteq> c" if "(of_char c :: nat) \<noteq> (if d < 10 then 48 + d else 87 + d)" for c
    using d that by metis
  show "digit_char d \<noteq> CHR ''-''" "digit_char d \<noteq> CHR ''+''" "digit_char d \<noteq> CHR ''x''"
    "digit_char d \<noteq> CHR ''X''"
    using assms by (intro neq; simp)+
  show "\<not> is_space (digit_char d)"
    using assms by (auto simp: is_space_def d)
qed

lemma parseInt16_digits:
  assumes "ds \<noteq> []" "\<forall>d \<in> set ds. d < 16"
  shows "parseInt16 (map digit_char ds) = Some (int (digits_value 16 ds))"
proof -
  obtain d ds' where ds: "ds = d # ds'" using assms(1) by (cases ds) auto
  have sp: "dropWhile is_space (map digit_char ds) = map digit_char ds"
    using assms by (simp add: ds digit_char_facts)
  have x: "take 2 (map digit_char ds) \<noteq> ''0x''" "take 2 (map digit_char ds) \<noteq> ''0X''"
    using assms by (cases ds'; simp add: ds digit_char_facts)+
  have tw: "takeWhile (\<lambda>c. case digit_val c of None \<Rightarrow> False | Some d \<Rightarrow> d < 16) (map digit_char ds) = map digit_char ds"
    using assms by (force simp: takeWhile_eq_all_conv)
  have val: "map (the \<circ> digit_val) (map digit_char ds) = ds"
    unfolding map_map by (rule map_idI) (use assms in \<open>force simp: comp_def\<close>)
  have hd: "hd (map digit_char ds) \<noteq> CHR ''-''" "hd (map digit_char ds) \<noteq> CHR ''+''"
    using assms by (simp_all add: ds digit_char_facts)
  show ?thesis
    unfolding parseInt16_def Let_def sp using x hd assms(1) by (simp add: tw val [unfolded map_map])
qed

text \<open>A slice of the digits is the value shifted and masked.\<close>

lemma digits_value_slice:
  assumes D: "\<forall>d \<in> set D. d < r" and k: "a + k \<le> length D" and r: "0 < r"
  shows "digits_value r (take k (drop (length D - a - k) D)) = digits_value r D div r ^ a mod r ^ k"
proof -
  define A where "A = take (length D - a - k) D"
  define B where "B = take k (drop (length D - a - k) D)"
  define C where "C = drop (length D - a) D"
  have "drop k (drop (length D - a - k) D) = C"
    using k by (simp add: C_def)
  then have "drop (length D - a - k) D = B @ C"
    unfolding B_def by (metis append_take_drop_id)
  then have split: "D = A @ B @ C"
    unfolding A_def by (metis append_take_drop_id)
  have len: "length B = k" "length C = a"
    using k by (simp_all add: B_def C_def)
  have B: "digits_value r B < r ^ k" and C: "digits_value r C < r ^ a"
    using D digits_value_less [of B r] digits_value_less [of C r] len by (auto simp: split)
  have "digits_value r D = (digits_value r A * r ^ k + digits_value r B) * r ^ a + digits_value r C"
    by (simp add: split digits_value_append len power_add algebra_simps)
  then have "digits_value r D div r ^ a = digits_value r A * r ^ k + digits_value r B"
    using C r by simp
  then show ?thesis
    using B by (simp add: diff_diff_left flip: B_def [unfolded diff_diff_left])
qed

lemma substring_range: "a \<le> b \<Longrightarrow> b \<le> length s \<Longrightarrow> substring s (int a) (int b) = take (b - a) (drop a s)"
  by (simp add: substring_def Let_def)

lemma hex_word_count_eq:
  assumes "0 \<le> e"
  shows "hex_word_count (hex_padded e) = (length (radix_digits 16 (nat e)) + 7) div 8"
proof -
  define k where "k = length (radix_digits 16 (nat e))"
  define x where "x = (int k * 4 - 1) div 32"
  define y where "y = (int k + 7) div 8"
  have "32 * x \<le> int k * 4 - 1" "int k * 4 - 1 < 32 * x + 32" "8 * y \<le> int k + 7" "int k + 7 < 8 * y + 8"
    unfolding x_def y_def by (simp_all add: minus_mod_eq_mult_div [symmetric])
  then have "(int k * 4 - 1) div 32 + 1 = (int k + 7) div 8"
    unfolding x_def [symmetric] y_def [symmetric] by linarith
  moreover have "nat ((int k + 7) div 8) = (k + 7) div 8" by (simp add: nat_div_distrib nat_add_distrib)
  ultimately show ?thesis
    using assms by (simp add: k_def hex_word_count_def hex_padded_def to_radix_def)
qed

lemma hex_string_word:
  assumes e: "0 \<le> e" and i: "i < hex_word_count (hex_padded e)"
  shows "hex_word (hex_padded e) i = e div 2 ^ (32 * i) mod 2 ^ 32"
proof -
  define D where "D = replicate 7 0 @ radix_digits 16 (nat e)"
  have "digit_char 0 = CHR ''0''" by code_simp
  then have s: "hex_padded e = map digit_char D"
    using e by (simp add: D_def hex_padded_def to_radix_def numeral_eq_Suc)
  have D: "\<forall>d \<in> set D. d < 16"
    by (auto simp: D_def dest: radix_digits_less [rotated])
  have len: "8 * i + 8 \<le> length D"
    using i by (simp add: hex_word_count_eq [OF e] D_def)
  have "digits_value 16 (replicate 7 0) = 0" by (simp add: digits_value_def numeral_eq_Suc)
  then have val: "digits_value 16 D = nat e"
    by (simp add: D_def digits_value_append digits_value_radix_digits)
  obtain a where L: "length D = 8 * i + 8 + a" using len by (metis le_iff_add)
  have pos: "int (length D) - 8 * int i - 8 = int a" "int (length D) - 8 * int i = int (a + 8)"
    "length D - 8 * i - 8 = a"
    by (simp_all add: L)
  have "substring (map digit_char D) (int a) (int (a + 8)) = map digit_char (take 8 (drop a D))"
    by (subst substring_range) (simp_all add: L take_map drop_map)
  then have sub: "substring (map digit_char D) (int (length D) - 8 * int i - 8) (int (length D) - 8 * int i)
      = map digit_char (take 8 (drop (length D - 8 * i - 8) D))"
    unfolding pos(1) pos(3) by (simp only: pos(2))
  have ne: "take 8 (drop (length D - 8 * i - 8) D) \<noteq> []" using len by auto
  have digits: "\<forall>d \<in> set (take 8 (drop (length D - 8 * i - 8) D)). d < 16"
    using D by (meson in_set_takeD in_set_dropD)
  have "hex_word (map digit_char D) i = int (digits_value 16 (take 8 (drop (length D - 8 * i - 8) D)))"
    by (simp only: hex_word_def length_map sub parseInt16_digits [OF ne digits] option.case)
  also have "\<dots> = int (nat e div 16 ^ (8 * i) mod 16 ^ 8)"
    using digits_value_slice [OF D len] by (simp add: val)
  also have "\<dots> = e div 2 ^ (32 * i) mod 2 ^ 32"
    using e by (simp add: zdiv_int zmod_int power_mult)
  finally show ?thesis by (simp only: s)
qed

lemma hex_word_count_covers:
  assumes e: "0 \<le> e"
  shows "e < 2 ^ (32 * hex_word_count (hex_padded e))"
proof -
  define k where "k = length (radix_digits 16 (nat e))"
  define l where "l = hex_word_count (hex_padded e)"
  have "0 < k" by (simp add: k_def)
  moreover have "l = (k + 7) div 8"
    using e by (simp add: l_def k_def hex_word_count_eq)
  ultimately have k: "k \<le> 8 * l" by simp
  have "nat e < 16 ^ k" unfolding k_def by (rule length_radix_digits) simp
  also have "\<dots> \<le> 16 ^ (8 * l)" using k by (intro power_increasing) simp_all
  finally have "nat e < 2 ^ (32 * l)" by (simp add: power_mult)
  then show ?thesis using e by (simp add: nat_less_iff l_def)
qed

lemma le_bytes_mod: "n \<le> m \<Longrightarrow> le_bytes n (x mod 256 ^ m) = le_bytes n x"
proof (induction n arbitrary: x m)
  case (Suc n)
  then obtain k where m: "m = Suc k" "n \<le> k" by (cases m) auto
  have "uint (word_of_int (x mod 256 ^ m) :: 8 word) = uint (word_of_int x :: 8 word)"
    unfolding uint8_word_of_int m by (simp add: zmod_zmult2_eq)
  then have "(word_of_int (x mod 256 ^ m) :: 8 word) = word_of_int x"
    by (rule word_uint_eqI)
  moreover have "x mod 256 ^ m div 256 = x div 256 mod 256 ^ k"
    unfolding m by (simp add: zmod_zmult2_eq)
  ultimately show ?case using Suc.IH [OF m(2)] by (simp add: le_bytes_Suc)
qed simp

lemma concat_le_bytes: "concat (map (\<lambda>i. le_bytes k (x div 256 ^ (k * i))) [0..<n]) = le_bytes (k * n) x"
proof (induction n)
  case (Suc n)
  have "k * Suc n = k * n + k" by simp
  then show ?case using Suc by (simp only: le_bytes_add) simp
qed simp

lemma hex_words_le_bytes:
  assumes "0 \<le> e"
  shows "concat (map (le_bytes 4) (map (\<lambda>i. if i < hex_word_count (hex_padded e)
            then hex_word (hex_padded e) i else 0) [0..<nv])) = le_bytes (4 * nv) e"
proof -
  have "le_bytes 4 (if i < hex_word_count (hex_padded e)
      then hex_word (hex_padded e) i else 0) = le_bytes 4 (e div 256 ^ (4 * i))" for i
  proof (cases "i < hex_word_count (hex_padded e)")
    case True
    have "(256 :: int) ^ (4 * i) = 2 ^ (32 * i)" by (simp add: power_mult)
    moreover have "le_bytes 4 (y mod 2 ^ 32) = le_bytes 4 y" for y
      using le_bytes_mod [of 4 4 y] by simp
    ultimately show ?thesis using True by (simp only: hex_string_word [OF assms] if_True)
  next
    case False
    have "e < 2 ^ (32 * hex_word_count (hex_padded e))" by (rule hex_word_count_covers [OF assms])
    also have "\<dots> \<le> 2 ^ (32 * i)" using False by (intro power_increasing) simp_all
    finally have "e < 256 ^ (4 * i)" by (simp add: power_mult)
    then show ?thesis using False assms by simp
  qed
  then show ?thesis by (simp add: concat_le_bytes comp_def)
qed

text \<open>\<open>toRprLE\<close> writes the little-endian bytes at the offset, where the whole width is words.\<close>

lemma toRprLE_words:
  assumes "0 \<le> e" "off mod 4 = 0" "n8 mod 4 = 0" "off + n8 \<le> length buff"
  shows "Scalar_toRprLE buff off e n8 = ret (put_bytes buff off (le_bytes n8 e))"
proof -
  have n8: "4 * (n8 div 4) = n8" "n8 div 4 * 4 = n8" using assms(3) by auto
  show ?thesis
    using assms unfolding Scalar_toRprLE_def Let_def hex_words_le_bytes [OF assms(1)] n8 by simp
qed

lemma le_val_take_drop_put_bytes [simp]:
  "off + length src \<le> length buff \<Longrightarrow> length src = n \<Longrightarrow> take n (drop off (put_bytes buff off src)) = src"
  using take_drop_put_bytes by blast

text \<open>Reading: eight padded hexadecimal digits per word, most significant word first.\<close>

definition word_digits :: "int \<Rightarrow> nat list" where
  "word_digits w = replicate (8 - length (radix_digits 16 (nat w))) 0 @ radix_digits 16 (nat w)"

lemma word_digits:
  assumes "0 \<le> w" "w < 2 ^ 32"
  shows "hex8 w = map digit_char (word_digits w)" "length (word_digits w) = 8"
    "digits_value 16 (word_digits w) = nat w" "\<forall>d \<in> set (word_digits w). d < 16"
proof -
  have zeros: "digits_value 16 (replicate n 0) = 0" for n
    by (induction n) (simp_all add: digits_value_def)
  have z: "digit_char 0 = CHR ''0''" by code_simp
  show "hex8 w = map digit_char (word_digits w)"
    using assms by (simp add: hex8_def word_digits_def padStart_def to_radix_def z)
  have "length (radix_digits 16 (nat w)) \<le> 8"
  proof (cases "nat w = 0")
    case True
    then show ?thesis by (simp add: radix_digits.simps)
  next
    case False
    then have "16 ^ (length (radix_digits 16 (nat w)) - 1) \<le> nat w"
      by (intro length_radix_digits) simp_all
    also have "nat w < 16 ^ 8" using assms by simp
    finally have "(16 :: nat) ^ (length (radix_digits 16 (nat w)) - 1) < 16 ^ 8" by simp
    then show ?thesis by (simp only: power_strict_increasing_iff)
  qed
  then show "length (word_digits w) = 8" by (simp add: word_digits_def)
  show "digits_value 16 (word_digits w) = nat w"
    by (simp add: word_digits_def digits_value_append zeros digits_value_radix_digits)
  show "\<forall>d \<in> set (word_digits w). d < 16"
    by (auto simp: word_digits_def dest: radix_digits_less [rotated])
qed

primrec words_value :: "int list \<Rightarrow> int" where
  "words_value [] = 0"
| "words_value (w # ws) = w + 2 ^ 32 * words_value ws"

lemma trim_id: "s \<noteq> [] \<Longrightarrow> \<not> is_space (hd s) \<Longrightarrow> \<not> is_space (last s) \<Longrightarrow> trim s = s"
proof -
  assume s: "s \<noteq> []" "\<not> is_space (hd s)" "\<not> is_space (last s)"
  then have "dropWhile is_space s = s" "dropWhile is_space (rev s) = rev s"
    by (simp_all add: dropWhile_eq_self_iff hd_rev)
  then show ?thesis by (simp add: trim_def)
qed

lemma BigInt_hex_digits:
  assumes "ds \<noteq> []" "\<forall>d \<in> set ds. d < 16"
  shows "BigInt_of_string (''0x'' @ map digit_char ds) = ret (int (digits_value 16 ds))"
proof -
  have "\<not> is_space (CHR ''0'')" by code_simp
  moreover have "\<not> is_space (last (map digit_char ds))"
    using assms by (simp add: last_map digit_char_facts)
  ultimately have "trim (''0x'' @ map digit_char ds) = ''0x'' @ map digit_char ds"
    using assms(1) by (intro trim_id) auto
  then show ?thesis
    using assms by (simp add: BigInt_of_string_def parse_digits_map_digit_char)
qed

lemma fromString_words:
  assumes ws: "ws \<noteq> []" "\<forall>w \<in> set ws. 0 \<le> w \<and> w < 2 ^ 32"
  shows "Scalar_fromString (concat (map hex8 (rev ws))) (Some 16) = ret (words_value ws)"
proof -
  define ds where "ds = concat (map word_digits (rev ws))"
  have str: "concat (map hex8 (rev ws)) = map digit_char ds"
  proof -
    have eq: "map hex8 (rev ws) = map (\<lambda>w. map digit_char (word_digits w)) (rev ws)"
      using ws(2) by (intro map_cong) (auto simp: word_digits(1))
    show ?thesis unfolding eq ds_def by (simp add: map_concat comp_def)
  qed
  have "\<forall>d \<in> set (word_digits w). d < 16" if "w \<in> set ws" for w
    using ws(2) that by (intro word_digits(4)) auto
  then have digits: "\<forall>d \<in> set ds. d < 16"
    by (auto simp: ds_def)
  obtain w ws' where w: "ws = w # ws'" using ws(1) by (cases ws) auto
  then have ne: "ds \<noteq> []"
    using ws(2) word_digits(2) [of w] by (auto simp: ds_def)
  have val: "int (digits_value 16 ds) = words_value ws"
    unfolding ds_def using ws(2)
  proof (induction ws)
    case (Cons a vs)
    have "int (digits_value 16 (concat (map word_digits (rev vs)))) = words_value vs"
      using Cons by simp
    then show ?case
      using Cons.prems word_digits(2,3) [of a] by (simp add: digits_value_append)
  qed simp
  have "take 2 (map digit_char ds) \<noteq> ''0x''"
    using digits ne by (cases ds; cases "tl ds") (auto simp: digit_char_facts)
  then show ?thesis
    unfolding str using BigInt_hex_digits [OF ne digits] by (simp add: Scalar_fromString_def val)
qed

lemma upt_conv_map_Suc: "[Suc 0..<Suc n] = map Suc [0..<n]"
  by (simp add: map_Suc_upt del: upt_Suc)

lemma le_val_words:
  "off + 4 * n \<le> length buff \<Longrightarrow>
   words_value (map (\<lambda>i. le_val (take 4 (drop (off + 4 * i) buff))) [0..<n]) = le_val (take (4 * n) (drop off buff))"
proof (induction n arbitrary: off)
  case (Suc n)
  have shift: "map (\<lambda>i. le_val (take 4 (drop (off + 4 * i) buff))) [Suc 0..<Suc n]
      = map (\<lambda>i. le_val (take 4 (drop (off + 4 + 4 * i) buff))) [0..<n]"
    unfolding upt_conv_map_Suc map_map by (simp add: comp_def algebra_simps)
  have "take (4 * Suc n) (drop off buff) = take 4 (drop off buff) @ take (4 * n) (drop (off + 4) buff)"
    using take_add [of 4 "4 * n" "drop off buff"] by (simp add: add.commute)
  moreover have "length (take 4 (drop off buff)) = 4" using Suc.prems by simp
  ultimately show ?case
    using Suc.IH [of "off + 4"] Suc.prems
    by (simp add: upt_conv_Cons shift le_val_append del: upt_Suc)
qed simp

lemma fromRprLE_words:
  assumes "n8 \<noteq> 0" "off mod 4 = 0" "n8 mod 4 = 0" "off + n8 \<le> length buff"
  shows "Scalar_fromRprLE buff off n8 = ret (le_val (take n8 (drop off buff)))"
proof -
  have n8: "4 * (n8 div 4) = n8" using assms(3) by auto
  define ws where "ws = map (\<lambda>i. le_val (take 4 (drop (off + 4 * i) buff))) [0..<n8 div 4]"
  have "0 < n8 div 4" using assms(1) n8 by (cases "n8 div 4") auto
  then have "ws \<noteq> []" by (simp add: ws_def)
  moreover have "0 \<le> w \<and> w < 2 ^ 32" if "w \<in> set ws" for w
  proof -
    obtain i where i: "w = le_val (take 4 (drop (off + 4 * i) buff))" using \<open>w \<in> set ws\<close> by (auto simp: ws_def)
    have "le_val (take 4 (drop (off + 4 * i) buff)) < 256 ^ length (take 4 (drop (off + 4 * i) buff))" by (rule le_val_less)
    also have "\<dots> \<le> 256 ^ 4" by (intro power_increasing) simp_all
    finally show ?thesis using le_val_nonneg by (simp add: i)
  qed
  ultimately have "Scalar_fromString (concat (map hex8 (rev ws))) (Some 16) = ret (words_value ws)"
    by (intro fromString_words) auto
  also have "words_value ws = le_val (take n8 (drop off buff))"
    unfolding ws_def using le_val_words [of off "n8 div 4" buff] assms(4) n8 by simp
  finally show ?thesis
    using assms n8 by (simp add: Scalar_fromRprLE_def Let_def ws_def)
qed

lemma toRprLE_fromRprLE_raw:
  assumes "0 \<le> e" "e < 256 ^ n8" "0 < n8" "n8 mod 4 = 0" "off mod 4 = 0" "off + n8 \<le> length buff"
  shows "\<exists>buff'. Scalar_toRprLE buff off e n8 = ret buff' \<and> Scalar_fromRprLE buff' off n8 = ret e
    \<and> take off buff' = take off buff \<and> drop (off + n8) buff' = drop (off + n8) buff"
proof -
  have "Scalar_fromRprLE (put_bytes buff off (le_bytes n8 e)) off n8 = ret e"
    using assms by (subst fromRprLE_words) (simp_all add: le_val_le_bytes)
  then show ?thesis
    using assms by (intro exI [of _ "put_bytes buff off (le_bytes n8 e)"])
      (simp add: toRprLE_words put_bytes_def)
qed

section \<open>Bit length\<close>

lemma hexLen_bounds:
  assumes "0 < d" "d < 16"
  shows "2 ^ (hexLen ! d - 1) \<le> d" "d < 2 ^ (hexLen ! d)" "0 < hexLen ! d"
proof -
  have "d = 1 \<or> d = 2 \<or> d = 3 \<or> d = 4 \<or> d = 5 \<or> d = 6 \<or> d = 7 \<or> d = 8 \<or> d = 9 \<or> d = 10
    \<or> d = 11 \<or> d = 12 \<or> d = 13 \<or> d = 14 \<or> d = 15" using assms by presburger
  then have "2 ^ (hexLen ! d - 1) \<le> d \<and> d < 2 ^ (hexLen ! d) \<and> 0 < hexLen ! d"
    by (elim disjE) (simp_all add: hexLen_def)
  then show "2 ^ (hexLen ! d - 1) \<le> d" "d < 2 ^ (hexLen ! d)" "0 < hexLen ! d" by simp_all
qed

lemma radix_digits_hd_pos: "2 \<le> r \<Longrightarrow> 0 < n \<Longrightarrow> 0 < hd (radix_digits r n)"
proof (induction r n rule: radix_digits.induct)
  case (1 r n)
  show ?case
  proof (cases "r < 2 \<or> n < r")
    case False
    then have "0 < n div r" by (simp add: div_greater_zero_iff)
    with "1.IH" False have "0 < hd (radix_digits r (n div r))" by simp
    with False show ?thesis by (simp add: radix_digits.simps [of r n])
  qed (use "1.prems" in \<open>simp add: radix_digits.simps [of r n]\<close>)
qed

lemma bitLength_bounds:
  assumes "0 < a"
  shows "\<exists>b. Scalar_bitLength a = Some b \<and> 0 < b \<and> 2 ^ (b - 1) \<le> a \<and> a < 2 ^ b"
proof -
  obtain d ds where ds: "radix_digits 16 (nat a) = d # ds"
    by (cases "radix_digits 16 (nat a)") auto
  have d: "0 < d" "d < 16"
    using radix_digits_hd_pos [of 16 "nat a"] radix_digits_less [of 16 d "nat a"] assms by (simp_all add: ds)
  define k where "k = length ds"
  define h where "h = hexLen ! d"
  define b where "b = k * 4 + h"
  have bits: "Scalar_bitLength a = Some b"
    using parseInt16_digits [of "[d]"] d assms
    by (simp add: Scalar_bitLength_def to_radix_def ds k_def h_def b_def)
  have val: "nat a = d * 16 ^ k + digits_value 16 ds"
    using digits_value_radix_digits [of 16 "nat a"] digits_value_append [of 16 "[d]" ds] by (simp add: ds k_def)
  have less: "digits_value 16 ds < 16 ^ k"
    unfolding k_def by (rule digits_value_less) (use radix_digits_less [of 16 _ "nat a"] ds in auto)
  have h: "2 ^ (h - 1) \<le> d" "d + 1 \<le> 2 ^ h" "0 < h"
    using hexLen_bounds [OF d] by (simp_all add: h_def Suc_leI)
  have p: "(16 :: nat) ^ k = 2 ^ (k * 4)" using power_mult [of "2 :: nat" 4 k] by (simp add: mult.commute)
  have "2 ^ (b - 1) = (2 :: nat) ^ (h - 1) * 2 ^ (k * 4)"
    using h(3) by (simp add: b_def flip: power_add)
  also have "\<dots> \<le> d * 16 ^ k" unfolding p using h(1) by (intro mult_le_mono1)
  also have "\<dots> \<le> nat a" by (simp add: val)
  finally have lo: "2 ^ (b - 1) \<le> nat a" .
  have "nat a < (d + 1) * 16 ^ k" using val less by simp
  also have "\<dots> \<le> 2 ^ h * 16 ^ k" using h(2) by (intro mult_le_mono1)
  also have "\<dots> = 2 ^ b" unfolding p by (simp add: b_def power_add)
  finally have hi: "nat a < 2 ^ b" .
  have "2 ^ (b - 1) \<le> a"
    using lo assms by (simp add: le_nat_iff)
  moreover have "a < 2 ^ b"
    using hi assms by (simp add: nat_less_iff)
  moreover have "0 < b" using h(3) by (simp add: b_def)
  ultimately show ?thesis using bits by blast
qed

section \<open>Properties\<close>

text \<open>
  \<open>bits\<close> of a non-negative number returns its binary digits, least significant
  first: they are 0 or 1 and denote the number.
\<close>

theorem bits_denote:
  assumes "0 \<le> n"
  shows "\<exists>ds. Scalar_bits n = ret ds \<and> set ds \<subseteq> {0, 1} \<and> signed_value ds = n"
  using assms by (auto simp: Scalar_bits_binary signed_value_binary dest: binary_digits)

theorem bits_denote_witness:
  "Scalar_bits 6 = ret [0, 1, 1] \<and> (\<exists>ds. Scalar_bits 6 = ret ds \<and> set ds \<subseteq> {0, 1} \<and> signed_value ds = 6)"
proof
  show "Scalar_bits 6 = ret [0, 1, 1]"
    by (simp add: Scalar_bits_def bits_loop.simps bigint_shr_def)
qed (rule bits_denote, simp)

text \<open>
  the non-adjacent form of a positive number denotes the number with digits -1, 0
  and 1, no two neighbours are both non-zero and its top digit is 1, so
  \<open>mulScalar\<close> never meets its \<open>invlaud NAF\<close> error.
\<close>

theorem naf_denotes:
  assumes "0 < n"
  shows "\<exists>ds. Scalar_naf n = ret ds \<and> signed_value ds = n \<and> set ds \<subseteq> {-1, 0, 1}
     \<and> non_adjacent ds \<and> ds \<noteq> [] \<and> last ds = 1"
proof -
  obtain ds where "Scalar_naf n = ret ds" "naf_of n ds"
    using Scalar_naf_naf [of n] assms by auto
  then show ?thesis using assms by (auto simp: naf_of_def)
qed

theorem naf_denotes_witness:
  "Scalar_naf 7 = ret [-1, 0, 0, 1] \<and> (\<exists>ds. Scalar_naf 7 = ret ds \<and> signed_value ds = 7
     \<and> set ds \<subseteq> {-1, 0, 1} \<and> non_adjacent ds \<and> ds \<noteq> [] \<and> last ds = 1)"
proof
  show "Scalar_naf 7 = ret [-1, 0, 0, 1]"
    by (simp add: Scalar_naf_def naf_loop.simps bigint_shr_def signed_modulo_int_def signed_divide_int_def)
qed (rule naf_denotes, simp)

text \<open>
  what \<open>toRprLE\<close> writes for a number that fits in \<open>n8\<close> bytes, \<open>fromRprLE\<close> reads
  back, and the bytes outside the window are unchanged.
\<close>

theorem toRprLE_fromRprLE:
  assumes "0 \<le> e" "e < 256 ^ n8" "0 < n8" "n8 mod 4 = 0" "off mod 4 = 0" "off + n8 \<le> length buff"
  shows "\<exists>buff'. Scalar_toRprLE buff off e n8 = ret buff' \<and> Scalar_fromRprLE buff' off n8 = ret e
    \<and> take off buff' = take off buff \<and> drop (off + n8) buff' = drop (off + n8) buff"
  using assms by (rule toRprLE_fromRprLE_raw)

theorem toRprLE_fromRprLE_witness:
  "\<exists>buff'. Scalar_toRprLE (replicate 12 7) 4 258 8 = ret buff' \<and> Scalar_fromRprLE buff' 4 8 = ret 258
    \<and> take 4 buff' = take 4 (replicate 12 7) \<and> drop (4 + 8) buff' = drop (4 + 8) (replicate 12 (7 :: 8 word))"
  by (rule toRprLE_fromRprLE) simp_all

text \<open>
  \<open>bitLength\<close> of a positive number is the number of its bits.
\<close>

theorem bitLength_correct:
  assumes "0 < a"
  shows "\<exists>b. Scalar_bitLength a = Some b \<and> 2 ^ (b - 1) \<le> a \<and> a < 2 ^ b"
  using bitLength_bounds [OF assms] by blast

theorem bitLength_correct_witness:
  "Scalar_bitLength 255 = Some 8 \<and> (\<exists>b. Scalar_bitLength 255 = Some b \<and> 2 ^ (b - 1) \<le> (255 :: int) \<and> 255 < (2 :: int) ^ b)"
proof
  show "Scalar_bitLength 255 = Some 8" by code_simp
qed (rule bitLength_correct, simp)

end
