(* ===== verification/ModArith.thy ===== *)
theory ModArith
  imports Prelude
begin

text \<open>
  Arithmetic modulo a prime that the field, the secret sharing and the curve share:
  cancellation of units, Fermat's little theorem, the square roots of one, and
  a function that stands for a polynomial of bounded degree has few roots.
\<close>

section \<open>Units and powers\<close>

lemma mod_eq_dvd: "a mod p = b mod p \<longleftrightarrow> p dvd a - (b :: int)"
  by (rule mod_eq_dvd_iff)

lemma mod_cancel_unit:
  assumes "coprime c p" "c * a mod p = c * b mod (p :: int)"
  shows "a mod p = b mod p"
proof -
  have "p dvd c * (a - b)" using assms(2) by (simp add: mod_eq_dvd algebra_simps)
  then show ?thesis using assms(1) by (simp add: mod_eq_dvd coprime_dvd_mult_right_iff coprime_commute)
qed

lemma mod_mult_cong2: "a mod p = a' mod p \<Longrightarrow> b mod p = b' mod p \<Longrightarrow> a * b mod p = a' * b' mod (p :: int)"
  by (rule mod_mult_cong)

lemma mod_power_cong: "a mod p = a' mod p \<Longrightarrow> a ^ n mod p = a' ^ n mod (p :: int)"
  by (metis power_mod)

theorem fermat:
  assumes p: "prime_modulus p" and a: "\<not> p dvd a"
  shows "a ^ nat (p - 1) mod p = 1"
proof -
  define S where "S = {1..<p}"
  have p1: "1 < p" using p by (rule prime_modulus_gt_1)
  have cop: "coprime a p" using prime_modulus_coprime [OF p a] .
  have inj: "inj_on (\<lambda>x. a * x mod p) S"
  proof (rule inj_onI)
    fix x y assume "x \<in> S" "y \<in> S" "a * x mod p = a * y mod p"
    then show "x = y" using mod_cancel_unit [OF cop, of x y] by (simp add: S_def)
  qed
  have "(\<lambda>x. a * x mod p) ` S \<subseteq> S"
  proof (rule image_subsetI)
    fix x assume x: "x \<in> S"
    then have "\<not> p dvd x" by (auto simp: S_def dest: zdvd_imp_le)
    then have "\<not> p dvd a * x" using prime_modulus_dvd_mult [OF p, of a x] a by blast
    then have "a * x mod p \<noteq> 0" by (simp add: dvd_eq_mod_eq_0)
    moreover have "0 \<le> a * x mod p" "a * x mod p < p" using p1 by simp_all
    ultimately have "1 \<le> a * x mod p" by linarith
    then show "a * x mod p \<in> S" using \<open>a * x mod p < p\<close> by (simp add: S_def)
  qed
  then have img: "(\<lambda>x. a * x mod p) ` S = S"
    by (intro endo_inj_surj inj) (simp_all add: S_def)
  have "(\<Prod>x\<in>S. a * x mod p) = \<Prod>S"
    using prod.reindex [OF inj, of "\<lambda>x. x"] img by simp
  then have "(\<Prod>x\<in>S. a * x) mod p = \<Prod>S mod p"
    using mod_prod_eq [of "\<lambda>x. a * x" p S] by simp
  then have eq: "\<Prod>S * a ^ card S mod p = \<Prod>S * 1 mod p"
    by (simp add: prod.distrib mult.commute)
  have cop': "coprime (\<Prod>S) p"
  proof (rule prod_coprime_left)
    fix x assume "x \<in> S"
    then show "coprime x p" using p by (simp add: S_def prime_modulus_def)
  qed
  have "a ^ card S mod p = 1 mod p" by (rule mod_cancel_unit [OF cop' eq])
  then show ?thesis using p1 by (simp add: S_def)
qed

lemma square_root_one:
  assumes p: "prime_modulus p" and x: "x * x mod p = 1"
  shows "x mod p = 1 \<or> x mod p = p - 1"
proof -
  have p1: "1 < p" using p by (rule prime_modulus_gt_1)
  have "x * x mod p = 1 mod p" using x p1 by simp
  then have "p dvd (x - 1) * (x + 1)" by (simp add: mod_eq_dvd algebra_simps)
  then have "p dvd x - 1 \<or> p dvd x + 1" by (rule prime_modulus_dvd_mult [OF p])
  then have "x mod p = 1 mod p \<or> x mod p = (- 1) mod p" by (simp add: mod_eq_dvd)
  then show ?thesis using p1 by (auto simp: zmod_minus1)
qed

text \<open>Euler's criterion: \<open>h\<close> is half of \<open>p - 1\<close>.\<close>

lemma euler_half:
  assumes p: "prime_modulus p" and h: "p - 1 = 2 * int h" and a: "\<not> p dvd a"
  shows "a ^ h mod p = 1 \<or> a ^ h mod p = p - 1" and "(a * a) ^ h mod p = 1"
proof -
  have "nat (p - 1) = 2 * h" using h by simp
  then have one: "a ^ (2 * h) mod p = 1" using fermat [OF p a] by simp
  then show "(a * a) ^ h mod p = 1" by (simp add: power_mult power2_eq_square)
  have "a ^ h * a ^ h mod p = 1" using one by (simp add: mult_2 power_add)
  then show "a ^ h mod p = 1 \<or> a ^ h mod p = p - 1" by (rule square_root_one [OF p])
qed

section \<open>The interface of a field of residues\<close>

text \<open>
  What the clients of a field (the sponge, the secret sharing, the curve) rely on: its
  operations on reduced elements are those of the integers modulo its modulus, and an
  element prime to the modulus has an inverse.
\<close>

locale residue_field =
  fixes ok :: "'f \<Rightarrow> bool"
    and modulus :: "'f \<Rightarrow> int"
    and add :: "'f \<Rightarrow> int \<Rightarrow> int \<Rightarrow> int"
    and sub :: "'f \<Rightarrow> int \<Rightarrow> int \<Rightarrow> int"
    and mul :: "'f \<Rightarrow> int \<Rightarrow> int \<Rightarrow> int"
    and inv :: "'f \<Rightarrow> int \<Rightarrow> int js"
  assumes modulus: "ok F \<Longrightarrow> 1 < modulus F"
    and add: "ok F \<Longrightarrow> 0 \<le> a \<Longrightarrow> a < modulus F \<Longrightarrow> 0 \<le> b \<Longrightarrow> b < modulus F \<Longrightarrow> add F a b = (a + b) mod modulus F"
    and sub: "ok F \<Longrightarrow> 0 \<le> a \<Longrightarrow> a < modulus F \<Longrightarrow> 0 \<le> b \<Longrightarrow> b < modulus F \<Longrightarrow> sub F a b = (a - b) mod modulus F"
    and mul: "ok F \<Longrightarrow> 0 \<le> a \<Longrightarrow> a < modulus F \<Longrightarrow> 0 \<le> b \<Longrightarrow> b < modulus F \<Longrightarrow> mul F a b = (a * b) mod modulus F"
    and inv: "ok F \<Longrightarrow> 0 \<le> a \<Longrightarrow> a < modulus F \<Longrightarrow> coprime a (modulus F)
      \<Longrightarrow> \<exists>x. inv F a = ret x \<and> 0 \<le> x \<and> x < modulus F \<and> a * x mod modulus F = 1"
begin

definition elem :: "'f \<Rightarrow> int \<Rightarrow> bool" where
  "elem F a \<longleftrightarrow> 0 \<le> a \<and> a < modulus F"

lemma elem_mod [simp]: "ok F \<Longrightarrow> elem F (a mod modulus F)"
  using modulus [of F] by (simp add: elem_def)

lemma add_elem: "ok F \<Longrightarrow> elem F a \<Longrightarrow> elem F b \<Longrightarrow> add F a b = (a + b) mod modulus F"
  by (simp add: add elem_def)

lemma sub_elem: "ok F \<Longrightarrow> elem F a \<Longrightarrow> elem F b \<Longrightarrow> sub F a b = (a - b) mod modulus F"
  by (simp add: sub elem_def)

lemma mul_elem: "ok F \<Longrightarrow> elem F a \<Longrightarrow> elem F b \<Longrightarrow> mul F a b = (a * b) mod modulus F"
  by (simp add: mul elem_def)

lemma add_closed: "ok F \<Longrightarrow> elem F a \<Longrightarrow> elem F b \<Longrightarrow> elem F (add F a b)"
  by (simp add: add_elem)

lemma sub_closed: "ok F \<Longrightarrow> elem F a \<Longrightarrow> elem F b \<Longrightarrow> elem F (sub F a b)"
  by (simp add: sub_elem)

lemma mul_closed: "ok F \<Longrightarrow> elem F a \<Longrightarrow> elem F b \<Longrightarrow> elem F (mul F a b)"
  by (simp add: mul_elem)

text \<open>A sum of products, accumulated from the left, is the sum of the products modulo \<open>p\<close>.\<close>

lemma foldl_add_mul:
  assumes F: "ok F"
  shows "elem F acc \<Longrightarrow> (\<And>x. x \<in> set xs \<Longrightarrow> elem F (f x) \<and> elem F (g x)) \<Longrightarrow>
    foldl (\<lambda>acc x. add F acc (mul F (f x) (g x))) acc xs = (acc + (\<Sum>x\<leftarrow>xs. f x * g x)) mod modulus F"
proof (induction xs arbitrary: acc)
  case Nil
  then show ?case by (simp add: elem_def)
next
  case (Cons x xs)
  have fg: "elem F (f x)" "elem F (g x)" using Cons.prems(2) [of x] by simp_all
  have step: "add F acc (mul F (f x) (g x)) = (acc + f x * g x) mod modulus F"
    using F fg Cons.prems(1) by (simp add: mul_elem add_elem mod_add_right_eq)
  then have "foldl (\<lambda>acc x. add F acc (mul F (f x) (g x))) (add F acc (mul F (f x) (g x))) xs
      = (add F acc (mul F (f x) (g x)) + (\<Sum>x\<leftarrow>xs. f x * g x)) mod modulus F"
    using Cons.prems F by (intro Cons.IH) simp_all
  then show ?case by (simp add: step mod_add_left_eq add.assoc)
qed

lemma foldl_mul:
  assumes F: "ok F"
  shows "elem F acc \<Longrightarrow> (\<And>x. x \<in> set xs \<Longrightarrow> elem F (f x)) \<Longrightarrow>
    foldl (\<lambda>acc x. mul F acc (f x)) acc xs = (acc * prod_list (map f xs)) mod modulus F"
proof (induction xs arbitrary: acc)
  case Nil
  then show ?case by (simp add: elem_def)
next
  case (Cons x xs)
  have step: "mul F acc (f x) = (acc * f x) mod modulus F"
    using F Cons.prems by (simp add: mul_elem)
  then have "foldl (\<lambda>acc x. mul F acc (f x)) (mul F acc (f x)) xs
      = (mul F acc (f x) * prod_list (map f xs)) mod modulus F"
    using Cons.prems F by (intro Cons.IH) simp_all
  then show ?case by (simp add: step mod_mult_left_eq mult.assoc)
qed

lemma sub_add_cancel: "ok F \<Longrightarrow> elem F a \<Longrightarrow> elem F b \<Longrightarrow> sub F (add F a b) b = a"
  by (simp add: add_elem sub_elem mod_diff_left_eq) (simp add: elem_def)

end

end
