(* ===== verification/F1Field.thy ===== *)
theory F1Field
  imports ScalarOps ModArith
begin

text \<open>
  The prime field of packages/albus-core/src/crypto/ff/f1field.ts: the fields of the
  class as a record, its constructor (with the searches for a non-residue and the
  Tonelli-Shanks set-up), every method, and the module functions \<open>mulScalar\<close> and
  \<open>exp\<close>.  A loop whose end depends on the modulus is a partial function; the Euclidean
  loop of \<open>inv\<close> terminates for all arguments.  Bytes drawn from \<open>randomBytes\<close> are an
  argument.  Methods reduce with \<open>% this.p\<close>; a constructed field has \<open>p > 1\<close>
  (\<open>F1Field_new_wf\<close>), so these remainders never divide by zero.
\<close>

section \<open>The class\<close>

record F1Field =
  F_type :: string
  F_one :: int
  F_zero :: int
  F_p :: int
  F_m :: int
  F_negone :: int
  F_two :: int
  F_half :: int
  F_bitLength :: nat
  F_mask :: int
  F_n64 :: nat
  F_n32 :: nat
  F_n8 :: nat
  F_R :: int
  F_s :: nat
  F_shift :: int
  F_Ri :: int
  F_nqr :: int
  F_t :: int
  F_nqr_to_t :: int
  F_k :: int
  sqrt_q :: int
  sqrt_s :: int
  sqrt_t :: int
  sqrt_z :: int
  sqrt_tm1d2 :: int

section \<open>Conversion into the field\<close>

text \<open>\<open>e(a)\<close> and \<open>normalize(a)\<close> of a bigint; \<open>e(a, b)\<close> of a string, where a base other
  than 16 leaves the result undefined (\<open>None\<close>).\<close>

definition F1_normalize :: "F1Field \<Rightarrow> int \<Rightarrow> int" where
  "F1_normalize F a =
    (if a < 0 then
       (let na = - a; na' = (if na \<ge> F_p F then na smod F_p F else na) in F_p F - na')
     else if a \<ge> F_p F then a smod F_p F else a)"

definition F1_e :: "F1Field \<Rightarrow> int \<Rightarrow> int" where
  "F1_e F res =
    (if res < 0 then
       (let nres = - res; nres' = (if nres \<ge> F_p F then nres smod F_p F else nres) in F_p F - nres')
     else if res \<ge> F_p F then res smod F_p F else res)"

definition F1_e_string :: "F1Field \<Rightarrow> string \<Rightarrow> int option \<Rightarrow> int option js" where
  "F1_e_string F a b =
    (if b = None \<or> b = Some 0 then bindJ (BigInt_of_string a) (\<lambda>res. ret (Some (F1_e F res)))
     else if b = Some 16 then bindJ (BigInt_of_string (''0x'' @ a)) (\<lambda>res. ret (Some (F1_e F res)))
     else ret None)"

section \<open>Arithmetic\<close>

definition F1_add :: "F1Field \<Rightarrow> int \<Rightarrow> int \<Rightarrow> int" where
  "F1_add F a b = (let res = a + b in if res \<ge> F_p F then res - F_p F else res)"

definition F1_sub :: "F1Field \<Rightarrow> int \<Rightarrow> int \<Rightarrow> int" where
  "F1_sub F a b = (if a \<ge> b then a - b else F_p F - b + a)"

definition F1_neg :: "F1Field \<Rightarrow> int \<Rightarrow> int" where
  "F1_neg F a = (if a \<noteq> 0 then F_p F - a else a)"

definition F1_double :: "F1Field \<Rightarrow> int \<Rightarrow> int" where
  "F1_double F a = F1_add F a a"

definition F1_mul :: "F1Field \<Rightarrow> int \<Rightarrow> int \<Rightarrow> int" where
  "F1_mul F a b = (a * b) smod F_p F"

definition F1_mulScalar :: "F1Field \<Rightarrow> int \<Rightarrow> int \<Rightarrow> int" where
  "F1_mulScalar F base s = (base * F1_e F s) smod F_p F"

definition F1_square :: "F1Field \<Rightarrow> int \<Rightarrow> int" where
  "F1_square F a = (a * a) smod F_p F"

definition F1_eq :: "F1Field \<Rightarrow> int \<Rightarrow> int \<Rightarrow> bool" where
  "F1_eq F a b \<longleftrightarrow> a = b"

definition F1_neq :: "F1Field \<Rightarrow> int \<Rightarrow> int \<Rightarrow> bool" where
  "F1_neq F a b \<longleftrightarrow> a \<noteq> b"

text \<open>The comparisons read a residue above \<open>half\<close> as negative.\<close>

definition F1_lt :: "F1Field \<Rightarrow> int \<Rightarrow> int \<Rightarrow> bool" where
  "F1_lt F a b = (let aa = (if a > F_half F then a - F_p F else a);
                      bb = (if b > F_half F then b - F_p F else b) in aa < bb)"

definition F1_gt :: "F1Field \<Rightarrow> int \<Rightarrow> int \<Rightarrow> bool" where
  "F1_gt F a b = (let aa = (if a > F_half F then a - F_p F else a);
                      bb = (if b > F_half F then b - F_p F else b) in aa > bb)"

definition F1_leq :: "F1Field \<Rightarrow> int \<Rightarrow> int \<Rightarrow> bool" where
  "F1_leq F a b = (let aa = (if a > F_half F then a - F_p F else a);
                       bb = (if b > F_half F then b - F_p F else b) in aa \<le> bb)"

definition F1_geq :: "F1Field \<Rightarrow> int \<Rightarrow> int \<Rightarrow> bool" where
  "F1_geq F a b = (let aa = (if a > F_half F then a - F_p F else a);
                       bb = (if b > F_half F then b - F_p F else b) in aa \<ge> bb)"

text \<open>The loop of \<open>inv\<close>: the extended Euclidean algorithm on \<open>(t, newt)\<close> and \<open>(r, newr)\<close>.\<close>

lemma sdiv_remainder: "r - (r sdiv newr) * newr = r smod (newr :: int)"
  by (rule minus_sdiv_mult_eq_smod)

function inv_loop :: "int \<Rightarrow> int \<Rightarrow> int \<Rightarrow> int \<Rightarrow> int" where
  "inv_loop t newt r newr =
    (if newr = 0 then t
     else let q = r sdiv newr in inv_loop newt (t - q * newt) newr (r - q * newr))"
  by auto
termination
proof (relation "measure (\<lambda>(t, newt, r, newr). nat \<bar>newr\<bar>)")
  fix t newt r newr q :: int
  assume "newr \<noteq> 0" "q = r sdiv newr"
  then have "r - q * newr = r smod newr"
    by (simp add: sdiv_remainder)
  with \<open>newr \<noteq> 0\<close> show "((newt, t - q * newt, newr, r - q * newr), t, newt, r, newr)
      \<in> measure (\<lambda>(t, newt, r, newr). nat \<bar>newr\<bar>)"
    using smod_abs_less [of newr r] by simp
qed simp

declare inv_loop.simps [simp del]

lemma inv_loop_0 [simp]: "inv_loop t newt r 0 = t"
  by (subst inv_loop.simps) simp

definition F1_inv :: "F1Field \<Rightarrow> int \<Rightarrow> int js" where
  "F1_inv F a =
    (if a = 0 then throw (Error ''Division by zero'')
     else let t = inv_loop (F_zero F) (F_one F) (F_p F) (a smod F_p F) in
       ret (if t < F_zero F then t + F_p F else t))"

definition F1_div :: "F1Field \<Rightarrow> int \<Rightarrow> int \<Rightarrow> int js" where
  "F1_div F a b = bindJ (F1_inv F b) (\<lambda>i. ret (F1_mul F a i))"

definition F1_idiv :: "F1Field \<Rightarrow> int \<Rightarrow> int \<Rightarrow> int js" where
  "F1_idiv F a b = (if b = 0 then throw (Error ''Division by zero'') else bigint_div a b)"

definition F1_mod :: "F1Field \<Rightarrow> int \<Rightarrow> int \<Rightarrow> int js" where
  "F1_mod F a b = bigint_rem a b"

text \<open>The module function \<open>exp\<close>: square and multiply over the bits below the top one, most
  significant first.\<close>

fun exp_loop :: "F1Field \<Rightarrow> int \<Rightarrow> int list \<Rightarrow> int \<Rightarrow> int" where
  "exp_loop F base [] res = res"
| "exp_loop F base (n # ns) res =
    (let sq = F1_square F res in exp_loop F base ns (if n \<noteq> 0 then F1_mul F sq base else sq))"

definition F1_exp :: "F1Field \<Rightarrow> int \<Rightarrow> int \<Rightarrow> int js" where
  "F1_exp F base e =
    (if Scalar_isZero e then ret (F_one F)
     else bindJ (Scalar_bits e) (\<lambda>n.
       if length n = 0 then ret (F_one F) else ret (exp_loop F base (tl (rev n)) base)))"

definition F1_pow :: "F1Field \<Rightarrow> int \<Rightarrow> int \<Rightarrow> int js" where
  "F1_pow F b e = F1_exp F b e"

text \<open>The module function \<open>mulScalar\<close>: double and add over the non-adjacent form.\<close>

fun mulScalar_loop :: "F1Field \<Rightarrow> int \<Rightarrow> int list \<Rightarrow> int \<Rightarrow> int" where
  "mulScalar_loop F base [] res = res"
| "mulScalar_loop F base (n # ns) res =
    (let d = F1_double F res in
     mulScalar_loop F base ns
       (if n = 1 then F1_add F d base else if n = -1 then F1_sub F d base else d))"

definition naf_mulScalar :: "F1Field \<Rightarrow> int \<Rightarrow> int \<Rightarrow> int js" where
  "naf_mulScalar F base e =
    (if Scalar_isZero e then ret (F_zero F)
     else bindJ (Scalar_naf e) (\<lambda>n.
       if n \<noteq> [] \<and> last n = 1 then ret (mulScalar_loop F base (tl (rev n)) base)
       else if n \<noteq> [] \<and> last n = -1 then ret (mulScalar_loop F base (tl (rev n)) (F1_neg F base))
       else throw (Error ''invlaud NAF'')))"

section \<open>Bitwise operations\<close>

definition F1_band :: "F1Field \<Rightarrow> int \<Rightarrow> int \<Rightarrow> int" where
  "F1_band F a b = (let res = a AND b AND F_mask F in if res \<ge> F_p F then res - F_p F else res)"

definition F1_bor :: "F1Field \<Rightarrow> int \<Rightarrow> int \<Rightarrow> int" where
  "F1_bor F a b = (let res = (a OR b) AND F_mask F in if res \<ge> F_p F then res - F_p F else res)"

definition F1_bxor :: "F1Field \<Rightarrow> int \<Rightarrow> int \<Rightarrow> int" where
  "F1_bxor F a b = (let res = (a XOR b) AND F_mask F in if res \<ge> F_p F then res - F_p F else res)"

definition F1_bnot :: "F1Field \<Rightarrow> int \<Rightarrow> int" where
  "F1_bnot F a = (let res = a XOR F_mask F in if res \<ge> F_p F then res - F_p F else res)"

definition F1_shl :: "F1Field \<Rightarrow> int \<Rightarrow> int \<Rightarrow> int" where
  "F1_shl F a b =
    (if b < int (F_bitLength F)
     then (let res = bigint_shl a b AND F_mask F in if res \<ge> F_p F then res - F_p F else res)
     else (let nb = F_p F - b in if nb < int (F_bitLength F) then bigint_shr a nb else F_zero F))"

definition F1_shr :: "F1Field \<Rightarrow> int \<Rightarrow> int \<Rightarrow> int" where
  "F1_shr F a b =
    (if b < int (F_bitLength F) then bigint_shr a b
     else (let nb = F_p F - b in
       if nb < int (F_bitLength F)
       then (let res = bigint_shl a nb AND F_mask F in if res \<ge> F_p F then res - F_p F else res)
       else Scalar_zero))"

definition F1_land :: "F1Field \<Rightarrow> int \<Rightarrow> int \<Rightarrow> int" where
  "F1_land F a b = (if a \<noteq> 0 \<and> b \<noteq> 0 then F_one F else F_zero F)"

definition F1_lor :: "F1Field \<Rightarrow> int \<Rightarrow> int \<Rightarrow> int" where
  "F1_lor F a b = (if a \<noteq> 0 \<or> b \<noteq> 0 then F_one F else F_zero F)"

section \<open>Square roots\<close>

definition F1_isZero :: "F1Field \<Rightarrow> int \<Rightarrow> bool" where
  "F1_isZero F a \<longleftrightarrow> a = F_zero F"

text \<open>The least \<open>k\<close>, counted from the given one, after which squaring reaches 1; the
  exponent-many squarings of the inner \<open>for\<close> loop.\<close>

partial_function (option) order_loop :: "F1Field \<Rightarrow> int \<Rightarrow> nat \<Rightarrow> nat js" where
  "order_loop F b2k k =
    (if F1_eq F b2k (F_one F) then ret k else order_loop F (F1_square F b2k) (k + 1))"

fun square_times :: "F1Field \<Rightarrow> nat \<Rightarrow> int \<Rightarrow> int" where
  "square_times F 0 w = w"
| "square_times F (Suc n) w = square_times F n (F1_square F w)"

partial_function (option) sqrt_loop :: "F1Field \<Rightarrow> int \<Rightarrow> int \<Rightarrow> int \<Rightarrow> int \<Rightarrow> int js" where
  "sqrt_loop F v x b z =
    (if F1_eq F b (F_one F) then ret x
     else bindJ (order_loop F (F1_square F b) 1) (\<lambda>k.
       let w = square_times F (nat (v - int k - 1)) z; z' = F1_square F w
       in sqrt_loop F (int k) (F1_mul F x w) (F1_mul F b z') z'))"

text \<open>The function that \<open>tonelliShanks\<close> stores in \<open>F.sqrt\<close>; no root is \<open>None\<close> (\<open>null\<close>).\<close>

definition F1_sqrt :: "F1Field \<Rightarrow> int \<Rightarrow> int option js" where
  "F1_sqrt F a =
    (if F1_isZero F a then ret (Some (F_zero F))
     else bindJ (F1_pow F a (sqrt_tm1d2 F)) (\<lambda>w.
       bindJ (bigint_pow 2 (sqrt_s F - Scalar_one)) (\<lambda>e.
       bindJ (F1_pow F (F1_mul F (F1_square F w) a) e) (\<lambda>a0.
       if F1_eq F a0 (F_negone F) then ret None
       else let x = F1_mul F a w; b = F1_mul F x w in
         bindJ (sqrt_loop F (sqrt_s F) x b (sqrt_z F)) (\<lambda>x.
           ret (Some (if F1_geq F x (F_zero F) then x else F1_neg F x)))))))"

text \<open>The method of the class before \<open>tonelliShanks\<close> replaces it.\<close>

definition F1_sqrt_unset :: "F1Field \<Rightarrow> int \<Rightarrow> int option js" where
  "F1_sqrt_unset F a = throw (Error (''Not implemented sqrt for F1'' @ to_radix 10 a))"

partial_function (option) sqrt_old_loop :: "F1Field \<Rightarrow> nat \<Rightarrow> int \<Rightarrow> int \<Rightarrow> int \<Rightarrow> int js" where
  "sqrt_old_loop F m c t r =
    (if t = F_one F then ret r
     else bindJ (order_loop F (F1_square F t) 1) (\<lambda>i.
       let b = square_times F (m - i - 1) c; c' = F1_square F b
       in sqrt_old_loop F i c' (F1_mul F t c') (F1_mul F r b)))"

definition F1_sqrt_old :: "F1Field \<Rightarrow> int \<Rightarrow> int option js" where
  "F1_sqrt_old F n =
    (if n = F_zero F then ret (Some (F_zero F))
     else bindJ (F1_pow F n (bigint_shr (F_negone F) (F_one F))) (\<lambda>res.
       if res \<noteq> F_one F then ret None
       else bindJ (F1_pow F n (F_t F)) (\<lambda>t.
         bindJ (F1_pow F n (bigint_shr (F1_add F (F_t F) (F_one F)) (F_one F))) (\<lambda>r.
         bindJ (sqrt_old_loop F (F_s F) (F_nqr_to_t F) t r) (\<lambda>r.
           ret (Some (if r > bigint_shr (F_p F) (F_one F) then F1_neg F r else r)))))))"

section \<open>Random elements, text and buffers\<close>

text \<open>The loop runs while \<open>i < bitLength * 2 / 8\<close>; the bytes are those that
  \<open>randomBytes(1)\<close> returns in turn.\<close>

definition random_count :: "F1Field \<Rightarrow> nat" where
  "random_count F = (F_bitLength F * 2 + 7) div 8"

definition F1_random :: "F1Field \<Rightarrow> bytes \<Rightarrow> int" where
  "F1_random F drawn =
     foldl (\<lambda>res b. bigint_shl res 8 + uint b) (F_zero F) (take (random_count F) drawn) smod F_p F"

definition F1_toString :: "F1Field \<Rightarrow> int \<Rightarrow> nat \<Rightarrow> string" where
  "F1_toString F a base0 =
    (let base = (if base0 = 0 then 10 else base0) in
     if a > F_half F \<and> base = 10 then CHR ''-'' # to_radix base (F_p F - a) else to_radix base a)"

definition F1_toRprLE :: "F1Field \<Rightarrow> bytes \<Rightarrow> nat \<Rightarrow> int \<Rightarrow> bytes js" where
  "F1_toRprLE F buff off e = Scalar_toRprLE buff off e (F_n64 F * 8)"

definition F1_toRprBE :: "F1Field \<Rightarrow> bytes \<Rightarrow> nat \<Rightarrow> int \<Rightarrow> bytes js" where
  "F1_toRprBE F buff off e = Scalar_toRprBE buff off e (F_n64 F * 8)"

definition F1_toRprBEM :: "F1Field \<Rightarrow> bytes \<Rightarrow> nat \<Rightarrow> int \<Rightarrow> bytes js" where
  "F1_toRprBEM F buff off e = F1_toRprBE F buff off (F1_mul F (F_R F) e)"

definition F1_toRprLEM :: "F1Field \<Rightarrow> bytes \<Rightarrow> nat \<Rightarrow> int \<Rightarrow> bytes js" where
  "F1_toRprLEM F buff off e = F1_toRprLE F buff off (F1_mul F (F_R F) e)"

definition F1_fromRprLE :: "F1Field \<Rightarrow> bytes \<Rightarrow> nat \<Rightarrow> int js" where
  "F1_fromRprLE F buff off = Scalar_fromRprLE buff off (F_n8 F)"

definition F1_fromRprBE :: "F1Field \<Rightarrow> bytes \<Rightarrow> nat \<Rightarrow> int js" where
  "F1_fromRprBE F buff off = Scalar_fromRprBE buff off (F_n8 F)"

definition F1_fromRprLEM :: "F1Field \<Rightarrow> bytes \<Rightarrow> nat \<Rightarrow> int js" where
  "F1_fromRprLEM F buff off = bindJ (F1_fromRprLE F buff off) (\<lambda>x. ret (F1_mul F x (F_Ri F)))"

definition F1_fromRprBEM :: "F1Field \<Rightarrow> bytes \<Rightarrow> nat \<Rightarrow> int js" where
  "F1_fromRprBEM F buff off = bindJ (F1_fromRprBE F buff off) (\<lambda>x. ret (F1_mul F x (F_Ri F)))"

definition F1_toObject :: "F1Field \<Rightarrow> int \<Rightarrow> int" where
  "F1_toObject F a = a"

section \<open>Construction\<close>

partial_function (option) odd_part :: "nat \<Rightarrow> int \<Rightarrow> (nat \<times> int) js" where
  "odd_part s t = (if t AND 1 = 0 then odd_part (s + 1) (bigint_shr t 1) else ret (s, t))"

partial_function (option) nqr_loop :: "F1Field \<Rightarrow> int \<Rightarrow> int \<Rightarrow> int \<Rightarrow> int js" where
  "nqr_loop F e nqr r =
    (if F1_eq F r (F_negone F) then ret nqr
     else bindJ (F1_pow F (nqr + F_one F) e) (\<lambda>r'. nqr_loop F e (nqr + F_one F) r'))"

partial_function (option) sqrt_odd_part :: "int \<Rightarrow> int \<Rightarrow> (int \<times> int) js" where
  "sqrt_odd_part s t =
    (if Scalar_isOdd t then ret (s, t)
     else bindJ (Scalar_div t 2) (\<lambda>t'. sqrt_odd_part (s + Scalar_one) t'))"

text \<open>\<open>draws i\<close> are the bytes of the \<open>i\<close>-th call of \<open>random\<close>.\<close>

partial_function (option) sqrt_z_loop :: "F1Field \<Rightarrow> (nat \<Rightarrow> bytes) \<Rightarrow> nat \<Rightarrow> int \<Rightarrow> int \<Rightarrow> int js" where
  "sqrt_z_loop F draws i c0 z =
    (if F1_eq F c0 (F_one F)
     then bindJ (F1_pow F (F1_random F (draws i)) (sqrt_t F)) (\<lambda>z'.
       bindJ (bigint_pow 2 (sqrt_s F - Scalar_one)) (\<lambda>e.
       bindJ (F1_pow F z' e) (\<lambda>c0'. sqrt_z_loop F draws (i + 1) c0' z')))
     else ret z)"

definition tonelliShanks :: "F1Field \<Rightarrow> (nat \<Rightarrow> bytes) \<Rightarrow> F1Field js" where
  "tonelliShanks F draws =
    bindJ (Scalar_pow (F_p F) (F_m F)) (\<lambda>q.
    bindJ (sqrt_odd_part Scalar_zero (Scalar_sub q Scalar_one)) (\<lambda>(s, t).
    let F = F\<lparr>sqrt_q := q, sqrt_s := s, sqrt_t := t\<rparr> in
    bindJ (sqrt_z_loop F draws 0 (F_one F) 0) (\<lambda>z.
    bindJ (Scalar_div (Scalar_sub t Scalar_one) 2) (\<lambda>tm1d2.
    ret (F\<lparr>sqrt_z := z, sqrt_tm1d2 := tm1d2\<rparr>)))))"

text \<open>The fields that the constructor computes before its first method call.\<close>

definition F1Field_init :: "int \<Rightarrow> nat \<Rightarrow> F1Field" where
  "F1Field_init p bl =
    (let n64 = nat ((int bl - 1) div 64 + 1) in
     \<lparr>F_type = ''F1'', F_one = 1, F_zero = 0, F_p = p, F_m = Scalar_one, F_negone = p - 1, F_two = 2,
      F_half = bigint_shr p 1, F_bitLength = bl, F_mask = bigint_shl 1 (int bl) - 1,
      F_n64 = n64, F_n32 = n64 * 2, F_n8 = n64 * 8, F_R = 0, F_s = 0, F_shift = 0, F_Ri = 0, F_nqr = 0,
      F_t = 0, F_nqr_to_t = 0, F_k = 0, sqrt_q = 0, sqrt_s = 0, sqrt_t = 0, sqrt_z = 0, sqrt_tm1d2 = 0\<rparr>)"

text \<open>\<open>BigInt(NaN)\<close> is a \<open>RangeError\<close>, and so is \<open>1 % 0\<close> when \<open>p\<close> is 0; \<open>2 ** s\<close> is a double.\<close>

definition F1Field_new :: "int \<Rightarrow> (nat \<Rightarrow> bytes) \<Rightarrow> F1Field js" where
  "F1Field_new p draws =
    (case Scalar_bitLength p of
       None \<Rightarrow> throw (RangeError ''NaN cannot be converted to a BigInt'')
     | Some bl \<Rightarrow>
       if p = 0 then throw (RangeError ''Division by zero'') else
       let F = F1Field_init p bl; F = F\<lparr>F_R := F1_e F (bigint_shl (F_one F) (int (F_n64 F * 64)))\<rparr> in
       bindJ (F1_inv F (F_R F)) (\<lambda>Ri.
       let F = F\<lparr>F_Ri := Ri\<rparr>; e = bigint_shr (F_negone F) (F_one F) in
       bindJ (F1_pow F (F_two F) e) (\<lambda>r.
       bindJ (nqr_loop F e (F_two F) r) (\<lambda>nqr.
       bindJ (odd_part 0 (F_negone F)) (\<lambda>(s, t).
       bindJ (F1_pow F nqr t) (\<lambda>nqr_to_t.
       let F = F\<lparr>F_nqr := nqr, F_s := s, F_t := t, F_nqr_to_t := nqr_to_t\<rparr> in
       bindJ (tonelliShanks F draws) (\<lambda>F.
       let F = F\<lparr>F_shift := F1_square F (F_nqr F)\<rparr> in
       if F_s F \<ge> 1024 then throw (RangeError ''Infinity cannot be converted to a BigInt'')
       else bindJ (F1_exp F (F_nqr F) (2 ^ F_s F)) (\<lambda>k. ret (F\<lparr>F_k := k\<rparr>)))))))))"

section \<open>Residue arithmetic\<close>

definition F1_wf :: "F1Field \<Rightarrow> bool" where
  "F1_wf F \<longleftrightarrow> 1 < F_p F \<and> F_zero F = 0 \<and> F_one F = 1 \<and> F_negone F = F_p F - 1 \<and> F_half F = F_p F div 2"

definition in_field :: "F1Field \<Rightarrow> int \<Rightarrow> bool" where
  "in_field F a \<longleftrightarrow> 0 \<le> a \<and> a < F_p F"

named_theorems f1_simps \<open>the operations of a field on residues as operations modulo \<open>p\<close>\<close>

lemma F1_wf_simps [f1_simps]:
  assumes "F1_wf F"
  shows "F_zero F = 0" "F_one F = 1" "F_negone F = F_p F - 1" "F_half F = F_p F div 2"
  using assms by (simp_all add: F1_wf_def)

lemma F1_wf_p: "F1_wf F \<Longrightarrow> 1 < F_p F"
  by (simp add: F1_wf_def)

lemma in_field_mod [simp]: "F1_wf F \<Longrightarrow> in_field F (a mod F_p F)"
  by (simp add: in_field_def F1_wf_def)

lemma in_field_0_1 [simp]: "F1_wf F \<Longrightarrow> in_field F 0" "F1_wf F \<Longrightarrow> in_field F 1"
  by (simp_all add: in_field_def F1_wf_def)

lemma in_field_mod_id: "in_field F a \<Longrightarrow> a mod F_p F = a"
  by (simp add: in_field_def)

lemma mod_minus_p: "p \<le> a \<Longrightarrow> a < 2 * p \<Longrightarrow> a mod p = a - (p::int)"
  using mod_pos_pos_trivial [of "a - p" p] by simp

lemma F1_add_mod [f1_simps]: "in_field F a \<Longrightarrow> in_field F b \<Longrightarrow> F1_add F a b = (a + b) mod F_p F"
  by (auto simp: F1_add_def in_field_def Let_def mod_minus_p)

lemma F1_sub_mod [f1_simps]:
  assumes "in_field F a" "in_field F b"
  shows "F1_sub F a b = (a - b) mod F_p F"
proof (cases "b \<le> a")
  case False
  have "(a - b) mod F_p F = (a - b + F_p F) mod F_p F" by simp
  also have "\<dots> = a - b + F_p F" using False assms by (intro mod_pos_pos_trivial) (simp_all add: in_field_def)
  finally show ?thesis using False by (simp add: F1_sub_def)
qed (use assms in \<open>simp add: F1_sub_def in_field_def\<close>)

lemma F1_neg_mod [f1_simps]:
  assumes "in_field F a"
  shows "F1_neg F a = (- a) mod F_p F"
  using F1_sub_mod [of F 0 a] assms by (cases "a = 0") (auto simp: F1_neg_def F1_sub_def in_field_def)

lemma F1_double_mod [f1_simps]: "in_field F a \<Longrightarrow> F1_double F a = (2 * a) mod F_p F"
  by (simp add: F1_double_def F1_add_mod)

lemma F1_mul_mod [f1_simps]: "F1_wf F \<Longrightarrow> 0 \<le> a \<Longrightarrow> 0 \<le> b \<Longrightarrow> F1_mul F a b = (a * b) mod F_p F"
  by (simp add: F1_mul_def smod_nonneg F1_wf_def)

lemma F1_square_mod [f1_simps]: "F1_wf F \<Longrightarrow> F1_square F a = (a * a) mod F_p F"
  by (simp add: F1_square_def smod_nonneg F1_wf_def)

lemma in_field_nonneg: "in_field F a \<Longrightarrow> 0 \<le> a"
  by (simp add: in_field_def)

text \<open>\<open>e\<close> and \<open>normalize\<close> agree; a negative multiple of \<open>p\<close> gives \<open>p\<close> itself.\<close>

lemma F1_e_cases:
  assumes "F1_wf F"
  shows "F1_e F a = (if a < 0 \<and> F_p F dvd a then F_p F else a mod F_p F)"
proof (cases "a < 0")
  case True
  define n where "n = - a"
  have n: "0 < n" "a = - n" using True by (simp_all add: n_def)
  have p: "0 < F_p F" using assms by (simp add: F1_wf_def)
  have "F1_e F a = F_p F - n mod F_p F"
    using n p by (auto simp: F1_e_def Let_def smod_nonneg)
  also have "\<dots> = (if F_p F dvd n then F_p F else (- n) mod F_p F)"
    by (auto simp: zmod_zminus1_eq_if dvd_eq_mod_eq_0)
  finally show ?thesis using n by (simp add: dvd_minus_iff)
qed (use assms in \<open>auto simp: F1_e_def F1_wf_def smod_nonneg\<close>)

lemma F1_e_mod [f1_simps]: "F1_wf F \<Longrightarrow> F1_e F a mod F_p F = a mod F_p F"
  by (auto simp: F1_e_cases)

lemma F1_normalize_e: "F1_normalize F a = F1_e F a"
  by (simp add: F1_normalize_def F1_e_def)

section \<open>The inverse\<close>

lemma inv_loop_correct:
  assumes "0 \<le> newr" "newr < r" "t * a mod p = r mod p" "newt * a mod p = newr mod p"
    and "\<sigma> = 1 \<or> \<sigma> = -1" "0 \<le> - (\<sigma> * t)" "- (\<sigma> * t) \<le> \<sigma> * newt"
    and "r * (\<sigma> * newt) + newr * - (\<sigma> * t) = p"
  shows "inv_loop t newt r newr * a mod p = gcd r newr mod p
    \<and> \<bar>inv_loop t newt r newr\<bar> * gcd r newr \<le> (p :: int)"
  using assms
proof (induction t newt r newr arbitrary: \<sigma> rule: inv_loop.induct)
  case (1 t newt r newr)
  show ?case
  proof (cases "newr = 0")
    case True
    have "r * - (\<sigma> * t) \<le> r * (\<sigma> * newt)" using "1.prems" by (intro mult_left_mono) simp_all
    then have "r * - (\<sigma> * t) \<le> p" using "1.prems" True by simp
    moreover have "\<bar>t\<bar> = - (\<sigma> * t)" using "1.prems" by auto
    moreover have "inv_loop t newt r newr = t" using True by simp
    ultimately show ?thesis using True "1.prems" by (simp add: mult.commute)
  next
    case False
    define q where "q = r div newr"
    have q: "q = r sdiv newr" using "1.prems" False by (simp add: q_def sdiv_nonneg)
    have r: "r - q * newr = r mod newr" by (simp add: q_def minus_div_mult_eq_mod)
    have "1 \<le> q" using "1.prems" False by (simp add: q_def pos_imp_zdiv_pos_iff Suc_leI int_one_le_iff_zero_less)
    have step: "(t - q * newt) * a mod p = (r - q * newr) mod p"
    proof -
      have "(t - q * newt) * a mod p = (t * a - q * (newt * a)) mod p" by (simp add: algebra_simps)
      also have "\<dots> = (r - q * newr) mod p" using "1.prems"(3,4) by (metis mod_diff_cong mod_mult_cong)
      finally show ?thesis .
    qed
    have le: "\<sigma> * newt \<le> q * (\<sigma> * newt)"
      using \<open>1 \<le> q\<close> "1.prems" mult_right_mono [of 1 q "\<sigma> * newt"] by simp
    have IH: "inv_loop newt (t - q * newt) newr (r - q * newr) * a mod p = gcd newr (r - q * newr) mod p
      \<and> \<bar>inv_loop newt (t - q * newt) newr (r - q * newr)\<bar> * gcd newr (r - q * newr) \<le> p"
    proof (rule "1.IH" [OF False q])
      show "0 \<le> r - q * newr" "r - q * newr < newr" using "1.prems" False unfolding r by simp_all
      show "newr * (- \<sigma> * (t - q * newt)) + (r - q * newr) * - (- \<sigma> * newt) = p"
        using "1.prems"(8) by (simp add: algebra_simps)
      show "- (- \<sigma> * newt) \<le> - \<sigma> * (t - q * newt)" using le "1.prems" by (simp add: algebra_simps)
      show "0 \<le> - (- \<sigma> * newt)" using "1.prems" by simp
    qed (use "1.prems" step in auto)
    have "gcd newr (r - q * newr) = gcd r newr" unfolding r by (rule gcd_red_int [symmetric])
    then show ?thesis using IH False by (simp add: inv_loop.simps [of t newt r newr] q Let_def)
  qed
qed

lemma F1_inv_correct:
  assumes F: "F1_wf F" and a: "0 \<le> a" "coprime a (F_p F)"
  obtains x where "F1_inv F a = ret x" "in_field F x" "a * x mod F_p F = 1"
proof -
  define p where "p = F_p F"
  have p: "1 < p" using F by (simp add: F1_wf_def p_def)
  define t where "t = inv_loop 0 1 p (a mod p)"
  have "t * a mod p = gcd p (a mod p) mod p \<and> \<bar>t\<bar> * gcd p (a mod p) \<le> p"
    unfolding t_def by (rule inv_loop_correct [where \<sigma> = 1]) (use p in simp_all)
  moreover have "gcd p (a mod p) = 1"
    using a(2) by (metis p_def coprime_iff_gcd_eq_1 gcd.commute gcd_red_int)
  ultimately have t: "t * a mod p = 1" "\<bar>t\<bar> \<le> p" using p by simp_all
  have "t \<noteq> p" "t \<noteq> - p" using t(1) by auto
  with t(2) have bound: "- p < t" "t < p" by auto
  have "a \<noteq> 0" using t(1) by auto
  define x where "x = (if t < 0 then t + p else t)"
  have "a * x mod p = t * a mod p" by (simp add: x_def algebra_simps)
  moreover have "F1_inv F a = ret x"
    using F a p \<open>a \<noteq> 0\<close> by (simp add: F1_inv_def F1_wf_simps smod_nonneg Let_def x_def t_def p_def)
  moreover have "in_field F x" using bound by (simp add: in_field_def x_def p_def)
  ultimately show ?thesis using that t(1) by (simp add: p_def)
qed

section \<open>Exponentiation and double-and-add\<close>

lemma foldl_signed_value: "foldl (\<lambda>k d. 2 * k + d) k (rev ds) = 2 ^ length ds * k + signed_value ds"
  by (induction ds arbitrary: k) (simp_all add: algebra_simps)

lemma foldl_signed_value_last:
  assumes "ds \<noteq> []"
  shows "foldl (\<lambda>k d. 2 * k + d) (last ds) (tl (rev ds)) = signed_value ds"
proof -
  obtain d rs where rs: "rev ds = d # rs" using assms by (cases "rev ds") auto
  then have "last ds = d" using hd_rev [of ds] by simp
  then show ?thesis using foldl_signed_value [of 0 ds] by (simp add: rs)
qed

lemma set_tl_rev: "set ds \<subseteq> A \<Longrightarrow> set (tl (rev ds)) \<subseteq> A"
  by (cases "rev ds") (auto simp flip: set_rev [of ds])

lemma in_field_F1_mul: "F1_wf F \<Longrightarrow> 0 \<le> a \<Longrightarrow> 0 \<le> b \<Longrightarrow> in_field F (F1_mul F a b)"
  by (simp add: F1_mul_mod)

lemma in_field_F1_square: "F1_wf F \<Longrightarrow> in_field F (F1_square F a)"
  by (simp add: F1_square_mod)

lemma in_field_F1_double: "F1_wf F \<Longrightarrow> in_field F a \<Longrightarrow> in_field F (F1_double F a)"
  by (simp add: F1_double_mod)

lemma mulScalar_loop_mod:
  assumes "F1_wf F" "in_field F base" "in_field F res" "res = k * base mod F_p F" "set ns \<subseteq> {-1, 0, 1}"
  shows "mulScalar_loop F base ns res = foldl (\<lambda>k d. 2 * k + d) k ns * base mod F_p F"
  using assms(3-)
proof (induction ns arbitrary: res k)
  case (Cons n ns)
  define d where "d = F1_double F res"
  have d: "in_field F d" "d = 2 * k * base mod F_p F"
    unfolding d_def using Cons.prems assms(1)
    by (simp_all add: F1_double_mod mod_mult_right_eq mult.assoc)
  define res' where "res' = (if n = 1 then F1_add F d base else if n = -1 then F1_sub F d base else d)"
  have "res' = (2 * k + n) * base mod F_p F"
    using Cons.prems(3) d(1) assms(2) unfolding res'_def
    by (auto simp: F1_add_mod F1_sub_mod d(2) mod_add_left_eq mod_add_right_eq mod_diff_left_eq algebra_simps)
  moreover from this have "in_field F res'" using assms(1) by simp
  ultimately have "mulScalar_loop F base ns res' = foldl (\<lambda>k d. 2 * k + d) (2 * k + n) ns * base mod F_p F"
    using Cons.prems by (intro Cons.IH) simp_all
  then show ?case
    unfolding foldl_Cons mulScalar_loop.simps Let_def d_def [symmetric] res'_def [symmetric] .
qed simp

lemma naf_mulScalar_correct:
  assumes F: "F1_wf F" "in_field F base" and e: "0 \<le> e"
  shows "naf_mulScalar F base e = ret (e * base mod F_p F)"
proof (cases "e = 0")
  case False
  obtain ds where ds: "Scalar_naf e = ret ds" "signed_value ds = e" "set ds \<subseteq> {-1, 0, 1}" "ds \<noteq> []" "last ds = 1"
    using Scalar_naf_naf [of e] False e by (auto simp: naf_of_def)
  have "mulScalar_loop F base (tl (rev ds)) base
      = foldl (\<lambda>k d. 2 * k + d) 1 (tl (rev ds)) * base mod F_p F"
    using F ds(3) by (intro mulScalar_loop_mod) (simp_all add: in_field_mod_id set_tl_rev)
  then show ?thesis
    using ds False foldl_signed_value_last [OF ds(4)]
    by (simp add: naf_mulScalar_def Scalar_isZero_def Scalar_zero_def)
qed (use F in \<open>simp add: naf_mulScalar_def Scalar_isZero_def Scalar_zero_def f1_simps\<close>)

text \<open>The accumulator is a power of the base, whose exponent doubles at each bit.\<close>

lemma exp_loop_mod:
  assumes F: "F1_wf F" and "0 \<le> base" "0 \<le> res" "res mod F_p F = base ^ nat k mod F_p F" "0 \<le> k" "set ns \<subseteq> {0, 1}"
  shows "exp_loop F base ns res mod F_p F = base ^ nat (foldl (\<lambda>k d. 2 * k + d) k ns) mod F_p F
    \<and> 0 \<le> exp_loop F base ns res"
  using assms(3-)
proof (induction ns arbitrary: res k)
  case (Cons n ns)
  define sq where "sq = F1_square F res"
  define res' where "res' = (if n \<noteq> 0 then F1_mul F sq base else sq)"
  have sq: "0 \<le> sq" "sq = base ^ nat (2 * k) mod F_p F"
  proof -
    have "sq = res * res mod F_p F" by (simp add: sq_def F1_square_mod F)
    also have "\<dots> = (base ^ nat k) * (base ^ nat k) mod F_p F"
      using Cons.prems(2) by (metis mod_mult_eq)
    finally show "sq = base ^ nat (2 * k) mod F_p F"
      unfolding power_add [symmetric] mult_2 nat_add_distrib [OF Cons.prems(3) Cons.prems(3)] .
    show "0 \<le> sq" using F by (simp add: sq_def F1_square_mod F1_wf_def)
  qed
  have "res' mod F_p F = base ^ nat (2 * k + n) mod F_p F \<and> 0 \<le> res'"
  proof (cases "n = 0")
    case True
    then show ?thesis using sq by (simp add: res'_def)
  next
    case False
    then have n: "n = 1" using Cons.prems by auto
    have "res' = sq * base mod F_p F" using n sq F assms(2) by (simp add: res'_def F1_mul_mod)
    also have "\<dots> = base ^ nat (2 * k) * base mod F_p F" by (simp add: sq(2) mod_mult_left_eq)
    also have "\<dots> = base ^ nat (2 * k + 1) mod F_p F"
      using Cons.prems by (simp add: nat_add_distrib mult.commute)
    finally show ?thesis using n F by (simp add: F1_wf_def)
  qed
  then have "exp_loop F base ns res' mod F_p F = base ^ nat (foldl (\<lambda>k d. 2 * k + d) (2 * k + n) ns) mod F_p F
    \<and> 0 \<le> exp_loop F base ns res'"
    using Cons.prems by (intro Cons.IH) auto
  then show ?case
    unfolding foldl_Cons exp_loop.simps Let_def sq_def [symmetric] res'_def [symmetric] .
qed simp

lemma exp_loop_in_field:
  "F1_wf F \<Longrightarrow> in_field F base \<Longrightarrow> in_field F res \<Longrightarrow> in_field F (exp_loop F base ns res)"
proof (induction ns arbitrary: res)
  case (Cons n ns)
  have "in_field F (if n \<noteq> 0 then F1_mul F (F1_square F res) base else F1_square F res)"
    using Cons.prems by (auto intro!: in_field_F1_mul in_field_F1_square dest: in_field_nonneg [OF in_field_F1_square] in_field_nonneg)
  then show ?case using Cons.IH Cons.prems by (simp add: Let_def)
qed simp

lemma binary_last: "0 < n \<Longrightarrow> binary n \<noteq> [] \<and> last (binary n) = 1"
proof (induction n rule: less_induct)
  case (less n)
  show ?case
  proof (cases "n div 2 = 0")
    case True
    then have "n = 1" using less.prems by simp
    then show ?thesis by (simp add: binary_pos)
  next
    case False
    then have "binary (n div 2) \<noteq> [] \<and> last (binary (n div 2)) = 1" by (intro less.IH) simp_all
    then show ?thesis using less.prems by (simp add: binary_pos)
  qed
qed

lemma F1_exp_correct:
  assumes F: "F1_wf F" and base: "in_field F base" and e: "0 \<le> e"
  shows "F1_exp F base e = ret (base ^ nat e mod F_p F)"
proof (cases "e = 0")
  case False
  define ds where "ds = binary (nat e)"
  have ds: "Scalar_bits e = ret ds" "ds \<noteq> []" "last ds = 1" "signed_value ds = e" "set ds \<subseteq> {0, 1}"
    using e False binary_last [of "nat e"] binary_digits [of _ "nat e"]
    by (auto simp: ds_def Scalar_bits_binary signed_value_binary)
  define x where "x = exp_loop F base (tl (rev ds)) base"
  have "x mod F_p F = base ^ nat (foldl (\<lambda>k d. 2 * k + d) 1 (tl (rev ds))) mod F_p F"
    unfolding x_def using F base ds(5)
    by (intro conjunct1 [OF exp_loop_mod]) (simp_all add: in_field_nonneg set_tl_rev)
  also have "foldl (\<lambda>k d. 2 * k + d) 1 (tl (rev ds)) = e"
    using foldl_signed_value_last [OF ds(2)] by (simp add: ds)
  also have "x mod F_p F = x"
    unfolding x_def using F base by (intro in_field_mod_id exp_loop_in_field)
  finally show ?thesis
    using ds False by (simp add: F1_exp_def Scalar_isZero_def Scalar_zero_def x_def)
qed (use F in \<open>simp add: F1_exp_def Scalar_isZero_def Scalar_zero_def F1_wf_def\<close>)

section \<open>Square roots\<close>

text \<open>What \<open>tonelliShanks\<close> sets up when the drawn element is not zero: \<open>p - 1 = 2^s * t\<close> with
  \<open>t\<close> odd, and \<open>z\<close> of order \<open>2^s\<close>.\<close>

definition F1_sqrt_wf :: "F1Field \<Rightarrow> bool" where
  "F1_sqrt_wf F \<longleftrightarrow> F1_wf F \<and> 1 \<le> sqrt_s F \<and> F_p F - 1 = 2 ^ nat (sqrt_s F) * sqrt_t F
     \<and> odd (sqrt_t F) \<and> sqrt_tm1d2 F = (sqrt_t F - 1) div 2 \<and> in_field F (sqrt_z F)
     \<and> sqrt_z F ^ 2 ^ nat (sqrt_s F - 1) mod F_p F = F_p F - 1"

lemma power_double: "(x * x) ^ 2 ^ k = (x :: int) ^ 2 ^ Suc k"
  by (simp add: power_mult power2_eq_square)

lemma power_split: "m \<le> n \<Longrightarrow> (x ^ 2 ^ (n - m)) ^ 2 ^ m = (x :: int) ^ 2 ^ n"
  by (simp flip: power_mult power_add)

lemma order_loop_returns:
  assumes F: "F1_wf F"
  shows "in_field F b \<Longrightarrow> b ^ 2 ^ m mod F_p F = 1 \<Longrightarrow>
    \<exists>j \<le> m. order_loop F b k = ret (k + j) \<and> b ^ 2 ^ j mod F_p F = 1 \<and> (\<forall>i < j. b ^ 2 ^ i mod F_p F \<noteq> 1)"
proof (induction m arbitrary: b k)
  case 0
  then have "b = 1" by (simp add: in_field_mod_id)
  then show ?case using F F1_wf_p [OF F] by (simp add: order_loop.simps F1_eq_def F1_wf_simps)
next
  case (Suc m)
  have p: "1 < F_p F" using F by (rule F1_wf_p)
  show ?case
  proof (cases "b = 1")
    case True
    then show ?thesis using F p by (intro exI [of _ 0]) (simp add: order_loop.simps F1_eq_def F1_wf_simps)
  next
    case False
    define b2 where "b2 = F1_square F b"
    have pow: "b2 ^ 2 ^ i mod F_p F = b ^ 2 ^ Suc i mod F_p F" for i
      unfolding b2_def F1_square_mod [OF F] power_mod power_double ..
    obtain j where j: "j \<le> m" "order_loop F b2 (k + 1) = ret (k + 1 + j)" "b2 ^ 2 ^ j mod F_p F = 1"
        "\<forall>i < j. b2 ^ 2 ^ i mod F_p F \<noteq> 1"
      using Suc.IH [of b2 "k + 1"] Suc.prems in_field_F1_square [OF F] pow [of m] unfolding b2_def by auto
    have min: "b ^ 2 ^ i mod F_p F \<noteq> 1" if "i < Suc j" for i
    proof (cases i)
      case 0
      then show ?thesis using False Suc.prems(1) by (simp add: in_field_mod_id)
    next
      case (Suc i')
      then have "b2 ^ 2 ^ i' mod F_p F \<noteq> 1" using j(4) \<open>i < Suc j\<close> by simp
      then show ?thesis using pow [of i'] Suc by simp
    qed
    have "order_loop F b k = ret (k + Suc j)"
      using j(2) False F by (simp add: order_loop.simps [of F b] F1_eq_def F1_wf_simps b2_def)
    with j min pow [of j] show ?thesis by (intro exI [of _ "Suc j"]) simp
  qed
qed

lemma square_times_mod:
  assumes F: "F1_wf F"
  shows "in_field F w \<Longrightarrow> square_times F n w = w ^ 2 ^ n mod F_p F"
proof (induction n arbitrary: w)
  case 0
  then show ?case by (simp add: in_field_mod_id)
next
  case (Suc n)
  have "square_times F (Suc n) w = (w * w mod F_p F) ^ 2 ^ n mod F_p F"
    using Suc.IH [OF in_field_F1_square [OF F]] by (simp add: F1_square_mod [OF F])
  then show ?case unfolding power_mod power_double .
qed

lemma minus_one_squared: "1 < p \<Longrightarrow> (p - 1) * (p - 1) mod p = (1 :: int)"
  using mod_mult_eq [of "- 1" p "- 1"] by (simp add: zmod_minus1)

lemma sqrt_loop_correct:
  assumes F: "F1_wf F" and p: "prime_modulus (F_p F)" and a: "0 \<le> a"
  shows "in_field F x \<Longrightarrow> in_field F b \<Longrightarrow> in_field F z \<Longrightarrow> 1 \<le> V
    \<Longrightarrow> z ^ 2 ^ (V - 1) mod F_p F = F_p F - 1 \<Longrightarrow> b ^ 2 ^ (V - 1) mod F_p F = 1
    \<Longrightarrow> x * x mod F_p F = a * b mod F_p F
    \<Longrightarrow> \<exists>y. sqrt_loop F (int V) x b z = ret y \<and> in_field F y \<and> y * y mod F_p F = a mod F_p F"
proof (induction V arbitrary: x b z rule: less_induct)
  case (less V)
  note P = less.prems
  have p1: "1 < F_p F" using F by (rule F1_wf_p)
  show ?case
  proof (cases "b = 1")
    case True
    then show ?thesis using P F by (simp add: sqrt_loop.simps [of F "int V"] F1_eq_def F1_wf_simps)
  next
    case False
    then have "V \<noteq> 1" using P(2,6) by (auto simp: in_field_mod_id)
    then obtain m where V: "V = Suc (Suc m)" using P(4) by (cases V; cases "V - 1") auto
    define b2 where "b2 = F1_square F b"
    have pow: "b2 ^ 2 ^ i mod F_p F = b ^ 2 ^ Suc i mod F_p F" for i
      unfolding b2_def F1_square_mod [OF F] power_mod power_double ..
    obtain j where j: "j \<le> m" "order_loop F b2 1 = ret (Suc j)" "b ^ 2 ^ Suc j mod F_p F = 1"
        "\<forall>i < j. b ^ 2 ^ Suc i mod F_p F \<noteq> 1"
      using order_loop_returns [OF F, of b2 m 1] in_field_F1_square [OF F] pow P(6) unfolding V b2_def by auto
    have half: "b ^ 2 ^ j mod F_p F = F_p F - 1"
    proof -
      have "b ^ 2 ^ j mod F_p F \<noteq> 1"
      proof (cases j)
        case 0
        then show ?thesis using False P(2) by (simp add: in_field_mod_id)
      next
        case (Suc i)
        then show ?thesis using j(4) by blast
      qed
      moreover have "b ^ 2 ^ j * b ^ 2 ^ j mod F_p F = 1" using j(3) by (simp flip: power_add add: mult_2)
      ultimately show ?thesis using square_root_one [OF p] by blast
    qed
    define w where "w = square_times F (nat (int V - int (Suc j) - 1)) z"
    define z' where "z' = F1_square F w"
    have w: "w = z ^ 2 ^ (m - j) mod F_p F"
      using j(1) by (simp add: w_def V square_times_mod [OF F P(3)] nat_diff_distrib)
    have w_in: "in_field F w" "in_field F z'" using F by (simp_all add: w z'_def in_field_F1_square)
    have z'w: "z' mod F_p F = w * w mod F_p F" by (simp add: z'_def F1_square_mod F)
    have z': "z' ^ 2 ^ j mod F_p F = F_p F - 1"
    proof -
      have "z' ^ 2 ^ j mod F_p F = w ^ 2 ^ Suc j mod F_p F"
        using mod_power_cong [OF z'w, of "2 ^ j"] unfolding power_double .
      also have "\<dots> = (z ^ 2 ^ (Suc m - Suc j)) ^ 2 ^ Suc j mod F_p F"
        unfolding w power_mod by simp
      also have "\<dots> = z ^ 2 ^ Suc m mod F_p F" using j(1) by (subst power_split) simp_all
      finally show ?thesis using P(5) by (simp add: V)
    qed
    define x' where "x' = F1_mul F x w"
    define b' where "b' = F1_mul F b z'"
    have x': "in_field F x'" "x' = x * w mod F_p F" and b': "in_field F b'" "b' = b * z' mod F_p F"
      using F P w_in by (simp_all add: x'_def b'_def F1_mul_mod in_field_nonneg)
    have "\<exists>y. sqrt_loop F (int (Suc j)) x' b' z' = ret y \<and> in_field F y \<and> y * y mod F_p F = a mod F_p F"
    proof (rule less.IH)
      show "Suc j < V" using j(1) V by simp
      show "z' ^ 2 ^ (Suc j - 1) mod F_p F = F_p F - 1" using z' by simp
      show "b' ^ 2 ^ (Suc j - 1) mod F_p F = 1"
        using mod_mult_eq [of "b ^ 2 ^ j" "F_p F" "z' ^ 2 ^ j"] minus_one_squared [OF p1]
        by (simp add: b'(2) power_mod power_mult_distrib half z')
      have "x' * x' mod F_p F = (x * x) * (w * w) mod F_p F"
        by (simp add: x'(2) mod_mult_eq ac_simps)
      also have "\<dots> = (a * b) * z' mod F_p F" by (rule mod_mult_cong [OF P(7) z'w [symmetric]])
      also have "\<dots> = a * b' mod F_p F" by (simp add: b'(2) mod_mult_right_eq mult.assoc)
      finally show "x' * x' mod F_p F = a * b' mod F_p F" .
    qed (use x' b' w_in in simp_all)
    moreover have "sqrt_loop F (int V) x b z = sqrt_loop F (int (Suc j)) x' b' z'"
      using False F j(2) unfolding sqrt_loop.simps [of F "int V"] F1_eq_def F1_wf_simps [OF F] b2_def [symmetric]
        x'_def b'_def z'_def w_def
      by (simp add: Let_def)
    ultimately show ?thesis by simp
  qed
qed

text \<open>The exponent \<open>t * 2^(s-1)\<close> is \<open>(p-1)/2\<close>: Euler's criterion.\<close>

lemma sqrt_exponent:
  assumes "p - 1 = 2 ^ nat s * t" "1 \<le> s" "1 < (p :: int)"
  shows "p - 1 = 2 * int (nat t * 2 ^ nat (s - 1))"
proof -
  have "0 < 2 ^ nat s * t" using assms by simp
  then have "0 < t" by (simp add: zero_less_mult_iff)
  moreover have "nat s = Suc (nat (s - 1))" using assms(2) by arith
  ultimately show ?thesis using assms(1) by simp
qed

lemma F1_sqrt_total:
  assumes S: "F1_sqrt_wf F" and p: "prime_modulus (F_p F)" and a: "in_field F a"
  shows "\<exists>r. F1_sqrt F a = ret r \<and>
    (case r of None \<Rightarrow> \<not> (\<exists>y. y * y mod F_p F = a)
     | Some x \<Rightarrow> 0 \<le> x \<and> x \<le> F_half F \<and> x * x mod F_p F = a)"
proof (cases "a = 0")
  case True
  have "F1_wf F" using S by (simp add: F1_sqrt_wf_def)
  then show ?thesis using True F1_wf_p [of F] by (simp add: F1_sqrt_def F1_isZero_def F1_wf_simps)
next
  case False
  define P where "P = F_p F"
  have F: "F1_wf F" and s1: "1 \<le> sqrt_s F" and tm: "sqrt_tm1d2 F = (sqrt_t F - 1) div 2" and odd: "odd (sqrt_t F)"
    and z: "in_field F (sqrt_z F)" "sqrt_z F ^ 2 ^ nat (sqrt_s F - 1) mod P = P - 1"
    and fact: "P - 1 = 2 ^ nat (sqrt_s F) * sqrt_t F"
    using S by (simp_all add: F1_sqrt_wf_def P_def)
  have p1: "1 < P" using F by (simp add: F1_wf_p P_def)
  have t: "0 < sqrt_t F"
  proof -
    have "0 < 2 ^ nat (sqrt_s F) * sqrt_t F" using fact p1 by simp
    then show ?thesis by (simp add: zero_less_mult_iff)
  qed
  have "even (2 ^ nat (sqrt_s F) * sqrt_t F)" using s1 by simp
  then have P3: "P - 1 \<noteq> 1" unfolding fact [symmetric] by auto
  have "\<not> P dvd a" using a False by (auto simp: in_field_def P_def dest: zdvd_imp_le)
  define k where "k = nat (sqrt_tm1d2 F)"
  define V where "V = nat (sqrt_s F)"
  define h where "h = nat (sqrt_t F) * 2 ^ (V - 1)"
  have V: "sqrt_s F = int V" "1 \<le> V" "nat (sqrt_s F - 1) = V - 1" using s1 by (simp_all add: V_def nat_diff_distrib)
  have k: "0 \<le> sqrt_tm1d2 F" "2 * k + 1 = nat (sqrt_t F)"
    using odd t by (auto simp: k_def tm elim!: oddE)
  note euler = euler_half [OF p, folded P_def, OF sqrt_exponent [OF fact s1 p1], unfolded V(3), folded h_def]
  define w where "w = a ^ k mod P"
  have w: "F1_pow F a (sqrt_tm1d2 F) = ret w"
    unfolding F1_pow_def F1_exp_correct [OF F a k(1)] by (simp add: w_def k_def P_def)
  have w_in: "in_field F w" using F by (simp add: w_def P_def)
  have wwa: "w * w * a mod P = a ^ nat (sqrt_t F) mod P"
  proof -
    have "w * w * a mod P = a ^ k * a ^ k * a mod P"
      unfolding w_def by (rule mod_mult_cong [OF mod_mult_eq refl])
    also have "a ^ k * a ^ k * a = a ^ nat (sqrt_t F)" by (simp add: mult_2 power_add flip: k(2))
    finally show ?thesis .
  qed
  define u where "u = F1_mul F (F1_square F w) a"
  have u: "u = a ^ nat (sqrt_t F) mod P"
    using in_field_nonneg [OF a] F in_field_nonneg [OF in_field_F1_square [OF F]]
    by (simp add: u_def F1_mul_mod) (simp add: F1_square_mod mod_mult_left_eq wwa P_def [symmetric])
  have u_in: "in_field F u" using F by (simp add: u P_def)
  have e: "bigint_pow 2 (sqrt_s F - Scalar_one) = ret (2 ^ (V - 1))"
    using V by (simp add: bigint_pow_def Scalar_one_def)
  have u_pow: "u ^ 2 ^ (V - 1) mod P = a ^ h mod P"
    unfolding u power_mod h_def by (simp add: power_mult)
  have a0: "F1_pow F u (2 ^ (V - 1)) = ret (a ^ h mod P)"
    using F1_exp_correct [OF F u_in, of "2 ^ (V - 1)"] u_pow by (simp add: F1_pow_def P_def nat_power_eq)
  have neg: "F_negone F = P - 1" "F_zero F = 0" using F by (simp_all add: F1_wf_simps P_def)
  show ?thesis
  proof (cases "a ^ h mod P = P - 1")
    case True
    have "\<not> (\<exists>y. y * y mod P = a)"
    proof
      assume "\<exists>y. y * y mod P = a"
      then obtain y where y: "y * y mod P = a" ..
      then have "\<not> P dvd y" using False by auto
      then have "(y * y) ^ h mod P = 1" by (rule euler(2))
      moreover have "a ^ h mod P = (y * y) ^ h mod P" unfolding y [symmetric] by (rule power_mod)
      ultimately show False using True P3 by simp
    qed
    moreover have "F1_sqrt F a = ret None"
      using True False w e a0 by (simp add: F1_sqrt_def F1_isZero_def neg F1_eq_def flip: u_def)
    ultimately show ?thesis by (simp add: P_def)
  next
    case nr: False
    then have one: "a ^ h mod P = 1" using euler(1) \<open>\<not> P dvd a\<close> by blast
    define x where "x = F1_mul F a w"
    define b where "b = F1_mul F x w"
    have x: "in_field F x" "x = a * w mod P"
      using F a w_in by (simp_all add: x_def F1_mul_mod in_field_nonneg P_def)
    have b: "in_field F b" "b = x * w mod P"
      using F x(1) w_in by (simp_all add: b_def F1_mul_mod in_field_nonneg P_def)
    have bu: "b = u" using wwa unfolding b(2) x(2) u mod_mult_left_eq by (simp add: ac_simps)
    have "x * x mod P = a * b mod P"
      unfolding b(2) x(2) mod_mult_eq mod_mult_right_eq mod_mult_left_eq
      by (simp only: mult.assoc mod_mult_left_eq mod_mult_right_eq) (simp add: ac_simps)
    then obtain y where y: "sqrt_loop F (int V) x b (sqrt_z F) = ret y" "in_field F y" "y * y mod P = a mod P"
      using sqrt_loop_correct [OF F p, of a x b "sqrt_z F" V] a x b z V one u_pow
      by (auto simp: in_field_nonneg P_def bu)
    define r where "r = (if F1_geq F y (F_zero F) then y else F1_neg F y)"
    have "F1_sqrt F a = ret (Some r)"
      using nr False w e a0 y V(1)
      by (simp add: F1_sqrt_def F1_isZero_def neg F1_eq_def r_def Let_def b_def x_def flip: u_def)
    moreover have "0 \<le> r \<and> r \<le> F_half F \<and> r * r mod P = a"
    proof (cases "y \<le> P div 2")
      case True
      then have "r = y" using y(2) p1 F by (simp add: r_def F1_geq_def Let_def F1_wf_simps P_def in_field_def)
      then show ?thesis using True y a F by (simp add: in_field_def F1_wf_simps P_def)
    next
      case False
      then have r: "r = P - y"
        using y(2) p1 F by (auto simp: r_def F1_geq_def F1_neg_def Let_def F1_wf_simps P_def in_field_def)
      have "(P - y) * (P - y) = y * y + (P - 2 * y) * P" by (simp add: algebra_simps)
      then have "r * r mod P = y * y mod P" by (simp add: r)
      then show ?thesis using False y a F p1 by (auto simp: r in_field_def F1_wf_simps P_def)
    qed
    ultimately show ?thesis by (simp add: P_def)
  qed
qed

section \<open>Construction establishes the invariants\<close>

text \<open>The Montgomery constants, and that an element fits in \<open>n8\<close> bytes.\<close>

definition F1_mont_wf :: "F1Field \<Rightarrow> bool" where
  "F1_mont_wf F \<longleftrightarrow> F1_wf F \<and> 0 < F_n64 F \<and> F_n8 F = F_n64 F * 8 \<and> F_p F < 256 ^ F_n8 F
     \<and> in_field F (F_R F) \<and> in_field F (F_Ri F) \<and> F_R F * F_Ri F mod F_p F = 1"

lemma bitLength_negative: "a < 0 \<Longrightarrow> Scalar_bitLength a = None"
proof -
  have "parseInt16 ''-'' = None" by code_simp
  then show "a < 0 \<Longrightarrow> Scalar_bitLength a = None"
    by (simp add: Scalar_bitLength_def to_radix_def)
qed

lemma sqrt_odd_part_returns:
  "0 < t \<Longrightarrow> \<exists>k t'. sqrt_odd_part s t = ret (s + int k, t') \<and> t = 2 ^ k * t' \<and> odd t'"
proof (induction "nat t" arbitrary: s t rule: less_induct)
  case less
  show ?case
  proof (cases "odd t")
    case True
    then have "sqrt_odd_part s t = ret (s, t)"
      by (simp add: sqrt_odd_part.simps [of s t] Scalar_isOdd_def Scalar_one_def and_one_mod2 odd_iff_mod_2_eq_one)
    then show ?thesis using True by (intro exI [of _ 0] exI [of _ t]) simp
  next
    case False
    then have u: "t = 2 * (t div 2)" "0 < t div 2" using less.prems by auto
    then have "nat (t div 2) < nat t" by arith
    then obtain k t' where k: "sqrt_odd_part (s + 1) (t div 2) = ret (s + 1 + int k, t')" "t div 2 = 2 ^ k * t'" "odd t'"
      using less.hyps [of "t div 2" "s + 1"] u(2) by blast
    have "sqrt_odd_part s t = sqrt_odd_part (s + 1) (t div 2)"
      using False less.prems
      by (simp add: sqrt_odd_part.simps [of s t] Scalar_isOdd_def Scalar_one_def and_one_mod2
          Scalar_div_def bigint_div_def sdiv_nonneg odd_iff_mod_2_eq_one)
    with k u(1) show ?thesis by (intro exI [of _ "Suc k"] exI [of _ t']) (simp add: algebra_simps)
  qed
qed

text \<open>The element that \<open>sqrt_z_loop\<close> stops at is a drawn one to the power \<open>t\<close>.\<close>

definition sqrt_z_found :: "F1Field \<Rightarrow> (nat \<Rightarrow> bytes) \<Rightarrow> int \<Rightarrow> bool" where
  "sqrt_z_found F draws z \<longleftrightarrow> (\<exists>i e c0. F1_pow F (F1_random F (draws i)) (sqrt_t F) = ret z
     \<and> bigint_pow 2 (sqrt_s F - Scalar_one) = ret e \<and> F1_pow F z e = ret c0 \<and> c0 \<noteq> F_one F)"

lemma sqrt_z_loop_found:
  assumes "sqrt_z_loop F draws i c0 z = Some r"
  shows "c0 = F_one F \<or> sqrt_z_found F draws z \<longrightarrow> r = Inr z' \<longrightarrow> sqrt_z_found F draws z'"
  using assms
proof (rule sqrt_z_loop.raw_induct [where P = "\<lambda>F draws i c0 z r.
    c0 = F_one F \<or> sqrt_z_found F draws z \<longrightarrow> r = Inr z' \<longrightarrow> sqrt_z_found F draws z'", rotated])
  fix loop :: "F1Field \<Rightarrow> (nat \<Rightarrow> bytes) \<Rightarrow> nat \<Rightarrow> int \<Rightarrow> int \<Rightarrow> int js" and F draws i c0 z r
  assume IH: "\<And>F draws i c0 z r. loop F draws i c0 z = Some r \<Longrightarrow>
      c0 = F_one F \<or> sqrt_z_found F draws z \<longrightarrow> r = Inr z' \<longrightarrow> sqrt_z_found F draws z'"
    and body: "(if F1_eq F c0 (F_one F) then bindJ (F1_pow F (F1_random F (draws i)) (sqrt_t F)) (\<lambda>z'.
       bindJ (bigint_pow 2 (sqrt_s F - Scalar_one)) (\<lambda>e.
       bindJ (F1_pow F z' e) (\<lambda>c0'. loop F draws (i + 1) c0' z'))) else ret z) = Some r"
  show "c0 = F_one F \<or> sqrt_z_found F draws z \<longrightarrow> r = Inr z' \<longrightarrow> sqrt_z_found F draws z'"
  proof (intro impI)
    assume start: "c0 = F_one F \<or> sqrt_z_found F draws z" and r: "r = Inr z'"
    show "sqrt_z_found F draws z'"
    proof (cases "c0 = F_one F")
      case True
      then obtain z1 e c1 where steps: "F1_pow F (F1_random F (draws i)) (sqrt_t F) = ret z1"
          "bigint_pow 2 (sqrt_s F - Scalar_one) = ret e" "F1_pow F z1 e = ret c1" "loop F draws (i + 1) c1 z1 = ret z'"
        using body r by (auto simp: F1_eq_def bindJ_eq_ret simp flip: ret_def)
      then have "c1 = F_one F \<or> sqrt_z_found F draws z1" by (auto simp: sqrt_z_found_def)
      then show ?thesis using IH [of F draws "i + 1" c1 z1 "Inr z'"] steps(4) by (simp add: ret_def)
    next
      case False
      then show ?thesis using body start r by (simp add: F1_eq_def ret_def)
    qed
  qed
qed

lemma F1_random_in_field: "F1_wf F \<Longrightarrow> in_field F (F1_random F drawn)"
proof -
  assume F: "F1_wf F"
  have "0 \<le> foldl (\<lambda>res b. bigint_shl res 8 + uint (b :: 8 word)) x bs" if "0 \<le> x" for x bs
    using that by (induction bs arbitrary: x) (simp_all add: bigint_shl_def)
  moreover have "0 < F_p F" using F1_wf_p [OF F] by simp
  ultimately show ?thesis using F by (simp add: F1_random_def F1_wf_simps smod_nonneg)
qed

lemma tonelliShanks_wf:
  assumes F: "F1_wf F" "F_m F = 1" and p: "prime_modulus (F_p F)" and r: "tonelliShanks F draws = ret F'"
  shows "\<exists>s t z tm. F' = F\<lparr>sqrt_q := F_p F, sqrt_s := s, sqrt_t := t, sqrt_z := z, sqrt_tm1d2 := tm\<rparr>
    \<and> (z \<noteq> 0 \<longrightarrow> F1_sqrt_wf F')"
proof -
  define P where "P = F_p F"
  have p1: "1 < P" using F by (simp add: F1_wf_p P_def)
  obtain k t where kt: "sqrt_odd_part 0 (P - 1) = ret (int k, t)" "P - 1 = 2 ^ k * t" "odd t"
    using sqrt_odd_part_returns [of "P - 1" 0] p1 by auto
  have t: "0 < t"
  proof -
    have "0 < 2 ^ k * t" using kt(2) p1 by simp
    then show ?thesis by (simp add: zero_less_mult_iff)
  qed
  define G where "G = F\<lparr>sqrt_q := P, sqrt_s := int k, sqrt_t := t\<rparr>"
  have G: "F1_wf G" using F(1) by (simp add: G_def F1_wf_def)
  have Gs: "F_p G = P" "sqrt_s G = int k" "sqrt_t G = t" "F_one G = 1"
    using F(1) by (simp_all add: G_def P_def F1_wf_simps)
  obtain z where z: "sqrt_z_loop G draws 0 1 0 = ret z"
      and F': "F' = G\<lparr>sqrt_z := z, sqrt_tm1d2 := (t - 1) div 2\<rparr>"
    using r kt(1) F t
    by (auto simp: tonelliShanks_def Scalar_pow_def bigint_pow_def Scalar_zero_def Scalar_sub_def Scalar_one_def
        Let_def bindJ_eq_ret Scalar_div_def bigint_div_def sdiv_nonneg P_def G_def F1_wf_simps)
  have "F1_sqrt_wf F'" if "z \<noteq> 0"
  proof -
    have "sqrt_z_found G draws z"
      using sqrt_z_loop_found [OF z [unfolded ret_def], of z] by (simp add: Gs)
    then obtain i e c0 where found: "F1_pow G (F1_random G (draws i)) t = ret z"
        "bigint_pow 2 (int k - 1) = ret e" "F1_pow G z e = ret c0" "c0 \<noteq> 1"
      by (auto simp: sqrt_z_found_def Gs Scalar_one_def)
    define c where "c = F1_random G (draws i)"
    have c: "in_field G c" unfolding c_def by (rule F1_random_in_field [OF G])
    have k1: "1 \<le> int k" and e: "e = 2 ^ (k - 1)"
      using found(2) by (auto simp: bigint_pow_def nat_diff_distrib split: if_splits)
    have zc: "z = c ^ nat t mod P"
      using found(1) F1_exp_correct [OF G c, of t] t by (simp add: F1_pow_def Gs flip: c_def)
    have z_in: "in_field G z" using G by (simp add: zc flip: Gs(1))
    have c0: "c0 = z ^ 2 ^ (k - 1) mod P"
      using found(3) F1_exp_correct [OF G z_in, of e] by (simp add: F1_pow_def e Gs nat_power_eq)
    have "\<not> P dvd c"
    proof
      assume "P dvd c"
      then have "P dvd c ^ nat t" using t by (intro dvd_trans [OF _ dvd_power [of "nat t" c]]) simp_all
      then show False using \<open>z \<noteq> 0\<close> by (simp add: zc)
    qed
    have "z ^ 2 ^ (k - 1) mod P = c ^ (nat t * 2 ^ (k - 1)) mod P"
      unfolding zc power_mod by (simp add: power_mult)
    moreover have "P - 1 = 2 * int (nat t * 2 ^ (k - 1))"
    proof -
      have "nat (int k - 1) = k - 1" using k1 by arith
      then show ?thesis using sqrt_exponent [of P "int k" t] kt(2) k1 p1 by simp
    qed
    ultimately have "z ^ 2 ^ (k - 1) mod P = P - 1"
      using euler_half(1) [OF p, folded P_def, of "nat t * 2 ^ (k - 1)" c] \<open>\<not> P dvd c\<close> c0 found(4) by auto
    then show ?thesis
      using F(1) kt k1 z_in by (simp add: F1_sqrt_wf_def F' G_def F1_wf_def in_field_def P_def nat_diff_distrib)
  qed
  then show ?thesis using F' by (auto simp: G_def P_def)
qed

text \<open>The field with its \<open>R\<close>, before the inverse of \<open>R\<close> is computed.\<close>

definition F1Field_with_R :: "int \<Rightarrow> nat \<Rightarrow> F1Field" where
  "F1Field_with_R p bl = (let F = F1Field_init p bl in F\<lparr>F_R := F1_e F (2 ^ (F_n64 F * 64))\<rparr>)"

lemma F1Field_init_simps:
  "F_one (F1Field_init p bl) = 1" "F_zero (F1Field_init p bl) = 0" "F_p (F1Field_init p bl) = p"
  "F_m (F1Field_init p bl) = 1" "F_negone (F1Field_init p bl) = p - 1" "F_half (F1Field_init p bl) = p div 2"
  "F_n64 (F1Field_init p bl) = nat ((int bl - 1) div 64 + 1)" "F_n8 (F1Field_init p bl) = F_n64 (F1Field_init p bl) * 8"
  by (simp_all add: F1Field_init_def Let_def Scalar_one_def bigint_shr_def)

lemma F1Field_new_steps:
  assumes r: "F1Field_new p draws = ret F"
  obtains bl Ri nqr s t nt H k where "0 < p" "Scalar_bitLength p = Some bl"
    "F1_inv (F1Field_with_R p bl) (F_R (F1Field_with_R p bl)) = ret Ri"
    "tonelliShanks (F1Field_with_R p bl\<lparr>F_Ri := Ri, F_nqr := nqr, F_s := s, F_t := t, F_nqr_to_t := nt\<rparr>) draws = ret H"
    "F = H\<lparr>F_shift := F1_square H (F_nqr H), F_k := k\<rparr>"
proof -
  have p: "0 < p"
    using r by (cases "p < 0") (auto simp: F1Field_new_def bitLength_negative split: option.splits if_splits)
  then obtain bl where bl: "Scalar_bitLength p = Some bl" using bitLength_bounds by blast
  define W where "W = F1Field_with_R p bl"
  have W: "(F1Field_init p bl)\<lparr>F_R := F1_e (F1Field_init p bl) (bigint_shl (F_one (F1Field_init p bl))
      (int (F_n64 (F1Field_init p bl) * 64)))\<rparr> = W"
  proof -
    have shl: "bigint_shl 1 (int n) = 2 ^ n" for n by (simp add: bigint_shl_def)
    show ?thesis unfolding W_def F1Field_with_R_def Let_def F1Field_init_simps(1) shl ..
  qed
  show ?thesis
    using r p that [OF p bl, folded W_def]
    unfolding F1Field_new_def bl option.case Let_def W bindJ_eq_ret
    by (auto simp: bindJ_eq_ret split: if_splits)
qed

lemma F1Field_new_p:
  assumes r: "F1Field_new p draws = ret F"
  shows "1 < p"
proof (rule ccontr)
  assume "\<not> 1 < p"
  obtain bl Ri where "0 < p" "Scalar_bitLength p = Some bl"
    "F1_inv (F1Field_with_R p bl) (F_R (F1Field_with_R p bl)) = ret Ri"
    using r by (rule F1Field_new_steps)
  moreover have "p = 1" using \<open>\<not> 1 < p\<close> \<open>0 < p\<close> by simp
  ultimately show False
    by (simp add: F1_inv_def F1Field_with_R_def F1_e_def F1Field_init_simps Let_def smod_nonneg)
qed

lemma F1Field_new_wf:
  assumes r: "F1Field_new p draws = ret F" and p: "prime_modulus p"
  shows "F_p F = p \<and> F1_wf F \<and> F1_mont_wf F \<and> (sqrt_z F \<noteq> 0 \<longrightarrow> F1_sqrt_wf F)"
proof -
  obtain bl Ri nqr s t nt H k where p0: "0 < p" and bl: "Scalar_bitLength p = Some bl"
    and Ri: "F1_inv (F1Field_with_R p bl) (F_R (F1Field_with_R p bl)) = ret Ri"
    and H: "tonelliShanks (F1Field_with_R p bl\<lparr>F_Ri := Ri, F_nqr := nqr, F_s := s, F_t := t, F_nqr_to_t := nt\<rparr>) draws = ret H"
    and F: "F = H\<lparr>F_shift := F1_square H (F_nqr H), F_k := k\<rparr>"
    using r by (rule F1Field_new_steps)
  have p1: "1 < p" by (rule prime_modulus_gt_1 [OF p])
  define W where "W = F1Field_with_R p bl"
  have W: "F1_wf W" "F_m W = 1" "F_p W = p" "F_n8 W = F_n64 W * 8" "F_n64 W = nat ((int bl - 1) div 64 + 1)"
    using p1 by (simp_all add: W_def F1Field_with_R_def Let_def F1Field_init_simps F1_wf_def)
  obtain n where n: "F_n64 W = Suc n" "bl \<le> 64 * F_n64 W"
  proof -
    have "0 < bl" using bitLength_bounds [OF p0] bl by auto
    then have "F_n64 W = Suc (nat ((int bl - 1) div 64))" unfolding W(5) by (subst nat_add_distrib) simp_all
    moreover have "int bl - 1 < 64 * ((int bl - 1) div 64) + 64" by presburger
    then have "bl \<le> 64 * F_n64 W" unfolding W(5) by arith
    ultimately show ?thesis using that by blast
  qed
  have "p < 2 ^ bl" using bitLength_bounds [OF p0] bl by auto
  also have "(2::int) ^ bl \<le> 2 ^ (8 * F_n8 W)" using n(2) W(4) by (intro power_increasing) simp_all
  also have "\<dots> = 256 ^ F_n8 W" by (simp add: power_mult)
  finally have fits: "p < 256 ^ F_n8 W" .
  have R: "F_R W = 2 ^ (F_n64 W * 64) mod p"
  proof -
    have "F1_wf (F1Field_init p bl)" using p1 by (simp add: F1_wf_def F1Field_init_simps)
    then show ?thesis by (simp add: W_def F1Field_with_R_def Let_def F1_e_cases F1Field_init_simps)
  qed
  have R_in: "in_field W (F_R W)" using W(1) by (simp add: R flip: W(3))
  have "F_R W \<noteq> 0" using Ri by (auto simp: W_def F1_inv_def)
  then have "\<not> p dvd F_R W" using R_in W(3) by (auto simp: in_field_def dest: zdvd_imp_le)
  then have "coprime (F_R W) (F_p W)" unfolding W(3) by (rule prime_modulus_coprime [OF p])
  then have inv: "in_field W Ri" "F_R W * Ri mod p = 1"
    using F1_inv_correct [OF W(1) in_field_nonneg [OF R_in]] Ri by (auto simp: W(3) simp flip: W_def)
  define G where "G = W\<lparr>F_Ri := Ri, F_nqr := nqr, F_s := s, F_t := t, F_nqr_to_t := nt\<rparr>"
  have G: "F1_wf G" "F_m G = 1" "F_p G = p" using W by (simp_all add: G_def F1_wf_def)
  have "tonelliShanks G draws = ret H" using H by (simp add: G_def W_def)
  then obtain s t z tm where Hz: "H = G\<lparr>sqrt_q := p, sqrt_s := s, sqrt_t := t, sqrt_z := z, sqrt_tm1d2 := tm\<rparr>"
      "z \<noteq> 0 \<longrightarrow> F1_sqrt_wf H"
    using tonelliShanks_wf [OF G(1,2), unfolded G(3), OF p] by blast
  have Fz: "F_p F = p" "F1_wf F" "sqrt_z F = z" using G by (simp_all add: F Hz(1) F1_wf_def)
  moreover have "F1_mont_wf F"
    using Fz W(4) n inv R_in fits W(3) by (simp add: F1_mont_wf_def) (simp add: F Hz(1) G_def in_field_def)
  moreover have "F1_sqrt_wf F \<longleftrightarrow> F1_sqrt_wf H"
    by (simp add: F1_sqrt_wf_def F1_wf_def in_field_def F)
  ultimately show ?thesis using Hz(2) by simp
qed

section \<open>A concrete field\<close>

text \<open>The field of 13 elements, whose random draws are the byte 2.\<close>

definition draws2 :: "nat \<Rightarrow> bytes" where "draws2 i = [2]"

definition F13 :: F1Field where
  "F13 = \<lparr>F_type = ''F1'', F_one = 1, F_zero = 0, F_p = 13, F_m = 1, F_negone = 12, F_two = 2, F_half = 6,
     F_bitLength = 4, F_mask = 15, F_n64 = 1, F_n32 = 2, F_n8 = 8, F_R = 3, F_s = 2, F_shift = 4, F_Ri = 9,
     F_nqr = 2, F_t = 3, F_nqr_to_t = 8, F_k = 3, sqrt_q = 13, sqrt_s = 2, sqrt_t = 3, sqrt_z = 8,
     sqrt_tm1d2 = 1\<rparr>"

lemma prime_modulus_13: "prime_modulus 13"
  by code_simp

lemma F13_new: "F1Field_new 13 draws2 = ret F13"
proof -
  have bl: "Scalar_bitLength 13 = Some 4" by code_simp
  have draw: "take n (draws2 i) = (if n = 0 then [] else [2])" for n i by (simp add: draws2_def)
  show ?thesis
    unfolding F1Field_new_def bl option.case
    by (simp add: F1Field_init_def Let_def F1_e_def smod_nonneg bigint_shl_def bigint_shr_def F1_inv_def inv_loop.simps
      sdiv_nonneg F1_pow_def F1_exp_correct F1_wf_def in_field_def nqr_loop.simps F1_eq_def odd_part.simps and_one_mod2
      tonelliShanks_def sqrt_odd_part.simps Scalar_one_def Scalar_zero_def Scalar_pow_def bigint_pow_def Scalar_isOdd_def Scalar_sub_def
      Scalar_div_def bigint_div_def sqrt_z_loop.simps F1_random_def random_count_def draw F1_square_def F13_def)
qed

interpretation f1: residue_field F1_wf F_p F1_add F1_sub F1_mul F1_inv
proof
  fix F :: F1Field and a b :: int
  assume F: "F1_wf F"
  show "1 < F_p F" using F by (rule F1_wf_p)
  show "0 \<le> a \<Longrightarrow> a < F_p F \<Longrightarrow> 0 \<le> b \<Longrightarrow> b < F_p F \<Longrightarrow> F1_add F a b = (a + b) mod F_p F"
    by (simp add: F1_add_mod in_field_def)
  show "0 \<le> a \<Longrightarrow> a < F_p F \<Longrightarrow> 0 \<le> b \<Longrightarrow> b < F_p F \<Longrightarrow> F1_sub F a b = (a - b) mod F_p F"
    by (simp add: F1_sub_mod in_field_def)
  show "0 \<le> a \<Longrightarrow> a < F_p F \<Longrightarrow> 0 \<le> b \<Longrightarrow> b < F_p F \<Longrightarrow> F1_mul F a b = (a * b) mod F_p F"
    using F by (simp add: F1_mul_mod)
  show "0 \<le> a \<Longrightarrow> a < F_p F \<Longrightarrow> coprime a (F_p F)
      \<Longrightarrow> \<exists>x. F1_inv F a = ret x \<and> 0 \<le> x \<and> x < F_p F \<and> a * x mod F_p F = 1"
    using F1_inv_correct [OF F, of a] by (auto simp: in_field_def)
qed

section \<open>Properties\<close>

text \<open>
  what the constructor returns for a prime: the modulus is kept, an element fits in
  \<open>n8\<close> bytes, \<open>R\<close> and \<open>Ri\<close> are inverse to each other, and unless a random draw was 0,
  \<open>p - 1 = 2^s * t\<close> with \<open>t\<close> odd and \<open>z\<close> is a \<open>2^(s-1)\<close>-th root of -1.
\<close>

theorem F1Field_constructed:
  assumes "F1Field_new p draws = ret F" "prime_modulus p"
  shows "F_p F = p \<and> p < 256 ^ F_n8 F \<and> F_R F * F_Ri F mod p = 1 \<and>
    (sqrt_z F \<noteq> 0 \<longrightarrow> p - 1 = 2 ^ nat (sqrt_s F) * sqrt_t F \<and> odd (sqrt_t F)
      \<and> sqrt_z F ^ 2 ^ nat (sqrt_s F - 1) mod p = p - 1)"
  using F1Field_new_wf [OF assms] by (auto simp: F1_mont_wf_def F1_sqrt_wf_def)

theorem F1Field_constructed_witness:
  "F1Field_new 13 draws2 = ret F13 \<and> sqrt_z F13 \<noteq> 0 \<and> F_p F13 = 13 \<and> F_R F13 * F_Ri F13 mod 13 = 1"
  using F1Field_constructed [OF F13_new prime_modulus_13] F13_new by (simp add: F13_def)

text \<open>
  in a constructed field every non-zero element has an inverse, which \<open>inv\<close>
  returns reduced; division undoes multiplication, and only 0 raises the error.
\<close>

theorem inv_total:
  assumes "F1Field_new p draws = ret F" "prime_modulus p" "0 \<le> a" "a < p"
  shows "if a = 0 then F1_inv F a = throw (Error ''Division by zero'')
    else \<exists>x. F1_inv F a = ret x \<and> 0 \<le> x \<and> x < p \<and> F1_mul F a x = 1
      \<and> (\<forall>b \<in> {0..<p}. F1_div F (F1_mul F b a) a = ret b)"
proof (cases "a = 0")
  case False
  have F: "F1_wf F" "F_p F = p" using F1Field_new_wf [OF assms(1,2)] by simp_all
  have "\<not> p dvd a" using False assms(3,4) by (auto dest: zdvd_imp_le)
  then have "coprime a (F_p F)" using prime_modulus_coprime [OF assms(2)] F by simp
  then obtain x where x: "F1_inv F a = ret x" "in_field F x" "a * x mod F_p F = 1"
    using F1_inv_correct [OF F(1) assms(3)] by blast
  have "F1_div F (F1_mul F b a) a = ret b" if "b \<in> {0..<p}" for b
  proof -
    have "F1_mul F (F1_mul F b a) x = b * (a * x mod p) mod p"
      using x(2) F assms(3) that by (simp add: F1_mul_mod in_field_def mod_mult_left_eq mod_mult_right_eq mult.assoc)
    then show ?thesis using x F that by (simp add: F1_div_def)
  qed
  then show ?thesis using x F False assms(3) by (auto simp: F1_mul_mod in_field_def)
qed (simp add: F1_inv_def)

theorem inv_total_witness:
  "F1_inv F13 5 = ret 8 \<and> (\<exists>x. F1_inv F13 5 = ret x \<and> 0 \<le> x \<and> x < 13 \<and> F1_mul F13 5 x = 1
      \<and> (\<forall>b \<in> {0..<13}. F1_div F13 (F1_mul F13 b 5) 5 = ret b))"
proof
  show "F1_inv F13 5 = ret 8" by (simp add: F1_inv_def F13_def inv_loop.simps smod_nonneg sdiv_nonneg)
qed (use inv_total [OF F13_new prime_modulus_13, of 5] in simp)

text \<open>
  \<open>exp\<close> by square and multiply is the power modulo \<open>p\<close>, and \<open>mulScalar\<close> by double
  and add over the non-adjacent form is the multiple modulo \<open>p\<close>; both return for every
  exponent that is not negative.
\<close>

theorem exp_mulScalar_correct:
  assumes "F1Field_new p draws = ret F" "prime_modulus p" "0 \<le> b" "b < p" "0 \<le> e"
  shows "F1_exp F b e = ret (b ^ nat e mod p) \<and> naf_mulScalar F b e = ret (e * b mod p)"
  using F1Field_new_wf [OF assms(1,2)] F1_exp_correct [of F b e] naf_mulScalar_correct [of F b e] assms
  by (simp add: in_field_def)

theorem exp_mulScalar_correct_witness:
  "F1_exp F13 5 7 = ret 8 \<and> naf_mulScalar F13 5 7 = ret 9"
  using exp_mulScalar_correct [OF F13_new prime_modulus_13, of 5 7] by simp



text \<open>
  an element written in Montgomery form, little endian, is read back, for every
  buffer and every aligned window of \<open>n8\<close> bytes in it.
\<close>

theorem montgomery_roundtrip:
  assumes "F1Field_new p draws = ret F" "prime_modulus p" "0 \<le> e" "e < p"
    and "off mod 4 = 0" "off + F_n8 F \<le> length buff"
  shows "\<exists>buff'. F1_toRprLEM F buff off e = ret buff' \<and> F1_fromRprLEM F buff' off = ret e"
proof -
  have F: "F1_wf F" "F_p F = p" "F1_mont_wf F" using F1Field_new_wf [OF assms(1,2)] by simp_all
  define m where "m = F1_mul F (F_R F) e"
  have m: "m = F_R F * e mod p" using F assms(3) by (simp add: m_def F1_mul_mod F1_mont_wf_def in_field_def)
  have p1: "1 < p" using F1_wf_p [OF F(1)] F(2) by simp
  have bound: "0 \<le> m" "m < p" using p1 by (simp_all add: m)
  have "p < 256 ^ F_n8 F" using F(3) unfolding F1_mont_wf_def F(2) by blast
  with bound have "m < 256 ^ F_n8 F" by simp
  then obtain buff' where "Scalar_toRprLE buff off m (F_n8 F) = ret buff'" "Scalar_fromRprLE buff' off (F_n8 F) = ret m"
    using toRprLE_fromRprLE_raw [of m "F_n8 F" off buff] bound assms(5,6) F(3) by (auto simp: F1_mont_wf_def)
  moreover have "F1_mul F m (F_Ri F) = e"
  proof -
    have "F1_mul F m (F_Ri F) = m * F_Ri F mod p"
      using bound F by (simp add: F1_mul_mod F1_mont_wf_def in_field_def)
    also have "\<dots> = e * (F_R F * F_Ri F mod p) mod p"
      by (simp add: m mod_mult_left_eq mod_mult_right_eq ac_simps)
    finally show ?thesis using F assms(3,4) by (simp add: F1_mont_wf_def)
  qed
  ultimately show ?thesis
    using F(3) by (auto simp: F1_toRprLEM_def F1_toRprLE_def F1_fromRprLEM_def F1_fromRprLE_def F1_mont_wf_def simp flip: m_def)
qed

theorem montgomery_roundtrip_witness:
  "\<exists>buff'. F1_toRprLEM F13 (replicate 16 255) 4 7 = ret buff' \<and> F1_fromRprLEM F13 buff' 4 = ret 7"
  by (rule montgomery_roundtrip [OF F13_new prime_modulus_13]) (simp_all add: F13_def)

text \<open>
  C39: \<open>e\<close> and \<open>normalize\<close> return the residue in \<open>0..p-1\<close>, except that a negative
  multiple of \<open>p\<close> gives \<open>p\<close> itself, which no reduced element equals.
\<close>

theorem normalize_range:
  assumes "F1Field_new p draws = ret F" "prime_modulus p"
  shows "F1_normalize F a = F1_e F a \<and> F1_normalize F a = (if a < 0 \<and> p dvd a then p else a mod p)"
  using F1Field_new_wf [OF assms] F1_e_cases [of F a] by (simp add: F1_normalize_e)

theorem normalize_range_witness: "F1_normalize F13 (-26) = 13 \<and> F1_normalize F13 (-27) = 12"
  using normalize_range [OF F13_new prime_modulus_13, of "-26"] normalize_range [OF F13_new prime_modulus_13, of "-27"]
  by simp

end
