(* ===== verification/PolyMod.thy ===== *)
theory PolyMod
  imports ModArith
begin

text \<open>
  Polynomials with integer coefficients modulo a prime: a polynomial of fewer than \<open>n\<close>
  coefficients with \<open>n\<close> distinct roots vanishes everywhere, and Lagrange interpolation
  at zero gives its constant coefficient.  The secret sharing rests on this.
\<close>

primrec horner :: "int list \<Rightarrow> int \<Rightarrow> int" where
  "horner [] x = 0"
| "horner (c # cs) x = c + x * horner cs x"

text \<open>Functions given by at most \<open>n\<close> coefficients.\<close>

definition poly_fun :: "nat \<Rightarrow> (int \<Rightarrow> int) \<Rightarrow> bool" where
  "poly_fun n f \<longleftrightarrow> (\<exists>cs. length cs \<le> n \<and> f = horner cs)"

lemma poly_fun_horner [intro]: "length cs \<le> n \<Longrightarrow> poly_fun n (horner cs)"
  by (auto simp: poly_fun_def)

lemma horner_add: "\<exists>es. length es \<le> max (length cs) (length ds) \<and> (\<forall>x. horner es x = horner cs x + horner ds x)"
proof (induction cs arbitrary: ds)
  case Nil
  show ?case by (rule exI [of _ ds]) simp
next
  case (Cons c cs)
  show ?case
  proof (cases ds)
    case Nil
    then show ?thesis by (intro exI [of _ "c # cs"]) simp
  next
    case (Cons d ds')
    obtain es where "length es \<le> max (length cs) (length ds')" "\<forall>x. horner es x = horner cs x + horner ds' x"
      using Cons.IH by blast
    then show ?thesis using Cons by (intro exI [of _ "(c + d) # es"]) (simp add: algebra_simps)
  qed
qed

lemma horner_scale: "horner (map ((*) a) cs) x = a * horner cs x"
  by (induction cs) (simp_all add: algebra_simps)

lemma poly_fun_add [intro]: "poly_fun n f \<Longrightarrow> poly_fun n g \<Longrightarrow> poly_fun n (\<lambda>x. f x + g x)"
proof -
  assume "poly_fun n f" "poly_fun n g"
  then obtain cs ds where cs: "length cs \<le> n" "f = horner cs" and ds: "length ds \<le> n" "g = horner ds"
    by (auto simp: poly_fun_def)
  obtain es where "length es \<le> max (length cs) (length ds)" "\<forall>x. horner es x = horner cs x + horner ds x"
    using horner_add by blast
  then show ?thesis using cs ds unfolding poly_fun_def by (intro exI [of _ es]) (simp add: fun_eq_iff)
qed

lemma poly_fun_scale [intro]: "poly_fun n f \<Longrightarrow> poly_fun n (\<lambda>x. a * f x)"
proof -
  assume "poly_fun n f"
  then obtain cs where "length cs \<le> n" "f = horner cs" by (auto simp: poly_fun_def)
  then show ?thesis
    unfolding poly_fun_def by (intro exI [of _ "map ((*) a) cs"]) (simp add: fun_eq_iff horner_scale)
qed

lemma poly_fun_shift: "poly_fun n f \<Longrightarrow> poly_fun (Suc n) (\<lambda>x. x * f x)"
proof -
  assume "poly_fun n f"
  then obtain cs where "length cs \<le> n" "f = horner cs" by (auto simp: poly_fun_def)
  then show ?thesis unfolding poly_fun_def by (intro exI [of _ "0 # cs"]) (simp add: fun_eq_iff)
qed

lemma poly_fun_mono: "poly_fun m f \<Longrightarrow> m \<le> n \<Longrightarrow> poly_fun n f"
  unfolding poly_fun_def by (metis le_trans)

lemma poly_fun_zero [intro]: "poly_fun n (\<lambda>x. 0)"
  unfolding poly_fun_def by (rule exI [of _ "[]"]) (simp add: fun_eq_iff)

lemma poly_fun_const: "poly_fun (Suc n) (\<lambda>x. c)"
  unfolding poly_fun_def by (rule exI [of _ "[c]"]) (simp add: fun_eq_iff)

lemma poly_fun_linear: "poly_fun n f \<Longrightarrow> poly_fun (Suc n) (\<lambda>x. (a + b * x) * f x)"
proof -
  assume f: "poly_fun n f"
  have "poly_fun (Suc n) (\<lambda>x. a * f x + b * (x * f x))"
    using poly_fun_mono [OF f, of "Suc n"] poly_fun_shift [OF f] by (intro poly_fun_add poly_fun_scale) simp_all
  then show ?thesis by (simp add: algebra_simps)
qed

lemma poly_fun_sum: "finite A \<Longrightarrow> (\<And>j. j \<in> A \<Longrightarrow> poly_fun n (f j)) \<Longrightarrow> poly_fun n (\<lambda>x. \<Sum>j\<in>A. f j x)"
  by (induction A rule: finite_induct) auto

lemma poly_fun_prod_linear:
  "finite A \<Longrightarrow> poly_fun (Suc (card A)) (\<lambda>x. \<Prod>m\<in>A. (a m - x) * w m)"
proof (induction A rule: finite_induct)
  case empty
  show ?case by (simp add: poly_fun_const)
next
  case (insert m A)
  have "poly_fun (Suc (Suc (card A))) (\<lambda>x. (a m * w m + - w m * x) * (\<Prod>m\<in>A. (a m - x) * w m))"
    by (rule poly_fun_linear [OF insert.IH])
  then show ?case using insert.hyps by (simp add: algebra_simps)
qed

text \<open>Division by a linear factor.\<close>

lemma horner_factor:
  "\<exists>ds. length ds = length cs - 1 \<and> (\<forall>x. horner cs x = (x - r) * horner ds x + horner cs r)"
proof (induction cs)
  case Nil
  show ?case by simp
next
  case (Cons c cs)
  then obtain ds where ds: "length ds = length cs - 1" "\<And>x. horner cs x = (x - r) * horner ds x + horner cs r"
    by blast
  show ?case
  proof (cases cs)
    case Nil
    then show ?thesis by (intro exI [of _ "[]"]) simp
  next
    case (Cons c' cs')
    have "horner (c # cs) x = (x - r) * horner (horner cs r # ds) x + horner (c # cs) r" for x
      unfolding horner.simps ds(2) [of x] by (simp add: algebra_simps)
    moreover have "length (horner cs r # ds) = length (c # cs) - 1" using ds(1) Cons by simp
    ultimately show ?thesis by blast
  qed
qed

lemma roots_vanish:
  assumes p: "prime_modulus p"
  shows "distinct xs \<Longrightarrow> set xs \<subseteq> {0..<p} \<Longrightarrow> length cs \<le> length xs
    \<Longrightarrow> (\<And>x. x \<in> set xs \<Longrightarrow> p dvd horner cs x) \<Longrightarrow> p dvd horner cs y"
proof (induction xs arbitrary: cs y)
  case Nil
  then show ?case by simp
next
  case (Cons r xs)
  obtain ds where ds: "length ds = length cs - 1" "\<And>x. horner cs x = (x - r) * horner ds x + horner cs r"
    using horner_factor by blast
  have root: "p dvd horner cs r" using Cons.prems by simp
  have "p dvd horner ds y" for y
  proof (rule Cons.IH)
    fix x assume x: "x \<in> set xs"
    have "p dvd (x - r) * horner ds x"
      using Cons.prems(4) [of x] x root ds(2) [of x] by (simp add: dvd_add_left_iff)
    moreover have "\<not> p dvd x - r"
    proof
      assume "p dvd x - r"
      then have "x mod p = r mod p" by (simp add: mod_eq_dvd)
      then show False using x Cons.prems(1,2) by (auto simp: subset_iff)
    qed
    ultimately show "p dvd horner ds x" using prime_modulus_dvd_mult [OF p] by blast
  qed (use Cons.prems ds(1) in auto)
  then show ?case using root ds(2) [of y] by simp
qed

text \<open>Lagrange interpolation at zero; \<open>w m j\<close> is the inverse of \<open>x\<^sub>m - x\<^sub>j\<close>.\<close>

lemma lagrange_at_zero:
  assumes p: "prime_modulus p" and xs: "distinct xs" "set xs \<subseteq> {0..<p}" and cs: "length cs \<le> length xs"
    and w: "\<And>j m. j < length xs \<Longrightarrow> m < length xs \<Longrightarrow> m \<noteq> j \<Longrightarrow> (xs ! m - xs ! j) * w m j mod p = 1"
  shows "(\<Sum>j<length xs. horner cs (xs ! j) * (\<Prod>m\<in>{..<length xs} - {j}. xs ! m * w m j)) mod p = horner cs 0 mod p"
proof -
  define n where "n = length xs"
  define L where "L j x = (\<Prod>m\<in>{..<n} - {j}. (xs ! m - x) * w m j)" for j x
  define g where "g x = (\<Sum>j<n. horner cs (xs ! j) * L j x)" for x
  have "poly_fun n (L j)" if "j < n" for j
  proof -
    have "poly_fun (Suc (card ({..<n} - {j}))) (L j)"
      unfolding L_def by (rule poly_fun_prod_linear) simp
    moreover have "Suc (card ({..<n} - {j})) = n" using that by simp
    ultimately show ?thesis by simp
  qed
  then have "poly_fun n (\<lambda>x. g x + - 1 * horner cs x)"
    unfolding g_def using cs n_def by (intro poly_fun_add poly_fun_sum poly_fun_scale) auto
  then obtain ds where ds: "length ds \<le> n" "\<And>x. g x - horner cs x = horner ds x"
    by (auto simp: poly_fun_def fun_eq_iff)
  have node: "p dvd horner ds (xs ! i)" if i: "i < n" for i
  proof -
    have zero: "L j (xs ! i) = 0" if "j < n" "j \<noteq> i" for j
    proof -
      have "\<exists>m\<in>{..<n} - {j}. (xs ! m - xs ! i) * w m j = 0"
        using i that by (intro bexI [of _ i]) auto
      then show ?thesis unfolding L_def by (simp add: prod_zero_iff)
    qed
    have "L i (xs ! i) mod p = (\<Prod>m\<in>{..<n} - {i}. (xs ! m - xs ! i) * w m i mod p) mod p"
      unfolding L_def by (rule mod_prod_eq [symmetric])
    also have "(\<Prod>m\<in>{..<n} - {i}. (xs ! m - xs ! i) * w m i mod p) = 1"
      using i w n_def by (intro prod.neutral ballI) auto
    finally have one: "L i (xs ! i) mod p = 1 mod p" .
    have "g (xs ! i) = horner cs (xs ! i) * L i (xs ! i)"
    proof -
      have "g (xs ! i) = (\<Sum>j<n. if j = i then horner cs (xs ! j) * L j (xs ! i) else 0)"
        unfolding g_def by (rule sum.cong) (auto simp: zero)
      then show ?thesis using i by (simp add: sum.delta)
    qed
    then have "g (xs ! i) mod p = horner cs (xs ! i) * 1 mod p"
      using mod_mult_cong [OF refl one, of "horner cs (xs ! i)"] by simp
    then show ?thesis by (simp add: mod_eq_dvd ds(2))
  qed
  have "p dvd horner ds 0"
    by (rule roots_vanish [OF p xs]) (use ds(1) node in \<open>auto simp: n_def in_set_conv_nth\<close>)
  then have "g 0 mod p = horner cs 0 mod p" by (simp add: mod_eq_dvd ds(2))
  then show ?thesis by (simp add: g_def L_def n_def)
qed

end
