(* ===== verification/Shamir.thy ===== *)
theory Shamir
  imports F1Field PolyMod
begin

text \<open>
  Shamir's secret sharing: packages/albus-core/src/crypto/shamir.ts.  A share is an
  index and a value, which is a bigint or a string.  The lemmas show that the
  interpolation loop returns the constant coefficient of the polynomial the shares
  lie on, and what each error is raised for.
\<close>

section \<open>Reconstruction\<close>

type_synonym share = "int \<times> bigint_arg"

definition share_e :: "F1Field \<Rightarrow> bigint_arg \<Rightarrow> int js" where
  "share_e F v = bindJ (BigInt_arg v) (\<lambda>a. ret (F1_e F a))"

text \<open>The inner loop over \<open>m\<close>, which skips \<open>j\<close>, and the outer loop over \<open>j\<close>.\<close>

definition shamir_product :: "F1Field \<Rightarrow> share list \<Rightarrow> nat \<Rightarrow> nat list \<Rightarrow> int js" where
  "shamir_product F shares j ms = foldJ (\<lambda>product m.
     if m = j then ret product
     else bindJ (F1_div F (F1_e F (fst (shares ! m)))
                   (F1_sub F (F1_e F (fst (shares ! m))) (F1_e F (fst (shares ! j)))))
            (\<lambda>q. ret (F1_mul F product q))) (F1_e F 1) ms"

definition reconstructShamirSecret :: "F1Field \<Rightarrow> nat \<Rightarrow> share list \<Rightarrow> int js" where
  "reconstructShamirSecret F k shares =
    (if length shares < k then throw (Error ''Not enough shares to reconstruct secret'')
     else if card (set (map fst shares)) < length shares
       then throw (Error ''Share inputs need to be unique'')
     else bindJ (foldJ (\<lambda>sum j.
            bindJ (shamir_product F shares j [0..<k]) (\<lambda>product.
            bindJ (share_e F (snd (shares ! j))) (\<lambda>y.
            ret (F1_add F sum (F1_mul F y product))))) (F1_e F 0) [0..<k])
          (\<lambda>sum. ret (F1_toObject F sum)))"

section \<open>The loops\<close>

lemma F1_e_reduced: "F1_wf F \<Longrightarrow> 0 \<le> a \<Longrightarrow> a < F_p F \<Longrightarrow> F1_e F a = a"
  by (simp add: F1_e_cases)

text \<open>The inverses that the code divides by.\<close>

definition node_inv :: "int \<Rightarrow> int list \<Rightarrow> nat \<Rightarrow> nat \<Rightarrow> int" where
  "node_inv p xs m j = (SOME x. 0 \<le> x \<and> x < p \<and> (xs ! m - xs ! j) * x mod p = 1)"

lemma node_inv_div:
  assumes F: "F1_wf F" "prime_modulus (F_p F)" and xs: "distinct xs" "set xs \<subseteq> {0..<F_p F}"
    and jm: "j < length xs" "m < length xs" "m \<noteq> j"
  shows "(xs ! m - xs ! j) * node_inv (F_p F) xs m j mod F_p F = 1"
    and "\<exists>x. F1_inv F (F1_sub F (xs ! m) (xs ! j)) = ret x \<and> in_field F x \<and>
      (\<forall>y. y * x mod F_p F = y * node_inv (F_p F) xs m j mod F_p F)"
proof -
  define p where "p = F_p F"
  define d where "d = F1_sub F (xs ! m) (xs ! j)"
  have in_p: "xs ! m \<in> {0..<p}" "xs ! j \<in> {0..<p}"
    using xs(2) jm nth_mem [of m xs] nth_mem [of j xs] unfolding p_def by blast+
  then have d: "d = (xs ! m - xs ! j) mod p"
    by (simp add: d_def p_def F1_sub_mod in_field_def)
  have "d \<noteq> 0"
  proof
    assume "d = 0"
    then have "xs ! m mod p = xs ! j mod p" by (simp add: d mod_eq_dvd dvd_eq_mod_eq_0)
    then show False using in_p jm xs(1) by (simp add: nth_eq_iff_index_eq)
  qed
  have p1: "1 < p" using F(1) by (simp add: p_def F1_wf_p)
  have d_in: "0 \<le> d" "d < p" using p1 by (simp_all add: d)
  have "\<not> p dvd d" using \<open>d \<noteq> 0\<close> d_in by (auto dest: zdvd_imp_le)
  then have "coprime d p" using prime_modulus_coprime F(2) by (simp add: p_def)
  then obtain x where x: "F1_inv F d = ret x" "in_field F x" "d * x mod p = 1"
    using F1_inv_correct [OF F(1) d_in(1)] by (auto simp: p_def)
  have x': "(xs ! m - xs ! j) * x mod p = 1" using x(3) by (simp add: d mod_mult_left_eq)
  then have ex: "\<exists>x. 0 \<le> x \<and> x < p \<and> (xs ! m - xs ! j) * x mod p = 1"
    using x(2) by (auto simp: in_field_def p_def)
  define w where "w = node_inv p xs m j"
  have w: "0 \<le> w" "w < p" "(xs ! m - xs ! j) * w mod p = 1"
    using someI_ex [OF ex] by (simp_all add: w_def node_inv_def)
  then show "(xs ! m - xs ! j) * node_inv (F_p F) xs m j mod F_p F = 1" by (simp add: w_def p_def)
  have "x * 1 mod p = x * ((xs ! m - xs ! j) * w) mod p"
    using w(3) p1 by (intro mod_mult_cong) simp_all
  also have "x * ((xs ! m - xs ! j) * w) = w * ((xs ! m - xs ! j) * x)" by (simp add: ac_simps)
  also have "w * ((xs ! m - xs ! j) * x) mod p = w * 1 mod p"
    using x' p1 by (intro mod_mult_cong) simp_all
  finally have "x mod p = w mod p" by simp
  then have "y * x mod p = y * w mod p" for y by (rule mod_mult_cong [OF refl])
  then show "\<exists>x. F1_inv F (F1_sub F (xs ! m) (xs ! j)) = ret x \<and> in_field F x \<and>
      (\<forall>y. y * x mod F_p F = y * node_inv (F_p F) xs m j mod F_p F)"
    using x by (auto simp: d_def w_def p_def)
qed

text \<open>The first \<open>k\<close> shares have the distinct reduced indices \<open>xs\<close>.\<close>

definition shares_at :: "F1Field \<Rightarrow> int list \<Rightarrow> nat \<Rightarrow> share list \<Rightarrow> bool" where
  "shares_at F xs k shares \<longleftrightarrow> F1_wf F \<and> prime_modulus (F_p F) \<and> distinct xs \<and> set xs \<subseteq> {0..<F_p F}
     \<and> length xs = k \<and> k \<le> length shares \<and> map fst (take k shares) = xs"

lemma shares_atD:
  assumes "shares_at F xs k shares"
  shows "F1_wf F" "prime_modulus (F_p F)" "distinct xs" "set xs \<subseteq> {0..<F_p F}" "length xs = k"
    "k \<le> length shares" "map fst (take k shares) = xs"
  using assms by (simp_all add: shares_at_def)

lemma fst_share: "shares_at F xs k shares \<Longrightarrow> m < k \<Longrightarrow> fst (shares ! m) = xs ! m"
  using nth_map [of m "take k shares" fst] by (simp add: shares_at_def)

lemma node_in_field:
  assumes "shares_at F xs k shares" "m < k"
  shows "in_field F (xs ! m)"
proof -
  have "xs ! m \<in> set xs" using shares_atD(5) [OF assms(1)] assms(2) by (intro nth_mem) simp
  then have "xs ! m \<in> {0..<F_p F}" using shares_atD(4) [OF assms(1)] by (rule rev_subsetD)
  then show ?thesis by (simp add: in_field_def)
qed

lemma node_e: "shares_at F xs k shares \<Longrightarrow> m < k \<Longrightarrow> F1_e F (fst (shares ! m)) = xs ! m"
  using node_in_field [of F xs k shares m] fst_share [of F xs k shares m]
  by (simp add: F1_e_reduced in_field_def shares_at_def)

lemma shamir_product_loop:
  assumes S: "shares_at F xs k shares" and j: "j < k"
  shows "set ms \<subseteq> {..<k} \<Longrightarrow> in_field F acc \<Longrightarrow> distinct ms \<Longrightarrow>
    foldJ (\<lambda>product m. if m = j then ret product
     else bindJ (F1_div F (F1_e F (fst (shares ! m))) (F1_sub F (F1_e F (fst (shares ! m))) (F1_e F (fst (shares ! j)))))
            (\<lambda>q. ret (F1_mul F product q))) acc ms
    = ret (acc * (\<Prod>m\<in>set ms - {j}. xs ! m * node_inv (F_p F) xs m j) mod F_p F)"
proof (induction ms arbitrary: acc)
  case Nil
  then show ?case by (simp add: in_field_mod_id)
next
  case (Cons m ms)
  show ?case
  proof (cases "m = j")
    case True
    then have "set (m # ms) - {j} = set ms - {j}" using Cons.prems by auto
    then show ?thesis using Cons True by simp
  next
    case False
    note F = shares_atD(1,2) [OF S] and xs = shares_atD(3-5) [OF S]
    define w where "w = node_inv (F_p F) xs m j"
    have m: "m < k" using Cons.prems by simp
    obtain x where x: "F1_inv F (F1_sub F (xs ! m) (xs ! j)) = ret x" "in_field F x"
        "\<And>y. y * x mod F_p F = y * w mod F_p F"
      using node_inv_div(2) [OF F xs(1,2), of j m] j m False xs(3) unfolding w_def by blast
    define q where "q = F1_mul F (xs ! m) x"
    define acc' where "acc' = F1_mul F acc q"
    have xm: "0 \<le> xs ! m" using node_in_field [OF S m] by (rule in_field_nonneg)
    have q: "in_field F q" "q = xs ! m * w mod F_p F"
      using F(1) x xm by (simp_all add: q_def F1_mul_mod in_field_nonneg)
    have acc': "in_field F acc'" "acc' = acc * (xs ! m * w) mod F_p F"
      using F(1) q(1) Cons.prems(2) by (simp_all add: acc'_def F1_mul_mod in_field_nonneg) (simp add: q(2) mod_mult_right_eq)
    have set: "set (m # ms) - {j} = insert m (set ms - {j})" using False by auto
    have "(\<Prod>m\<in>set (m # ms) - {j}. xs ! m * node_inv (F_p F) xs m j)
        = (xs ! m * w) * (\<Prod>m\<in>set ms - {j}. xs ! m * node_inv (F_p F) xs m j)"
      unfolding set w_def using Cons.prems(3) by (subst prod.insert) simp_all
    moreover have "F1_div F (F1_e F (fst (shares ! m))) (F1_sub F (F1_e F (fst (shares ! m))) (F1_e F (fst (shares ! j)))) = ret q"
      using x(1) by (simp add: node_e [OF S] m j F1_div_def q_def)
    ultimately show ?thesis
      using Cons.IH [of acc'] Cons.prems acc' False
      by (simp add: mod_mult_left_eq mult.assoc flip: acc'_def)
  qed
qed

lemma shamir_product_correct:
  assumes S: "shares_at F xs k shares" and j: "j < k"
  shows "shamir_product F shares j [0..<k]
    = ret ((\<Prod>m\<in>{..<k} - {j}. xs ! m * node_inv (F_p F) xs m j) mod F_p F)"
proof -
  have F: "F1_wf F" using S by (simp add: shares_at_def)
  then have one: "F1_e F 1 = 1" using F1_wf_p [OF F] by (simp add: F1_e_reduced)
  show ?thesis
    unfolding shamir_product_def one using F
    by (subst shamir_product_loop [OF S j]) (auto simp: lessThan_atLeast0)
qed

lemma shamir_sum_loop:
  fixes ys :: "nat \<Rightarrow> int"
  assumes S: "shares_at F xs k shares" and y: "\<And>j. j < k \<Longrightarrow> share_e F (snd (shares ! j)) = ret (ys j) \<and> in_field F (ys j)"
  defines "P \<equiv> \<lambda>j. (\<Prod>m\<in>{..<k} - {j}. xs ! m * node_inv (F_p F) xs m j)"
  shows "n \<le> k \<Longrightarrow> foldJ (\<lambda>sum j. bindJ (shamir_product F shares j [0..<k]) (\<lambda>product.
       bindJ (share_e F (snd (shares ! j))) (\<lambda>y. ret (F1_add F sum (F1_mul F y product))))) (F1_e F 0) [0..<n]
    = ret ((\<Sum>j<n. ys j * P j) mod F_p F)"
proof (induction n)
  case 0
  have "F1_wf F" using S by (simp add: shares_at_def)
  then show ?case using F1_wf_p [of F] by (simp add: F1_e_reduced)
next
  case (Suc n)
  have F: "F1_wf F" using S by (simp add: shares_at_def)
  have n: "n < k" using Suc.prems by simp
  have prod: "shamir_product F shares n [0..<k] = ret (P n mod F_p F)"
    unfolding P_def by (rule shamir_product_correct [OF S n])
  have mul: "F1_mul F (ys n) (P n mod F_p F) = ys n * P n mod F_p F"
    using F1_mul_mod [OF F in_field_nonneg [OF conjunct2 [OF y [OF n]]] in_field_nonneg [OF in_field_mod [OF F, of "P n"]]]
    by (simp add: mod_mult_right_eq)
  have add: "F1_add F ((\<Sum>j<n. ys j * P j) mod F_p F) (ys n * P n mod F_p F) = (\<Sum>j<Suc n. ys j * P j) mod F_p F"
    using F by (simp add: F1_add_mod mod_add_eq)
  have "foldJ (\<lambda>sum j. bindJ (shamir_product F shares j [0..<k]) (\<lambda>product.
       bindJ (share_e F (snd (shares ! j))) (\<lambda>y. ret (F1_add F sum (F1_mul F y product))))) (F1_e F 0) [0..<n]
    = ret ((\<Sum>j<n. ys j * P j) mod F_p F)"
    using Suc by simp
  then show ?case
    by (simp only: upt_Suc_append [OF le0] foldJ_append bindJ_ret foldJ.simps prod y [OF n] mul add)
qed

lemma reconstruct_correct:
  assumes F: "F1_wf F" "prime_modulus (F_p F)"
    and xs: "distinct (map fst shares)" "\<forall>s \<in> set (take k shares). 0 \<le> fst s \<and> fst s < F_p F"
    and k: "k \<le> length shares" "length cs \<le> k"
    and y: "\<forall>s \<in> set (take k shares). share_e F (snd s) = ret (horner cs (fst s) mod F_p F)"
  shows "reconstructShamirSecret F k shares = ret (horner cs 0 mod F_p F)"
proof -
  define xs where "xs = map fst (take k shares)"
  have S: "shares_at F xs k shares"
    using F xs k(1) distinct_take [of "map fst shares" k]
    by (auto simp: shares_at_def xs_def take_map)
  have card: "card (fst ` set shares) = length shares"
    using distinct_card [OF xs(1)] by simp
  have y': "share_e F (snd (shares ! j)) = ret (horner cs (xs ! j) mod F_p F) \<and> in_field F (horner cs (xs ! j) mod F_p F)"
    if "j < k" for j
  proof -
    have "take k shares ! j \<in> set (take k shares)" using that k(1) by (intro nth_mem) simp
    then show ?thesis using y that F(1) fst_share [OF S that] by simp
  qed
  define P where "P = (\<lambda>j. \<Prod>m\<in>{..<k} - {j}. xs ! m * node_inv (F_p F) xs m j)"
  have "(\<Sum>j<k. (horner cs (xs ! j) mod F_p F) * P j) mod F_p F
      = (\<Sum>j<k. (horner cs (xs ! j) mod F_p F) * P j mod F_p F) mod F_p F"
    by (rule mod_sum_eq [symmetric])
  also have "\<dots> = (\<Sum>j<k. horner cs (xs ! j) * P j mod F_p F) mod F_p F"
    by (simp add: mod_mult_left_eq)
  also have "\<dots> = (\<Sum>j<k. horner cs (xs ! j) * P j) mod F_p F"
    by (rule mod_sum_eq)
  also have "\<dots> = horner cs 0 mod F_p F"
    using lagrange_at_zero [OF F(2), of xs cs "node_inv (F_p F) xs"] node_inv_div(1) [OF F] shares_atD [OF S] k(2)
    by (simp add: P_def)
  finally have sum: "(\<Sum>j<k. (horner cs (xs ! j) mod F_p F) * P j) mod F_p F = horner cs 0 mod F_p F" .
  show ?thesis
    using shamir_sum_loop [OF S y' order_refl] k(1) sum [unfolded P_def]
    by (simp add: reconstructShamirSecret_def card F1_toObject_def not_less)
qed

section \<open>Properties\<close>

text \<open>
  C7: from at least \<open>k\<close> shares with distinct indices, whose values are those of a
  polynomial with at most \<open>k\<close> coefficients at their indices, \<open>reconstructShamirSecret\<close>
  returns the constant coefficient, which is the shared secret; any \<open>k\<close> shares do, and
  what stands after the first \<open>k\<close> does not matter.
\<close>

theorem shamir_reconstructs:
  assumes "F1Field_new p draws = ret F" "prime_modulus p"
    and "distinct (map fst shares)" "\<forall>s \<in> set (take k shares). 0 \<le> fst s \<and> fst s < p"
    and "k \<le> length shares" "length cs \<le> k"
    and "\<forall>s \<in> set (take k shares). snd s = Arg_int (horner cs (fst s) mod p)"
  shows "reconstructShamirSecret F k shares = ret (horner cs 0 mod p)"
proof -
  have F: "F1_wf F" "F_p F = p" using F1Field_new_wf [OF assms(1,2)] by simp_all
  have "\<forall>s \<in> set (take k shares). share_e F (snd s) = ret (horner cs (fst s) mod p)"
    using assms(7) F F1_wf_p [OF F(1)] by (auto simp: share_e_def F1_e_reduced)
  then show ?thesis using reconstruct_correct [of F shares k cs] F assms by simp
qed

theorem shamir_reconstructs_witness:
  "reconstructShamirSecret F13 2 [(1, Arg_int 8), (4, Arg_int 4), (2, Arg_string ''x'')] = ret 5"
  using shamir_reconstructs [OF F13_new prime_modulus_13, of "[(1, Arg_int 8), (4, Arg_int 4), (2, Arg_string ''x'')]" 2 "[5, 3]"]
  by simp

text \<open>
  C38: the input checks, in their order: too few shares, then a repeated index anywhere in
  the list (also after the first \<open>k\<close>); and two different indices that are equal modulo
  \<open>p\<close> pass both checks and make the interpolation divide by zero.
\<close>

theorem shamir_errors:
  "(length shares < k \<longrightarrow> reconstructShamirSecret F k shares = throw (Error ''Not enough shares to reconstruct secret''))
   \<and> (k \<le> length shares \<and> \<not> distinct (map fst shares)
        \<longrightarrow> reconstructShamirSecret F k shares = throw (Error ''Share inputs need to be unique''))
   \<and> (F1_wf F \<and> 0 \<le> a \<and> a < F_p F
        \<longrightarrow> reconstructShamirSecret F 2 [(a, u), (a + F_p F, v)] = throw (Error ''Division by zero''))"
proof (intro conjI impI)
  show "reconstructShamirSecret F k shares = throw (Error ''Not enough shares to reconstruct secret'')"
    if "length shares < k" using that by (simp add: reconstructShamirSecret_def)
  show "reconstructShamirSecret F k shares = throw (Error ''Share inputs need to be unique'')"
    if "k \<le> length shares \<and> \<not> distinct (map fst shares)"
  proof -
    have "card (set (map fst shares)) \<noteq> length (map fst shares)"
      using that card_distinct by blast
    then show ?thesis
      using that card_length [of "map fst shares"] by (simp add: reconstructShamirSecret_def del: set_map)
  qed
  show "reconstructShamirSecret F 2 [(a, u), (a + F_p F, v)] = throw (Error ''Division by zero'')"
    if "F1_wf F \<and> 0 \<le> a \<and> a < F_p F"
  proof -
    have e: "F1_e F a = a" "F1_e F (a + F_p F) = a" using that by (simp_all add: F1_e_cases)
    have "shamir_product F [(a, u), (a + F_p F, v)] 0 [0..<2] = throw (Error ''Division by zero'')"
      by (simp add: shamir_product_def upt_conv_Cons e F1_sub_def F1_div_def F1_inv_def numeral_2_eq_2)
    moreover have "F_p F \<noteq> 0" using that by simp
    ultimately show ?thesis by (simp add: reconstructShamirSecret_def upt_conv_Cons)
  qed
qed

theorem shamir_errors_witness:
  "reconstructShamirSecret F13 2 [(1, Arg_int 8)] = throw (Error ''Not enough shares to reconstruct secret'')
   \<and> reconstructShamirSecret F13 1 [(1, Arg_int 8), (2, Arg_int 8), (2, Arg_int 8)]
       = throw (Error ''Share inputs need to be unique'')
   \<and> reconstructShamirSecret F13 2 [(3, Arg_int 8), (16, Arg_int 1)] = throw (Error ''Division by zero'')"
proof (intro conjI)
  show "reconstructShamirSecret F13 2 [(1, Arg_int 8)] = throw (Error ''Not enough shares to reconstruct secret'')"
    using shamir_errors [of "[(1, Arg_int 8)]" 2 F13] by simp
  show "reconstructShamirSecret F13 1 [(1, Arg_int 8), (2, Arg_int 8), (2, Arg_int 8)]
       = throw (Error ''Share inputs need to be unique'')"
    using shamir_errors [of "[(1, Arg_int 8), (2, Arg_int 8), (2, Arg_int 8)]" 1 F13] by simp
  have "F1_wf F13" "F_p F13 = 13" using F1Field_new_wf [OF F13_new prime_modulus_13] by simp_all
  then show "reconstructShamirSecret F13 2 [(3, Arg_int 8), (16, Arg_int 1)] = throw (Error ''Division by zero'')"
    using shamir_errors [of "[]" 1 F13 3 "Arg_int 8" "Arg_int 1"] by simp
qed

end
