(* ===== verification/CryptoUtils.thy ===== *)
theory CryptoUtils
  imports ScalarOps
begin

text \<open>
  Byte and string conversions: packages/albus-core/src/crypto/utils.ts and
  crypto/multibase.ts.  The codecs of the package uint8arrays are a record of
  functions that every definition takes; \<open>codec_ok\<close> states what its documentation
  promises and the code relies on: decoding inverts encoding, and \<open>base16\<close> is the
  lower-case hexadecimal text of the bytes.
\<close>

section \<open>The codecs\<close>

datatype encoding = Base16 | Base64pad | Base64url | Base58btc | Utf8

record uint8arrays =
  u_fromString :: "encoding \<Rightarrow> string \<Rightarrow> bytes js"
  u_toString :: "encoding \<Rightarrow> bytes \<Rightarrow> string"

section \<open>utils.ts\<close>

definition to_lower :: "char \<Rightarrow> char" where
  "to_lower c = (let n = of_char c :: nat in if 65 \<le> n \<and> n \<le> 90 then char_of (n + 32) else c)"

text \<open>\<open>minLength\<close> 0 stands for an absent one; \<open>padStart\<close> with \<open>'00'\<close> fills up with zeros.\<close>

definition hexToBytes :: "uint8arrays \<Rightarrow> string \<Rightarrow> nat \<Rightarrow> bytes js" where
  "hexToBytes U hex minLength =
    (let input = (if take 2 hex = ''0x'' then drop 2 hex else hex);
         input = (if length input mod 2 \<noteq> 0 then CHR ''0'' # input else input);
         input = (if minLength \<noteq> 0
                  then padStart (max (length input) (minLength * 2)) (CHR ''0'') input else input)
     in u_fromString U Base16 (map to_lower input))"

definition hexToString :: "uint8arrays \<Rightarrow> (bytes \<Rightarrow> string) \<Rightarrow> string \<Rightarrow> string js" where
  "hexToString U decodeText hex = bindJ (hexToBytes U hex 0) (\<lambda>b. ret (decodeText b))"

definition bytesToHex :: "uint8arrays \<Rightarrow> bytes \<Rightarrow> string" where
  "bytesToHex U b = u_toString U Base16 b"

definition bytesToBigInt :: "uint8arrays \<Rightarrow> bytes \<Rightarrow> int js" where
  "bytesToBigInt U b = BigInt_of_string (''0x'' @ u_toString U Base16 b)"

definition bigintToBytes :: "uint8arrays \<Rightarrow> int \<Rightarrow> nat \<Rightarrow> bytes js" where
  "bigintToBytes U n minLength = hexToBytes U (to_radix 16 n) minLength"

definition randomBigInt :: "uint8arrays \<Rightarrow> bytes \<Rightarrow> int js" where
  "randomBigInt U drawn32 = bytesToBigInt U drawn32"

definition base64ToBytes :: "uint8arrays \<Rightarrow> string \<Rightarrow> bytes js" where
  "base64ToBytes U s = u_fromString U Base64pad s"

definition bytesToBase64 :: "uint8arrays \<Rightarrow> bytes \<Rightarrow> string" where
  "bytesToBase64 U b = u_toString U Base64pad b"

definition base64urlToBytes :: "uint8arrays \<Rightarrow> string \<Rightarrow> bytes js" where
  "base64urlToBytes U s = u_fromString U Base64url s"

definition bytesToBase64url :: "uint8arrays \<Rightarrow> bytes \<Rightarrow> string" where
  "bytesToBase64url U b = u_toString U Base64url b"

definition stringToBytes :: "uint8arrays \<Rightarrow> string \<Rightarrow> bytes js" where
  "stringToBytes U s = u_fromString U Utf8 s"

definition bytesToString :: "uint8arrays \<Rightarrow> bytes \<Rightarrow> string" where
  "bytesToString U b = u_toString U Utf8 b"

definition base58ToBytes :: "uint8arrays \<Rightarrow> string \<Rightarrow> bytes js" where
  "base58ToBytes U s = u_fromString U Base58btc s"

definition bytesToBase58 :: "uint8arrays \<Rightarrow> bytes \<Rightarrow> string" where
  "bytesToBase58 U b = u_toString U Base58btc b"

section \<open>multibase.ts\<close>

definition MULTIBASE_base58btc :: char where "MULTIBASE_base58btc = CHR ''z''"

record multicodec_header =
  ed25519Priv :: int
  ed25519Pub :: int
  x25519Pub :: int

definition MultiBase_codec :: multicodec_header where
  "MultiBase_codec = \<lparr>ed25519Priv = 0x8026, ed25519Pub = 0xED01, x25519Pub = 0xEC01\<rparr>"

definition codec_hi :: "int \<Rightarrow> 8 word" where "codec_hi codec = word_of_int (bigint_shr codec 8 AND 255)"

definition codec_lo :: "int \<Rightarrow> 8 word" where "codec_lo codec = word_of_int (codec AND 255)"

definition MultiBase_encode :: "uint8arrays \<Rightarrow> bytes \<Rightarrow> int \<Rightarrow> string" where
  "MultiBase_encode U data codec =
    (if codec > 0
     then MULTIBASE_base58btc # bytesToBase58 U (codec_hi codec # codec_lo codec # data)
     else MULTIBASE_base58btc # bytesToBase58 U data)"

text \<open>An absent codec is 0; a byte past the end is \<open>undefined\<close> and differs from every byte.\<close>

definition MultiBase_decode :: "uint8arrays \<Rightarrow> string \<Rightarrow> int \<Rightarrow> bytes js" where
  "MultiBase_decode U data codec =
    (if data = [] \<or> hd data \<noteq> MULTIBASE_base58btc
     then throw (Error ''Only base58btc multibase encoding is supported.'')
     else bindJ (base58ToBytes U (tl data)) (\<lambda>bs.
       if codec \<noteq> 0
       then (if length bs < 1 \<or> bs ! 0 \<noteq> codec_hi codec \<or> length bs < 2 \<or> bs ! 1 \<noteq> codec_lo codec
             then throw (Error ''decoding failed, codec mismatch'')
             else ret (drop 2 bs))
       else ret bs))"

section \<open>Hexadecimal text\<close>

fun nibbles :: "bytes \<Rightarrow> nat list" where
  "nibbles [] = []"
| "nibbles (b # bs) = unat b div 16 # unat b mod 16 # nibbles bs"

definition hex_of :: "bytes \<Rightarrow> string" where
  "hex_of bs = map digit_char (nibbles bs)"

definition codec_ok :: "uint8arrays \<Rightarrow> bool" where
  "codec_ok U \<longleftrightarrow> (\<forall>bs. u_toString U Base16 bs = hex_of bs)
     \<and> (\<forall>e bs. e \<noteq> Utf8 \<longrightarrow> u_fromString U e (u_toString U e bs) = ret bs)"

fun pack_nibbles :: "nat list \<Rightarrow> bytes" where
  "pack_nibbles (h # l # ds) = word_of_nat (16 * h + l) # pack_nibbles ds"
| "pack_nibbles _ = []"

text \<open>A codec that meets the contract: the other encodings write one character for each byte.\<close>

definition plain_codec :: uint8arrays where
  "plain_codec = \<lparr>
     u_fromString = (\<lambda>e s. if e = Base16
        then (if even (length s) \<and> (\<forall>c \<in> set s. case digit_val c of None \<Rightarrow> False | Some d \<Rightarrow> d < 16)
              then ret (pack_nibbles (map (the \<circ> digit_val) s)) else throw (Error ''Non-base16 character''))
        else ret (map (\<lambda>c. word_of_nat (of_char c)) s)),
     u_toString = (\<lambda>e bs. if e = Base16 then hex_of bs else map (\<lambda>b. char_of (unat b)) bs)\<rparr>"

lemma unat8_less: "unat (b :: 8 word) < 256"
proof -
  have "unat b < 2 ^ LENGTH(8)" by (rule unsigned_less)
  then show ?thesis by simp
qed

lemma nibbles_less: "d \<in> set (nibbles bs) \<Longrightarrow> d < 16"
proof (induction bs rule: nibbles.induct)
  case (2 b bs)
  have "unat b div 16 < 16" using unat8_less [of b] by (simp add: less_mult_imp_div_less)
  with 2 show ?case by auto
qed simp

lemma length_nibbles [simp]: "length (nibbles bs) = 2 * length bs"
  by (induction bs) simp_all

lemma digits_value_nibbles: "int (digits_value 16 (nibbles bs)) = be_val bs"
proof (induction bs rule: rev_induct)
  case Nil
  show ?case by (simp add: be_val_def)
next
  case (snoc b bs)
  have nib: "nibbles (bs @ [b]) = nibbles bs @ nibbles [b]" by (induction bs) simp_all
  have "digits_value 16 (nibbles [b]) = unat b"
    by (simp add: digits_value_def)
  moreover have "be_val [b] = uint b" by (simp add: be_val_def)
  ultimately show ?case
    using snoc by (simp add: nib digits_value_append be_val_append del: nibbles.simps)
qed

lemma pack_nibbles_nibbles [simp]: "pack_nibbles (nibbles bs) = bs"
  by (induction bs) simp_all

lemma nibbles_pack: "even (length ds) \<Longrightarrow> \<forall>d \<in> set ds. d < 16 \<Longrightarrow> nibbles (pack_nibbles ds) = ds"
proof (induction ds rule: pack_nibbles.induct)
  case (1 h l ds)
  then have "16 * h + l < 256" by simp
  then have "unat (word_of_nat (16 * h + l) :: 8 word) = 16 * h + l"
    by (simp add: unat_of_nat del: of_nat_add of_nat_mult)
  moreover have "nibbles (pack_nibbles ds) = ds" "l < 16" using 1 by simp_all
  ultimately show ?case by (simp only: pack_nibbles.simps nibbles.simps) simp
qed simp_all

lemma pack_nibbles_be_bytes:
  assumes "even (length ds)" "\<forall>d \<in> set ds. d < 16"
  shows "pack_nibbles ds = be_bytes (length ds div 2) (int (digits_value 16 ds))"
proof -
  define bs where "bs = pack_nibbles ds"
  have ds: "nibbles bs = ds" using nibbles_pack [OF assms] by (simp add: bs_def)
  then have "length ds = 2 * length bs" by (metis length_nibbles)
  then show ?thesis
    using be_bytes_be_val [of bs] digits_value_nibbles [of bs] ds by (simp add: bs_def)
qed

lemma to_lower_digit [simp]: "d < 16 \<Longrightarrow> to_lower (digit_char d) = digit_char d"
  by (auto simp: to_lower_def digit_char_def Let_def)

lemma map_to_lower_digits: "\<forall>d \<in> set ds. d < 16 \<Longrightarrow> map to_lower (map digit_char ds) = map digit_char ds"
  by (induction ds) simp_all

lemma codec_hex_digits:
  assumes U: "codec_ok U" and ds: "even (length ds)" "\<forall>d \<in> set ds. d < 16"
  shows "u_fromString U Base16 (map digit_char ds) = ret (be_bytes (length ds div 2) (int (digits_value 16 ds)))"
proof -
  have "u_fromString U Base16 (u_toString U Base16 (pack_nibbles ds)) = ret (pack_nibbles ds)"
    using U unfolding codec_ok_def by blast
  moreover have "u_toString U Base16 (pack_nibbles ds) = map digit_char ds"
    using U nibbles_pack [OF ds] by (simp add: codec_ok_def hex_of_def)
  ultimately show ?thesis by (simp add: pack_nibbles_be_bytes [OF ds])
qed

lemma plain_codec_ok: "codec_ok plain_codec"
proof -
  have "u_fromString plain_codec e (u_toString plain_codec e bs) = ret bs" for e bs
  proof (cases "e = Base16")
    case True
    have "\<forall>d \<in> set (nibbles bs). d < 16" using nibbles_less by blast
    then have "map (the \<circ> digit_val) (hex_of bs) = nibbles bs"
      unfolding hex_of_def map_map by (intro map_idI) (auto simp: less_trans [of _ 16 36])
    then show ?thesis
      using True nibbles_less [of _ bs] by (simp add: plain_codec_def) (auto simp: hex_of_def less_trans [of _ 16 36])
  next
    case False
    have "map (\<lambda>b. word_of_nat (of_char (char_of (unat b) :: char)) :: 8 word) bs = bs"
      using unat8_less by (intro map_idI) simp
    then show ?thesis using False by (simp add: plain_codec_def comp_def)
  qed
  then show ?thesis by (simp add: codec_ok_def) (simp add: plain_codec_def)
qed

lemma bytesToBigInt_be_val:
  assumes "codec_ok U" "bs \<noteq> []"
  shows "bytesToBigInt U bs = ret (be_val bs)"
proof -
  have "nibbles bs \<noteq> []" using assms(2) by (cases bs) simp_all
  then show ?thesis
    using assms(1) BigInt_hex_digits [of "nibbles bs"] nibbles_less [of _ bs]
    by (simp add: bytesToBigInt_def codec_ok_def hex_of_def digits_value_nibbles)
qed

lemma bytesToBigInt_empty: "codec_ok U \<Longrightarrow> bytesToBigInt U [] = throw (SyntaxError ''Cannot convert string to a BigInt'')"
proof -
  have "BigInt_of_string ''0x'' = throw (SyntaxError ''Cannot convert string to a BigInt'')" by code_simp
  then show "codec_ok U \<Longrightarrow> bytesToBigInt U [] = throw (SyntaxError ''Cannot convert string to a BigInt'')"
    by (simp add: bytesToBigInt_def codec_ok_def hex_of_def)
qed

lemma digits_value_replicate: "digits_value r (replicate n 0 @ ds) = digits_value r ds"
proof -
  have "digits_value r (replicate n 0) = 0" by (induction n) (simp_all add: digits_value_def)
  then show ?thesis by (simp add: digits_value_append)
qed

lemma digits_no_0x:
  assumes ds: "\<forall>d \<in> set ds. d < 16"
  shows "take 2 (map digit_char ds) \<noteq> ''0x''"
proof
  assume "take 2 (map digit_char ds) = ''0x''"
  moreover have "digit_val (CHR ''x'') = Some 33" by code_simp
  ultimately obtain h l ds' where "ds = h # l # ds'" "digit_char l = CHR ''x''"
    by (cases ds; cases "tl ds") auto
  then show False using ds digit_val_char [of l] \<open>digit_val (CHR ''x'') = Some 33\<close> by auto
qed

lemma hex_bytes_roundtrip:
  assumes U: "codec_ok U"
  shows "hexToBytes U (bytesToHex U b) 0 = ret b"
proof -
  have h: "u_toString U Base16 b = map digit_char (nibbles b)" using U by (simp add: codec_ok_def hex_of_def)
  have d: "\<forall>d \<in> set (nibbles b). d < 16" using nibbles_less by blast
  have "u_fromString U Base16 (map digit_char (nibbles b)) = ret b"
    using U unfolding codec_ok_def h [symmetric] by blast
  then show ?thesis
    unfolding hexToBytes_def bytesToHex_def h Let_def
    by (simp add: digits_no_0x [OF d] map_to_lower_digits [OF d] del: map_map)
qed

lemma bigintToBytes_be_bytes:
  assumes U: "codec_ok U" and n: "0 \<le> n"
  defines "k \<equiv> length (radix_digits 16 (nat n))"
  shows "bigintToBytes U n ml = ret (be_bytes (max ((k + 1) div 2) ml) n)"
proof -
  define ds where "ds = radix_digits 16 (nat n)"
  have zero: "digit_char 0 = CHR ''0''" by code_simp
  have ds: "\<forall>d \<in> set ds. d < 16" "digits_value 16 ds = nat n"
    using radix_digits_less [of 16 _ "nat n"] by (auto simp: ds_def digits_value_radix_digits)
  have no0x: "take 2 (map digit_char ds) \<noteq> ''0x''" by (rule digits_no_0x [OF ds(1)])
  define es where "es = (if odd (length ds) then 0 # ds else ds)"
  define fs where "fs = replicate (max (length es) (ml * 2) - length es) 0 @ es"
  have es: "even (length es)" "\<forall>d \<in> set es. d < 16" "digits_value 16 es = nat n" "length es = 2 * ((k + 1) div 2)"
    using ds digits_value_replicate [of 16 1 ds] by (auto simp: es_def k_def simp flip: ds_def elim!: oddE)
  have input: "(if length (map digit_char ds) mod 2 \<noteq> 0 then CHR ''0'' # map digit_char ds else map digit_char ds)
      = map digit_char es"
    by (simp add: es_def zero odd_iff_mod_2_eq_one)
  have pad: "padStart (max (length es) (ml * 2)) (CHR ''0'') (map digit_char es) = map digit_char fs"
    by (simp add: padStart_def fs_def zero)
  have fs: "even (length fs)" "\<forall>d \<in> set fs. d < 16" "digits_value 16 fs = nat n"
      "length fs = 2 * max ((k + 1) div 2) ml"
    using es unfolding fs_def by (auto simp: digits_value_replicate max_def)
  have "(if ml \<noteq> 0 then padStart (max (length (map digit_char es)) (ml * 2)) (CHR ''0'') (map digit_char es)
      else map digit_char es) = map digit_char fs"
    by (simp add: pad) (simp add: fs_def)
  then have "hexToBytes U (map digit_char ds) ml = u_fromString U Base16 (map to_lower (map digit_char fs))"
    by (simp only: hexToBytes_def Let_def no0x if_False input)
  also have "\<dots> = ret (be_bytes (max ((k + 1) div 2) ml) n)"
    using codec_hex_digits [OF U fs(1,2)] n unfolding map_to_lower_digits [OF fs(2)] by (simp add: fs(3,4))
  finally show ?thesis using n by (simp add: bigintToBytes_def to_radix_def ds_def)
qed

lemma bigintToBytes_fits:
  assumes "0 \<le> n"
  shows "n < 256 ^ max ((length (radix_digits 16 (nat n)) + 1) div 2) ml"
proof -
  define ds where "ds = radix_digits 16 (nat n)"
  have "nat n < 16 ^ length ds"
    using digits_value_less [of ds 16] radix_digits_less [of 16 _ "nat n"]
    by (simp add: ds_def digits_value_radix_digits)
  also have "(16 :: nat) ^ length ds \<le> 16 ^ (2 * max ((length ds + 1) div 2) ml)"
    by (intro power_increasing) auto
  also have "\<dots> = 256 ^ max ((length ds + 1) div 2) ml" by (simp add: power_mult)
  finally have "int (nat n) < int (256 ^ max ((length ds + 1) div 2) ml)" by (simp only: of_nat_less_iff)
  then show ?thesis using assms by (simp add: ds_def)
qed

section \<open>Properties\<close>

text \<open>
  \<open>bytesToBigInt\<close> reads back what \<open>bigintToBytes\<close> writes for a number that is not
  negative, with or without a minimal length, which the bytes then have.
\<close>

theorem bigint_bytes_roundtrip:
  assumes "codec_ok U" "0 \<le> n"
  shows "\<exists>bs. bigintToBytes U n ml = ret bs \<and> ml \<le> length bs \<and> bytesToBigInt U bs = ret n"
proof -
  define k where "k = max ((length (radix_digits 16 (nat n)) + 1) div 2) ml"
  have "0 < length (radix_digits 16 (nat n))" by simp
  then have k: "0 < k" "ml \<le> k" unfolding k_def by linarith+
  have bs: "bigintToBytes U n ml = ret (be_bytes k n)"
    using bigintToBytes_be_bytes [OF assms] by (simp add: k_def)
  have "length (be_bytes k n) = k" by simp
  moreover have "be_val (be_bytes k n) = n"
    using bigintToBytes_fits [OF assms(2), of ml] assms(2) by (simp add: be_val_be_bytes k_def)
  moreover have "be_bytes k n \<noteq> []"
  proof
    assume "be_bytes k n = []"
    then have "length (be_bytes k n) = 0" by simp
    then show False using k(1) by simp
  qed
  ultimately show ?thesis using bs k bytesToBigInt_be_val [OF assms(1), of "be_bytes k n"] by auto
qed

theorem bigint_bytes_roundtrip_witness:
  "\<exists>bs. bigintToBytes plain_codec 1000 32 = ret bs \<and> 32 \<le> length bs \<and> bytesToBigInt plain_codec bs = ret 1000"
  by (rule bigint_bytes_roundtrip [OF plain_codec_ok]) simp

text \<open>
  \<open>MultiBase.decode\<close> inverts \<open>MultiBase.encode\<close> for the same codec, with and without
  a codec header; for another two-byte codec it fails with the mismatch error.
\<close>

theorem multibase_roundtrip:
  assumes "codec_ok U" "0 \<le> codec" "codec < 65536" "0 < codec'" "codec' < 65536"
  shows "MultiBase_decode U (MultiBase_encode U data codec) codec = ret data
    \<and> (0 < codec \<and> codec' \<noteq> codec \<longrightarrow>
        MultiBase_decode U (MultiBase_encode U data codec) codec' = throw (Error ''decoding failed, codec mismatch''))"
proof -
  have dec: "u_fromString U Base58btc (u_toString U Base58btc bs) = ret bs" for bs
    using assms(1) by (simp add: codec_ok_def)
  have ne: "codec_hi codec' \<noteq> codec_hi codec \<or> codec_lo codec' \<noteq> codec_lo codec" if "codec' \<noteq> codec"
  proof (rule ccontr)
    have "(255 :: int) = mask 8" by (simp add: mask_eq_exp_minus_1)
    then have mask: "x AND 255 = x mod 256" for x :: int
      using take_bit_eq_mask [of 8 x] by (simp add: take_bit_eq_mod)
    have w: "uint (codec_hi c) = c div 256 mod 256" "uint (codec_lo c) = c mod 256" for c
      by (simp_all add: codec_hi_def codec_lo_def mask uint8_word_of_int bigint_shr_def)
    assume "\<not> ?thesis"
    then have "codec' div 256 mod 256 = codec div 256 mod 256" "codec' mod 256 = codec mod 256"
      by (metis w(1), metis w(2))
    moreover have "0 \<le> c div 256 \<and> c div 256 < 256" if "0 \<le> c" "c < 65536" for c :: int using that by auto
    ultimately have "codec' div 256 = codec div 256" "codec' mod 256 = codec mod 256"
      using assms by (simp_all)
    then show False using that by (metis mult_div_mod_eq)
  qed
  have "codec' \<noteq> 0" using assms(4) by simp
  then show ?thesis
    using assms(2) ne
    by (cases "codec' = codec") (auto simp: MultiBase_decode_def MultiBase_encode_def base58ToBytes_def bytesToBase58_def dec)
qed

theorem multibase_roundtrip_witness:
  "MultiBase_decode plain_codec (MultiBase_encode plain_codec [1, 2] 0xED01) 0xED01 = ret [1, 2]
   \<and> MultiBase_decode plain_codec (MultiBase_encode plain_codec [1, 2] 0xED01) 0xEC01
       = throw (Error ''decoding failed, codec mismatch'')"
  using multibase_roundtrip [OF plain_codec_ok, of "0xED01" "0xEC01" "[1, 2]"] by simp

end
