(* ===== verification/FFUtils.thy ===== *)
theory FFUtils
  imports CryptoUtils
begin

text \<open>
  Conversions between integers and buffers, and of nested values with bigints:
  packages/albus-core/src/crypto/ff/utils.ts.  The four buffer functions work in
  chunks of 4, 2 and 1 bytes; the lemmas show that they are the plain little- and
  big-endian codecs with one error, for a number that does not fit.
\<close>

section \<open>Nested values\<close>

text \<open>A value of the language: an object is the list of its entries in their order.\<close>

datatype js_value =
    JUndefined
  | JNull
  | JBool bool
  | JNumber int
  | JBigint int
  | JString string
  | JArray "js_value list"
  | JObject "(string \<times> js_value) list"

fun stringifyBigInts :: "uint8arrays \<Rightarrow> js_value \<Rightarrow> js_value js" where
  "stringifyBigInts U (JBigint n) =
     bindJ (hexToBytes U (to_radix 16 n) 0) (\<lambda>b. ret (JString (bytesToBase64 U b)))"
| "stringifyBigInts U (JArray xs) = bindJ (mapJ (stringifyBigInts U) xs) (\<lambda>ys. ret (JArray ys))"
| "stringifyBigInts U (JObject kvs) =
     bindJ (mapJ (\<lambda>(k, v). bindJ (stringifyBigInts U v) (\<lambda>v'. ret (k, v'))) kvs) (\<lambda>kvs'. ret (JObject kvs'))"
| "stringifyBigInts U JNull = ret (JObject [])"
| "stringifyBigInts U v = ret v"

text \<open>\<open>atob\<close> takes the text of its argument; \<open>Object.entries(null)\<close> is a \<open>TypeError\<close>.\<close>

fun js_text :: "js_value \<Rightarrow> string" where
  "js_text JUndefined = ''undefined''"
| "js_text JNull = ''null''"
| "js_text (JBool b) = (if b then ''true'' else ''false'')"
| "js_text (JNumber n) = to_radix 10 n"
| "js_text (JBigint n) = to_radix 10 n"
| "js_text (JString s) = s"
| "js_text v = ''[object Object]''"

fun unstringifyBigInts :: "(string \<Rightarrow> bytes js) \<Rightarrow> js_value \<Rightarrow> js_value js" where
  "unstringifyBigInts atob (JArray xs) = bindJ (mapJ (unstringifyBigInts atob) xs) (\<lambda>ys. ret (JArray ys))"
| "unstringifyBigInts atob (JObject kvs) =
     bindJ (mapJ (\<lambda>(k, v). bindJ (unstringifyBigInts atob v) (\<lambda>v'. ret (k, v'))) kvs) (\<lambda>kvs'. ret (JObject kvs'))"
| "unstringifyBigInts atob JNull = throw (TypeError ''Cannot convert undefined or null to object'')"
| "unstringifyBigInts atob v =
     bindJ (atob (js_text v)) (\<lambda>byteArray.
       let hex = concat (map (\<lambda>x. padStart 2 (CHR ''0'') (to_radix 16 (uint x))) byteArray)
       in bindJ (BigInt_of_string (''0x'' @ hex)) (\<lambda>n. ret (JBigint n)))"

section \<open>Integers in buffers\<close>

text \<open>\<open>i\<close> bytes are still to be read, \<open>offset\<close> have been.\<close>

fun beBuff2int_loop :: "bytes \<Rightarrow> nat \<Rightarrow> nat \<Rightarrow> int \<Rightarrow> int" where
  "beBuff2int_loop buff i offset res =
    (if i = 0 then res
     else if 4 \<le> i then beBuff2int_loop buff (i - 4) (offset + 4)
       (res + bigint_shl (be_val (take 4 (drop (i - 4) buff))) (int (offset * 8)))
     else if 2 \<le> i then beBuff2int_loop buff (i - 2) (offset + 2)
       (res + bigint_shl (be_val (take 2 (drop (i - 2) buff))) (int (offset * 8)))
     else beBuff2int_loop buff (i - 1) (offset + 1)
       (res + bigint_shl (be_val (take 1 (drop (i - 1) buff))) (int (offset * 8))))"

declare beBuff2int_loop.simps [simp del]

definition beBuff2int :: "bytes \<Rightarrow> int" where
  "beBuff2int buff = beBuff2int_loop buff (length buff) 0 0"

text \<open>The loop ends with the shifted number and the filled buffer.\<close>

fun beInt2Buff_loop :: "nat \<Rightarrow> int \<Rightarrow> bytes \<Rightarrow> int \<times> bytes" where
  "beInt2Buff_loop i r buff =
    (if i = 0 then (r, buff)
     else if 4 \<le> i then beInt2Buff_loop (i - 4) (bigint_shr r 32) (put_bytes buff (i - 4) (be_bytes 4 (r AND 0xFFFFFFFF)))
     else if 2 \<le> i then beInt2Buff_loop (i - 2) (bigint_shr r 16) (put_bytes buff (i - 2) (be_bytes 2 (r AND 0xFFFF)))
     else beInt2Buff_loop (i - 1) (bigint_shr r 8) (put_bytes buff (i - 1) (be_bytes 1 (r AND 0xFF))))"

declare beInt2Buff_loop.simps [simp del]

definition beInt2Buff :: "int \<Rightarrow> nat \<Rightarrow> bytes js" where
  "beInt2Buff n len =
    (let (r, buff) = beInt2Buff_loop len n (replicate len 0) in
     if r \<noteq> 0 then throw (Error ''Number does not fit in this length'') else ret buff)"

text \<open>The remaining bytes, whose first has index \<open>i\<close>.\<close>

function leBuff2int_loop :: "bytes \<Rightarrow> nat \<Rightarrow> int \<Rightarrow> int" where
  "leBuff2int_loop buff i res =
    (if length buff \<le> i then res
     else if i + 4 \<le> length buff then leBuff2int_loop buff (i + 4)
       (res + bigint_shl (le_val (take 4 (drop i buff))) (int (i * 8)))
     else if i + 2 \<le> length buff then leBuff2int_loop buff (i + 2)
       (res + bigint_shl (le_val (take 2 (drop i buff))) (int (i * 8)))
     else leBuff2int_loop buff (i + 1) (res + bigint_shl (le_val (take 1 (drop i buff))) (int (i * 8))))"
  by auto
termination by (relation "measure (\<lambda>(buff, i, res). length buff - i)") auto

declare leBuff2int_loop.simps [simp del]

definition leBuff2int :: "bytes \<Rightarrow> int" where
  "leBuff2int buff = leBuff2int_loop buff 0 0"

function leInt2Buff_loop :: "nat \<Rightarrow> nat \<Rightarrow> int \<Rightarrow> bytes \<Rightarrow> int \<times> bytes" where
  "leInt2Buff_loop len i r buff =
    (if len \<le> i then (r, buff)
     else if i + 4 \<le> len then leInt2Buff_loop len (i + 4) (bigint_shr r 32) (put_bytes buff i (le_bytes 4 (r AND 0xFFFFFFFF)))
     else if i + 2 \<le> len then leInt2Buff_loop len (i + 2) (bigint_shr r 16) (put_bytes buff i (le_bytes 2 (r AND 0xFFFF)))
     else leInt2Buff_loop len (i + 1) (bigint_shr r 8) (put_bytes buff i (le_bytes 1 (r AND 0xFF))))"
  by auto
termination by (relation "measure (\<lambda>(len, i, r, buff). len - i)") auto

declare leInt2Buff_loop.simps [simp del]

text \<open>An absent length is that of the number's bits, at least 1; NaN makes an empty buffer.\<close>

definition leInt2Buff :: "int \<Rightarrow> nat option \<Rightarrow> bytes js" where
  "leInt2Buff n len0 =
    (let len = (case len0 of Some l \<Rightarrow> l
        | None \<Rightarrow> (case Scalar_bitLength n of None \<Rightarrow> 0
            | Some b \<Rightarrow> let l = nat ((int b - 1) div 8 + 1) in if l = 0 then 1 else l));
         (r, buff) = leInt2Buff_loop len 0 n (replicate len 0) in
     if r \<noteq> 0 then throw (Error ''Number does not fit in this length'') else ret buff)"

section \<open>The loops are the plain codecs\<close>

lemma masks:
  "(r AND 0xFFFFFFFF) = r mod (2 ^ 32 :: int)" "(r AND 0xFFFF) = r mod (2 ^ 16 :: int)" "(r AND 0xFF) = r mod (2 ^ 8 :: int)"
proof -
  have m: "(0xFFFFFFFF :: int) = mask 32" "(0xFFFF :: int) = mask 16" "(0xFF :: int) = mask 8"
    by (simp_all add: mask_eq_exp_minus_1)
  show "(r AND 0xFFFFFFFF) = r mod (2 ^ 32 :: int)" "(r AND 0xFFFF) = r mod (2 ^ 16 :: int)" "(r AND 0xFF) = r mod (2 ^ 8 :: int)"
    unfolding m take_bit_eq_mask [symmetric] take_bit_eq_mod by (rule refl)+
qed

lemma shr_bytes: "bigint_shr r (int (8 * k)) = r div 256 ^ k"
  by (simp add: bigint_shr_def power_mult nat_mult_distrib)

text \<open>One step of each loop: a chunk of \<open>k\<close> bytes.\<close>

lemma beInt2Buff_loop_chunk:
  assumes "i \<noteq> 0"
  obtains k where "0 < k" "k \<le> i"
    "beInt2Buff_loop i r buff = beInt2Buff_loop (i - k) (r div 256 ^ k) (put_bytes buff (i - k) (be_bytes k r))"
proof -
  consider "4 \<le> i" | "i < 4" "2 \<le> i" | "i < 2" by linarith
  then show ?thesis
  proof cases
    case 1
    then show ?thesis
      using that [of 4] le_bytes_mod [of 4 4 r] shr_bytes [of r 4]
      by (simp add: beInt2Buff_loop.simps [of i] be_bytes_def masks)
  next
    case 2
    then show ?thesis
      using that [of 2] le_bytes_mod [of 2 2 r] shr_bytes [of r 2]
      by (simp add: beInt2Buff_loop.simps [of i] be_bytes_def masks)
  next
    case 3
    then show ?thesis
      using assms that [of 1] le_bytes_mod [of 1 1 r] shr_bytes [of r 1]
      by (simp add: beInt2Buff_loop.simps [of i] be_bytes_def masks)
  qed
qed

lemma leInt2Buff_loop_chunk:
  assumes "i < len"
  obtains k where "0 < k" "i + k \<le> len"
    "leInt2Buff_loop len i r buff = leInt2Buff_loop len (i + k) (r div 256 ^ k) (put_bytes buff i (le_bytes k r))"
proof -
  consider "i + 4 \<le> len" | "len < i + 4" "i + 2 \<le> len" | "len < i + 2" by linarith
  then show ?thesis
  proof cases
    case 1
    then show ?thesis
      using that [of 4] le_bytes_mod [of 4 4 r] shr_bytes [of r 4]
      by (simp add: leInt2Buff_loop.simps [of len i] masks)
  next
    case 2
    then show ?thesis
      using that [of 2] le_bytes_mod [of 2 2 r] shr_bytes [of r 2]
      by (simp add: leInt2Buff_loop.simps [of len i] masks)
  next
    case 3
    then show ?thesis
      using assms that [of 1] le_bytes_mod [of 1 1 r] shr_bytes [of r 1]
      by (simp add: leInt2Buff_loop.simps [of len i] masks)
  qed
qed

lemma be_bytes_add: "be_bytes (m + n) x = be_bytes m (x div 256 ^ n) @ be_bytes n x"
  by (simp add: be_bytes_def le_bytes_add [of n m, unfolded add.commute [of n m]])

lemma beInt2Buff_loop_eq:
  "i \<le> length buff \<Longrightarrow> beInt2Buff_loop i r buff = (r div 256 ^ i, be_bytes i r @ drop i buff)"
proof (induction i arbitrary: r buff rule: less_induct)
  case (less i)
  show ?case
  proof (cases "i = 0")
    case True
    then show ?thesis by (simp add: beInt2Buff_loop.simps [of 0] be_bytes_def)
  next
    case False
    then obtain k where k: "0 < k" "k \<le> i"
      "beInt2Buff_loop i r buff = beInt2Buff_loop (i - k) (r div 256 ^ k) (put_bytes buff (i - k) (be_bytes k r))"
      by (rule beInt2Buff_loop_chunk)
    obtain j where j: "i = j + k" using k(2) by (metis le_add_diff_inverse2)
    have "beInt2Buff_loop j (r div 256 ^ k) (put_bytes buff j (be_bytes k r))
        = (r div 256 ^ k div 256 ^ j, be_bytes j (r div 256 ^ k) @ drop j (put_bytes buff j (be_bytes k r)))"
      using k(1) less.prems by (intro less.IH) (simp_all add: j)
    moreover have "drop j (put_bytes buff j (be_bytes k r)) = be_bytes k r @ drop i buff"
      using less.prems by (simp add: put_bytes_def j)
    moreover have "r div 256 ^ k div 256 ^ j = r div 256 ^ i"
      by (simp add: j power_add zdiv_zmult2_eq mult.commute flip: zdiv_zmult2_eq)
    ultimately show ?thesis using k(3) by (simp add: j be_bytes_add)
  qed
qed

lemma leInt2Buff_loop_eq:
  "length buff = len \<Longrightarrow> i \<le> len \<Longrightarrow>
    leInt2Buff_loop len i r buff = (r div 256 ^ (len - i), take i buff @ le_bytes (len - i) r)"
proof (induction "len - i" arbitrary: i r buff rule: less_induct)
  case less
  show ?case
  proof (cases "i = len")
    case True
    then show ?thesis using less.prems by (simp add: leInt2Buff_loop.simps [of len len])
  next
    case False
    then have "i < len" using less.prems by simp
    then obtain k where k: "0 < k" "i + k \<le> len"
      "leInt2Buff_loop len i r buff = leInt2Buff_loop len (i + k) (r div 256 ^ k) (put_bytes buff i (le_bytes k r))"
      by (rule leInt2Buff_loop_chunk)
    obtain j where j: "len = i + k + j" using k(2) by (metis le_Suc_ex)
    have "leInt2Buff_loop len (i + k) (r div 256 ^ k) (put_bytes buff i (le_bytes k r))
        = (r div 256 ^ k div 256 ^ j, take (i + k) (put_bytes buff i (le_bytes k r)) @ le_bytes j (r div 256 ^ k))"
      using less.hyps [of "i + k" "put_bytes buff i (le_bytes k r)" "r div 256 ^ k"] k(1) less.prems
      by (simp add: j)
    moreover have "take (i + k) (put_bytes buff i (le_bytes k r)) = take i buff @ le_bytes k r"
      using less.prems by (simp add: put_bytes_def j)
    moreover have "r div 256 ^ k div 256 ^ j = r div 256 ^ (k + j)"
      by (simp add: power_add zdiv_zmult2_eq)
    ultimately show ?thesis using k(3) by (simp add: j le_bytes_add)
  qed
qed

lemma div_eq_0_iff_fits: "(n :: int) div 256 ^ k = 0 \<longleftrightarrow> 0 \<le> n \<and> n < 256 ^ k"
proof -
  have "(0 :: int) < 256 ^ k" by simp
  then show ?thesis by (auto simp: zdiv_eq_0_iff simp del: zero_less_power)
qed

lemma beInt2Buff_eq:
  "beInt2Buff n len = (if 0 \<le> n \<and> n < 256 ^ len then ret (be_bytes len n)
     else throw (Error ''Number does not fit in this length''))"
  using beInt2Buff_loop_eq [of len "replicate len 0" n] div_eq_0_iff_fits [of n len]
  by (simp add: beInt2Buff_def)

lemma leInt2Buff_eq:
  "leInt2Buff n (Some len) = (if 0 \<le> n \<and> n < 256 ^ len then ret (le_bytes len n)
     else throw (Error ''Number does not fit in this length''))"
  using leInt2Buff_loop_eq [of "replicate len 0" len 0 n] div_eq_0_iff_fits [of n len]
  by (simp add: leInt2Buff_def)

lemma shl_bytes: "bigint_shl x (int (k * 8)) = x * 256 ^ k"
  by (simp add: bigint_shl_def power_mult nat_mult_distrib mult.commute [of k])

lemma beBuff2int_loop_eq:
  "i \<le> length buff \<Longrightarrow> beBuff2int_loop buff i offset res = res + be_val (take i buff) * 256 ^ offset"
proof (induction i arbitrary: offset res rule: less_induct)
  case (less i)
  have step: "res + be_val (take k (drop (i - k) buff)) * 256 ^ offset + be_val (take (i - k) buff) * 256 ^ (offset + k)
      = res + be_val (take i buff) * 256 ^ offset" if k: "k \<le> i" for k
  proof -
    have "take i buff = take (i - k) buff @ take k (drop (i - k) buff)"
      using take_add [of "i - k" k buff] k by simp
    moreover have "length (take k (drop (i - k) buff)) = k" using less.prems k by simp
    ultimately show ?thesis by (simp add: be_val_append power_add algebra_simps)
  qed
  show ?case
  proof (cases "i = 0")
    case True
    then show ?thesis by (simp add: beBuff2int_loop.simps [of buff 0] be_val_def)
  next
    case False
    consider "4 \<le> i" | "i < 4" "2 \<le> i" | "i < 2" by linarith
    then show ?thesis
      using False less.IH [of "i - 4"] less.IH [of "i - 2"] less.IH [of "i - 1"] less.prems step [of 4] step [of 2] step [of 1]
      unfolding beBuff2int_loop.simps [of buff i] shl_bytes by cases simp_all
  qed
qed

lemma beBuff2int_eq: "beBuff2int buff = be_val buff"
  by (simp add: beBuff2int_def beBuff2int_loop_eq)

lemma leBuff2int_loop_eq:
  "leBuff2int_loop buff i res = res + le_val (drop i buff) * 256 ^ i"
proof (induction "length buff - i" arbitrary: i res rule: less_induct)
  case less
  have step: "res + le_val (take k (drop i buff)) * 256 ^ i + le_val (drop (i + k) buff) * 256 ^ (i + k)
      = res + le_val (drop i buff) * 256 ^ i" if k: "i + k \<le> length buff" for k
  proof -
    have "drop i buff = take k (drop i buff) @ drop (i + k) buff"
      using append_take_drop_id [of k "drop i buff"] by (simp add: add.commute)
    then have "le_val (drop i buff) = le_val (take k (drop i buff)) + 256 ^ k * le_val (drop (i + k) buff)"
      using le_val_append [of "take k (drop i buff)" "drop (i + k) buff"] k by simp
    then show ?thesis by (simp add: power_add algebra_simps)
  qed
  show ?case
  proof (cases "length buff \<le> i")
    case True
    then show ?thesis by (simp add: leBuff2int_loop.simps [of buff i])
  next
    case False
    consider "i + 4 \<le> length buff" | "length buff < i + 4" "i + 2 \<le> length buff" | "length buff < i + 2" by linarith
    then show ?thesis
      using False less [of "i + 4"] less [of "i + 2"] less [of "i + 1"] step [of 4] step [of 2] step [of 1]
      unfolding leBuff2int_loop.simps [of buff i] shl_bytes by cases simp_all
  qed
qed

lemma leBuff2int_eq: "leBuff2int buff = le_val buff"
  by (simp add: leBuff2int_def leBuff2int_loop_eq)

section \<open>The interface of a fixed-width codec\<close>

text \<open>What the encodings of points and signals rely on.\<close>

locale fixed_codec =
  fixes enc :: "int \<Rightarrow> nat \<Rightarrow> bytes js" and dec :: "bytes \<Rightarrow> int"
  assumes enc_fits: "0 \<le> n \<Longrightarrow> n < 256 ^ len \<Longrightarrow> \<exists>bs. enc n len = ret bs \<and> length bs = len \<and> dec bs = n"
    and enc_error: "\<not> (0 \<le> n \<and> n < 256 ^ len) \<Longrightarrow> \<exists>e. enc n len = throw e"
    and dec_fits: "0 \<le> dec bs \<and> dec bs < 256 ^ length bs"
    and dec_inj: "length bs = length bs' \<Longrightarrow> dec bs = dec bs' \<Longrightarrow> bs = bs'"
begin

lemma enc_dec: "enc (dec bs) (length bs) = ret bs"
proof -
  obtain cs where "enc (dec bs) (length bs) = ret cs" "length cs = length bs" "dec cs = dec bs"
    using enc_fits [of "dec bs" "length bs"] dec_fits [of bs] by blast
  then show ?thesis using dec_inj [of cs bs] by simp
qed

lemma enc_ret_iff: "(\<exists>bs. enc n len = ret bs) \<longleftrightarrow> 0 \<le> n \<and> n < 256 ^ len"
  using enc_fits [of n len] enc_error [of n len] by fastforce

lemma enc_retD: "enc n len = ret bs \<Longrightarrow> length bs = len \<and> dec bs = n"
  using enc_fits [of n len] enc_ret_iff [of n len] by fastforce

lemma mapJ_enc:
  "(\<forall>n \<in> set ns. 0 \<le> n \<and> n < 256 ^ len) \<Longrightarrow>
    \<exists>bss. mapJ (\<lambda>n. enc n len) ns = ret bss \<and> map dec bss = ns \<and> (\<forall>bs \<in> set bss. length bs = len)"
proof (induction ns)
  case (Cons n ns)
  obtain bs where "enc n len = ret bs" "length bs = len" "dec bs = n" using enc_fits [of n len] Cons.prems by auto
  with Cons show ?case by auto
qed simp

end

interpretation le: fixed_codec "\<lambda>n len. leInt2Buff n (Some len)" leBuff2int
proof
  fix bs bs' :: bytes
  assume "length bs = length bs'" "leBuff2int bs = leBuff2int bs'"
  then show "bs = bs'" by (metis le_bytes_le_val leBuff2int_eq)
qed (auto simp: leInt2Buff_eq leBuff2int_eq le_val_le_bytes le_val_nonneg le_val_less)

interpretation be: fixed_codec beInt2Buff beBuff2int
proof
  fix bs bs' :: bytes
  assume "length bs = length bs'" "beBuff2int bs = beBuff2int bs'"
  then show "bs = bs'" by (metis be_bytes_be_val beBuff2int_eq)
qed (auto simp: beInt2Buff_eq beBuff2int_eq be_val_be_bytes be_val_nonneg be_val_less)

section \<open>Nested values: lemmas\<close>

text \<open>Values built from bigints that are not negative.\<close>

fun bigint_tree :: "js_value \<Rightarrow> bool" where
  "bigint_tree (JBigint n) \<longleftrightarrow> 0 \<le> n"
| "bigint_tree (JArray xs) \<longleftrightarrow> (\<forall>x \<in> set xs. bigint_tree x)"
| "bigint_tree (JObject kvs) \<longleftrightarrow> (\<forall>kv \<in> set kvs. bigint_tree (snd kv))"
| "bigint_tree _ \<longleftrightarrow> False"

lemma hex_byte: "padStart 2 (CHR ''0'') (to_radix 16 (uint (x :: 8 word))) = map digit_char [unat x div 16, unat x mod 16]"
proof -
  have zero: "digit_char 0 = CHR ''0''" by code_simp
  have d: "unat x div 16 < 16" using unat8_less [of x] by (simp add: less_mult_imp_div_less)
  have "nat (uint x) = unat x" by simp
  then have tr: "to_radix 16 (uint x) = map digit_char (radix_digits 16 (unat x))"
    using uint8_bounds [of x] by (simp add: to_radix_def)
  show ?thesis
  proof (cases "unat x < 16")
    case True
    then show ?thesis unfolding tr by (simp add: radix_digits.simps [of 16 "unat x"] padStart_def zero numeral_2_eq_2)
  next
    case False
    have "radix_digits 16 (unat x) = [unat x div 16, unat x mod 16]"
      using False d by (simp add: radix_digits.simps [of 16 "unat x"] radix_digits.simps [of 16 "unat x div 16"])
    then show ?thesis unfolding tr by (simp add: padStart_def)
  qed
qed

lemma hex_text: "concat (map (\<lambda>x. padStart 2 (CHR ''0'') (to_radix 16 (uint x))) bs) = hex_of bs"
  by (induction bs) (simp_all add: hex_byte hex_of_def)

lemma mapJ_roundtrip:
  assumes "\<And>x. x \<in> set xs \<Longrightarrow> \<exists>y. f x = ret y \<and> g y = ret x"
  shows "\<exists>ys. mapJ f xs = ret ys \<and> mapJ g ys = ret xs"
  using assms
proof (induction xs)
  case (Cons x xs)
  obtain y where "f x = ret y" "g y = ret x" using Cons.prems [of x] by auto
  moreover obtain ys where "mapJ f xs = ret ys" "mapJ g ys = ret xs" using Cons by auto
  ultimately show ?case by (intro exI [of _ "y # ys"]) simp
qed simp

lemma stringify_roundtrip:
  assumes U: "codec_ok U" and atob: "\<And>bs. atob (bytesToBase64 U bs) = ret bs"
  shows "bigint_tree v \<Longrightarrow> \<exists>v'. stringifyBigInts U v = ret v' \<and> unstringifyBigInts atob v' = ret v"
proof (induction v rule: bigint_tree.induct)
  case (1 n)
  obtain bs where bs: "bigintToBytes U n 0 = ret bs" "bs \<noteq> []" "be_val bs = n"
  proof -
    define k where "k = (length (radix_digits 16 (nat n)) + 1) div 2"
    have "0 < length (radix_digits 16 (nat n))" by simp
    then have "0 < k" unfolding k_def by linarith
    then have "be_bytes k n \<noteq> []" by (metis length_be_bytes length_0_conv less_not_refl)
    moreover have "be_val (be_bytes k n) = n"
      using bigintToBytes_fits [of n 0] 1 by (simp add: be_val_be_bytes k_def)
    ultimately show ?thesis using that bigintToBytes_be_bytes [OF U, of n 0] 1 by (simp add: k_def)
  qed
  have "BigInt_of_string (''0x'' @ hex_of bs) = ret n"
    using bytesToBigInt_be_val [OF U bs(2)] bs(3) U by (simp add: bytesToBigInt_def codec_ok_def)
  then show ?case using bs(1) atob by (simp add: bigintToBytes_def hex_text)
next
  case (2 xs)
  obtain ys where "mapJ (stringifyBigInts U) xs = ret ys" "mapJ (unstringifyBigInts atob) ys = ret xs"
    using mapJ_roundtrip [of xs "stringifyBigInts U" "unstringifyBigInts atob"] 2 by auto
  then show ?case by simp
next
  case (3 kvs)
  obtain ys where "mapJ (\<lambda>(k, v). bindJ (stringifyBigInts U v) (\<lambda>v'. ret (k, v'))) kvs = ret ys"
      "mapJ (\<lambda>(k, v). bindJ (unstringifyBigInts atob v) (\<lambda>v'. ret (k, v'))) ys = ret kvs"
  proof -
    have "\<exists>y. (case kv of (k, v) \<Rightarrow> bindJ (stringifyBigInts U v) (\<lambda>v'. ret (k, v'))) = ret y
        \<and> (case y of (k, v) \<Rightarrow> bindJ (unstringifyBigInts atob v) (\<lambda>v'. ret (k, v'))) = ret kv" if "kv \<in> set kvs" for kv
      using 3 that by (cases kv) fastforce
    then show ?thesis using mapJ_roundtrip that by blast
  qed
  then show ?case by simp
qed simp_all

section \<open>Properties\<close>

text \<open>
  the chunked conversions of ff/utils.ts are exact: a number in \<open>0..256^len - 1\<close>
  becomes \<open>len\<close> bytes that read back as the number, little and big endian, every other
  number is refused with the same error, and every buffer is the image of the number
  it reads as.
\<close>

theorem int_buffers_exact:
  "(if 0 \<le> n \<and> n < 256 ^ len
    then \<exists>l b. leInt2Buff n (Some len) = ret l \<and> leBuff2int l = n \<and> length l = len
           \<and> beInt2Buff n len = ret b \<and> beBuff2int b = n \<and> b = rev l
    else leInt2Buff n (Some len) = throw (Error ''Number does not fit in this length'')
       \<and> beInt2Buff n len = throw (Error ''Number does not fit in this length''))
   \<and> leInt2Buff (leBuff2int buff) (Some (length buff)) = ret buff
   \<and> beInt2Buff (beBuff2int buff) (length buff) = ret buff"
  using le.enc_dec [of buff] be.enc_dec [of buff]
  by (simp add: leInt2Buff_eq beInt2Buff_eq leBuff2int_eq beBuff2int_eq le_val_le_bytes be_val_be_bytes)
     (simp add: be_bytes_def)

text \<open>
  \<open>unstringifyBigInts\<close> inverts \<open>stringifyBigInts\<close> on arrays and objects nested to any
  depth whose leaves are bigints that are not negative.
\<close>

theorem stringify_bigints_roundtrip:
  assumes "codec_ok U" "\<And>bs. atob (bytesToBase64 U bs) = ret bs" "bigint_tree v"
  shows "\<exists>v'. stringifyBigInts U v = ret v' \<and> unstringifyBigInts atob v' = ret v"
  by (rule stringify_roundtrip [OF assms])

theorem stringify_bigints_roundtrip_witness:
  "\<exists>v'. stringifyBigInts plain_codec (JObject [(''a'', JArray [JBigint 0, JBigint 65535]), (''b'', JBigint 7)]) = ret v'
     \<and> unstringifyBigInts (u_fromString plain_codec Base64pad) v'
        = ret (JObject [(''a'', JArray [JBigint 0, JBigint 65535]), (''b'', JBigint 7)])"
proof (rule stringify_bigints_roundtrip [OF plain_codec_ok])
  fix bs
  show "u_fromString plain_codec Base64pad (bytesToBase64 plain_codec bs) = ret bs"
    using plain_codec_ok unfolding codec_ok_def bytesToBase64_def by blast
qed simp

end
