(* ===== verification/Poseidon.thy ===== *)
theory Poseidon
  imports F1Field FFUtils
begin

text \<open>
  The Poseidon hash and the cipher built on it:
  packages/albus-core/src/crypto/poseidon/poseidon-opt.ts.  The field and the constant
  tables that the module loads are a record \<open>poseidon_env\<close>; \<open>env_ok\<close> states the shape
  and range of the tables.  The lemmas show that the hash is total on 1 to 16 inputs
  and lands in the field, that both sponges compute the same chain of hashes, and that
  decryption inverts encryption.
\<close>

section \<open>Environment\<close>

record poseidon_env =
  pe_F :: F1Field
  pe_C :: "int list list"
  pe_M :: "int list list list"
  opt_C :: "int list list"
  opt_S :: "int list list"
  opt_M :: "int list list list"
  opt_P :: "int list list list"

definition N_ROUNDS_F :: nat where "N_ROUNDS_F = 8"

definition N_ROUNDS_P :: "nat list" where
  "N_ROUNDS_P = [56, 57, 56, 60, 60, 63, 64, 63, 60, 66, 60, 65, 70, 60, 64, 68]"

definition SPONGE_INPUTS :: nat where "SPONGE_INPUTS = 16"

definition SPONGE_CHUNK_SIZE :: nat where "SPONGE_CHUNK_SIZE = 31"

definition two128 :: "poseidon_env \<Rightarrow> int" where
  "two128 E = F1_e (pe_F E) 340282366920938463463374607431768211456"

definition pow5 :: "F1Field \<Rightarrow> int \<Rightarrow> int" where
  "pow5 F a = F1_mul F a (F1_square F (F1_square F a))"

section \<open>The hash\<close>

text \<open>\<open>state.map((a, i) => F.add(a, C[off + i]))\<close>.\<close>

definition add_constants :: "F1Field \<Rightarrow> int list \<Rightarrow> nat \<Rightarrow> int list \<Rightarrow> int list js" where
  "add_constants F C off state =
    mapJ (\<lambda>(a, i). bindJ (elem_at C (off + i)) (\<lambda>c. ret (F1_add F a c))) (zip state [0..<length state])"

text \<open>The product of the state with column \<open>i\<close> of a table, for every \<open>i\<close>; \<open>cell\<close> looks an
  entry up.\<close>

definition mix_with :: "F1Field \<Rightarrow> (nat \<Rightarrow> nat \<Rightarrow> int js) \<Rightarrow> int list \<Rightarrow> int list js" where
  "mix_with F cell state =
    mapJ (\<lambda>i. foldJ (\<lambda>acc (a, j). bindJ (cell j i) (\<lambda>m. ret (F1_add F acc (F1_mul F m a))))
                (F_zero F) (zip state [0..<length state]))
      [0..<length state]"

definition table_cell :: "int list list \<Rightarrow> nat \<Rightarrow> nat \<Rightarrow> int js" where
  "table_cell M j i = bindJ (elem_at M j) (\<lambda>row. elem_at row i)"

text \<open>One of the partial rounds, which raises the first element only.\<close>

definition partial_round :: "F1Field \<Rightarrow> int list \<Rightarrow> int list \<Rightarrow> nat \<Rightarrow> int list \<Rightarrow> nat \<Rightarrow> int list js" where
  "partial_round F C S t state r =
    bindJ (elem_at state 0) (\<lambda>a0.
    bindJ (elem_at C ((N_ROUNDS_F div 2 + 1) * t + r)) (\<lambda>c.
    let x = F1_add F (pow5 F a0) c; state = state[0 := x] in
    bindJ (foldJ (\<lambda>acc (a, j). bindJ (elem_at S ((t * 2 - 1) * r + j)) (\<lambda>s. ret (F1_add F acc (F1_mul F s a))))
             (F_zero F) (zip state [0..<length state])) (\<lambda>s0.
    bindJ (mapJ (\<lambda>k. bindJ (elem_at state k) (\<lambda>a. bindJ (elem_at S ((t * 2 - 1) * r + t + k - 1))
                  (\<lambda>s. ret (F1_add F a (F1_mul F x s))))) [1..<t]) (\<lambda>rest.
    ret (s0 # rest)))))"

definition full_round :: "F1Field \<Rightarrow> int list \<Rightarrow> int list list \<Rightarrow> nat \<Rightarrow> int list \<Rightarrow> int list js" where
  "full_round F C M off state =
    bindJ (add_constants F C off (map (pow5 F) state)) (\<lambda>state. mix_with F (table_cell M) state)"

definition Poseidon_hash :: "poseidon_env \<Rightarrow> int list \<Rightarrow> int js" where
  "Poseidon_hash E inputs =
    (if \<not> (length inputs > 0 \<and> length inputs \<le> length N_ROUNDS_P) then throw (Error ''Invalid inputs'')
     else
       let F = pe_F E; t = length inputs + 1; nRoundsF = N_ROUNDS_F; nRoundsP = N_ROUNDS_P ! (t - 2) in
       bindJ (elem_at (opt_C E) (t - 2)) (\<lambda>C.
       bindJ (elem_at (opt_S E) (t - 2)) (\<lambda>S.
       bindJ (elem_at (opt_M E) (t - 2)) (\<lambda>M.
       bindJ (elem_at (opt_P E) (t - 2)) (\<lambda>P.
       bindJ (add_constants F C 0 (F_zero F # map (F1_e F) inputs)) (\<lambda>state.
       bindJ (foldJ (\<lambda>state r. full_round F C M ((r + 1) * t) state) state [0..<nRoundsF div 2 - 1]) (\<lambda>state.
       bindJ (full_round F C P ((nRoundsF div 2 - 1 + 1) * t) state) (\<lambda>state.
       bindJ (foldJ (partial_round F C S t) state [0..<nRoundsP]) (\<lambda>state.
       bindJ (foldJ (\<lambda>state r. full_round F C M ((nRoundsF div 2 + 1) * t + nRoundsP + r * t) state) state
                [0..<nRoundsF div 2 - 1]) (\<lambda>state.
       bindJ (mix_with F (table_cell M) (map (pow5 F) state)) (\<lambda>state.
       bindJ (elem_at state 0) (\<lambda>a0. ret (F1_normalize F a0)))))))))))))"

section \<open>Sponges\<close>

text \<open>Assignment to an array index that is at most the length; \<open>xs.fill(0n, a, b)\<close>.\<close>

definition arr_set :: "'a list \<Rightarrow> nat \<Rightarrow> 'a \<Rightarrow> 'a list" where
  "arr_set xs k v = (if k < length xs then xs[k := v] else xs @ [v])"

definition fill_zero :: "int list \<Rightarrow> nat \<Rightarrow> nat \<Rightarrow> int list" where
  "fill_zero xs a b = map (\<lambda>(x, j). if a \<le> j \<and> j < b then 0 else x) (zip xs [0..<length xs])"

text \<open>The variables of the loop: the inputs, \<open>dirty\<close>, the hash (\<open>None\<close> while undefined), \<open>k\<close>.\<close>

type_synonym sponge_state = "int list \<times> bool \<times> int option \<times> nat"

definition hashBytesX_step :: "poseidon_env \<Rightarrow> nat \<Rightarrow> sponge_state \<Rightarrow> int \<Rightarrow> sponge_state js" where
  "hashBytesX_step E frameSize st v =
    (case st of (inputs, dirty, hash, k) \<Rightarrow>
       let inputs = arr_set inputs k v in
       if k + 1 = frameSize
       then bindJ (Poseidon_hash E inputs) (\<lambda>h.
              ret (fill_zero (fill_zero (inputs[0 := h]) 1 SPONGE_CHUNK_SIZE) 1 frameSize, False, Some h, 1))
       else ret (inputs, True, hash, k + 1))"

definition Poseidon_hashBytesX :: "poseidon_env \<Rightarrow> bytes \<Rightarrow> nat \<Rightarrow> int option js" where
  "Poseidon_hashBytesX E msg frameSize =
    (let n = length msg div SPONGE_CHUNK_SIZE in
     bindJ (foldJ (\<lambda>st i. hashBytesX_step E frameSize st
              (beBuff2int (take SPONGE_CHUNK_SIZE (drop (SPONGE_CHUNK_SIZE * i) msg))))
            (replicate frameSize 0, False, None, 0) [0..<n])
       (\<lambda>(inputs, dirty, hash, k).
         let (inputs, dirty) =
           (if length msg mod SPONGE_CHUNK_SIZE \<noteq> 0
            then (let slice = drop (n * SPONGE_CHUNK_SIZE) msg;
                      buff = slice @ replicate (SPONGE_CHUNK_SIZE - length slice) 0
                  in (arr_set inputs k (beBuff2int buff), True))
            else (inputs, dirty))
         in if dirty then bindJ (Poseidon_hash E inputs) (\<lambda>h. ret (Some h)) else ret hash))"

definition Poseidon_hashBytes :: "poseidon_env \<Rightarrow> bytes \<Rightarrow> int option js" where
  "Poseidon_hashBytes E msg = Poseidon_hashBytesX E msg SPONGE_INPUTS"

definition spongeHashX_step :: "poseidon_env \<Rightarrow> nat \<Rightarrow> sponge_state \<Rightarrow> int \<Rightarrow> sponge_state js" where
  "spongeHashX_step E frameSize st v =
    (case st of (frame, dirty, hash, k) \<Rightarrow>
       let frame = arr_set frame k v in
       if k + 1 = frameSize
       then bindJ (Poseidon_hash E frame) (\<lambda>h. ret ((replicate frameSize 0)[0 := h], False, Some h, 1))
       else ret (frame, True, hash, k + 1))"

text \<open>\<open>!hash\<close> holds of an undefined hash and of \<open>0n\<close>.\<close>

definition Poseidon_spongeHashX :: "poseidon_env \<Rightarrow> int list \<Rightarrow> nat \<Rightarrow> int js" where
  "Poseidon_spongeHashX E inputs frameSize =
    (if frameSize < 2 \<or> frameSize > 16 then throw (Error ''incorrect frame size'')
     else bindJ (foldJ (spongeHashX_step E frameSize) (replicate frameSize 0, False, None, 0) inputs)
       (\<lambda>(frame, dirty, hash, k).
         bindJ (if dirty then bindJ (Poseidon_hash E frame) (\<lambda>h. ret (Some h)) else ret hash) (\<lambda>hash.
         case hash of None \<Rightarrow> throw (Error ''hash is undefined'')
         | Some h \<Rightarrow> if h = 0 then throw (Error ''hash is undefined'') else ret h)))"

section \<open>Encryption\<close>

text \<open>The unoptimised permutation; its table is indexed by row first.\<close>

definition strategy_round :: "F1Field \<Rightarrow> int list \<Rightarrow> int list list \<Rightarrow> nat \<Rightarrow> nat \<Rightarrow> int list \<Rightarrow> nat \<Rightarrow> int list js" where
  "strategy_round F C M t nRoundsP state r =
    bindJ (add_constants F C (r * t) state) (\<lambda>state.
    bindJ (if r < N_ROUNDS_F div 2 \<or> r \<ge> N_ROUNDS_F div 2 + nRoundsP then ret (map (pow5 F) state)
           else bindJ (elem_at state 0) (\<lambda>a0. ret (state[0 := pow5 F a0]))) (\<lambda>state.
    mix_with F (\<lambda>j i. table_cell M i j) state))"

text \<open>With one element the number of partial rounds is undefined and no round runs.\<close>

definition poseidonStrategy :: "poseidon_env \<Rightarrow> int list \<Rightarrow> int list js" where
  "poseidonStrategy E state0 =
    (let F = pe_F E; t = length state0; state = map (F1_e F) state0 in
     if \<not> (t > 0 \<and> t < length N_ROUNDS_P) then throw AssertionError
     else if t = 1 then ret (map (F1_normalize F) state)
     else
       let nRoundsP = N_ROUNDS_P ! (t - 2) in
       bindJ (elem_at (pe_C E) (t - 2)) (\<lambda>C.
       bindJ (elem_at (pe_M E) (t - 2)) (\<lambda>M.
       bindJ (foldJ (strategy_round F C M t nRoundsP) state [0..<N_ROUNDS_F + nRoundsP]) (\<lambda>state.
       ret (map (F1_normalize F) state)))))"

definition cipher_state :: "poseidon_env \<Rightarrow> int list \<Rightarrow> nat \<Rightarrow> int \<Rightarrow> int list js" where
  "cipher_state E sharedKey len nonce =
    (let F = pe_F E in
     bindJ (elem_at sharedKey 0) (\<lambda>k0. bindJ (elem_at sharedKey 1) (\<lambda>k1.
     ret [F_zero F, F1_e F k0, F1_e F k1, F1_add F (F1_e F nonce) (F1_mul F (F1_e F (int len)) (two128 E))])))"

text \<open>The loop over groups of three elements; it returns the state and what it pushed.\<close>

fun encrypt_loop :: "poseidon_env \<Rightarrow> int list \<Rightarrow> int list \<Rightarrow> (int list \<times> int list) js" where
  "encrypt_loop E state (m0 # m1 # m2 # ms) =
    bindJ (poseidonStrategy E state) (\<lambda>st.
    let F = pe_F E; c0 = F1_add F (st ! 1) m0; c1 = F1_add F (st ! 2) m1; c2 = F1_add F (st ! 3) m2 in
    bindJ (encrypt_loop E [st ! 0, c0, c1, c2] ms) (\<lambda>(st', cs). ret (st', c0 # c1 # c2 # cs)))"
| "encrypt_loop E state _ = ret (state, [])"

definition pad3 :: "F1Field \<Rightarrow> int list \<Rightarrow> int list" where
  "pad3 F msg = msg @ replicate ((3 - length msg mod 3) mod 3) (F_zero F)"

definition poseidonEncrypt :: "poseidon_env \<Rightarrow> int list \<Rightarrow> int list \<Rightarrow> int \<Rightarrow> int list js" where
  "poseidonEncrypt E msg0 sharedKey nonce =
    (let F = pe_F E; msg = map (F1_e F) msg0; message = pad3 F msg in
     if \<not> nonce < two128 E then throw AssertionError
     else bindJ (cipher_state E sharedKey (length msg) nonce) (\<lambda>state.
       bindJ (encrypt_loop E state message) (\<lambda>(state, ciphertext).
       bindJ (poseidonStrategy E state) (\<lambda>state.
       ret (ciphertext @ [state ! 1])))))"

fun decrypt_loop :: "poseidon_env \<Rightarrow> int list \<Rightarrow> int list \<Rightarrow> (int list \<times> int list) js" where
  "decrypt_loop E state (c0 # c1 # c2 # cs) =
    bindJ (poseidonStrategy E state) (\<lambda>st.
    let F = pe_F E; m0 = F1_sub F c0 (st ! 1); m1 = F1_sub F c1 (st ! 2); m2 = F1_sub F c2 (st ! 3) in
    bindJ (decrypt_loop E [st ! 0, c0, c1, c2] cs) (\<lambda>(st', ms). ret (st', m0 # m1 # m2 # ms)))"
| "decrypt_loop E state _ = ret (state, [])"

definition zero_tail :: "F1Field \<Rightarrow> int list \<Rightarrow> nat \<Rightarrow> bool" where
  "zero_tail F message n \<longleftrightarrow> n \<le> length message \<and> (\<forall>a \<in> set (drop (length message - n) message). F1_eq F a (F_zero F))"

definition poseidonDecrypt :: "poseidon_env \<Rightarrow> int list \<Rightarrow> int list \<Rightarrow> nat \<Rightarrow> int \<Rightarrow> int list js" where
  "poseidonDecrypt E ciphertext sharedKey len nonce =
    (let F = pe_F E in
     if \<not> nonce < two128 E then throw AssertionError
     else bindJ (cipher_state E sharedKey len nonce) (\<lambda>state.
       bindJ (decrypt_loop E state (take (3 * (length ciphertext div 3)) ciphertext)) (\<lambda>(state, message).
       if len > 3 \<and> len mod 3 = 2 \<and> \<not> zero_tail F message 1 then throw AssertionError
       else if len > 3 \<and> len mod 3 = 1 \<and> \<not> zero_tail F message 2 then throw AssertionError
       else bindJ (poseidonStrategy E state) (\<lambda>state.
         if ciphertext = [] \<or> \<not> F1_eq F (last ciphertext) (state ! 1) then throw AssertionError
         else ret (take len message)))))"

text \<open>\<open>draws i\<close> are the 32 bytes of the \<open>i\<close>-th round of the rejection loop.\<close>

partial_function (option) nonce_loop :: "uint8arrays \<Rightarrow> (nat \<Rightarrow> bytes) \<Rightarrow> int \<Rightarrow> nat \<Rightarrow> int js" where
  "nonce_loop U draws lo i =
    bindJ (bytesToBigInt U (draws i)) (\<lambda>rand. if rand \<ge> lo then ret rand else nonce_loop U draws lo (i + 1))"

definition genRandomNonce :: "poseidon_env \<Rightarrow> uint8arrays \<Rightarrow> (nat \<Rightarrow> bytes) \<Rightarrow> int js" where
  "genRandomNonce E U draws =
    (let F = pe_F E; max = two128 E; lim = F1_e F (2 ^ 256) in
     bindJ (F1_mod F (F1_sub F lim max) max) (\<lambda>lo.
     bindJ (nonce_loop U draws lo 0) (\<lambda>rand.
     bindJ (F1_mod F (F1_e F rand) max) (\<lambda>nonce.
     if nonce < max then ret nonce else throw AssertionError))))"

section \<open>The tables\<close>

definition table_ok :: "F1Field \<Rightarrow> nat \<Rightarrow> int list \<Rightarrow> bool" where
  "table_ok F n xs \<longleftrightarrow> n \<le> length xs \<and> (\<forall>x \<in> set xs. in_field F x)"

definition matrix_ok :: "F1Field \<Rightarrow> nat \<Rightarrow> int list list \<Rightarrow> bool" where
  "matrix_ok F t M \<longleftrightarrow> t \<le> length M \<and> (\<forall>row \<in> set M. table_ok F t row)"

definition env_ok :: "poseidon_env \<Rightarrow> bool" where
  "env_ok E \<longleftrightarrow> (let F = pe_F E in F1_wf F
     \<and> 16 \<le> length (opt_C E) \<and> 16 \<le> length (opt_S E) \<and> 16 \<le> length (opt_M E) \<and> 16 \<le> length (opt_P E)
     \<and> 14 \<le> length (pe_C E) \<and> 14 \<le> length (pe_M E)
     \<and> (\<forall>j < 16. table_ok F (8 * (j + 2) + N_ROUNDS_P ! j) (opt_C E ! j)
          \<and> table_ok F ((2 * (j + 2) - 1) * N_ROUNDS_P ! j) (opt_S E ! j)
          \<and> matrix_ok F (j + 2) (opt_M E ! j) \<and> matrix_ok F (j + 2) (opt_P E ! j))
     \<and> (\<forall>j < 14. table_ok F ((8 + N_ROUNDS_P ! j) * (j + 2)) (pe_C E ! j) \<and> matrix_ok F (j + 2) (pe_M E ! j)))"

definition state_ok :: "F1Field \<Rightarrow> nat \<Rightarrow> int list \<Rightarrow> bool" where
  "state_ok F t st \<longleftrightarrow> length st = t \<and> (\<forall>a \<in> set st. in_field F a)"

lemma elem_at_table: "table_ok F n C \<Longrightarrow> i < n \<Longrightarrow> \<exists>c. elem_at C i = ret c \<and> in_field F c"
  by (auto simp: table_ok_def)

lemma table_cell_total: "matrix_ok F t M \<Longrightarrow> j < t \<Longrightarrow> i < t \<Longrightarrow> \<exists>c. table_cell M j i = ret c \<and> in_field F c"
  using elem_at_table [of F t "M ! j" i] by (auto simp: matrix_ok_def table_cell_def)

section \<open>The rounds stay in the field\<close>

lemma F1_add_in_field: "F1_wf F \<Longrightarrow> 0 \<le> a \<Longrightarrow> a \<le> F_p F \<Longrightarrow> in_field F c \<Longrightarrow> in_field F (F1_add F a c)"
  by (auto simp: F1_add_def in_field_def Let_def)

lemma pow5_in_field: "F1_wf F \<Longrightarrow> in_field F a \<Longrightarrow> in_field F (pow5 F a)"
  by (auto simp: pow5_def intro!: in_field_F1_mul in_field_nonneg in_field_F1_square)

lemma map_pow5_ok: "F1_wf F \<Longrightarrow> state_ok F t st \<Longrightarrow> state_ok F t (map (pow5 F) st)"
  by (auto simp: state_ok_def pow5_in_field)

lemma add_constants_total:
  assumes "F1_wf F" "table_ok F n C" "off + length st \<le> n" "\<forall>a \<in> set st. 0 \<le> a \<and> a \<le> F_p F"
  shows "\<exists>st'. add_constants F C off st = ret st' \<and> state_ok F (length st) st'"
proof -
  have "\<exists>y. (case x of (a, i) \<Rightarrow> bindJ (elem_at C (off + i)) (\<lambda>c. ret (F1_add F a c))) = ret y \<and> in_field F y"
    if zip: "x \<in> set (zip st [0..<length st])" for x
  proof -
    obtain a i where x: "x = (a, i)" "a \<in> set st" "i < length st"
      using in_set_zip_upt [OF zip] by (cases x) simp
    then obtain c where "elem_at C (off + i) = ret c" "in_field F c"
      using elem_at_table [OF assms(2), of "off + i"] assms(3) by auto
    then show ?thesis using x assms(1,4) F1_add_in_field [of F a c] by auto
  qed
  then show ?thesis
    unfolding add_constants_def state_ok_def using mapJ_total [of "zip st [0..<length st]" _ "in_field F"] by force
qed

lemma dot_total:
  assumes F: "F1_wf F" and st: "\<forall>a \<in> set st. in_field F a"
    and cell: "\<And>j. j < length st \<Longrightarrow> \<exists>m. cell j = ret m \<and> in_field F m"
  shows "\<exists>acc. foldJ (\<lambda>acc (a, j). bindJ (cell j) (\<lambda>m. ret (F1_add F acc (F1_mul F m a))))
    (F_zero F) (zip st [0..<length st]) = ret acc \<and> in_field F acc"
proof (rule foldJ_total)
  show "in_field F (F_zero F)" using F by (simp add: F1_wf_simps)
  fix acc x assume x: "x \<in> set (zip st [0..<length st])" and acc: "in_field F acc"
  obtain a j where aj: "x = (a, j)" "a \<in> set st" "j < length st"
    using in_set_zip_upt [OF x] by (cases x) simp
  obtain m where m: "cell j = ret m" "in_field F m" using cell aj(3) by blast
  have "in_field F a" using aj(2) st by blast
  then have "in_field F (F1_add F acc (F1_mul F m a))"
    using F m(2) acc in_field_F1_mul [OF F, of m a] in_field_nonneg
    by (intro F1_add_in_field) (auto simp: in_field_def)
  then show "\<exists>acc'. (case x of (a, j) \<Rightarrow> bindJ (cell j) (\<lambda>m. ret (F1_add F acc (F1_mul F m a)))) = ret acc' \<and> in_field F acc'"
    using aj(1) m(1) by simp
qed

lemma mix_with_total:
  assumes F: "F1_wf F" and st: "state_ok F t st"
    and cell: "\<And>i j. j < t \<Longrightarrow> i < t \<Longrightarrow> \<exists>m. cell j i = ret m \<and> in_field F m"
  shows "\<exists>st'. mix_with F cell st = ret st' \<and> state_ok F t st'"
proof -
  have "\<exists>acc. foldJ (\<lambda>acc (a, j). bindJ (cell j i) (\<lambda>m. ret (F1_add F acc (F1_mul F m a))))
    (F_zero F) (zip st [0..<length st]) = ret acc \<and> in_field F acc" if "i < t" for i
    using st that cell by (intro dot_total F) (auto simp: state_ok_def)
  then show ?thesis
    using st mapJ_total [of "[0..<length st]" _ "in_field F"]
    unfolding mix_with_def state_ok_def by force
qed

lemma in_field_upto: "in_field F a \<Longrightarrow> 0 \<le> a \<and> a \<le> F_p F"
  by (simp add: in_field_def)

lemma state_ok_upto: "state_ok F t st \<Longrightarrow> \<forall>a \<in> set st. 0 \<le> a \<and> a \<le> F_p F"
  by (auto simp: state_ok_def in_field_def)

lemma full_round_total:
  assumes "F1_wf F" "table_ok F n C" "off + t \<le> n" "matrix_ok F t M" "state_ok F t st"
  shows "\<exists>st'. full_round F C M off st = ret st' \<and> state_ok F t st'"
proof -
  have p5: "state_ok F t (map (pow5 F) st)" using assms by (simp add: map_pow5_ok)
  then obtain st1 where "add_constants F C off (map (pow5 F) st) = ret st1" "state_ok F t st1"
    using add_constants_total [OF assms(1,2) _ state_ok_upto [OF p5], of off] assms(3,5)
    by (auto simp: state_ok_def)
  then show ?thesis
    using mix_with_total [OF assms(1), of t st1 "table_cell M"] table_cell_total [OF assms(4)]
    by (simp add: full_round_def)
qed

lemma partial_round_total:
  assumes F: "F1_wf F" and C: "table_ok F (8 * t + nP) C" and S: "table_ok F ((2 * t - 1) * nP) S"
    and r: "r < nP" and t: "2 \<le> t" and st: "state_ok F t st"
  shows "\<exists>st'. partial_round F C S t st r = ret st' \<and> state_ok F t st'"
proof -
  obtain a0 st' where a0: "st = a0 # st'" "in_field F a0" using st t by (cases st) (auto simp: state_ok_def)
  have Sidx: "(t * 2 - 1) * r + k < (2 * t - 1) * nP" if "k < 2 * t - 1" for k
  proof -
    have "(2 * t - 1) * r + k < (2 * t - 1) * Suc r" using that by simp
    also have "\<dots> \<le> (2 * t - 1) * nP" using r by (intro mult_le_mono2) simp
    finally show ?thesis by (simp add: mult.commute)
  qed
  obtain c where c: "elem_at C ((N_ROUNDS_F div 2 + 1) * t + r) = ret c" "in_field F c"
    using elem_at_table [OF C, of "(N_ROUNDS_F div 2 + 1) * t + r"] r by (auto simp: N_ROUNDS_F_def)
  define x where "x = F1_add F (pow5 F a0) c"
  have x: "in_field F x"
    unfolding x_def using F in_field_upto [OF pow5_in_field [OF F a0(2)]] c(2) by (intro F1_add_in_field) simp_all
  have st1: "state_ok F t (x # st')" using st x by (simp add: state_ok_def a0)
  obtain s0 where s0: "foldJ (\<lambda>acc (a, j). bindJ (elem_at S ((t * 2 - 1) * r + j)) (\<lambda>s. ret (F1_add F acc (F1_mul F s a))))
             (F_zero F) (zip (x # st') [0..<length (x # st')]) = ret s0" "in_field F s0"
    using dot_total [OF F, of "x # st'" "\<lambda>j. elem_at S ((t * 2 - 1) * r + j)"] st1 elem_at_table [OF S Sidx] t
    by (auto simp: state_ok_def)
  have cells: "\<exists>y. bindJ (elem_at (x # st') k) (\<lambda>a. bindJ (elem_at S ((t * 2 - 1) * r + t + k - 1))
                  (\<lambda>s. ret (F1_add F a (F1_mul F x s)))) = ret y \<and> in_field F y" if "k \<in> set [1..<t]" for k
  proof -
    have k: "1 \<le> k" "k < t" using that by simp_all
    have "t + k - 1 < 2 * t - 1" using k by arith
    then obtain s where s: "elem_at S ((t * 2 - 1) * r + (t + k - 1)) = ret s" "in_field F s"
      using elem_at_table [OF S Sidx, of "t + k - 1"] by blast
    have idx: "(t * 2 - 1) * r + (t + k - 1) = (t * 2 - 1) * r + t + k - 1" using k(1) by simp
    have len: "k < length (x # st')" using st1 k by (simp add: state_ok_def)
    then have "in_field F ((x # st') ! k)" using st1 nth_mem unfolding state_ok_def by blast
    then have "in_field F (F1_add F ((x # st') ! k) (F1_mul F x s))"
      using F x s(2) by (intro F1_add_in_field) (auto intro!: in_field_F1_mul simp: in_field_upto in_field_nonneg)
    then show ?thesis using s(1) len unfolding idx by simp
  qed
  have "\<exists>ys. mapJ (\<lambda>k. bindJ (elem_at (x # st') k) (\<lambda>a. bindJ (elem_at S ((t * 2 - 1) * r + t + k - 1))
                  (\<lambda>s. ret (F1_add F a (F1_mul F x s))))) [1..<t] = ret ys
      \<and> length ys = length [1..<t] \<and> (\<forall>y \<in> set ys. in_field F y)"
    by (rule mapJ_total) (rule cells)
  then obtain rest where rest: "mapJ (\<lambda>k. bindJ (elem_at (x # st') k) (\<lambda>a. bindJ (elem_at S ((t * 2 - 1) * r + t + k - 1))
                  (\<lambda>s. ret (F1_add F a (F1_mul F x s))))) [1..<t] = ret rest"
      "length rest = t - 1" "\<forall>a \<in> set rest. in_field F a"
    by auto
  have "partial_round F C S t st r = ret (s0 # rest)"
    using c(1) s0(1) rest(1) unfolding partial_round_def a0 by (simp add: x_def [symmetric] Let_def)
  then show ?thesis using s0(2) rest(2,3) t by (simp add: state_ok_def)
qed

lemma F1_e_upto: "F1_wf F \<Longrightarrow> 0 \<le> F1_e F a \<and> F1_e F a \<le> F_p F"
  using F1_wf_p [of F] pos_mod_bound [of "F_p F" a] by (simp add: F1_e_cases less_imp_le)

lemma Poseidon_hash_total:
  assumes E: "env_ok E" and len: "1 \<le> length inputs" "length inputs \<le> 16"
  shows "\<exists>h. Poseidon_hash E inputs = ret h \<and> in_field (pe_F E) h"
proof -
  define F where "F = pe_F E"
  define t where "t = length inputs + 1"
  define j where "j = t - 2"
  define nP where "nP = N_ROUNDS_P ! j"
  define C where "C = opt_C E ! j"
  define S where "S = opt_S E ! j"
  define M where "M = opt_M E ! j"
  define P where "P = opt_P E ! j"
  have F: "F1_wf F" using E by (simp add: env_ok_def F_def Let_def)
  have j: "j < 16" "j + 2 = t" using len by (simp_all add: j_def t_def)
  have t2: "2 \<le> t" using j(2) by simp
  have tabs: "table_ok F (8 * (j + 2) + nP) C" "table_ok F ((2 * (j + 2) - 1) * nP) S" "matrix_ok F (j + 2) M" "matrix_ok F (j + 2) P"
    using E j(1) unfolding env_ok_def Let_def F_def nP_def C_def S_def M_def P_def by blast+
  note tabs = tabs [unfolded j(2)]
  have cells: "elem_at (opt_C E) j = ret C" "elem_at (opt_S E) j = ret S" "elem_at (opt_M E) j = ret M" "elem_at (opt_P E) j = ret P"
    using E j(1) by (simp_all add: env_ok_def Let_def C_def S_def M_def P_def)
  define st where "st = F_zero F # map (F1_e F) inputs"
  have st: "length st = t" "\<forall>a \<in> set st. 0 \<le> a \<and> a \<le> F_p F"
    using F F1_e_upto [OF F] F1_wf_p [OF F] by (auto simp: st_def t_def F1_wf_simps)
  obtain s1 where s1: "add_constants F C 0 st = ret s1" "state_ok F t s1"
    using add_constants_total [OF F tabs(1), of 0 st] st by auto
  obtain s2 where s2: "foldJ (\<lambda>state r. full_round F C M ((r + 1) * t) state) s1 [0..<N_ROUNDS_F div 2 - 1] = ret s2" "state_ok F t s2"
  proof -
    have "\<exists>a. full_round F C M ((r + 1) * t) acc = ret a \<and> state_ok F t a"
      if "r \<in> set [0..<N_ROUNDS_F div 2 - 1]" "state_ok F t acc" for r acc
    proof -
      have "r + 2 \<le> 8" using that(1) by (simp add: N_ROUNDS_F_def)
      then have "(r + 2) * t \<le> 8 * t" by (rule mult_le_mono1)
      then have "(r + 1) * t + t \<le> 8 * t + nP" unfolding add_mult_distrib by linarith
      then show ?thesis using full_round_total [OF F tabs(1) _ tabs(3) that(2)] by blast
    qed
    note step = this
    have "\<exists>a. foldJ (\<lambda>state r. full_round F C M ((r + 1) * t) state) s1 [0..<N_ROUNDS_F div 2 - 1] = ret a \<and> state_ok F t a"
      by (rule foldJ_total [where P = "state_ok F t", OF s1(2)]) (rule step)
    then show ?thesis using that by blast
  qed
  obtain s3 where s3: "full_round F C P ((N_ROUNDS_F div 2 - 1 + 1) * t) s2 = ret s3" "state_ok F t s3"
    using full_round_total [OF F tabs(1) _ tabs(4) s2(2), of "4 * t"] by (auto simp: N_ROUNDS_F_def)
  obtain s4 where s4: "foldJ (partial_round F C S t) s3 [0..<nP] = ret s4" "state_ok F t s4"
  proof -
    have "\<exists>a. partial_round F C S t acc r = ret a \<and> state_ok F t a" if "r \<in> set [0..<nP]" "state_ok F t acc" for r acc
      using partial_round_total [OF F tabs(1,2) _ t2 that(2), of r] that(1) by simp
    note step = this
    have "\<exists>a. foldJ (partial_round F C S t) s3 [0..<nP] = ret a \<and> state_ok F t a"
      by (rule foldJ_total [where P = "state_ok F t", OF s3(2)]) (rule step)
    then show ?thesis using that by blast
  qed
  obtain s5 where s5: "foldJ (\<lambda>state r. full_round F C M ((N_ROUNDS_F div 2 + 1) * t + nP + r * t) state) s4
      [0..<N_ROUNDS_F div 2 - 1] = ret s5" "state_ok F t s5"
  proof -
    have "\<exists>a. full_round F C M ((N_ROUNDS_F div 2 + 1) * t + nP + r * t) acc = ret a \<and> state_ok F t a"
      if "r \<in> set [0..<N_ROUNDS_F div 2 - 1]" "state_ok F t acc" for r acc
    proof -
      have "r + 6 \<le> 8" using that(1) by (simp add: N_ROUNDS_F_def)
      then have "(r + 6) * t \<le> 8 * t" by (rule mult_le_mono1)
      then have "r * t + 6 * t \<le> 8 * t" by (simp only: add_mult_distrib)
      moreover have "(N_ROUNDS_F div 2 + 1) * t = 5 * t" by (simp add: N_ROUNDS_F_def)
      ultimately have "(N_ROUNDS_F div 2 + 1) * t + nP + r * t + t \<le> 8 * t + nP" by linarith
      then show ?thesis using full_round_total [OF F tabs(1) _ tabs(3) that(2)] by blast
    qed
    note step = this
    have "\<exists>a. foldJ (\<lambda>state r. full_round F C M ((N_ROUNDS_F div 2 + 1) * t + nP + r * t) state) s4 [0..<N_ROUNDS_F div 2 - 1] = ret a \<and> state_ok F t a"
      by (rule foldJ_total [where P = "state_ok F t", OF s4(2)]) (rule step)
    then show ?thesis using that by blast
  qed
  obtain s6 where s6: "mix_with F (table_cell M) (map (pow5 F) s5) = ret s6" "state_ok F t s6"
    using mix_with_total [OF F map_pow5_ok [OF F s5(2)]] table_cell_total [OF tabs(3)] by blast
  have s60: "elem_at s6 0 = ret (s6 ! 0)" "in_field F (s6 ! 0)"
    using s6(2) t2 nth_mem [of 0 s6] by (simp_all add: state_ok_def)
  then have "F1_normalize F (s6 ! 0) = s6 ! 0"
    using F by (simp add: F1_normalize_e F1_e_cases in_field_def)
  moreover have "\<not> \<not> (length inputs > 0 \<and> length inputs \<le> length N_ROUNDS_P)"
    using len by (auto simp: N_ROUNDS_P_def)
  ultimately have "Poseidon_hash E inputs = ret (s6 ! 0)"
    unfolding Poseidon_hash_def Let_def
    by (simp only: if_False F_def [symmetric] t_def [symmetric] j_def [symmetric] nP_def [symmetric] st_def [symmetric]
        cells s1(1) s2(1) s3(1) s4(1) s5(1) s6(1) s60(1) bindJ_ret if_not_P)
  then show ?thesis using s60(2) by (simp add: F_def)
qed

section \<open>The sponges compute one chain of hashes\<close>

text \<open>
  Blocks of \<open>fs\<close> inputs, the first element of every block but the first being the hash of
  the one before; the last block is filled up with zeros.
\<close>

function sponge_chain :: "poseidon_env \<Rightarrow> nat \<Rightarrow> int list \<Rightarrow> int list \<Rightarrow> int option js" where
  "sponge_chain E fs pre xs =
    (if xs = [] \<or> fs \<le> length pre then ret (case pre of [] \<Rightarrow> None | h # _ \<Rightarrow> Some h)
     else let room = fs - length pre; blk = pre @ take room xs in
       bindJ (Poseidon_hash E (blk @ replicate (fs - length blk) 0)) (\<lambda>h. sponge_chain E fs [h] (drop room xs)))"
  by auto
termination by (relation "measure (\<lambda>(E, fs, pre, xs). length xs)") (auto simp flip: length_greater_0_conv)

declare sponge_chain.simps [simp del]

definition sponge_final :: "poseidon_env \<Rightarrow> sponge_state \<Rightarrow> int option js" where
  "sponge_final E st = (case st of (frame, dirty, hash, k) \<Rightarrow>
     if dirty then bindJ (Poseidon_hash E frame) (\<lambda>h. ret (Some h)) else ret hash)"

definition sponge_at :: "nat \<Rightarrow> int list \<Rightarrow> int list \<Rightarrow> sponge_state" where
  "sponge_at fs pre cur = (pre @ cur @ replicate (fs - length pre - length cur) 0, cur \<noteq> [],
     (case pre of [] \<Rightarrow> None | h # _ \<Rightarrow> Some h), length pre + length cur)"

lemma arr_set_frame:
  "length pre + length cur < fs \<Longrightarrow>
    arr_set (pre @ cur @ replicate (fs - length pre - length cur) 0) (length pre + length cur) v
      = pre @ (cur @ [v]) @ replicate (fs - length pre - length (cur @ [v])) 0"
proof -
  assume *: "length pre + length cur < fs"
  obtain m where m: "fs - length pre - length cur = Suc m" using * by (cases "fs - length pre - length cur") auto
  then have "fs - length pre - length (cur @ [v]) = m" by simp
  then show ?thesis using * m by (simp add: arr_set_def list_update_append)
qed

lemma spongeHashX_step_at:
  assumes "length pre + length cur < fs" "2 \<le> fs"
  shows "spongeHashX_step E fs (sponge_at fs pre cur) v =
    (if length pre + length cur + 1 = fs
     then bindJ (Poseidon_hash E (pre @ cur @ [v])) (\<lambda>h. ret (sponge_at fs [h] []))
     else ret (sponge_at fs pre (cur @ [v])))"
proof -
  obtain n where "fs = Suc n" using assms(2) by (cases fs) auto
  then have "(replicate fs 0)[0 := h] = h # replicate (fs - Suc 0) 0" for h :: int by simp
  then show ?thesis
    using arr_set_frame [OF assms(1), of v] assms by (auto simp: spongeHashX_step_def sponge_at_def)
qed

lemma fill_zero_Cons: "fill_zero (fill_zero (h # xs) 1 m) 1 (Suc (length xs)) = h # replicate (length xs) 0"
  by (rule nth_equalityI) (auto simp: fill_zero_def nth_Cons simp del: upt_Suc split: nat.splits)

lemma hashBytesX_step_at:
  assumes "length pre + length cur < fs" "2 \<le> fs"
  shows "hashBytesX_step E fs (sponge_at fs pre cur) v = spongeHashX_step E fs (sponge_at fs pre cur) v"
proof -
  define xs where "xs = pre @ (cur @ [v]) @ replicate (fs - length pre - length (cur @ [v])) 0"
  have "length xs = fs" using assms by (simp add: xs_def)
  then obtain x ys where ys: "xs = x # ys" "fs = Suc (length ys)" using assms(2) by (cases xs) auto
  have "fill_zero (fill_zero (xs[0 := h]) 1 SPONGE_CHUNK_SIZE) 1 fs = (replicate fs 0)[0 := h]" for h
    using fill_zero_Cons [of h ys] ys by simp
  then show ?thesis
    unfolding hashBytesX_step_def spongeHashX_step_def sponge_at_def prod.case Let_def
      arr_set_frame [OF assms(1), of v, folded xs_def] by simp
qed

lemma sponge_loop_chain:
  assumes fs: "2 \<le> fs"
  shows "length pre + length cur < fs \<Longrightarrow> length pre \<le> 1 \<Longrightarrow>
    bindJ (foldJ (spongeHashX_step E fs) (sponge_at fs pre cur) xs) (sponge_final E) = sponge_chain E fs pre (cur @ xs)"
proof (induction xs arbitrary: pre cur)
  case Nil
  show ?case
  proof (cases "cur = []")
    case True
    then show ?thesis by (simp add: sponge_at_def sponge_final_def sponge_chain.simps)
  next
    case False
    have "sponge_chain E fs [h] [] = ret (Some h)" for h by (simp add: sponge_chain.simps)
    then show ?thesis
      using False Nil by (simp add: sponge_at_def sponge_final_def sponge_chain.simps [of E fs pre cur] Let_def)
  qed
next
  case (Cons v xs)
  show ?case
  proof (cases "length pre + length cur + 1 = fs")
    case True
    then have room: "fs - length pre = length cur + 1" by simp
    have "bindJ (foldJ (spongeHashX_step E fs) (sponge_at fs [h] []) xs) (sponge_final E) = sponge_chain E fs [h] xs" for h
      using Cons.IH [of "[h]" "[]"] fs by simp
    then have "bindJ (foldJ (spongeHashX_step E fs) (sponge_at fs pre cur) (v # xs)) (sponge_final E)
        = bindJ (Poseidon_hash E (pre @ cur @ [v])) (\<lambda>h. sponge_chain E fs [h] xs)"
      using True by (simp add: spongeHashX_step_at [OF Cons.prems(1) fs] bindJ_assoc)
    also have "\<dots> = sponge_chain E fs pre (cur @ v # xs)"
      using True Cons.prems by (simp add: sponge_chain.simps [of E fs pre] room Let_def)
    finally show ?thesis .
  next
    case False
    then show ?thesis
      using Cons.IH [of pre "cur @ [v]"] Cons.prems by (simp add: spongeHashX_step_at [OF Cons.prems(1) fs])
  qed
qed

lemma hashBytesX_loop:
  assumes fs: "2 \<le> fs"
  shows "length pre + length cur < fs \<Longrightarrow> length pre \<le> 1 \<Longrightarrow>
    foldJ (hashBytesX_step E fs) (sponge_at fs pre cur) xs = foldJ (spongeHashX_step E fs) (sponge_at fs pre cur) xs"
proof (induction xs arbitrary: pre cur)
  case (Cons v xs)
  have "foldJ (hashBytesX_step E fs) (sponge_at fs [h] []) xs = foldJ (spongeHashX_step E fs) (sponge_at fs [h] []) xs" for h
    using Cons.IH [of "[h]" "[]"] fs by simp
  then show ?case
    using Cons by (auto simp: hashBytesX_step_at [OF Cons.prems(1) fs] spongeHashX_step_at [OF Cons.prems(1) fs] bindJ_assoc)
qed simp

text \<open>The bigints a message is cut into.\<close>

fun byte_chunks :: "bytes \<Rightarrow> int list" where
  "byte_chunks msg = (if msg = [] then []
     else be_val (take 31 msg @ replicate (31 - length msg) 0) # byte_chunks (drop 31 msg))"

declare byte_chunks.simps [simp del]

lemma byte_chunks_eq:
  "byte_chunks msg = map (\<lambda>i. be_val (take 31 (drop (31 * i) msg))) [0..<length msg div 31] @
     (if length msg mod 31 \<noteq> 0
      then [be_val (drop (length msg div 31 * 31) msg @ replicate (31 - length msg mod 31) 0)] else [])"
proof (induction msg rule: byte_chunks.induct)
  case (1 msg)
  consider "msg = []" | "msg \<noteq> []" "length msg < 31" | "31 \<le> length msg" by linarith
  then show ?case
  proof cases
    case 3
    define n where "n = length msg div 31 - 1"
    have "0 < length msg div 31" using 3 by (simp add: div_greater_zero_iff)
    then have n: "length msg div 31 = Suc n" by (simp add: n_def)
    have d: "length (drop 31 msg) div 31 = n" "length (drop 31 msg) mod 31 = length msg mod 31"
      using 3 n by (simp_all add: div_if [of 31 "length msg"] mod_if [of "length msg" 31])
    have drops: "drop (31 * i) (drop 31 msg) = drop (31 * Suc i) msg" for i by (simp add: add.commute)
    have "drop (n * 31) (drop 31 msg) = drop (Suc n * 31) msg" by (simp add: add.commute)
    moreover have "msg \<noteq> []" using 3 by auto
    ultimately show ?thesis
      using "1.IH" 3 unfolding n d byte_chunks.simps [of msg]
      by (simp add: drops upt_conv_Cons map_Suc_upt [symmetric] add.commute [of 31] del: upt_Suc map_Suc_upt)
  qed (simp_all add: byte_chunks.simps [of msg] byte_chunks.simps [of "[]"])
qed

lemma sponge_at_start: "sponge_at fs [] [] = (replicate fs 0, False, None, 0)"
  by (simp add: sponge_at_def)

lemma hashBytesX_chain:
  assumes fs: "2 \<le> fs"
  shows "Poseidon_hashBytesX E msg fs = sponge_chain E fs [] (byte_chunks msg)"
proof -
  define n where "n = length msg div 31"
  define xs where "xs = map (\<lambda>i. be_val (take 31 (drop (31 * i) msg))) [0..<n]"
  define tail where "tail = be_val (drop (n * 31) msg @ replicate (31 - length msg mod 31) 0)"
  have "length msg - n * 31 = length msg mod 31" by (simp add: n_def modulo_nat_def mult.commute)
  then have buff: "beBuff2int (drop (n * 31) msg @ replicate (31 - length (drop (n * 31) msg)) 0) = tail"
    by (simp add: tail_def beBuff2int_eq)
  have fold_map: "foldJ (\<lambda>st i. g st (h i)) a is = foldJ g a (map h is)" for g :: "sponge_state \<Rightarrow> int \<Rightarrow> sponge_state js" and h a "is"
    by (induction "is" arbitrary: a) simp_all
  have loop: "foldJ (\<lambda>st i. hashBytesX_step E fs st (beBuff2int (take 31 (drop (31 * i) msg)))) (sponge_at fs [] []) [0..<n]
      = foldJ (spongeHashX_step E fs) (sponge_at fs [] []) xs"
    using hashBytesX_loop [OF fs, of "[]" "[]" E xs] fs
    by (simp add: fold_map [of "hashBytesX_step E fs" "\<lambda>i. be_val (take 31 (drop (31 * i) msg))"] xs_def beBuff2int_eq)
  have inv: "foldJ (spongeHashX_step E fs) (sponge_at fs pre cur) ys = ret st \<Longrightarrow> length pre + length cur < fs \<Longrightarrow> length pre \<le> 1 \<Longrightarrow>
      \<exists>pre cur. st = sponge_at fs pre cur \<and> length pre + length cur < fs \<and> length pre \<le> 1" for pre cur ys st
  proof (induction ys arbitrary: pre cur)
    case (Cons y ys)
    then show ?case
    proof (cases "length pre + length cur + 1 = fs")
      case True
      then have "bindJ (Poseidon_hash E (pre @ cur @ [y])) (\<lambda>h. foldJ (spongeHashX_step E fs) (sponge_at fs [h] []) ys) = ret st"
        using Cons.prems(1) by (simp only: foldJ.simps spongeHashX_step_at [OF Cons.prems(2) fs] if_True bindJ_assoc bindJ_ret simp_thms)
      then obtain h where "foldJ (spongeHashX_step E fs) (sponge_at fs [h] []) ys = ret st"
        unfolding bindJ_eq_ret by blast
      then show ?thesis using Cons.IH [of "[h]" "[]"] fs by simp
    next
      case False
      then show ?thesis using Cons.IH [of pre "cur @ [y]"] Cons.prems by (simp add: spongeHashX_step_at [OF Cons.prems(2) fs])
    qed
  qed auto
  have final: "bindJ (spongeHashX_step E fs st tail) (sponge_final E)
      = bindJ (Poseidon_hash E (arr_set inputs k tail)) (\<lambda>h. ret (Some h))"
    if "foldJ (spongeHashX_step E fs) (sponge_at fs [] []) xs = ret st" "st = (inputs, dirty, hash, k)" for st inputs dirty hash k
    using that(2) by (simp add: spongeHashX_step_def Let_def bindJ_assoc sponge_final_def)
  have chunks: "byte_chunks msg = xs @ (if length msg mod 31 \<noteq> 0 then [tail] else [])"
    by (simp add: byte_chunks_eq xs_def tail_def n_def)
  have chain: "sponge_chain E fs [] (byte_chunks msg)
      = bindJ (foldJ (spongeHashX_step E fs) (sponge_at fs [] []) (byte_chunks msg)) (sponge_final E)"
    using sponge_loop_chain [OF fs, of "[]" "[]" E "byte_chunks msg"] fs by simp
  have "Poseidon_hashBytesX E msg fs = bindJ (foldJ (spongeHashX_step E fs) (sponge_at fs [] []) xs) (\<lambda>(inputs, dirty, hash, k).
         if length msg mod 31 \<noteq> 0 then bindJ (Poseidon_hash E (arr_set inputs k tail)) (\<lambda>h. ret (Some h))
         else sponge_final E (inputs, dirty, hash, k))"
    unfolding Poseidon_hashBytesX_def SPONGE_CHUNK_SIZE_def Let_def n_def [symmetric] buff
    unfolding sponge_at_start [symmetric] loop sponge_final_def by (intro bindJ_cong) auto
  also have "\<dots> = bindJ (foldJ (spongeHashX_step E fs) (sponge_at fs [] []) (byte_chunks msg)) (sponge_final E)"
    unfolding chunks foldJ_append bindJ_assoc using final by (intro bindJ_cong) (auto split: prod.splits)
  finally show ?thesis by (simp add: chain)
qed

lemma spongeHashX_chain:
  "Poseidon_spongeHashX E inputs fs =
    (if fs < 2 \<or> fs > 16 then throw (Error ''incorrect frame size'')
     else bindJ (sponge_chain E fs [] inputs) (\<lambda>hash. case hash of None \<Rightarrow> throw (Error ''hash is undefined'')
         | Some h \<Rightarrow> if h = 0 then throw (Error ''hash is undefined'') else ret h))"
proof (cases "fs < 2 \<or> fs > 16")
  case False
  then have "sponge_chain E fs [] inputs
      = bindJ (foldJ (spongeHashX_step E fs) (sponge_at fs [] []) inputs) (sponge_final E)"
    using sponge_loop_chain [of fs "[]" "[]" E inputs] by simp
  then show ?thesis
    using False by (simp add: Poseidon_spongeHashX_def sponge_at_start bindJ_assoc sponge_final_def)
       (intro bindJ_cong, auto split: prod.splits)
qed (simp add: Poseidon_spongeHashX_def)

text \<open>With well-formed tables the chain is total.\<close>

lemma sponge_chain_total:
  "env_ok E \<Longrightarrow> 2 \<le> fs \<Longrightarrow> fs \<le> 16 \<Longrightarrow> length pre \<le> 1 \<Longrightarrow> \<forall>h \<in> set pre. in_field (pe_F E) h \<Longrightarrow> pre \<noteq> [] \<or> xs \<noteq> []
    \<Longrightarrow> \<exists>h. sponge_chain E fs pre xs = ret (Some h) \<and> in_field (pe_F E) h"
proof (induction E fs pre xs rule: sponge_chain.induct)
  case (1 E fs pre xs)
  show ?case
  proof (cases "xs = []")
    case True
    then show ?thesis using 1 by (cases pre) (auto simp: sponge_chain.simps)
  next
    case False
    define blk where "blk = pre @ take (fs - length pre) xs"
    have "length blk \<le> fs" using 1 by (simp add: blk_def)
    obtain h where h: "Poseidon_hash E (blk @ replicate (fs - length blk) 0) = ret h" "in_field (pe_F E) h"
      using Poseidon_hash_total [of E "blk @ replicate (fs - length blk) 0"] 1 \<open>length blk \<le> fs\<close> by auto
    then have "\<exists>h'. sponge_chain E fs [h] (drop (fs - length pre) xs) = ret (Some h') \<and> in_field (pe_F E) h'"
      using 1 False by (intro "1.IH") (auto simp: blk_def)
    then show ?thesis using h False 1 by (simp add: sponge_chain.simps [of E fs pre xs] Let_def blk_def)
  qed
qed

section \<open>Decryption inverts encryption\<close>

lemma env_ok_strategy:
  "env_ok E \<Longrightarrow> j < 14 \<Longrightarrow> F1_wf (pe_F E) \<and> j < length (pe_C E) \<and> j < length (pe_M E)
    \<and> table_ok (pe_F E) ((8 + N_ROUNDS_P ! j) * (j + 2)) (pe_C E ! j) \<and> matrix_ok (pe_F E) (j + 2) (pe_M E ! j)"
  unfolding env_ok_def Let_def by (meson less_le_trans)

lemma poseidonStrategy_total:
  assumes E: "env_ok E" and len: "length state = 4"
  shows "\<exists>st. poseidonStrategy E state = ret st \<and> state_ok (pe_F E) 4 st"
proof -
  define F where "F = pe_F E"
  define C where "C = pe_C E ! 2"
  define M where "M = pe_M E ! 2"
  have F: "F1_wf F" using E by (simp add: env_ok_def F_def Let_def)
  have nP: "N_ROUNDS_P ! 2 = 56" by (simp add: N_ROUNDS_P_def)
  have C: "table_ok F 256 C" and M: "matrix_ok F 4 M"
    and cells: "elem_at (pe_C E) 2 = ret C" "elem_at (pe_M E) 2 = ret M"
    using env_ok_strategy [OF E, of 2] by (simp_all add: nP F_def C_def M_def)
  define upto where "upto st \<longleftrightarrow> length st = 4 \<and> (\<forall>a \<in> set st. 0 \<le> a \<and> a \<le> F_p F)" for st :: "int list"
  have round: "\<exists>st'. strategy_round F C M 4 56 st r = ret st' \<and> upto st'" if r: "r \<in> set [0..<64]" "upto st" for st r
  proof -
    obtain s1 where s1: "add_constants F C (r * 4) st = ret s1" "state_ok F 4 s1"
      using add_constants_total [OF F C, of "r * 4" st] r by (auto simp: upto_def)
    have "\<exists>s2. (if r < N_ROUNDS_F div 2 \<or> r \<ge> N_ROUNDS_F div 2 + 56 then ret (map (pow5 F) s1)
           else bindJ (elem_at s1 0) (\<lambda>a0. ret (s1[0 := pow5 F a0]))) = ret s2 \<and> state_ok F 4 s2"
    proof (cases "r < N_ROUNDS_F div 2 \<or> r \<ge> N_ROUNDS_F div 2 + 56")
      case True
      then show ?thesis using map_pow5_ok [OF F s1(2)] by simp
    next
      case False
      obtain a as where a: "s1 = a # as" using s1(2) by (cases s1) (auto simp: state_ok_def)
      then have "state_ok F 4 (s1[0 := pow5 F a])" using s1(2) pow5_in_field [OF F, of a] by (simp add: state_ok_def)
      then show ?thesis using False a by simp
    qed
    then obtain s2 where s2: "(if r < N_ROUNDS_F div 2 \<or> r \<ge> N_ROUNDS_F div 2 + 56 then ret (map (pow5 F) s1)
           else bindJ (elem_at s1 0) (\<lambda>a0. ret (s1[0 := pow5 F a0]))) = ret s2" "state_ok F 4 s2" by blast
    obtain s3 where s3: "mix_with F (\<lambda>j i. table_cell M i j) s2 = ret s3" "state_ok F 4 s3"
      using mix_with_total [OF F s2(2), of "\<lambda>j i. table_cell M i j"] table_cell_total [OF M] by blast
    have "strategy_round F C M 4 56 st r = ret s3"
      unfolding strategy_round_def s1(1) bindJ_ret s2(1) s3(1) ..
    moreover have "upto s3" using s3(2) state_ok_upto [OF s3(2)] by (simp add: upto_def state_ok_def)
    ultimately show ?thesis by blast
  qed
  have start: "upto (map (F1_e F) state)" using len F1_e_upto [OF F] by (auto simp: upto_def)
  have "\<exists>st. foldJ (strategy_round F C M 4 56) (map (F1_e F) state) [0..<64] = ret st \<and> upto st"
    by (rule foldJ_total [where P = upto, OF start]) (rule round)
  then obtain st where st: "foldJ (strategy_round F C M 4 56) (map (F1_e F) state) [0..<64] = ret st" "upto st" by blast
  have "in_field F (F1_normalize F a)" if "a \<in> set st" for a
  proof -
    have "0 \<le> a" using st(2) that by (simp add: upto_def)
    then show ?thesis using F by (simp add: F1_normalize_e F1_e_cases)
  qed
  then have "state_ok F 4 (map (F1_normalize F) st)" using st(2) by (auto simp: state_ok_def upto_def)
  moreover have "poseidonStrategy E state = ret (map (F1_normalize F) st)"
    using st(1) len cells by (simp add: poseidonStrategy_def Let_def N_ROUNDS_F_def nP F_def) (simp add: N_ROUNDS_P_def)
  ultimately show ?thesis by (simp add: F_def)
qed

lemma F1_sub_add_upto:
  assumes F: "F1_wf F" and a: "in_field F a" and m: "0 \<le> m" "m \<le> F_p F"
  shows "F1_sub F (F1_add F a m) a = m mod F_p F"
proof (cases "m = F_p F")
  case True
  then show ?thesis using a by (simp add: F1_add_def F1_sub_def in_field_def)
next
  case False
  then have m: "in_field F m" using m by (simp add: in_field_def)
  have "F1_sub F (F1_add F m a) a = m"
    using f1.sub_add_cancel [OF F, of m a] a m by (simp add: f1.elem_def in_field_def)
  moreover have "F1_add F a m = F1_add F m a" by (simp add: F1_add_def add.commute)
  ultimately show ?thesis using m by (simp add: in_field_mod_id)
qed

lemma encrypt_decrypt_loop:
  "env_ok E \<Longrightarrow> length state = 4 \<Longrightarrow> \<forall>m \<in> set ms. 0 \<le> m \<and> m \<le> F_p (pe_F E) \<Longrightarrow> length ms mod 3 = 0 \<Longrightarrow>
    \<exists>st cs. encrypt_loop E state ms = ret (st, cs) \<and> decrypt_loop E state cs = ret (st, map (\<lambda>m. m mod F_p (pe_F E)) ms)
      \<and> length cs = length ms \<and> length st = 4"
proof (induction E state ms rule: encrypt_loop.induct)
  case (1 E state m0 m1 m2 ms)
  define F where "F = pe_F E"
  have F: "F1_wf F" using "1.prems"(1) by (simp add: env_ok_def F_def Let_def)
  obtain st where st: "poseidonStrategy E state = ret st" "state_ok F 4 st"
    using poseidonStrategy_total [OF "1.prems"(1,2)] by (auto simp: F_def)
  have st_in: "in_field F (st ! i)" if "i < 4" for i
    using st(2) that nth_mem [of i st] by (simp add: state_ok_def)
  define c where "c i m = F1_add F (st ! i) m" for i m
  define next_st where "next_st = [st ! 0, c 1 m0, c 2 m1, c 3 m2]"
  obtain st' cs where cs: "encrypt_loop E next_st ms = ret (st', cs)"
      "decrypt_loop E next_st cs = ret (st', map (\<lambda>m. m mod F_p F) ms)" "length cs = length ms" "length st' = 4"
    using "1.IH" [OF st(1) F_def refl refl refl] "1.prems" by (auto simp: F_def next_st_def c_def mod_Suc split: if_splits)
  have m: "0 \<le> m0" "m0 \<le> F_p F" "0 \<le> m1" "m1 \<le> F_p F" "0 \<le> m2" "m2 \<le> F_p F"
    using "1.prems"(3) by (simp_all add: F_def)
  have sub: "F1_sub F (c 1 m0) (st ! 1) = m0 mod F_p F" "F1_sub F (c 2 m1) (st ! 2) = m1 mod F_p F"
      "F1_sub F (c 3 m2) (st ! 3) = m2 mod F_p F"
    unfolding c_def using F1_sub_add_upto [OF F st_in] m by simp_all
  have "encrypt_loop E state (m0 # m1 # m2 # ms) = ret (st', c 1 m0 # c 2 m1 # c 3 m2 # cs)"
    using st(1) cs(1) by (simp add: Let_def next_st_def c_def flip: F_def)
  moreover have "decrypt_loop E state (c 1 m0 # c 2 m1 # c 3 m2 # cs) = ret (st', map (\<lambda>m. m mod F_p F) (m0 # m1 # m2 # ms))"
    using st(1) cs(2) sub by (simp add: Let_def next_st_def flip: F_def)
  ultimately show ?case using cs(3,4) by (auto simp: F_def)
qed simp_all

lemma cipher_state_eq:
  "cipher_state E (k0 # k1 # ks) len nonce = ret [F_zero (pe_F E), F1_e (pe_F E) k0, F1_e (pe_F E) k1,
     F1_add (pe_F E) (F1_e (pe_F E) nonce) (F1_mul (pe_F E) (F1_e (pe_F E) (int len)) (two128 E))]"
  by (simp add: cipher_state_def Let_def)

lemma decrypt_encrypt:
  assumes E: "env_ok E" and nonce: "nonce < two128 E"
  defines "p \<equiv> F_p (pe_F E)"
  shows "\<exists>cs c. poseidonEncrypt E msg (k0 # k1 # ks) nonce = ret (cs @ [c])
    \<and> length cs = length msg + (3 - length msg mod 3) mod 3
    \<and> poseidonDecrypt E (cs @ [c]) (k0 # k1 # ks) (length msg) nonce = ret (map (\<lambda>x. x mod p) msg)
    \<and> (\<forall>c'. c' \<noteq> c \<longrightarrow> poseidonDecrypt E (cs @ [c']) (k0 # k1 # ks) (length msg) nonce = throw AssertionError)"
proof -
  define F where "F = pe_F E"
  have F: "F1_wf F" using E by (simp add: env_ok_def F_def Let_def)
  define n where "n = length msg"
  define pad where "pad = (3 - n mod 3) mod 3"
  define ms where "ms = map (F1_e F) msg @ replicate pad 0"
  have pad_cases: "n mod 3 = 0 \<and> pad = 0 \<or> n mod 3 = 1 \<and> pad = 2 \<or> n mod 3 = 2 \<and> pad = 1"
  proof -
    have "n mod 3 = 0 \<or> n mod 3 = 1 \<or> n mod 3 = 2" by presburger
    then show ?thesis unfolding pad_def by (elim disjE) simp_all
  qed
  have len: "length ms = n + pad" by (simp add: ms_def n_def)
  have div3: "(n + pad) mod 3 = 0" using pad_cases by presburger
  have pad3: "pad3 F (map (F1_e F) msg) = ms"
    using F by (simp add: pad3_def ms_def pad_def n_def F1_wf_simps)
  define state where "state = [F_zero F, F1_e F k0, F1_e F k1,
     F1_add F (F1_e F nonce) (F1_mul F (F1_e F (int n)) (two128 E))]"
  have "\<forall>m \<in> set ms. 0 \<le> m \<and> m \<le> F_p F" using F1_e_upto [OF F] F1_wf_p [OF F] by (auto simp: ms_def)
  then obtain st cs where cs: "encrypt_loop E state ms = ret (st, cs)"
      "decrypt_loop E state cs = ret (st, map (\<lambda>m. m mod F_p F) ms)" "length cs = n + pad" "length st = 4"
    using encrypt_decrypt_loop [OF E, of state ms] len div3 by (auto simp: state_def F_def)
  obtain fin where fin: "poseidonStrategy E st = ret fin"
    using poseidonStrategy_total [OF E cs(4)] by blast
  define c where "c = fin ! 1"
  have cst: "cipher_state E (k0 # k1 # ks) n nonce = ret state"
    by (simp add: cipher_state_eq state_def F_def)
  have dec_ms: "map (\<lambda>m. m mod F_p F) ms = map (\<lambda>x. x mod F_p F) msg @ replicate pad 0"
    using F1_e_mod [OF F] by (simp add: ms_def)
  have enc: "poseidonEncrypt E msg (k0 # k1 # ks) nonce = ret (cs @ [c])"
    using nonce cst cs(1) fin pad3 by (simp add: poseidonEncrypt_def Let_def c_def flip: F_def n_def)
  have take_cs: "take (3 * (length (cs @ [x]) div 3)) (cs @ [x]) = cs" for x
  proof -
    obtain q where q: "n + pad = 3 * q" using div3 by (auto simp: mod_eq_0_iff_dvd elim: dvdE)
    then have "length (cs @ [x]) = 3 * q + 1" using cs(3) by simp
    moreover have "(3 * q + 1) div 3 = q" by simp
    ultimately show ?thesis using cs(3) q by simp
  qed
  define out where "out = map (\<lambda>x. x mod F_p F) msg @ replicate pad 0"
  have tails: "n mod 3 = 2 \<Longrightarrow> zero_tail F out 1" "n mod 3 = 1 \<Longrightarrow> zero_tail F out 2"
    using pad_cases F by (auto simp: zero_tail_def out_def F1_eq_def F1_wf_simps)
  have dec: "poseidonDecrypt E (cs @ [x]) (k0 # k1 # ks) n nonce
      = (if F1_eq F x c then ret (take n out) else throw AssertionError)" for x
    unfolding poseidonDecrypt_def Let_def take_cs cst using nonce cs(2) fin tails dec_ms
    by (auto simp: c_def simp flip: F_def out_def)
  have "take n out = map (\<lambda>x. x mod F_p F) msg" by (simp add: out_def n_def)
  then show ?thesis
    using enc dec cs(3) by (intro exI [of _ cs] exI [of _ c]) (simp add: F1_eq_def p_def n_def pad_def flip: F_def)
qed

section \<open>A concrete environment\<close>

text \<open>Tables of ones over the field of 13 elements.\<close>

definition env13 :: poseidon_env where
  "env13 = \<lparr>pe_F = F13, pe_C = replicate 14 (replicate 1200 1), pe_M = replicate 14 (replicate 16 (replicate 16 1)),
     opt_C = replicate 16 (replicate 1200 1), opt_S = replicate 16 (replicate 2400 1),
     opt_M = replicate 16 (replicate 18 (replicate 18 1)), opt_P = replicate 16 (replicate 18 (replicate 18 1))\<rparr>"

lemma F13_wf: "F1_wf F13"
  using F1Field_new_wf [OF F13_new prime_modulus_13] by simp

lemma N_ROUNDS_P_le: "j < 16 \<Longrightarrow> N_ROUNDS_P ! j \<le> 70"
proof -
  have "\<forall>n \<in> set N_ROUNDS_P. n \<le> 70" "length N_ROUNDS_P = 16" by (simp_all add: N_ROUNDS_P_def)
  then show "j < 16 \<Longrightarrow> N_ROUNDS_P ! j \<le> 70" by simp
qed

lemma env13_ok: "env_ok env13"
proof -
  have one: "in_field F13 1" using F13_wf by simp
  have T: "table_ok F13 n (replicate m 1)" if "n \<le> m" for n m
    using that one by (simp add: table_ok_def)
  have M: "matrix_ok F13 t (replicate m (replicate m 1))" if "t \<le> m" for t m
    using that T by (simp add: matrix_ok_def)
  have S: "(2 * (j + 2) - 1) * N_ROUNDS_P ! j \<le> 2400" if "j < 16" for j
  proof -
    have "2 * (j + 2) - 1 \<le> 33" using that by simp
    then have "(2 * (j + 2) - 1) * N_ROUNDS_P ! j \<le> 33 * 70" using N_ROUNDS_P_le [OF that] by (rule mult_le_mono)
    then show ?thesis by simp
  qed
  have C: "(8 + N_ROUNDS_P ! j) * (j + 2) \<le> 1200" if "j < 14" for j
  proof -
    have "8 + N_ROUNDS_P ! j \<le> 78" using N_ROUNDS_P_le [of j] that by simp
    moreover have "j + 2 \<le> 15" using that by simp
    ultimately have "(8 + N_ROUNDS_P ! j) * (j + 2) \<le> 78 * 15" by (rule mult_le_mono)
    then show ?thesis by simp
  qed
  have O: "8 * (j + 2) + N_ROUNDS_P ! j \<le> 1200" if "j < 16" for j
    using N_ROUNDS_P_le [OF that] that by simp
  show ?thesis
    unfolding env_ok_def Let_def env13_def poseidon_env.select_convs length_replicate
  proof (intro conjI allI impI)
    fix j :: nat
    show "j < 16 \<Longrightarrow> table_ok F13 (8 * (j + 2) + N_ROUNDS_P ! j) (replicate 16 (replicate 1200 1) ! j)"
      using T [OF O] by simp
    show "j < 16 \<Longrightarrow> table_ok F13 ((2 * (j + 2) - 1) * N_ROUNDS_P ! j) (replicate 16 (replicate 2400 1) ! j)"
      using T [OF S] by (simp del: One_nat_def)
    show "j < 14 \<Longrightarrow> table_ok F13 ((8 + N_ROUNDS_P ! j) * (j + 2)) (replicate 14 (replicate 1200 1) ! j)"
      using T [OF C] by simp
    show "j < 16 \<Longrightarrow> matrix_ok F13 (j + 2) (replicate 16 (replicate 18 (replicate 18 1)) ! j)"
      "j < 16 \<Longrightarrow> matrix_ok F13 (j + 2) (replicate 16 (replicate 18 (replicate 18 1)) ! j)"
      using M [of "j + 2" 18] by simp_all
    show "j < 14 \<Longrightarrow> matrix_ok F13 (j + 2) (replicate 14 (replicate 16 (replicate 16 1)) ! j)"
      using M [of "j + 2" 16] by simp
  qed (simp_all add: F13_wf)
qed

lemma p_env13: "F_p (pe_F env13) = 13"
  by (simp add: env13_def F13_def)

lemma two128_env13: "two128 env13 = 9"
  by (simp add: two128_def env13_def F1_e_cases F13_wf) (simp add: F13_def)

section \<open>Properties\<close>

text \<open>
  C6: with the shared key and the nonce of the encryption, decryption returns the message
  modulo \<open>p\<close> (a message of any length); the ciphertext is the padded message plus one
  element, and a ciphertext whose last element was changed is rejected by an assertion.
\<close>

theorem poseidon_cipher_roundtrip:
  assumes "env_ok E" "nonce < two128 E"
  shows "\<exists>cs c. poseidonEncrypt E msg (k0 # k1 # ks) nonce = ret (cs @ [c])
    \<and> length cs = length msg + (3 - length msg mod 3) mod 3
    \<and> poseidonDecrypt E (cs @ [c]) (k0 # k1 # ks) (length msg) nonce = ret (map (\<lambda>x. x mod F_p (pe_F E)) msg)
    \<and> (\<forall>c'. c' \<noteq> c \<longrightarrow> poseidonDecrypt E (cs @ [c']) (k0 # k1 # ks) (length msg) nonce = throw AssertionError)"
  by (rule decrypt_encrypt [OF assms])

theorem poseidon_cipher_roundtrip_witness:
  "\<exists>cs c. poseidonEncrypt env13 [5, 20, 7, 1] [2, 9] 1 = ret (cs @ [c]) \<and> length cs = 6
    \<and> poseidonDecrypt env13 (cs @ [c]) [2, 9] 4 1 = ret [5, 7, 7, 1]"
proof -
  have len: "length [5, 20, 7, 1 :: int] = 4" by simp
  have "1 < two128 env13" by (simp add: two128_env13)
  from poseidon_cipher_roundtrip [OF env13_ok this, of "[5, 20, 7, 1]" 2 9 "[]", unfolded len p_env13]
  show ?thesis by auto
qed

text \<open>
  C36: \<open>Poseidon.hash\<close> takes 1 to 16 inputs, any integers, and returns a reduced element
  of the field for them; for every other number of inputs it throws.
\<close>

theorem poseidon_hash_total:
  assumes "env_ok E"
  shows "if 1 \<le> length inputs \<and> length inputs \<le> 16
    then \<exists>h. Poseidon_hash E inputs = ret h \<and> 0 \<le> h \<and> h < F_p (pe_F E)
    else Poseidon_hash E inputs = throw (Error ''Invalid inputs'')"
proof (cases "1 \<le> length inputs \<and> length inputs \<le> 16")
  case True
  then show ?thesis using Poseidon_hash_total [OF assms, of inputs] by (simp add: in_field_def)
next
  case False
  have "length N_ROUNDS_P = 16" by (simp add: N_ROUNDS_P_def)
  then have "\<not> (length inputs > 0 \<and> length inputs \<le> length N_ROUNDS_P)" using False by (cases inputs) auto
  then have "Poseidon_hash E inputs = throw (Error ''Invalid inputs'')" unfolding Poseidon_hash_def by (rule if_P)
  then show ?thesis using False by simp
qed

theorem poseidon_hash_total_witness:
  "(\<exists>h. Poseidon_hash env13 [3, 40] = ret h \<and> 0 \<le> h \<and> h < 13) \<and> Poseidon_hash env13 [] = throw (Error ''Invalid inputs'')"
  using poseidon_hash_total [OF env13_ok, of "[3, 40]"] poseidon_hash_total [OF env13_ok, of "[]"]
  by (simp add: p_env13)

text \<open>
  both sponges are the chain of hashes over blocks of \<open>frameSize\<close> inputs, each block
  after the first starting with the hash of the one before: \<open>hashBytesX\<close> over the 31-byte
  chunks of the message (\<open>undefined\<close> for the empty message), \<open>spongeHashX\<close> over its inputs
  with an error for no input, for a hash equal to 0 and for a frame size outside 2 to 16.
\<close>

theorem sponges_are_the_chain:
  assumes "2 \<le> frameSize"
  shows "Poseidon_hashBytesX E msg frameSize = sponge_chain E frameSize [] (byte_chunks msg)
    \<and> Poseidon_spongeHashX E inputs frameSize =
       (if frameSize > 16 then throw (Error ''incorrect frame size'')
        else bindJ (sponge_chain E frameSize [] inputs) (\<lambda>hash.
          if hash = None \<or> hash = Some 0 then throw (Error ''hash is undefined'') else ret (the hash)))"
proof -
  have eq: "case_option (throw (Error ''hash is undefined''))
        (\<lambda>h. if h = 0 then throw (Error ''hash is undefined'') else ret h)
    = (\<lambda>hash. if hash = None \<or> hash = Some 0 then throw (Error ''hash is undefined'') else ret (the hash))"
    by (rule ext) (simp split: option.split)
  show ?thesis
    using assms hashBytesX_chain [OF assms, of E msg] spongeHashX_chain [of E inputs frameSize, unfolded eq] by simp
qed

theorem sponges_are_the_chain_witness:
  "Poseidon_hashBytesX env13 [1, 2] 16 = bindJ (Poseidon_hash env13 ((256 ^ 30 + 2 * 256 ^ 29) # replicate 15 0)) (\<lambda>h. ret (Some h))"
proof -
  have chunks: "byte_chunks [1, 2] = [256 ^ 30 + 2 * 256 ^ 29]"
  proof -
    have zeros: "be_val (xs @ replicate n 0) = be_val xs * 256 ^ n" for xs n
    proof -
      have "le_val (replicate n 0) = 0" by (induction n) simp_all
      then show ?thesis by (simp add: be_val_append) (simp add: be_val_def)
    qed
    show ?thesis
      by (simp add: byte_chunks.simps zeros del: append.simps) (simp add: be_val_def)
  qed
  show ?thesis
    using conjunct1 [OF sponges_are_the_chain, of 16 env13 "[1, 2]"]
    by (simp add: chunks sponge_chain.simps Let_def)
qed

end
