(* ===== verification/Blake.thy ===== *)
theory Blake
  imports Prelude
begin

text \<open>
  BLAKE-512: packages/albus-core/src/crypto/blake.ts.  The code keeps every 64-bit word
  as two 32-bit halves in an array of numbers and the message length as four 32-bit
  digits; the model keeps the halves as \<open>32 word\<close> and the length digits as \<open>int\<close>,
  since the code lets the lowest one become negative while it pads.  The reference is
  the BLAKE-512 function on 64-bit words over the padded message, with the bit counter
  of each block; the lemmas show that the halves compute the words, that \<open>update\<close> may be
  fed a message in pieces, and that \<open>digest\<close> returns the reference hash.
\<close>

section \<open>The code\<close>

definition blake_zo :: bytes where "blake_zo = [0x01]"
definition blake_oo :: bytes where "blake_oo = [0x81]"

definition sigma :: "nat list list" where
  "sigma = [
    [0, 1, 2, 3, 4, 5, 6, 7, 8, 9, 10, 11, 12, 13, 14, 15],
    [14, 10, 4, 8, 9, 15, 13, 6, 1, 12, 0, 2, 11, 7, 5, 3],
    [11, 8, 12, 0, 5, 2, 15, 13, 10, 14, 3, 6, 7, 1, 9, 4],
    [7, 9, 3, 1, 13, 12, 11, 14, 2, 6, 5, 10, 4, 0, 15, 8],
    [9, 0, 5, 7, 2, 4, 10, 15, 14, 1, 11, 12, 6, 8, 3, 13],
    [2, 12, 6, 10, 0, 11, 8, 3, 4, 13, 7, 5, 15, 14, 1, 9],
    [12, 5, 1, 15, 14, 13, 4, 10, 0, 7, 6, 3, 9, 2, 8, 11],
    [13, 11, 7, 14, 12, 1, 3, 9, 5, 0, 15, 4, 8, 6, 2, 10],
    [6, 15, 14, 9, 11, 3, 0, 8, 12, 2, 13, 7, 1, 4, 10, 5],
    [10, 2, 8, 4, 7, 6, 1, 5, 15, 11, 9, 14, 3, 12, 13, 0],
    [0, 1, 2, 3, 4, 5, 6, 7, 8, 9, 10, 11, 12, 13, 14, 15],
    [14, 10, 4, 8, 9, 15, 13, 6, 1, 12, 0, 2, 11, 7, 5, 3],
    [11, 8, 12, 0, 5, 2, 15, 13, 10, 14, 3, 6, 7, 1, 9, 4],
    [7, 9, 3, 1, 13, 12, 11, 14, 2, 6, 5, 10, 4, 0, 15, 8],
    [9, 0, 5, 7, 2, 4, 10, 15, 14, 1, 11, 12, 6, 8, 3, 13],
    [2, 12, 6, 10, 0, 11, 8, 3, 4, 13, 7, 5, 15, 14, 1, 9]]"

definition u512 :: "32 word list" where
  "u512 = [
    0x243F6A88, 0x85A308D3, 0x13198A2E, 0x03707344, 0xA4093822, 0x299F31D0, 0x082EFA98, 0xEC4E6C89,
    0x452821E6, 0x38D01377, 0xBE5466CF, 0x34E90C6C, 0xC0AC29B7, 0xC97C50DD, 0x3F84D5B5, 0xB5470917,
    0x9216D5D9, 0x8979FB1B, 0xD1310BA6, 0x98DFB5AC, 0x2FFD72DB, 0xD01ADFB7, 0xB8E1AFED, 0x6A267E96,
    0xBA7C9045, 0xF12C7F99, 0x24A19947, 0xB3916CF7, 0x0801F2E2, 0x858EFC16, 0x636920D8, 0x71574E69]"

definition blake_padding :: bytes where
  "blake_padding = 0x80 # replicate 128 0"

definition blake_iv :: "32 word list" where
  "blake_iv = [
    0x6A09E667, 0xF3BCC908, 0xBB67AE85, 0x84CAA73B, 0x3C6EF372, 0xFE94F82B, 0xA54FF53A,
    0x5F1D36F1, 0x510E527F, 0xADE682D1, 0x9B05688C, 0x2B3E6C1F, 0x1F83D9AB, 0xFB41BD6B,
    0x5BE0CD19, 0x137E2179]"

record blake =
  bl_h :: "32 word list"
  bl_s :: "32 word list"
  bl_block :: bytes
  bl_blockOffset :: nat
  bl_length :: "int list"
  bl_nullt :: bool

definition Blake512_new :: blake where
  "Blake512_new = \<lparr> bl_h = blake_iv, bl_s = replicate 8 0, bl_block = replicate 128 0,
     bl_blockOffset = 0, bl_length = [0, 0, 0, 0], bl_nullt = False \<rparr>"

text \<open>The rotation of \<open>v[i] ^ v[j]\<close> by \<open>n\<close>; the three exclusive-ors swap the halves.\<close>

definition blake_rot :: "32 word list \<Rightarrow> nat \<Rightarrow> nat \<Rightarrow> nat \<Rightarrow> 32 word list" where
  "blake_rot v i j n =
    (let hi = v ! (i * 2) XOR v ! (j * 2);
         lo = v ! (i * 2 + 1) XOR v ! (j * 2 + 1);
         (hi, lo, n) =
           (if n \<ge> 32
            then (let lo = lo XOR hi; hi = lo XOR hi; lo = lo XOR hi in (hi, lo, n - 32))
            else (hi, lo, n))
     in if n = 0 then v[i * 2 := hi, i * 2 + 1 := lo]
        else v[i * 2 := drop_bit n hi OR push_bit (32 - n) lo,
               i * 2 + 1 := drop_bit n lo OR push_bit (32 - n) hi])"

text \<open>
  \<open>v[k] += x\<close> on the two halves, where \<open>x\<close> is given by its halves: the sum of the low
  halves is a number of up to 34 bits whose quotient by \<open>2^32\<close> is carried.
\<close>

definition add_halves :: "32 word list \<Rightarrow> nat \<Rightarrow> 32 word list \<Rightarrow> 32 word list \<Rightarrow> 32 word list" where
  "add_halves v k his los =
    (let lo = uint (v ! (k * 2 + 1)) + sum_list (map uint los)
     in v[k * 2 := word_of_int (uint (v ! (k * 2)) + sum_list (map uint his) + lo div 0x100000000),
          k * 2 + 1 := word_of_int lo])"

definition blake_g :: "32 word list \<Rightarrow> 32 word list \<Rightarrow> nat \<Rightarrow> nat \<Rightarrow> nat \<Rightarrow> nat \<Rightarrow> nat \<Rightarrow> nat \<Rightarrow> 32 word list" where
  "blake_g v m i a b c d e =
    (let se = sigma ! i ! e; se1 = sigma ! i ! (e + 1);
         v = add_halves v a [m ! (se * 2) XOR u512 ! (se1 * 2), v ! (b * 2)]
                            [m ! (se * 2 + 1) XOR u512 ! (se1 * 2 + 1), v ! (b * 2 + 1)];
         v = blake_rot v d a 32;
         v = add_halves v c [v ! (d * 2)] [v ! (d * 2 + 1)];
         v = blake_rot v b c 25;
         v = add_halves v a [m ! (se1 * 2) XOR u512 ! (se * 2), v ! (b * 2)]
                            [m ! (se1 * 2 + 1) XOR u512 ! (se * 2 + 1), v ! (b * 2 + 1)];
         v = blake_rot v d a 16;
         v = add_halves v c [v ! (d * 2)] [v ! (d * 2 + 1)]
     in blake_rot v b c 11)"

text \<open>
  The carry loop over the length digits.  A carry out of the last digit writes past the
  array: it makes \<open>arr[4]\<close> NaN and the loop then never ends.
\<close>

fun lengthCarry :: "int list \<Rightarrow> int list js" where
  "lengthCarry [] = ret []"
| "lengthCarry (a # ds) =
    (if a < 0x100000000 then ret (a # ds)
     else case ds of
       [] \<Rightarrow> None
     | b # ds' \<Rightarrow> bindJ (lengthCarry ((b + 1) # ds')) (\<lambda>r. ret ((a - 0x100000000) # r)))"

definition getUint32 :: "bytes \<Rightarrow> nat \<Rightarrow> 32 word" where
  "getUint32 buf off = word_of_int (be_val (take 4 (drop off buf)))"

definition setUint32 :: "bytes \<Rightarrow> nat \<Rightarrow> int \<Rightarrow> bytes" where
  "setUint32 buf off n = put_bytes buf off (be_bytes 4 n)"

definition blake_round :: "32 word list \<Rightarrow> 32 word list \<Rightarrow> nat \<Rightarrow> 32 word list" where
  "blake_round m v i =
    (let v = blake_g v m i 0 4 8 12 0;
         v = blake_g v m i 1 5 9 13 2;
         v = blake_g v m i 2 6 10 14 4;
         v = blake_g v m i 3 7 11 15 6;
         v = blake_g v m i 0 5 10 15 8;
         v = blake_g v m i 1 6 11 12 10;
         v = blake_g v m i 2 7 8 13 12
     in blake_g v m i 3 4 9 14 14)"

definition Blake512_compress :: "blake \<Rightarrow> blake" where
  "Blake512_compress st =
    (let m = map (\<lambda>i. getUint32 (bl_block st) (i * 4)) [0..<32];
         L = (\<lambda>i. word_of_int (bl_length st ! i) :: 32 word);
         v = map (\<lambda>i. if i < 16 then bl_h st ! i
                      else if i < 24 then bl_s st ! (i - 16) XOR u512 ! (i - 16)
                      else u512 ! (i - 16)) [0..<32];
         v = (if \<not> bl_nullt st
              then v[24 := v ! 24 XOR L 1, 25 := v ! 25 XOR L 0,
                     26 := v ! 26 XOR L 1, 27 := v ! 27 XOR L 0,
                     28 := v ! 28 XOR L 3, 29 := v ! 29 XOR L 2,
                     30 := v ! 30 XOR L 3, 31 := v ! 31 XOR L 2]
              else v);
         v = foldl (blake_round m) v [0..<16];
         h = foldl (\<lambda>h i. h[(i mod 8) * 2 := h ! ((i mod 8) * 2) XOR v ! (i * 2),
                            (i mod 8) * 2 + 1 := h ! ((i mod 8) * 2 + 1) XOR v ! (i * 2 + 1)])
               (bl_h st) [0..<16];
         h = foldl (\<lambda>h i. h[i * 2 := h ! (i * 2) XOR bl_s st ! ((i mod 4) * 2),
                            i * 2 + 1 := h ! (i * 2 + 1) XOR bl_s st ! ((i mod 4) * 2 + 1)])
               h [0..<8]
     in st\<lparr> bl_h := h \<rparr>)"

text \<open>
  \<open>update\<close>: while the data fill the block, complete it, count its bits and compress it;
  the rest stays in the block.
\<close>

function Blake512_update :: "blake \<Rightarrow> bytes \<Rightarrow> blake js" where
  "Blake512_update st data =
    (if bl_blockOffset st + length data \<ge> 128 then
       let k = 128 - bl_blockOffset st;
           st = st\<lparr> bl_block := put_bytes (bl_block st) (bl_blockOffset st) (take k data) \<rparr>
       in bindJ (lengthCarry ((bl_length st)[0 := bl_length st ! 0 + 128 * 8])) (\<lambda>len.
          Blake512_update (Blake512_compress (st\<lparr> bl_length := len \<rparr>) \<lparr> bl_blockOffset := 0 \<rparr>) (drop k data))
     else ret (st\<lparr> bl_block := put_bytes (bl_block st) (bl_blockOffset st) data,
                   bl_blockOffset := bl_blockOffset st + length data \<rparr>))"
  by pat_completeness auto

termination
  by (relation "measure (\<lambda>(st, data). bl_blockOffset st + length data)") auto

declare Blake512_update.simps [simp del]

definition sub_length :: "blake \<Rightarrow> int \<Rightarrow> blake" where
  "sub_length st n = st\<lparr> bl_length := (bl_length st)[0 := bl_length st ! 0 - n] \<rparr>"

definition Blake512_padding :: "blake \<Rightarrow> blake js" where
  "Blake512_padding st =
    (let off = bl_blockOffset st in
     bindJ (lengthCarry ((bl_length st)[0 := bl_length st ! 0 + int off * 8])) (\<lambda>len.
     let msglen = foldl (\<lambda>b i. setUint32 b (i * 4) (len ! (3 - i))) (replicate 16 0) [0..<4] in
     bindJ
       (if off = 111 then Blake512_update (sub_length st 8) blake_oo
        else
          bindJ
            (if off < 111 then
               let st = (if off = 0 then st\<lparr> bl_nullt := True \<rparr> else st)
               in Blake512_update (sub_length st (int (111 - off) * 8)) (take (111 - off) blake_padding)
             else
               bindJ (Blake512_update (sub_length st ((128 - int off) * 8)) (take (128 - off) blake_padding)) (\<lambda>st.
               bindJ (Blake512_update (sub_length st (111 * 8)) (take 111 (drop 1 blake_padding))) (\<lambda>st.
               ret (st\<lparr> bl_nullt := True \<rparr>))))
            (\<lambda>st. bindJ (Blake512_update st blake_zo) (\<lambda>st. ret (sub_length st 8))))
       (\<lambda>st. Blake512_update (sub_length st 128) msglen)))"

text \<open>\<open>digest\<close> returns the hash and leaves the padded state behind.\<close>

definition Blake512_digest :: "blake \<Rightarrow> (bytes \<times> blake) js" where
  "Blake512_digest st =
    bindJ (Blake512_padding st) (\<lambda>st.
    ret (foldl (\<lambda>b i. setUint32 b (i * 4) (uint (bl_h st ! i))) (replicate 64 0) [0..<16], st))"

section \<open>Halves of 64-bit words\<close>

definition join :: "32 word \<Rightarrow> 32 word \<Rightarrow> 64 word" where
  "join hi lo = word_cat hi lo"

lemma uint32_less: "uint (w :: 32 word) < 0x100000000"
  using uint_lt2p [of w] by simp

lemma uint_join: "uint (join hi lo) = uint hi * 0x100000000 + uint lo"
proof -
  have "uint hi * 0x100000000 + uint lo < 0x10000000000000000"
    using uint32_less [of hi] uint32_less [of lo] by simp
  moreover have "0 \<le> uint hi * 0x100000000 + uint lo" by simp
  ultimately show ?thesis
    using uint32_less [of lo]
    by (simp add: join_def word_cat_eq' uint_word_of_int concat_bit_eq take_bit_eq_mod push_bit_eq_mult del: of_int_add of_int_mult)
qed

lemma uint_of_int32: "uint (word_of_int x :: 32 word) = x mod 0x100000000"
  by (simp add: uint_word_of_int)

lemma uint_of_int64: "uint (word_of_int x :: 64 word) = x mod 0x10000000000000000"
  by (simp add: uint_word_of_int)

lemma join_word_of_int:
  "join (word_of_int (a + b div 0x100000000)) (word_of_int b) = word_of_int (a * 0x100000000 + b)"
proof -
  let ?M = "0x100000000 :: int" and ?N = "0x10000000000000000 :: int"
  let ?u = "((a + b div ?M) mod ?M) * ?M"
  have "?u = (a * ?M + b div ?M * ?M) mod ?N"
    using mult_mod_left [of "a + b div ?M" ?M ?M] by (simp add: distrib_right)
  then have "(?u + b mod ?M) mod ?N = (a * ?M + b div ?M * ?M + b mod ?M) mod ?N"
    by (simp only: mod_add_left_eq)
  also have "a * ?M + b div ?M * ?M + b mod ?M = a * ?M + b"
    by (simp add: add.assoc)
  finally have "(?u + b mod ?M) mod ?N = (a * ?M + b) mod ?N" .
  moreover have "?u + b mod ?M < ?N"
    using uint_lt2p [of "join (word_of_int (a + b div ?M)) (word_of_int b)"]
    unfolding uint_join uint_of_int32 by simp
  moreover have "0 \<le> ?u + b mod ?M" by simp
  ultimately have "?u + b mod ?M = (a * ?M + b) mod ?N" by (simp only: mod_pos_pos_trivial)
  then show ?thesis
    by (intro word_uint_eqI) (simp only: uint_join uint_of_int32 uint_of_int64)
qed

lemma bit_join: "bit (join hi lo) n \<longleftrightarrow> (if n < 32 then bit lo n else n < 64 \<and> bit hi (n - 32))"
  by (auto simp: join_def bit_word_cat_iff)

lemma join_xor: "join (h XOR h') (l XOR l') = join h l XOR join h' l'"
  by (rule bit_word_eqI) (auto simp: bit_join bit_xor_iff)

lemma bit32: "bit (w :: 32 word) k \<Longrightarrow> k < 32"
  using bit_imp_le_length [of w k] by simp

lemma join_rotr:
  assumes "0 < n" "n < 32"
  shows "join (drop_bit n h OR push_bit (32 - n) l) (drop_bit n l OR push_bit (32 - n) h) = word_rotr n (join h l)"
proof (rule bit_word_eqI)
  fix k :: nat assume k: "k < LENGTH(64)"
  then have m: "(k + n) mod 64 = (if k + n < 64 then k + n else k + n - 64)" using assms by (simp add: mod_if)
  have e: "bit (drop_bit n x OR push_bit (32 - n) y) j \<longleftrightarrow> (if j + n < 32 then bit x (j + n) else bit y (j + n - 32))"
    if "j < 32" for x y :: "32 word" and j
    using assms that bit32 [of x "n + j"]
    by (auto simp: bit_or_iff bit_drop_bit_eq bit_push_bit_iff add.commute)
  have r: "bit (word_rotr n (join h l)) k \<longleftrightarrow> bit (join h l) (if k + n < 64 then k + n else k + n - 64)"
    using k by (simp add: bit_word_rotr_iff m)
  show "bit (join (drop_bit n h OR push_bit (32 - n) l) (drop_bit n l OR push_bit (32 - n) h)) k = bit (word_rotr n (join h l)) k"
  proof (cases "k < 32")
    case True
    then show ?thesis using assms unfolding r bit_join by (simp add: e)
  next
    case False
    then obtain j where j: "k = 32 + j" using le_Suc_ex [of 32 k] by auto
    then have "j < 32" using k by simp
    moreover have "32 + j + n - 64 = j + n - 32" "32 + j + n < 64 \<longleftrightarrow> j + n < 32" "32 + j + n - 32 = j + n" "j + n - 32 < 32"
      using assms \<open>j < 32\<close> by linarith+
    ultimately show ?thesis unfolding r unfolding j bit_join by (cases "j + n < 32") (simp_all add: e)
  qed
qed

lemma join_swap: "join l h = word_rotr 32 (join h l)"
proof (rule bit_word_eqI)
  fix k :: nat assume "k < LENGTH(64)"
  then have "(k + 32) mod 64 = (if k + 32 < 64 then k + 32 else k + 32 - 64)" by (simp add: mod_if)
  with \<open>k < LENGTH(64)\<close> show "bit (join l h) k = bit (word_rotr 32 (join h l)) k"
    by (auto simp: bit_join bit_simps split: if_splits)  
qed

section \<open>The reference function\<close>

definition ref_u :: "64 word list" where
  "ref_u = [
    0x243F6A8885A308D3, 0x13198A2E03707344, 0xA4093822299F31D0, 0x082EFA98EC4E6C89,
    0x452821E638D01377, 0xBE5466CF34E90C6C, 0xC0AC29B7C97C50DD, 0x3F84D5B5B5470917,
    0x9216D5D98979FB1B, 0xD1310BA698DFB5AC, 0x2FFD72DBD01ADFB7, 0xB8E1AFED6A267E96,
    0xBA7C9045F12C7F99, 0x24A19947B3916CF7, 0x0801F2E2858EFC16, 0x636920D871574E69]"

definition ref_iv :: "64 word list" where
  "ref_iv = [
    0x6A09E667F3BCC908, 0xBB67AE8584CAA73B, 0x3C6EF372FE94F82B, 0xA54FF53A5F1D36F1,
    0x510E527FADE682D1, 0x9B05688C2B3E6C1F, 0x1F83D9ABFB41BD6B, 0x5BE0CD19137E2179]"

definition ref_G :: "64 word list \<Rightarrow> 64 word list \<Rightarrow> nat \<Rightarrow> nat \<Rightarrow> nat \<Rightarrow> nat \<Rightarrow> nat \<Rightarrow> nat \<Rightarrow> 64 word list" where
  "ref_G v m i a b c d e =
    (let x = sigma ! i ! e; y = sigma ! i ! (e + 1);
         v = v[a := v ! a + v ! b + (m ! x XOR ref_u ! y)];
         v = v[d := word_rotr 32 (v ! d XOR v ! a)];
         v = v[c := v ! c + v ! d];
         v = v[b := word_rotr 25 (v ! b XOR v ! c)];
         v = v[a := v ! a + v ! b + (m ! y XOR ref_u ! x)];
         v = v[d := word_rotr 16 (v ! d XOR v ! a)];
         v = v[c := v ! c + v ! d]
     in v[b := word_rotr 11 (v ! b XOR v ! c)])"

definition ref_round :: "64 word list \<Rightarrow> 64 word list \<Rightarrow> nat \<Rightarrow> 64 word list" where
  "ref_round m v i =
    foldl (\<lambda>v (a, b, c, d, e). ref_G v m i a b c d e) v
      [(0, 4, 8, 12, 0), (1, 5, 9, 13, 2), (2, 6, 10, 14, 4), (3, 7, 11, 15, 6),
       (0, 5, 10, 15, 8), (1, 6, 11, 12, 10), (2, 7, 8, 13, 12), (3, 4, 9, 14, 14)]"

definition ref_words :: "bytes \<Rightarrow> 64 word list" where
  "ref_words block = map (\<lambda>i. word_of_int (be_val (take 8 (drop (8 * i) block)))) [0..<16]"

text \<open>The compression of a block with its counter \<open>t\<close> of message bits.\<close>

definition ref_compress :: "64 word list \<Rightarrow> bytes \<Rightarrow> nat \<Rightarrow> 64 word list" where
  "ref_compress h block t =
    (let tl = word_of_nat t; th = word_of_nat (t div 2 ^ 64);
         v = h @ take 4 ref_u @
             [ref_u ! 4 XOR tl, ref_u ! 5 XOR tl, ref_u ! 6 XOR th, ref_u ! 7 XOR th];
         v = foldl (ref_round (ref_words block)) v [0..<16]
     in map (\<lambda>i. h ! i XOR v ! i XOR v ! (i + 8)) [0..<8])"

text \<open>What is appended to a message of \<open>n\<close> bytes, the counters and the hash.\<close>

definition ref_tail :: "nat \<Rightarrow> bytes" where
  "ref_tail n = (let z = (239 - n mod 128) mod 128
     in (if z = 0 then [0x81] else 0x80 # replicate (z - 1) 0 @ [0x01]) @ be_bytes 16 (8 * int n))"

definition ref_counter :: "nat \<Rightarrow> nat \<Rightarrow> nat" where
  "ref_counter n k = (if 128 * k < n then 8 * min n (128 * (k + 1)) else 0)"

definition ref_block :: "bytes \<Rightarrow> nat \<Rightarrow> bytes" where
  "ref_block m k = take 128 (drop (128 * k) m)"

definition ref_hash :: "bytes \<Rightarrow> bytes" where
  "ref_hash m =
    (let pm = m @ ref_tail (length m) in
     concat (map (be_bytes 8 \<circ> uint)
       (foldl (\<lambda>h k. ref_compress h (ref_block pm k) (ref_counter (length m) k)) ref_iv [0..<length pm div 128])))"

section \<open>The halves compute the words\<close>

definition joins :: "32 word list \<Rightarrow> 64 word list" where
  "joins v = map (\<lambda>i. join (v ! (i * 2)) (v ! (i * 2 + 1))) [0..<length v div 2]"

lemma length_joins [simp]: "length (joins v) = length v div 2"
  by (simp add: joins_def)

lemma nth_joins: "k < length v div 2 \<Longrightarrow> joins v ! k = join (v ! (k * 2)) (v ! (k * 2 + 1))"
  by (simp add: joins_def)

lemma joins_update:
  assumes "k < length v div 2"
  shows "joins (v[k * 2 := x, k * 2 + 1 := y]) = (joins v)[k := join x y]"
proof (rule nth_equalityI)
  fix i assume "i < length (joins (v[k * 2 := x, k * 2 + 1 := y]))"
  then have i: "i < length v div 2" by simp
  have "k * 2 \<noteq> i * 2 + 1" "i * 2 \<noteq> k * 2 + 1" by presburger+
  with i assms show "joins (v[k * 2 := x, k * 2 + 1 := y]) ! i = (joins v)[k := join x y] ! i"
    by (auto simp: nth_joins nth_list_update)
qed simp

lemma join_of_uint: "word_of_int (uint h * 0x100000000 + uint l) = join h l"
  using word_of_int_uint [of "join h l"] by (simp only: uint_join)

lemma sum_joins:
  "length his = length los \<Longrightarrow>
   word_of_int (sum_list (map uint his) * 0x100000000 + sum_list (map uint los)) = sum_list (map2 join his los)"
proof (induction his los rule: list_induct2)
  case (Cons h hs l ls)
  have "sum_list (map uint (h # hs)) * 0x100000000 + sum_list (map uint (l # ls)) =
      (uint h * 0x100000000 + uint l) + (sum_list (map uint hs) * 0x100000000 + sum_list (map uint ls))"
    by (simp add: distrib_right)
  then have "word_of_int (sum_list (map uint (h # hs)) * 0x100000000 + sum_list (map uint (l # ls))) =
      join h l + sum_list (map2 join hs ls)"
    by (simp only: of_int_add [of "uint h * 0x100000000 + uint l"] Cons.IH join_of_uint)
  then show ?case by simp
qed simp

lemma joins_add_halves:
  assumes "k < length v div 2" "length his = length los"
  shows "joins (add_halves v k his los) = (joins v)[k := joins v ! k + sum_list (map2 join his los)]"
proof -
  let ?lo = "uint (v ! (k * 2 + 1)) + sum_list (map uint los)"
  have "(uint (v ! (k * 2)) + sum_list (map uint his)) * 0x100000000 + ?lo =
      (uint (v ! (k * 2)) * 0x100000000 + uint (v ! (k * 2 + 1))) + (sum_list (map uint his) * 0x100000000 + sum_list (map uint los))"
    by (simp add: distrib_right)
  then have "join (word_of_int (uint (v ! (k * 2)) + sum_list (map uint his) + ?lo div 0x100000000)) (word_of_int ?lo)
      = joins v ! k + sum_list (map2 join his los)"
    by (simp only: join_word_of_int of_int_add [of "uint (v ! (k * 2)) * 0x100000000 + uint (v ! (k * 2 + 1))"]
        join_of_uint sum_joins [OF assms(2)] nth_joins [OF assms(1)])
  then show ?thesis
    unfolding add_halves_def Let_def joins_update [OF assms(1)] by (simp only:)
qed

lemma xor_swap: "(lo XOR hi) XOR hi = lo" "(lo XOR hi) XOR ((lo XOR hi) XOR hi) = hi" "(lo XOR hi) XOR lo = hi" for hi lo :: "32 word"
  by (rule bit_word_eqI, auto simp: bit_xor_iff)+

lemma joins_rot:
  assumes i: "i < length v div 2" and j: "j < length v div 2" and n: "n = 32 \<or> 0 < n \<and> n < 32"
  shows "joins (blake_rot v i j n) = (joins v)[i := word_rotr n (joins v ! i XOR joins v ! j)]"
proof -
  let ?hi = "v ! (i * 2) XOR v ! (j * 2)" and ?lo = "v ! (i * 2 + 1) XOR v ! (j * 2 + 1)"
  have x: "joins v ! i XOR joins v ! j = join ?hi ?lo"
    by (simp add: nth_joins i j join_xor)
  show ?thesis
  proof (cases "n = 32")
    case True
    then have "blake_rot v i j n = v[i * 2 := ?lo, i * 2 + 1 := ?hi]"
      unfolding blake_rot_def Let_def by (simp only: xor_swap) simp
    then show ?thesis by (simp only: joins_update [OF i] x join_swap [of ?lo ?hi] True)
  next
    case False
    with n have n': "0 < n" "n < 32" by auto
    then have "blake_rot v i j n = v[i * 2 := drop_bit n ?hi OR push_bit (32 - n) ?lo,
               i * 2 + 1 := drop_bit n ?lo OR push_bit (32 - n) ?hi]"
      unfolding blake_rot_def Let_def by simp
    then show ?thesis by (simp only: joins_update [OF i] x join_rotr [OF n'])
  qed
qed

lemma length_add_halves [simp]: "length (add_halves v k his los) = length v"
  by (simp add: add_halves_def Let_def)

lemma length_blake_rot [simp]: "length (blake_rot v i j n) = length v"
  by (simp add: blake_rot_def Let_def split: prod.split)

lemma length_blake_g [simp]: "length (blake_g v m i a b c d e) = length v"
  by (simp add: blake_g_def Let_def)

lemma joins_u512: "joins u512 = ref_u"
  by (simp add: joins_def u512_def ref_u_def upt_rec join_of_uint [symmetric])
 
lemma joins_iv: "joins blake_iv = ref_iv"
  by (simp add: joins_def blake_iv_def ref_iv_def upt_rec join_of_uint [symmetric])

lemma sigma_less: "i < 16 \<Longrightarrow> e < 16 \<Longrightarrow> sigma ! i ! e < 16"
proof -
  have "\<forall>row \<in> set sigma. length row = 16 \<and> (\<forall>x \<in> set row. x < 16)" "length sigma = 16"
    by (simp_all add: sigma_def)
  then show "i < 16 \<Longrightarrow> e < 16 \<Longrightarrow> sigma ! i ! e < 16" by (metis nth_mem)
qed

lemma length_u512: "length u512 = 32"
  by (simp add: u512_def)

lemma joins_g:
  assumes v: "length v = 32" and m: "length m = 32"
    and a: "a < 16" and b: "b < 16" and c: "c < 16" and d: "d < 16" and i: "i < 16" and e: "e < 15"
  shows "joins (blake_g v m i a b c d e) = ref_G (joins v) (joins m) i a b c d e"
proof -
  let ?x = "sigma ! i ! e" and ?y = "sigma ! i ! (e + 1)"
  have s: "?x < 16" "?y < 16" using sigma_less i e by auto
  have mu: "join (m ! (k * 2) XOR u512 ! (l * 2)) (m ! (k * 2 + 1) XOR u512 ! (l * 2 + 1)) = joins m ! k XOR ref_u ! l"
    if "k < 16" "l < 16" for k l
    using that m by (simp add: join_xor nth_joins length_u512 joins_u512 [symmetric])
  have add_m: "joins (add_halves w a [m ! (k * 2) XOR u512 ! (l * 2), w ! (b * 2)]
      [m ! (k * 2 + 1) XOR u512 ! (l * 2 + 1), w ! (b * 2 + 1)])
     = (joins w)[a := joins w ! a + joins w ! b + (joins m ! k XOR ref_u ! l)]"
    if "k < 16" "l < 16" "length w = 32" for k l w
    using that a b by (simp add: joins_add_halves mu [unfolded Suc_eq_plus1 [symmetric]] nth_joins add_ac)
  have add_w: "joins (add_halves w c [w ! (d * 2)] [w ! (d * 2 + 1)]) = (joins w)[c := joins w ! c + joins w ! d]"
    if "length w = 32" for w
    using that c d by (simp add: joins_add_halves nth_joins)
  have rot: "joins (blake_rot w i j n) = (joins w)[i := word_rotr n (joins w ! i XOR joins w ! j)]"
    if "n = 32 \<or> n = 25 \<or> n = 16 \<or> n = 11" "length w = 32" "i < 16" "j < 16" for w i j n
    by (rule joins_rot) (use that in auto)
  have "joins (blake_rot w i j 32) = (joins w)[i := word_rotr 32 (joins w ! i XOR joins w ! j)]"
    "joins (blake_rot w i j 25) = (joins w)[i := word_rotr 25 (joins w ! i XOR joins w ! j)]"
    "joins (blake_rot w i j 16) = (joins w)[i := word_rotr 16 (joins w ! i XOR joins w ! j)]"
    "joins (blake_rot w i j 11) = (joins w)[i := word_rotr 11 (joins w ! i XOR joins w ! j)]"
    if "length w = 32" "i < 16" "j < 16" for w i j
    by (rule rot; use that in simp)+
  then show ?thesis
    unfolding blake_g_def ref_G_def Let_def
    by (simp only: add_m add_w s v a b c d length_add_halves length_blake_rot)
qed

lemma length_blake_round [simp]: "length (blake_round m v i) = length v"
  by (simp add: blake_round_def Let_def)

lemma joins_round:
  assumes "length v = 32" "length m = 32" "i < 16"
  shows "joins (blake_round m v i) = ref_round (joins m) (joins v) i"
  using assms unfolding blake_round_def ref_round_def Let_def by (simp add: joins_g)

lemma joins_rounds:
  assumes "length v = 32" "length m = 32" "\<forall>i \<in> set is. i < 16"
  shows "joins (foldl (blake_round m) v is) = foldl (ref_round (joins m)) (joins v) is \<and>
    length (foldl (blake_round m) v is) = 32"
  using assms
proof (induction "is" arbitrary: v)
  case (Cons i "is")
  then show ?case using Cons.IH [of "blake_round m v i"] by (simp add: joins_round)
qed simp

lemma joins_words:
  assumes "length block = 128"
  shows "joins (map (\<lambda>i. getUint32 block (i * 4)) [0..<32]) = ref_words block"
proof (rule nth_equalityI)
  fix k assume "k < length (joins (map (\<lambda>i. getUint32 block (i * 4)) [0..<32]))"
  then have k: "k < 16" by simp
  let ?a = "take 4 (drop (k * 2 * 4) block)" and ?b = "take 4 (drop ((k * 2 + 1) * 4) block)"
  have s: "take 8 (drop (8 * k) block) = ?a @ ?b"
    using take_add [of 4 4 "drop (8 * k) block"] by (simp add: add.commute mult.commute)
  have l: "length ?a = 4" "length ?b = 4" using assms k by simp_all
  have "be_val (?a @ ?b) = be_val ?a * 0x100000000 + be_val ?b"
    unfolding be_val_append l by simp
  moreover have "0 \<le> be_val x \<and> be_val x < 0x100000000" if "length x = 4" for x
    using be_val_nonneg [of x] be_val_less [of x] that by simp
  ultimately have "join (word_of_int (be_val ?a)) (word_of_int (be_val ?b)) = word_of_int (be_val (?a @ ?b))"
    using join_word_of_int [of "be_val ?a" "be_val ?b"] l by simp
  with k show "joins (map (\<lambda>i. getUint32 block (i * 4)) [0..<32]) ! k = ref_words block ! k"
    by (simp only: ref_words_def s nth_joins length_map length_upt) (simp add: s getUint32_def)
qed (simp add: ref_words_def)

lemma joins_xor_fold:
  assumes "\<forall>i \<in> set is. i < 16" "length v = 32" "length h = 16"
  shows "joins (foldl (\<lambda>h i. h[(i mod 8) * 2 := h ! ((i mod 8) * 2) XOR v ! (i * 2),
                            (i mod 8) * 2 + 1 := h ! ((i mod 8) * 2 + 1) XOR v ! (i * 2 + 1)]) h is)
    = foldl (\<lambda>h i. h[i mod 8 := h ! (i mod 8) XOR joins v ! i]) (joins h) is \<and>
    length (foldl (\<lambda>h i. h[(i mod 8) * 2 := h ! ((i mod 8) * 2) XOR v ! (i * 2),
                            (i mod 8) * 2 + 1 := h ! ((i mod 8) * 2 + 1) XOR v ! (i * 2 + 1)]) h is) = 16"
  using assms
proof (induction "is" arbitrary: h)
  case (Cons i "is")
  let ?h = "h[(i mod 8) * 2 := h ! ((i mod 8) * 2) XOR v ! (i * 2),
              (i mod 8) * 2 + 1 := h ! ((i mod 8) * 2 + 1) XOR v ! (i * 2 + 1)]"
  have "joins ?h = (joins h)[i mod 8 := joins h ! (i mod 8) XOR joins v ! i]"
    using Cons.prems by (subst joins_update) (simp_all add: nth_joins join_xor)
  then show ?case using Cons.IH [of ?h] Cons.prems by simp
qed simp

lemma length_eq_8: "length h = 8 \<longleftrightarrow> (\<exists>a b c d e f g i. h = [a, b, c, d, e, f, g, i])"
  by (auto simp: numeral_eq_Suc length_Suc_conv)

lemma ref_xor_fold:
  assumes "length h = 8"
  shows "foldl (\<lambda>h i. h[i mod 8 := h ! (i mod 8) XOR v ! i]) h [0..<16] =
    map (\<lambda>i. h ! i XOR v ! i XOR v ! (i + 8)) [0..<8]"
  using assms by (auto simp: length_eq_8 upt_rec xor.assoc) (simp_all add: eval_nat_numeral)

lemma foldl_id: "(\<And>x. x \<in> set xs \<Longrightarrow> f a x = a) \<Longrightarrow> foldl f a xs = a"
  by (induction xs) auto

primrec len_val :: "int list \<Rightarrow> int" where
  "len_val [] = 0"
| "len_val (d # ds) = d + 0x100000000 * len_val ds"

text \<open>Four digits of the length.\<close>

definition len_ok :: "int list \<Rightarrow> bool" where
  "len_ok ls \<longleftrightarrow> length ls = 4 \<and> (\<forall>d \<in> set ls. 0 \<le> d \<and> d < 0x100000000)"

lemma len_ok_cases:
  assumes "len_ok ls"
  obtains a b c d where "ls = [a, b, c, d]" "0 \<le> a" "a < 0x100000000" "0 \<le> b" "b < 0x100000000"
    "0 \<le> c" "c < 0x100000000" "0 \<le> d" "d < 0x100000000"
  using assms by (auto simp: len_ok_def numeral_eq_Suc length_Suc_conv)

lemma counter_words:
  assumes "0 \<le> a" "a < 0x100000000" "0 \<le> b" "b < 0x100000000" "0 \<le> c" "c < 0x100000000"
    "0 \<le> d" "d < 0x100000000"
  shows "join (word_of_int b) (word_of_int a) = word_of_nat (nat (len_val [a, b, c, d]))"
    "join (word_of_int d) (word_of_int c) = word_of_nat (nat (len_val [a, b, c, d]) div 2 ^ 64)"
proof -
  let ?v = "len_val [a, b, c, d]"
  have v: "?v = (b * 0x100000000 + a) + (d * 0x100000000 + c) * 0x10000000000000000"
    by simp
  then have nn: "0 \<le> ?v" using assms by simp
  have "?v mod 0x10000000000000000 = (b * 0x100000000 + a) mod 0x10000000000000000"
    unfolding v by (rule mod_mult_self1)
  then have "(word_of_int ?v :: 64 word) = word_of_int (b * 0x100000000 + a)"
    by (intro word_uint_eqI) (simp only: uint_of_int64)
  then show "join (word_of_int b) (word_of_int a) = word_of_nat (nat ?v)"
    using join_word_of_int [of b a] assms by (simp only: of_nat_nat [OF nn] div_pos_pos_trivial add_0_right)
  have "b * 0x100000000 + a < 0x10000000000000000" "0 \<le> b * 0x100000000 + a" using assms by simp_all
  then have "?v div 0x10000000000000000 = d * 0x100000000 + c" unfolding v by simp
  then have "int (nat ?v div 2 ^ 64) = d * 0x100000000 + c" using nn by (simp add: zdiv_int)
  then have "(word_of_nat (nat ?v div 2 ^ 64) :: 64 word) = word_of_int (d * 0x100000000 + c)"
    by (metis of_int_of_nat_eq)
  then show "join (word_of_int d) (word_of_int c) = word_of_nat (nat ?v div 2 ^ 64)"
    using join_word_of_int [of d c] assms by (simp only: div_pos_pos_trivial add_0_right)
qed

lemma list_4: "length xs = 4 \<Longrightarrow> \<exists>a b c d. xs = [a, b, c, d]"
  by (auto simp: numeral_eq_Suc length_Suc_conv)

definition joined :: "blake \<Rightarrow> 64 word list" where "joined st = joins (bl_h st)"

definition blake_ok :: "blake \<Rightarrow> bool" where
  "blake_ok st \<longleftrightarrow> length (bl_h st) = 16 \<and> bl_s st = replicate 8 0 \<and> length (bl_block st) = 128 \<and>
     bl_blockOffset st < 128 \<and> length (bl_length st) = 4"

definition counter_of :: "blake \<Rightarrow> nat" where
  "counter_of st = (if bl_nullt st then 0 else nat (len_val (bl_length st)))"

lemma joins_init:
  assumes h: "length (bl_h st) = 16" and s: "bl_s st = replicate 8 0" and l: "len_ok (bl_length st)"
  defines "v \<equiv> map (\<lambda>i. if i < 16 then bl_h st ! i
                      else if i < 24 then bl_s st ! (i - 16) XOR u512 ! (i - 16)
                      else u512 ! (i - 16)) [0..<32]"
    and "L \<equiv> \<lambda>i. word_of_int (bl_length st ! i) :: 32 word"
    and "t \<equiv> counter_of st"
  shows "joins (if \<not> bl_nullt st
              then v[24 := v ! 24 XOR L 1, 25 := v ! 25 XOR L 0,
                     26 := v ! 26 XOR L 1, 27 := v ! 27 XOR L 0,
                     28 := v ! 28 XOR L 3, 29 := v ! 29 XOR L 2,
                     30 := v ! 30 XOR L 3, 31 := v ! 31 XOR L 2]
              else v)
    = joined st @ take 4 ref_u @ [ref_u ! 4 XOR word_of_nat t, ref_u ! 5 XOR word_of_nat t,
        ref_u ! 6 XOR word_of_nat (t div 2 ^ 64), ref_u ! 7 XOR word_of_nat (t div 2 ^ 64)]"
proof -
  have u: "joins (map (\<lambda>i. if i < 16 then H ! i else if i < 24 then replicate 8 0 ! (i - 16) XOR U ! (i - 16)
      else U ! (i - 16)) [0..<32]) = joins H @ take 8 (joins U)" if "length H = 16" "length U = 32" for H U
  proof (rule nth_equalityI)
    fix k assume "k < length (joins (map (\<lambda>i. if i < 16 then H ! i
      else if i < 24 then replicate 8 0 ! (i - 16) XOR U ! (i - 16) else U ! (i - 16)) [0..<32]))"
    then have "k < 16" by simp
    then show "joins (map (\<lambda>i. if i < 16 then H ! i else if i < 24 then replicate 8 0 ! (i - 16) XOR U ! (i - 16)
      else U ! (i - 16)) [0..<32]) ! k = (joins H @ take 8 (joins U)) ! k"
    proof (cases "k < 8")
      case True
      then show ?thesis using that by (auto simp: nth_joins nth_append)
    next
      case False
      then obtain j where "k = 8 + j" "j < 8" using \<open>k < 16\<close> le_Suc_ex [of 8 k] by auto
      then show ?thesis using that by (auto simp: nth_joins nth_append add_mult_distrib)
    qed
  qed (use that in simp)
  have v: "joins v = joined st @ take 8 ref_u"
    unfolding v_def s joined_def by (simp only: u [OF h length_u512] joins_u512)
  have lv: "length v = 32" by (simp add: v_def)
  have x: "joins (w[24 := a, 25 := b, 26 := c, 27 := d, 28 := e, 29 := f, 30 := g, 31 := i])
     = (joins w)[12 := join a b, 13 := join c d, 14 := join e f, 15 := join g i]"
    if "length w = 32" for w a b c d e f g i
    using joins_update [of 12 w a b] joins_update [of 13 "w[24 := a, 25 := b]" c d]
      joins_update [of 14 "w[24 := a, 25 := b, 26 := c, 27 := d]" e f]
      joins_update [of 15 "w[24 := a, 25 := b, 26 := c, 27 := d, 28 := e, 29 := f]" g i] that by simp
  have j: "join (v ! (k * 2) XOR p) (v ! (k * 2 + 1) XOR q) = joins v ! k XOR join p q" if "k < 16" for k p q
    using that lv by (simp add: nth_joins join_xor)
  obtain a b c d where ls: "bl_length st = [a, b, c, d]" and bnd: "0 \<le> a" "a < 0x100000000" "0 \<le> b" "b < 0x100000000"
    "0 \<le> c" "c < 0x100000000" "0 \<le> d" "d < 0x100000000"
    using len_ok_cases [OF l] .
  have L: "L 0 = word_of_int a" "L 1 = word_of_int b" "L (Suc 0) = word_of_int b" "L 2 = word_of_int c" "L 3 = word_of_int d"
    by (simp_all add: L_def ls)
  have lj: "length (joined st) = 8" using h by (simp add: joined_def)
  then obtain h0 h1 h2 h3 h4 h5 h6 h7 where hs: "joined st = [h0, h1, h2, h3, h4, h5, h6, h7]"
    by (auto simp: length_eq_8)
  show ?thesis
  proof (cases "bl_nullt st")
    case True
    then have "t = 0" by (simp add: t_def counter_of_def)
    with True show ?thesis by (simp add: v hs ref_u_def)
  next
    case False
    then have t: "t = nat (len_val [a, b, c, d])" by (simp add: t_def counter_of_def ls)
    show ?thesis
      using False counter_words [OF bnd] j [of 12] j [of 13] j [of 14] j [of 15]
      by (simp add: x lv v L t hs ref_u_def del: len_val.simps)
  qed
qed

lemma Blake512_compress_ref:
  assumes "blake_ok st" "len_ok (bl_length st)"
  shows "joined (Blake512_compress st) = ref_compress (joined st) (bl_block st) (counter_of st)"
    "length (bl_h (Blake512_compress st)) = 16"
proof -
  let ?v0 = "map (\<lambda>i. if i < 16 then bl_h st ! i
                      else if i < 24 then bl_s st ! (i - 16) XOR u512 ! (i - 16)
                      else u512 ! (i - 16)) [0..<32]"
  let ?L = "\<lambda>i. word_of_int (bl_length st ! i) :: 32 word"
  let ?v1 = "if \<not> bl_nullt st
              then ?v0[24 := ?v0 ! 24 XOR ?L 1, 25 := ?v0 ! 25 XOR ?L 0,
                     26 := ?v0 ! 26 XOR ?L 1, 27 := ?v0 ! 27 XOR ?L 0,
                     28 := ?v0 ! 28 XOR ?L 3, 29 := ?v0 ! 29 XOR ?L 2,
                     30 := ?v0 ! 30 XOR ?L 3, 31 := ?v0 ! 31 XOR ?L 2]
              else ?v0"
  let ?m = "map (\<lambda>i. getUint32 (bl_block st) (i * 4)) [0..<32]"
  let ?v = "foldl (blake_round ?m) ?v1 [0..<16]"
  let ?h = "foldl (\<lambda>h i. h[(i mod 8) * 2 := h ! ((i mod 8) * 2) XOR ?v ! (i * 2),
                            (i mod 8) * 2 + 1 := h ! ((i mod 8) * 2 + 1) XOR ?v ! (i * 2 + 1)]) (bl_h st) [0..<16]"
  have ok: "length (bl_h st) = 16" "bl_s st = replicate 8 0" "length (bl_block st) = 128"
    using assms(1) by (simp_all add: blake_ok_def)
  have salt: "foldl (\<lambda>h i. h[i * 2 := h ! (i * 2) XOR bl_s st ! ((i mod 4) * 2),
      i * 2 + 1 := h ! (i * 2 + 1) XOR bl_s st ! ((i mod 4) * 2 + 1)]) ?h [0..<8] = ?h"
  proof (rule foldl_id)
    fix i :: nat
    have "i mod 4 * 2 < 8" "i mod 4 * 2 + 1 < 8" by presburger+
    then show "?h[i * 2 := ?h ! (i * 2) XOR bl_s st ! ((i mod 4) * 2),
      i * 2 + 1 := ?h ! (i * 2 + 1) XOR bl_s st ! ((i mod 4) * 2 + 1)] = ?h"
      by (simp only: ok(2) nth_replicate xor.right_neutral list_update_id)
  qed
  have r: "bl_h (Blake512_compress st) = ?h"
    unfolding Blake512_compress_def Let_def by (simp only: salt) simp
  have l1: "length ?v1 = 32" by simp
  have rounds: "joins ?v = foldl (ref_round (joins ?m)) (joins ?v1) [0..<16] \<and> length ?v = 32"
    by (rule joins_rounds) (simp_all add: l1)
  have fold: "joins ?h = foldl (\<lambda>h i. h[i mod 8 := h ! (i mod 8) XOR joins ?v ! i]) (joins (bl_h st)) [0..<16]
     \<and> length ?h = 16"
    by (rule joins_xor_fold) (use rounds ok in simp_all)
  then show "length (bl_h (Blake512_compress st)) = 16" by (simp only: r)
  have "length (joins (bl_h st)) = 8" using ok by simp
  with fold have "joins ?h = map (\<lambda>i. joins (bl_h st) ! i XOR joins ?v ! i XOR joins ?v ! (i + 8)) [0..<8]"
    by (simp only: ref_xor_fold)
  then show "joined (Blake512_compress st) = ref_compress (joined st) (bl_block st) (counter_of st)"
    unfolding ref_compress_def Let_def
    by (simp only: joined_def [of "Blake512_compress st"] r rounds joins_words [OF ok(3)]
        joins_init [OF ok(1,2) assms(2)]) (simp only: joined_def)
qed

lemma Blake512_compress_frame [simp]:
  "bl_s (Blake512_compress st) = bl_s st" "bl_block (Blake512_compress st) = bl_block st"
  "bl_blockOffset (Blake512_compress st) = bl_blockOffset st" "bl_length (Blake512_compress st) = bl_length st"
  "bl_nullt (Blake512_compress st) = bl_nullt st"
  by (simp_all add: Blake512_compress_def Let_def)

section \<open>Feeding a message\<close>

lemma put_bytes_twice:
  assumes "off \<le> length b"
  shows "put_bytes (put_bytes b off xs) (off + length xs) ys = put_bytes b off (xs @ ys)"
  using assms by (simp add: put_bytes_def ac_simps)

lemma put_bytes_Nil [simp]: "put_bytes b off [] = b"
  by (simp add: put_bytes_def)

lemma put_bytes_fill: "off + length xs = length b \<Longrightarrow> put_bytes b off xs = take off b @ xs"
  by (simp add: put_bytes_def)

lemma take_put_bytes: "off + length xs \<le> length b \<Longrightarrow> take (off + length xs) (put_bytes b off xs) = take off b @ xs"
  by (cases xs) (auto simp: put_bytes_def min_def)

lemma update_small:
  "bl_blockOffset st + length data < 128 \<Longrightarrow> Blake512_update st data = ret (st\<lparr> bl_block := put_bytes (bl_block st) (bl_blockOffset st) data,
     bl_blockOffset := bl_blockOffset st + length data \<rparr>)"
  by (subst Blake512_update.simps) simp

lemma update_step:
  assumes "bl_blockOffset st + length data \<ge> 128"
  shows "Blake512_update st data =
    bindJ (lengthCarry ((bl_length st)[0 := bl_length st ! 0 + 1024])) (\<lambda>len.
      Blake512_update (Blake512_compress (st\<lparr> bl_block := put_bytes (bl_block st) (bl_blockOffset st)
         (take (128 - bl_blockOffset st) data), bl_length := len \<rparr>) \<lparr> bl_blockOffset := 0 \<rparr>)
        (drop (128 - bl_blockOffset st) data))"
  using assms by (subst Blake512_update.simps) (simp add: Let_def)

lemma update_step_offset:
  "Blake512_compress (st\<lparr> bl_blockOffset := n, bl_block := b, bl_length := len \<rparr>)\<lparr> bl_blockOffset := 0 \<rparr> =
   Blake512_compress (st\<lparr> bl_block := b, bl_length := len \<rparr>)\<lparr> bl_blockOffset := 0 \<rparr>"
  by (simp add: Blake512_compress_def Let_def cong: if_cong)

lemma Blake512_update_append:
  "bl_blockOffset st < 128 \<Longrightarrow> length (bl_block st) = 128 \<Longrightarrow>
   Blake512_update st (a @ b) = bindJ (Blake512_update st a) (\<lambda>st. Blake512_update st b)"
proof (induction st a rule: Blake512_update.induct)
  case (1 st a)
  show ?case
  proof (cases "bl_blockOffset st + length a \<ge> 128")
    case True
    let ?k = "128 - bl_blockOffset st"
    have k: "take ?k (a @ b) = take ?k a" "drop ?k (a @ b) = drop ?k a @ b" using True by simp_all
    let ?st = "\<lambda>len. Blake512_compress (st\<lparr> bl_block := put_bytes (bl_block st) (bl_blockOffset st)
         (take ?k a), bl_length := len \<rparr>) \<lparr> bl_blockOffset := 0 \<rparr>"
    have "Blake512_update (?st len) (drop ?k a @ b) =
        bindJ (Blake512_update (?st len) (drop ?k a)) (\<lambda>st. Blake512_update st b)"
      if "lengthCarry ((bl_length st)[0 := bl_length st ! 0 + 1024]) = ret len" for len
      using "1.IH" [OF True refl refl, of len] that "1.prems" True by simp
    then show ?thesis
      using True by (auto simp: update_step k bindJ_assoc intro!: bindJ_cong)
  next
    case False
    let ?st = "st\<lparr> bl_block := put_bytes (bl_block st) (bl_blockOffset st) a,
       bl_blockOffset := bl_blockOffset st + length a \<rparr>"
    have a: "Blake512_update st a = ret ?st" using False by (intro update_small) simp
    have o: "bl_blockOffset st \<le> length (bl_block st)" using "1.prems" by simp
    have "Blake512_update st (a @ b) = Blake512_update ?st b"
    proof (cases "bl_blockOffset st + length (a @ b) \<ge> 128")
      case True
      have k: "take (128 - bl_blockOffset st) (a @ b) = a @ take (128 - (bl_blockOffset st + length a)) b"
        "drop (128 - bl_blockOffset st) (a @ b) = drop (128 - (bl_blockOffset st + length a)) b"
        using False by (simp_all add: diff_diff_left)
      show ?thesis
        using True by (simp add: update_step k put_bytes_twice [OF o] add.assoc update_step_offset
            del: take_append drop_append)
    next
      case False
      then show ?thesis
        by (simp add: update_small put_bytes_twice [OF o] add.assoc)
    qed
    then show ?thesis by (simp add: a)
  qed
qed

lemma lengthCarry_value:
  assumes "0 \<le> a" "a < 2 * 0x100000000" "\<forall>d \<in> set ds. 0 \<le> d \<and> d < 0x100000000"
    "len_val (a # ds) < 0x100000000 ^ Suc (length ds)"
  shows "\<exists>r. lengthCarry (a # ds) = ret r \<and> length r = Suc (length ds) \<and>
    (\<forall>d \<in> set r. 0 \<le> d \<and> d < 0x100000000) \<and> len_val r = len_val (a # ds)"
  using assms
proof (induction ds arbitrary: a)
  case Nil
  then show ?case by simp
next
  case (Cons b ds)
  show ?case
  proof (cases "a < 0x100000000")
    case True
    then show ?thesis using Cons.prems by simp
  next
    case False
    have "0x100000000 * len_val ((b + 1) # ds) < 0x100000000 * 0x100000000 ^ Suc (length ds)"
      using Cons.prems False by simp
    then have v: "len_val ((b + 1) # ds) < 0x100000000 ^ Suc (length ds)"
      by (rule mult_less_cancel_left_pos [THEN iffD1, rotated]) simp
    obtain r where "lengthCarry ((b + 1) # ds) = ret r" "length r = Suc (length ds)"
      "\<forall>d \<in> set r. 0 \<le> d \<and> d < 0x100000000" "len_val r = len_val ((b + 1) # ds)"
      using Cons.IH [of "b + 1"] Cons.prems v by auto
    then show ?thesis using False Cons.prems by simp
  qed
qed

lemma lengthCarry_add:
  assumes "len_ok ls" "0 \<le> n" "n < 0x100000000" "len_val ls + n < 2 ^ 128"
  obtains r where "lengthCarry (ls[0 := ls ! 0 + n]) = ret r" "len_ok r" "len_val r = len_val ls + n"
proof -
  obtain a ds where ls: "ls = a # ds" "length ds = 3" "0 \<le> a" "a < 0x100000000"
      "\<forall>d \<in> set ds. 0 \<le> d \<and> d < 0x100000000"
    using assms(1) by (cases ls) (auto simp: len_ok_def)
  have "\<exists>r. lengthCarry ((a + n) # ds) = ret r \<and> length r = Suc (length ds) \<and>
    (\<forall>d \<in> set r. 0 \<le> d \<and> d < 0x100000000) \<and> len_val r = len_val ((a + n) # ds)"
    by (rule lengthCarry_value) (use ls assms in simp_all)
  then show ?thesis using that ls by (auto simp: len_ok_def)
qed

lemma lengthCarry_small: "ls \<noteq> [] \<Longrightarrow> ls ! 0 < 0x100000000 \<Longrightarrow> lengthCarry ls = ret ls"
  by (cases ls) auto

text \<open>The state after the message \<open>m\<close> has been fed to a new one.\<close>

definition absorbed :: "bytes \<Rightarrow> blake \<Rightarrow> bool" where
  "absorbed m st \<longleftrightarrow> blake_ok st \<and> bl_blockOffset st = length m mod 128 \<and>
     take (bl_blockOffset st) (bl_block st) = drop (128 * (length m div 128)) m \<and>
     len_ok (bl_length st) \<and> len_val (bl_length st) = 1024 * int (length m div 128) \<and> \<not> bl_nullt st \<and>
     joined st = foldl (\<lambda>h k. ref_compress h (ref_block m k) (1024 * (k + 1))) ref_iv [0..<length m div 128]"

lemma absorbed_block: "absorbed m st \<Longrightarrow> take (bl_blockOffset st) (bl_block st) = drop (128 * (length m div 128)) m"
  unfolding absorbed_def by blast

lemma absorbed_new: "absorbed [] Blake512_new"
  by (simp add: absorbed_def Blake512_new_def blake_ok_def joined_def joins_iv len_ok_def) (simp add: blake_iv_def)

lemma ref_block_append: "128 * Suc k \<le> length m \<Longrightarrow> ref_block (m @ data) k = ref_block m k"
  by (simp add: ref_block_def)

lemma absorbed_fill:
  assumes ab: "absorbed m st" and k: "length data = 128 - bl_blockOffset st" and bound: "8 * (length m + length data) < 2 ^ 128"
  obtains len where "lengthCarry ((bl_length st)[0 := bl_length st ! 0 + 1024]) = ret len"
    "absorbed (m @ data) (Blake512_compress (st\<lparr> bl_block := put_bytes (bl_block st) (bl_blockOffset st) data,
       bl_length := len \<rparr>) \<lparr> bl_blockOffset := 0 \<rparr>)"
proof -
  let ?q = "length m div 128"
  have ok: "blake_ok st" "len_ok (bl_length st)" and off: "bl_blockOffset st = length m mod 128"
    and v: "len_val (bl_length st) = 1024 * int ?q" using ab by (auto simp: absorbed_def)
  have q: "length (m @ data) = 128 * Suc ?q"
  proof -
    have "length m = 128 * ?q + length m mod 128" "length m mod 128 < 128" by simp_all
    then show ?thesis using k off unfolding length_append mult_Suc_right by linarith
  qed
  have "1024 * (?q + 1) < 2 ^ 128" using bound q by simp
  then have "int (1024 * (?q + 1)) < int (2 ^ 128)" by (simp only: of_nat_less_iff)
  then have "1024 * int ?q + 1024 < 2 ^ 128" by simp
  then obtain len where len: "lengthCarry ((bl_length st)[0 := bl_length st ! 0 + 1024]) = ret len" "len_ok len"
      "len_val len = 1024 * int ?q + 1024"
    using lengthCarry_add [OF ok(2), of 1024] v by auto
  let ?st = "st\<lparr> bl_block := put_bytes (bl_block st) (bl_blockOffset st) data, bl_length := len \<rparr>"
  have blk: "put_bytes (bl_block st) (bl_blockOffset st) data = ref_block (m @ data) ?q"
  proof -
    have "put_bytes (bl_block st) (bl_blockOffset st) data = take (bl_blockOffset st) (bl_block st) @ data"
      using k ok by (intro put_bytes_fill) (simp add: blake_ok_def)
    also have "\<dots> = drop (128 * ?q) m @ data" using absorbed_block [OF ab] by simp
    also have "\<dots> = ref_block (m @ data) ?q" using q by (simp add: ref_block_def)
    finally show ?thesis .
  qed
  have st: "blake_ok ?st" using ok(1) k len by (simp add: blake_ok_def len_ok_def)
  have c: "counter_of ?st = 1024 * (?q + 1)" using ab len by (simp add: counter_of_def absorbed_def nat_add_distrib)
  have e: "joined ?st = joined st" "bl_block ?st = ref_block (m @ data) ?q" "len_ok (bl_length ?st)"
    using len by (simp_all add: joined_def blk)
  have "joined (Blake512_compress ?st) = ref_compress (joined st) (ref_block (m @ data) ?q) (1024 * (?q + 1))"
    by (simp only: Blake512_compress_ref(1) [OF st e(3)] c e(1,2))
  moreover have "joined st = foldl (\<lambda>h k. ref_compress h (ref_block (m @ data) k) (1024 * (k + 1))) ref_iv [0..<?q]"
  proof -
    have "ref_block (m @ data) k = ref_block m k" if "k < ?q" for k
      using that by (intro ref_block_append) simp
    then show ?thesis using ab unfolding absorbed_def by (auto intro!: foldl_cong)
  qed
  ultimately have "joined (Blake512_compress ?st) =
      foldl (\<lambda>h k. ref_compress h (ref_block (m @ data) k) (1024 * (k + 1))) ref_iv [0..<Suc ?q]"
    by simp
  moreover have "joined (Blake512_compress ?st\<lparr> bl_blockOffset := 0 \<rparr>) = joined (Blake512_compress ?st)"
    by (simp add: joined_def)
  moreover have "length (m @ data) div 128 = Suc ?q" "length (m @ data) mod 128 = 0" unfolding q by simp_all
  moreover have "blake_ok (Blake512_compress ?st\<lparr> bl_blockOffset := 0 \<rparr>)"
    using Blake512_compress_ref(2) [OF st] st len by (simp add: blake_ok_def)
  moreover have "\<not> bl_nullt st" using ab by (simp add: absorbed_def)
  ultimately have "absorbed (m @ data) (Blake512_compress ?st\<lparr> bl_blockOffset := 0 \<rparr>)"
    using len q unfolding absorbed_def by simp
  then show ?thesis using that len(1) by blast
qed

lemma absorbed_small:
  assumes ab: "absorbed m st" and k: "bl_blockOffset st + length data < 128"
  shows "absorbed (m @ data) (st\<lparr> bl_block := put_bytes (bl_block st) (bl_blockOffset st) data,
     bl_blockOffset := bl_blockOffset st + length data \<rparr>)"
proof -
  let ?q = "length m div 128" and ?st = "st\<lparr> bl_block := put_bytes (bl_block st) (bl_blockOffset st) data,
     bl_blockOffset := bl_blockOffset st + length data \<rparr>"
  have off: "bl_blockOffset st = length m mod 128" and ok: "blake_ok st" using ab by (auto simp: absorbed_def)
  have l: "length (m @ data) = 128 * ?q + (bl_blockOffset st + length data)" using off by simp
  have q: "length (m @ data) div 128 = ?q" "length (m @ data) mod 128 = bl_blockOffset st + length data"
    unfolding l using k by simp_all
  have "ref_block (m @ data) k = ref_block m k" if "k < ?q" for k
    using that by (intro ref_block_append) simp
  then have "joined ?st = foldl (\<lambda>h k. ref_compress h (ref_block (m @ data) k) (1024 * (k + 1))) ref_iv [0..<?q]"
    using ab unfolding absorbed_def joined_def by (auto intro!: foldl_cong)
  moreover have "take (bl_blockOffset st + length data) (put_bytes (bl_block st) (bl_blockOffset st) data)
      = drop (128 * ?q) (m @ data)"
    using take_put_bytes [of "bl_blockOffset st" data "bl_block st"] absorbed_block [OF ab] k ok
    by (simp add: blake_ok_def)
  moreover have "blake_ok ?st" using ok k by (simp add: blake_ok_def)
  ultimately show ?thesis using ab q unfolding absorbed_def by simp
qed

lemma update_absorbed:
  "absorbed m st \<Longrightarrow> 8 * (length m + length data) < 2 ^ 128 \<Longrightarrow>
    \<exists>st'. Blake512_update st data = ret st' \<and> absorbed (m @ data) st'"
proof (induction st data arbitrary: m rule: Blake512_update.induct)
  case (1 st data)
  show ?case
  proof (cases "bl_blockOffset st + length data \<ge> 128")
    case True
    let ?k = "128 - bl_blockOffset st"
    have "length (take ?k data) = ?k" "8 * (length m + length (take ?k data)) < 2 ^ 128"
      using True "1.prems"(2) by simp_all
    then obtain len where len: "lengthCarry ((bl_length st)[0 := bl_length st ! 0 + 1024]) = ret len"
      and ab: "absorbed (m @ take ?k data) (Blake512_compress (st\<lparr> bl_block := put_bytes (bl_block st) (bl_blockOffset st) (take ?k data),
       bl_length := len \<rparr>) \<lparr> bl_blockOffset := 0 \<rparr>)"
      using absorbed_fill [OF "1.prems"(1)] by metis
    have "8 * (length (m @ take ?k data) + length (drop ?k data)) < 2 ^ 128"
      using True "1.prems"(2) by simp
    then show ?thesis
      using "1.IH" [OF True refl refl, of _ "m @ take ?k data"] ab True by (simp add: update_step len)
  next
    case False
    then show ?thesis using absorbed_small [OF "1.prems"(1)] by (simp add: update_small)
  qed
qed

section \<open>Padding and the digest\<close>

lemma set_words:
  "j \<le> n \<Longrightarrow> foldl (\<lambda>b i. setUint32 b (i * 4) (f i)) (replicate (4 * n) 0) [0..<j] =
    concat (map (\<lambda>i. be_bytes 4 (f i)) [0..<j]) @ replicate (4 * (n - j)) 0"
proof (induction j)
  case (Suc j)
  have l: "length (concat (map (\<lambda>i. be_bytes 4 (f i)) [0..<j])) = j * 4"
    by (simp add: length_concat comp_def sum_list_triv)
  have "4 * (n - j) = 4 + 4 * (n - Suc j)" using Suc.prems by simp
  then show ?case using Suc l by (simp add: setUint32_def put_bytes_def)
qed simp

lemma le_bytes_4_val: "0 \<le> a \<Longrightarrow> a < 0x100000000 \<Longrightarrow> le_val (le_bytes 4 a) = a"
  by (simp add: le_val_le_bytes)

lemma be_bytes_digits:
  assumes "len_ok [a, b, c, d]"
  shows "be_bytes 4 d @ be_bytes 4 c @ be_bytes 4 b @ be_bytes 4 a = be_bytes 16 (len_val [a, b, c, d])"
proof -
  let ?bs = "le_bytes 4 a @ le_bytes 4 b @ le_bytes 4 c @ le_bytes 4 d"
  have "le_val ?bs = len_val [a, b, c, d]"
    using assms by (simp add: le_val_append le_bytes_4_val len_ok_def)
  then have "le_bytes 16 (len_val [a, b, c, d]) = ?bs" using le_bytes_le_val [of ?bs] by simp
  then show ?thesis by (simp add: be_bytes_def)
qed

lemma be_bytes_join: "be_bytes 4 (uint h) @ be_bytes 4 (uint l) = be_bytes 8 (uint (join h l))"
proof -
  let ?bs = "le_bytes 4 (uint l) @ le_bytes 4 (uint h)"
  have "le_val ?bs = uint (join h l)"
    by (simp add: le_val_append le_bytes_4_val uint32_less uint_join)
  then have "le_bytes 8 (uint (join h l)) = ?bs" using le_bytes_le_val [of ?bs] by simp
  then show ?thesis by (simp add: be_bytes_def)
qed

lemma concat_pairs: "concat (map f [0..<2 * n]) = concat (map (\<lambda>k. f (k * 2) @ f (k * 2 + 1)) [0..<n])"
  by (induction n) (simp_all add: mult.commute)

lemma digest_words:
  assumes "length h = 16"
  shows "foldl (\<lambda>b i. setUint32 b (i * 4) (uint (h ! i))) (replicate 64 0) [0..<16] = concat (map (be_bytes 8 \<circ> uint) (joins h))"
  using set_words [of 16 16 "\<lambda>i. uint (h ! i)"] assms concat_pairs [of "\<lambda>i. be_bytes 4 (uint (h ! i))" 8]
  by (simp add: joins_def comp_def be_bytes_join)

lemma msglen_bytes:
  assumes "len_ok len"
  shows "foldl (\<lambda>b i. setUint32 b (i * 4) (len ! (3 - i))) (replicate 16 0) [0..<4] = be_bytes 16 (len_val len)"
proof -
  obtain a b c d where "len = [a, b, c, d]" using len_ok_cases [OF assms] .
  then show ?thesis
    using set_words [of 4 4 "\<lambda>i. len ! (3 - i)"] be_bytes_digits [of a b c d] assms by (simp add: upt_rec)
qed

text \<open>A block that the padding completes.\<close>

lemma update_fill:
  assumes "blake_ok st" "length data = 128 - bl_blockOffset st" "bl_length st ! 0 + 1024 < 0x100000000"
  shows "Blake512_update st data = ret (Blake512_compress (st\<lparr> bl_block := take (bl_blockOffset st) (bl_block st) @ data,
      bl_length := (bl_length st)[0 := bl_length st ! 0 + 1024] \<rparr>) \<lparr> bl_blockOffset := 0 \<rparr>)"
proof -
  have "lengthCarry ((bl_length st)[0 := bl_length st ! 0 + 1024]) = ret ((bl_length st)[0 := bl_length st ! 0 + 1024])"
    using assms by (intro lengthCarry_small) (auto simp: blake_ok_def)
  moreover have "put_bytes (bl_block st) (bl_blockOffset st) data = take (bl_blockOffset st) (bl_block st) @ data"
    using assms by (intro put_bytes_fill) (simp add: blake_ok_def)
  ultimately show ?thesis
    using assms by (simp add: update_step) (simp add: update_small)
qed

lemma joined_upd [simp]:
  "joined (st\<lparr> bl_block := b \<rparr>) = joined st" "joined (st\<lparr> bl_blockOffset := n \<rparr>) = joined st"
  "joined (st\<lparr> bl_length := l \<rparr>) = joined st" "joined (st\<lparr> bl_nullt := x \<rparr>) = joined st"
  by (simp_all add: joined_def)

lemma fill_ref:
  assumes ok: "blake_ok st" and l: "length data = 128 - bl_blockOffset st"
    and len: "len_ok ((bl_length st)[0 := bl_length st ! 0 + 1024])"
  shows "\<exists>st'. Blake512_update st data = ret st' \<and>
    joined st' = ref_compress (joined st) (take (bl_blockOffset st) (bl_block st) @ data)
      (counter_of (st\<lparr> bl_length := (bl_length st)[0 := bl_length st ! 0 + 1024] \<rparr>)) \<and>
    blake_ok st' \<and> bl_blockOffset st' = 0 \<and> bl_length st' = (bl_length st)[0 := bl_length st ! 0 + 1024] \<and>
    bl_nullt st' = bl_nullt st"
proof -
  let ?st = "st\<lparr> bl_block := take (bl_blockOffset st) (bl_block st) @ data,
      bl_length := (bl_length st)[0 := bl_length st ! 0 + 1024] \<rparr>"
  have "bl_length st ! 0 + 1024 < 0x100000000"
    using len ok by (cases "bl_length st") (auto simp: blake_ok_def len_ok_def)
  then have u: "Blake512_update st data = ret (Blake512_compress ?st\<lparr> bl_blockOffset := 0 \<rparr>)"
    by (rule update_fill [OF ok l])
  have ok': "blake_ok ?st" "len_ok (bl_length ?st)" using ok l len by (simp_all add: blake_ok_def)
  have "counter_of ?st = counter_of (st\<lparr> bl_length := (bl_length st)[0 := bl_length st ! 0 + 1024] \<rparr>)"
    by (simp add: counter_of_def)
  then show ?thesis
    using u Blake512_compress_ref [OF ok'] ok' by (simp add: blake_ok_def)
qed

lemma fill_digits:
  assumes "blake_ok st" "length data = 128 - bl_blockOffset st" "bl_length st = [x, b, c, d]" "x + 1024 = y"
    "len_ok [y, b, c, d]" "len_val [y, b, c, d] = 8 * int n"
  shows "\<exists>st'. Blake512_update st data = ret st' \<and>
    joined st' = ref_compress (joined st) (take (bl_blockOffset st) (bl_block st) @ data)
      (if bl_nullt st then 0 else 8 * n) \<and>
    blake_ok st' \<and> bl_blockOffset st' = 0 \<and> bl_length st' = [y, b, c, d] \<and> bl_nullt st' = bl_nullt st"
proof -
  have l: "(bl_length st)[0 := bl_length st ! 0 + 1024] = [y, b, c, d]" using assms(3,4) by simp
  have c: "counter_of (st\<lparr> bl_length := [y, b, c, d] \<rparr>) = (if bl_nullt st then 0 else 8 * n)"
    using assms(6) nat_int [of "8 * n"] by (simp add: counter_of_def del: len_val.simps)
  show ?thesis using fill_ref [OF assms(1,2), unfolded l c] assms(5) by blast
qed

lemma sub_length_sel [simp]:
  "bl_block (sub_length st n) = bl_block st" "bl_blockOffset (sub_length st n) = bl_blockOffset st"
  "bl_nullt (sub_length st n) = bl_nullt st" "joined (sub_length st n) = joined st"
  "blake_ok (sub_length st n) = blake_ok st"
  "bl_length (sub_length st n) = (bl_length st)[0 := bl_length st ! 0 - n]"
  by (simp_all add: sub_length_def blake_ok_def)

text \<open>Data that stay in the block.\<close>

lemma small_ref:
  assumes ok: "blake_ok st" and l: "bl_blockOffset st + length data < 128"
  shows "\<exists>st'. Blake512_update st data = ret st' \<and> blake_ok st' \<and> joined st' = joined st \<and>
    take (bl_blockOffset st + length data) (bl_block st') = take (bl_blockOffset st) (bl_block st) @ data \<and>
    bl_blockOffset st' = bl_blockOffset st + length data \<and> bl_length st' = bl_length st \<and> bl_nullt st' = bl_nullt st"
  using take_put_bytes [of "bl_blockOffset st" data "bl_block st"] ok l
  by (simp add: update_small blake_ok_def)

lemma padding_parts:
  "n \<le> 128 \<Longrightarrow> take n (drop 1 blake_padding) = replicate n 0"
  "n \<le> 128 \<Longrightarrow> length (take n blake_padding) = n"
  "0 < n \<Longrightarrow> n \<le> 129 \<Longrightarrow> take n blake_padding = 0x80 # replicate (n - 1) 0"
  by (auto simp: blake_padding_def take_Cons' min_def)

lemma len_val_digits:
  assumes "len_ok [a, b, c, d]" "len_val [a, b, c, d] = 1024 * q" "r < 128"
  shows "len_ok [a + 8 * int r, b, c, d]" "len_val [a + 8 * int r, b, c, d] = 1024 * q + 8 * int r"
    "a + 8 * int r < 0x100000000"
proof -
  have "a = 1024 * (q - 4194304 * len_val [b, c, d])" using assms(2) by simp
  then obtain z where z: "a = 1024 * z" ..
  have "a < 0x100000000" using assms(1) by (simp add: len_ok_def)
  then have "z + 1 \<le> 4194304" unfolding z by simp
  then show lt: "a + 8 * int r < 0x100000000" unfolding z using assms(3) by linarith
  show "len_ok [a + 8 * int r, b, c, d]" using lt assms(1) by (simp add: len_ok_def)
  show "len_val [a + 8 * int r, b, c, d] = 1024 * q + 8 * int r" using assms(2) by simp
qed

definition pad_result :: "bytes \<Rightarrow> 64 word list \<Rightarrow> 64 word list" where
  "pad_result m h =
    (let r = length m mod 128; B = drop (128 * (length m div 128)) m; t = ref_tail (length m); c = 8 * length m in
     if r \<le> 111 then ref_compress h (B @ t) (if r = 0 then 0 else c)
     else ref_compress (ref_compress h (B @ take (128 - r) t) c) (drop (128 - r) t) 0)"

lemma padding_ref:
  assumes ab: "absorbed m st" and bound: "8 * length m < 2 ^ 128"
  shows "\<exists>st'. Blake512_padding st = ret st' \<and> joined st' = pad_result m (joined st) \<and> blake_ok st'"
proof -
  let ?r = "length m mod 128" and ?q = "length m div 128" and ?n = "length m"
  let ?B = "drop (128 * ?q) m" and ?len8 = "be_bytes 16 (8 * int ?n)"
  have r: "?r < 128" by simp
  have ok: "blake_ok st" and off: "bl_blockOffset st = ?r" and nu: "\<not> bl_nullt st"
    and l: "len_ok (bl_length st)" "len_val (bl_length st) = 1024 * int ?q"
    using ab by (auto simp: absorbed_def)
  have B: "take ?r (bl_block st) = ?B" using absorbed_block [OF ab] off by simp
  obtain a b c d where ls: "bl_length st = [a, b, c, d]" using len_ok_cases [OF l(1)] .
  have dig: "len_ok [a + 8 * int ?r, b, c, d]" "len_val [a + 8 * int ?r, b, c, d] = 8 * int ?n" "a + 8 * int ?r < 0x100000000"
  proof -
    have "?n = 128 * ?q + ?r" by simp
    then have "1024 * int ?q + 8 * int ?r = 8 * int ?n" by linarith
    then show "len_ok [a + 8 * int ?r, b, c, d]" "len_val [a + 8 * int ?r, b, c, d] = 8 * int ?n" "a + 8 * int ?r < 0x100000000"
      using len_val_digits [of a b c d "int ?q" ?r] l ls r by simp_all
  qed
  have carry: "lengthCarry ((bl_length st)[0 := bl_length st ! 0 + int ?r * 8]) = ret [a + 8 * int ?r, b, c, d]"
    using dig(3) by (simp add: ls mult.commute)
  have msglen: "foldl (\<lambda>b' i. setUint32 b' (i * 4) ([a + 8 * int ?r, b, c, d] ! (3 - i))) (replicate 16 0) [0..<4] = ?len8"
    using msglen_bytes [OF dig(1)] dig(2) by simp
  consider "?r = 111" | "?r < 111" | "111 < ?r" by linarith
  then show ?thesis
  proof cases
    case 1
    obtain s1 where s1: "Blake512_update (sub_length st 8) blake_oo = ret s1" "blake_ok s1" "joined s1 = joined st"
      "take 112 (bl_block s1) = ?B @ [0x81]" "bl_blockOffset s1 = 112" "bl_length s1 = [a - 8, b, c, d]" "\<not> bl_nullt s1"
      using small_ref [of "sub_length st 8" blake_oo] ok off 1 B nu by (auto simp: blake_oo_def ls)
    obtain s2 where s2: "Blake512_update (sub_length s1 128) ?len8 = ret s2" "blake_ok s2"
      "joined s2 = ref_compress (joined st) (?B @ 0x81 # ?len8) (8 * ?n)"
      using fill_digits [of "sub_length s1 128" ?len8 "a - 8 - 128", OF _ _ _ _ dig(1,2)] s1 1 by auto
    have "pad_result m (joined st) = ref_compress (joined st) (?B @ 0x81 # ?len8) (8 * ?n)"
      using 1 by (simp add: pad_result_def Let_def ref_tail_def)
    then show ?thesis
      using s2 s1(1) 1 unfolding Blake512_padding_def Let_def off carry bindJ_ret msglen by simp
  next
    case 2
    let ?P = "take (111 - ?r) blake_padding" and ?c = "if ?r = 0 then 0 else 8 * ?n"
    let ?s0 = "if ?r = 0 then st\<lparr> bl_nullt := True \<rparr> else st"
    have P: "?P = 0x80 # replicate (110 - ?r) 0" "length ?P = 111 - ?r"
      using padding_parts(2,3) [of "111 - ?r"] 2 by simp_all
    have s0: "blake_ok ?s0" "joined ?s0 = joined st" "bl_blockOffset ?s0 = ?r" "bl_block ?s0 = bl_block st"
      "bl_length ?s0 = [a, b, c, d]" "bl_nullt ?s0 \<longleftrightarrow> ?r = 0"
      using ok off nu ls by (simp_all add: blake_ok_def)
    obtain s1 where s1: "Blake512_update (sub_length ?s0 (int (111 - ?r) * 8)) ?P = ret s1" "blake_ok s1" "joined s1 = joined st"
      "take 111 (bl_block s1) = ?B @ ?P" "bl_blockOffset s1 = 111" "bl_length s1 = [a - int (111 - ?r) * 8, b, c, d]"
      "bl_nullt s1 \<longleftrightarrow> ?r = 0"
      using small_ref [of "sub_length ?s0 (int (111 - ?r) * 8)" ?P] s0 2 B P(2) by auto
    obtain s2 where s2: "Blake512_update s1 blake_zo = ret s2" "blake_ok s2" "joined s2 = joined st"
      "take 112 (bl_block s2) = ?B @ ?P @ [1]" "bl_blockOffset s2 = 112" "bl_length s2 = [a - int (111 - ?r) * 8, b, c, d]"
      "bl_nullt s2 \<longleftrightarrow> ?r = 0"
      using small_ref [of s1 blake_zo] s1 by (auto simp: blake_zo_def)
    have "a - int (111 - ?r) * 8 - 8 - 128 + 1024 = a + 8 * int ?r" using 2 by simp
    then obtain s3 where s3: "Blake512_update (sub_length (sub_length s2 8) 128) ?len8 = ret s3" "blake_ok s3"
      "joined s3 = ref_compress (joined st) (?B @ ?P @ 1 # ?len8) ?c"
      using fill_digits [of "sub_length (sub_length s2 8) 128" ?len8 "a - int (111 - ?r) * 8 - 8 - 128", OF _ _ _ _ dig(1,2)] s2 by auto
    have "(239 - ?r) mod 128 = 111 - ?r" using 2 by (simp add: mod_if)
    then have "ref_tail ?n = ?P @ 1 # ?len8" using 2 by (simp add: ref_tail_def Let_def P(1))
    then have "pad_result m (joined st) = ref_compress (joined st) (?B @ ?P @ 1 # ?len8) ?c"
      using 2 by (simp add: pad_result_def Let_def)
    then show ?thesis
      using s3 s2(1) s1(1) 2 unfolding Blake512_padding_def Let_def off carry bindJ_ret msglen by simp
  next
    case 3
    let ?P = "take (128 - ?r) blake_padding"
    have P: "?P = 0x80 # replicate (127 - ?r) 0" "length ?P = 128 - ?r"
      using padding_parts(2,3) [of "128 - ?r"] r by simp_all
    have Z: "take 111 (drop 1 blake_padding) = replicate 111 0" by (rule padding_parts) simp
    have "a - (128 - int ?r) * 8 + 1024 = a + 8 * int ?r" by simp
    then obtain s1 where s1: "Blake512_update (sub_length st ((128 - int ?r) * 8)) ?P = ret s1" "blake_ok s1"
      "joined s1 = ref_compress (joined st) (?B @ ?P) (8 * ?n)" "bl_blockOffset s1 = 0"
      "bl_length s1 = [a + 8 * int ?r, b, c, d]" "\<not> bl_nullt s1"
      using fill_digits [of "sub_length st ((128 - int ?r) * 8)" ?P "a - (128 - int ?r) * 8", OF _ _ _ _ dig(1,2)] ok off nu ls B P(2) by auto
    obtain s2 where s2: "Blake512_update (sub_length s1 888) (replicate 111 0) = ret s2" "blake_ok s2" "joined s2 = joined s1"
      "take 111 (bl_block s2) = replicate 111 0" "bl_blockOffset s2 = 111" "bl_length s2 = [a + 8 * int ?r - 888, b, c, d]"
      using small_ref [of "sub_length s1 888" "replicate 111 0"] s1 by auto
    obtain s3 where s3: "Blake512_update (s2\<lparr> bl_nullt := True \<rparr>) blake_zo = ret s3" "blake_ok s3" "joined s3 = joined s1"
      "take 112 (bl_block s3) = replicate 111 0 @ [1]" "bl_blockOffset s3 = 112" "bl_length s3 = [a + 8 * int ?r - 888, b, c, d]"
      "bl_nullt s3"
      using small_ref [of "s2\<lparr> bl_nullt := True \<rparr>" blake_zo] s2 by (auto simp: blake_zo_def blake_ok_def)
    obtain s4 where s4: "Blake512_update (sub_length (sub_length s3 8) 128) ?len8 = ret s4" "blake_ok s4"
      "joined s4 = ref_compress (joined s1) (replicate 111 0 @ 1 # ?len8) 0"
      using fill_digits [of "sub_length (sub_length s3 8) 128" ?len8 "a + 8 * int ?r - 888 - 8 - 128", OF _ _ _ _ dig(1,2)] s3 by auto
    have "(239 - ?r) mod 128 = 239 - ?r" using 3 by simp
    moreover have "replicate (238 - ?r) (0 :: 8 word) = replicate (127 - ?r) 0 @ replicate 111 0"
      using r by (simp add: replicate_add [symmetric])
    ultimately have t: "ref_tail ?n = ?P @ replicate 111 0 @ 1 # ?len8"
      using r by (simp add: ref_tail_def Let_def P(1))
    have "take (128 - ?r) (ref_tail ?n) = ?P" "drop (128 - ?r) (ref_tail ?n) = replicate 111 0 @ 1 # ?len8"
      unfolding t using P(2) by simp_all
    then have "pad_result m (joined st) = ref_compress (joined s1) (replicate 111 0 @ 1 # ?len8) 0"
      using 3 s1(3) by (simp add: pad_result_def Let_def)
    then show ?thesis
      using s4 s3(1) s2(1) s1(1) 3 unfolding Blake512_padding_def Let_def off carry bindJ_ret msglen Z by simp
  qed
qed

text \<open>The blocks of the padded message.\<close>

lemma length_ref_tail: "length (ref_tail n) = 17 + (239 - n mod 128) mod 128"
  by (simp add: ref_tail_def Let_def)

lemma pad_mod: "r \<le> 111 \<Longrightarrow> (239 - r) mod 128 = 111 - (r :: nat)"
  by (simp add: mod_if)

lemma ref_hash_pad_result:
  "ref_hash m = concat (map (be_bytes 8 \<circ> uint)
     (pad_result m (foldl (\<lambda>h k. ref_compress h (ref_block m k) (1024 * (k + 1))) ref_iv [0..<length m div 128])))"
proof -
  let ?n = "length m" let ?r = "?n mod 128" and ?q = "?n div 128" and ?t = "ref_tail (length m)"
  let ?pm = "m @ ?t" and ?B = "drop (128 * (length m div 128)) m"
  let ?f = "\<lambda>h k. ref_compress h (ref_block ?pm k) (ref_counter ?n k)"
  let ?h = "foldl (\<lambda>h k. ref_compress h (ref_block m k) (1024 * (k + 1))) ref_iv [0..<?q]"
  have n: "?n = 128 * ?q + ?r" "?r < 128" by simp_all
  have "ref_block ?pm k = ref_block m k" "ref_counter ?n k = 1024 * (k + 1)" if "k < ?q" for k
  proof -
    have "128 * Suc k \<le> 128 * ?q" using that by (intro mult_le_mono2) simp
    also have "\<dots> \<le> ?n" by simp
    finally have "128 * Suc k \<le> ?n" .
    then show "ref_block ?pm k = ref_block m k" "ref_counter ?n k = 1024 * (k + 1)"
      by (simp_all add: ref_block_append ref_counter_def min_def)
  qed
  then have h: "foldl ?f ref_iv [0..<?q] = ?h" by (auto intro!: foldl_cong)
  have lB: "length ?B = ?r" by (simp add: minus_mult_div_eq_mod)
  have bq: "ref_block ?pm ?q = ?B @ take (128 - ?r) ?t"
    using n lB by (simp add: ref_block_def)
  have cq: "ref_counter ?n ?q = (if ?r = 0 then 0 else 8 * ?n)"
  proof (cases "?r = 0")
    case False
    then have "128 * ?q < ?n" "?n \<le> 128 * (?q + 1)" using n unfolding distrib_left by linarith+
    then show ?thesis using False by (simp add: ref_counter_def)
  qed (use n in \<open>simp add: ref_counter_def\<close>)
  have "foldl ?f ref_iv [0..<length ?pm div 128] = pad_result m ?h"
  proof (cases "?r \<le> 111")
    case True
    then have "(239 - ?r) mod 128 = 111 - ?r" by (rule pad_mod)
    then have lt: "length ?t = 128 - ?r" using True by (simp add: length_ref_tail)
    then have "length ?pm = 128 * Suc ?q" using n True by (simp only: length_append mult_Suc_right)
    then have "length ?pm div 128 = Suc ?q" by simp
    then show ?thesis
      using True lt by (simp add: h bq cq pad_result_def Let_def)
  next
    case False
    then have "(239 - ?r) mod 128 = 239 - ?r" by simp
    then have lt: "length ?t = 256 - ?r" using n(2) by (simp add: length_ref_tail)
    then have l: "length ?pm = 128 * Suc (Suc ?q)" using n False by (simp only: length_append mult_Suc_right)
    then have d: "length ?pm div 128 = Suc (Suc ?q)" by simp
    have "128 * Suc ?q - ?n = 128 - ?r" "?n \<le> 128 * Suc ?q" using n unfolding mult_Suc_right by linarith+
    then have "drop (128 * Suc ?q) ?pm = drop (128 - ?r) ?t" unfolding drop_append by (simp only: drop_all append_Nil)
    moreover have "length (drop (128 * Suc ?q) ?pm) = 128" using l by simp
    ultimately have "ref_block ?pm (Suc ?q) = drop (128 - ?r) ?t" by (simp add: ref_block_def)
    moreover have "ref_counter ?n (Suc ?q) = 0"
      using \<open>?n \<le> 128 * Suc ?q\<close> unfolding ref_counter_def by (simp only: not_less [symmetric] if_False)
    ultimately show ?thesis
      unfolding d using False by (simp only: upt_Suc_append foldl_append h) (simp add: bq cq pad_result_def Let_def)
  qed
  then show ?thesis by (simp add: ref_hash_def Let_def)
qed

lemma digest_absorbed:
  assumes "absorbed m st" "8 * length m < 2 ^ 128"
  shows "bindJ (Blake512_digest st) (\<lambda>(h, _). ret h) = ret (ref_hash m)"
proof -
  obtain st' where st': "Blake512_padding st = ret st'" "joined st' = pad_result m (joined st)" "blake_ok st'"
    using padding_ref [OF assms] by blast
  have "joined st = foldl (\<lambda>h k. ref_compress h (ref_block m k) (1024 * (k + 1))) ref_iv [0..<length m div 128]"
    using assms(1) unfolding absorbed_def by blast
  then have "ref_hash m = concat (map (be_bytes 8 \<circ> uint) (joins (bl_h st')))"
    using st'(2) by (simp only: ref_hash_pad_result joined_def [of st'])
  moreover have "length (bl_h st') = 16" using st'(3) by (simp add: blake_ok_def)
  ultimately show ?thesis
    using digest_words [of "bl_h st'"] by (simp add: Blake512_digest_def st'(1) del: upt_Suc)
qed

lemma length_ref_compress: "length (ref_compress h b t) = 8"
  by (simp add: ref_compress_def Let_def)

lemma length_ref_hash [simp]: "length (ref_hash m) = 64"
proof -
  have "length (pad_result m h) = 8" for h by (simp add: pad_result_def Let_def length_ref_compress)
  then show ?thesis by (simp add: ref_hash_pad_result length_concat comp_def sum_list_triv)
qed

section \<open>Properties\<close>

text \<open>
  C31: Feeding a message to \<open>update\<close> in two pieces leaves the hash object in exactly the
  state that feeding the concatenation leaves, whatever the object has been fed before,
  including when the length counter overflows and the call does not return.
\<close>

theorem blake_streaming:
  assumes "bl_blockOffset st < 128" "length (bl_block st) = 128"
  shows "Blake512_update st (a @ b) = bindJ (Blake512_update st a) (\<lambda>st. Blake512_update st b)"
  using assms by (rule Blake512_update_append)

theorem blake_streaming_witness:
  "Blake512_update Blake512_new ([1, 2] @ replicate 200 7) =
   bindJ (Blake512_update Blake512_new [1, 2]) (\<lambda>st. Blake512_update st (replicate 200 7))"
  by (rule blake_streaming) (simp_all add: Blake512_new_def)

text \<open>
  C30: The hash object, fed a message of fewer than 2^128 bits and asked for its digest,
  returns the BLAKE-512 hash of the message: the 32-bit halves, the running length, the
  length that is made negative while padding and the null counter of a block without
  message bits implement the 64-bit reference function on the padded message.
\<close>

theorem blake_digest_refines_reference:
  assumes "8 * length m < 2 ^ 128"
  shows "bindJ (bindJ (Blake512_update Blake512_new m) Blake512_digest) (\<lambda>(h, _). ret h) = ret (ref_hash m)"
proof -
  obtain st where "Blake512_update Blake512_new m = ret st" "absorbed m st"
    using update_absorbed [OF absorbed_new, of m] assms by auto
  then show ?thesis using digest_absorbed [OF _ assms] by simp
qed

theorem blake_digest_refines_reference_witness:
  "bindJ (bindJ (Blake512_update Blake512_new (replicate 112 1)) Blake512_digest) (\<lambda>(h, _). ret h) =
   ret (ref_hash (replicate 112 1))"
  by (rule blake_digest_refines_reference) simp

end
