(* ===== verification/Edwards.thy ===== *)
theory Edwards
  imports ModArith
begin

text \<open>
  The arithmetic of twisted Edwards curves \<open>a x^2 + y^2 = 1 + d x^2 y^2\<close> over the integers
  modulo a prime, and of groups of points.  The addition law is stated as the two
  congruences that its quotients satisfy; for a square \<open>a\<close> and a non-square \<open>d\<close> the
  denominators never vanish, sums stay on the curve, and addition is associative: each
  is one polynomial identity whose cofactors are written out.  The locale
  \<open>point_group\<close> is what a client of such a group relies on; its lemmas are those about
  multiples and about double-and-add.
\<close>

section \<open>Polynomial identities\<close>

lemma closure_identity:
  fixes a d x1 y1 x2 y2 :: int
  shows "a * (x1 * y2 + y1 * x2)^2 * (1 - d * x1 * x2 * y1 * y2)^2 + (y1 * y2 - a * x1 * x2)^2 * (1 + d * x1 * x2 * y1 * y2)^2 - (1 + d * x1 * x2 * y1 * y2)^2 * (1 - d * x1 * x2 * y1 * y2)^2 - d * (x1 * y2 + y1 * x2)^2 * (y1 * y2 - a * x1 * x2)^2 =
    (0 - a^2 * d * x1^2 * x2^4 * y2^2 - 2 * a^2 * x2^4 * y2^2 + a^2 * x2^4 + a * d^2 * x1^2 * x2^4 * y2^4 - a
     * d * x1^2 * x2^2 * y2^4 - a * d * y1^2 * x2^4 * y2^2 + 2 * a * d * x2^4 * y2^4 - 2 * a * x2^2 * y2^4 + 4
     * a * x2^2 * y2^2 + d^3 * x1^2 * y1^2 * x2^4 * y2^4 + d^2 * y1^2 * x2^4 * y2^4 - d^2 * x2^4 * y2^4 - d *
     y1^2 * x2^2 * y2^4 - 2 * d * x2^2 * y2^2 + y2^4) *
      (a * x1^2 + y1^2 - 1 - d * x1^2 * y1^2) +
    (a^2 * d * x1^4 * x2^2 * y2^2 + 2 * a^2 * x1^2 * x2^2 * y2^2 - a^2 * x1^2 * x2^2 - 2 * a * d * x1^2 * x2^2
     * y2^2 - a * x1^2 * y2^2 + 2 * a * y1^2 * x2^2 * y2^2 - a * y1^2 * x2^2 - 2 * a * x2^2 * y2^2 + a * x2^2
     + d * y1^4 * x2^2 * y2^2 - 2 * d * y1^2 * x2^2 * y2^2 + d * x2^2 * y2^2 - y1^2 * y2^2 + y2^2 + 1) *
      (a * x2^2 + y2^2 - 1 - d * x2^2 * y2^2)"
  by algebra

lemma assoc_x_identity:
  fixes a d x1 y1 x2 y2 x3 y3 :: int
  shows "((x1 * y2 + y1 * x2) * (1 - d * x1 * x2 * y1 * y2) * y3 + (y1 * y2 - a * x1 * x2) * (1 + d * x1 * x2 * y1 * y2) * x3) * ((1 + d * x2 * x3 * y2 * y3) * (1 - d * x2 * x3 * y2 * y3) + d * (x2 * y3 + y2 * x3) * (y2 * y3 - a * x2 * x3) * x1 * y1) -
    (x1 * (y2 * y3 - a * x2 * x3) * (1 + d * x2 * x3 * y2 * y3) + y1 * (x2 * y3 + y2 * x3) * (1 - d * x2 * x3 * y2 * y3)) * ((1 + d * x1 * x2 * y1 * y2) * (1 - d * x1 * x2 * y1 * y2) + d * (x1 * y2 + y1 * x2) * (y1 * y2 - a * x1 * x2) * x3 * y3) =
    (0 - a^2 * d * x1 * x2^4 * y2 * x3^2 * y3 - a^2 * d * x1 * x2^3 * y2^2 * x3^3 + a * d^2 * x1 * x2^4 * y2^3
     * x3^2 * y3 + a * d * x1 * x2^3 * y2^2 * x3 - a * d * y1 * x2^4 * y2 * x3 * y3^2 + a * d * y1 * x2^2 *
     y2^3 * x3^3 - d^2 * x1 * x2^3 * y2^4 * x3 * y3^2 + d^2 * y1 * x2^4 * y2^3 * x3 * y3^2 + d^2 * y1 * x2^3 *
     y2^4 * x3^2 * y3 + d * x1 * x2^2 * y2^3 * y3^3 - d * x1 * x2^2 * y2^3 * y3 + d * x1 * x2 * y2^4 * x3 *
     y3^2 + d * y1 * x2^3 * y2^2 * y3^3 - d * y1 * x2^3 * y2^2 * y3 - d * y1 * x2^2 * y2^3 * x3 - d * y1 * x2
     * y2^4 * x3^2 * y3) *
      (a * x1^2 + y1^2 - 1 - d * x1^2 * y1^2) +
    (0 - a^3 * x1^3 * x2 * x3^3 + a^2 * d * x1^3 * x2^2 * y2 * x3^2 * y3 + a^2 * d * x1^3 * x2 * x3^3 * y3^2 -
     a^2 * x1^3 * x2 * x3 * y3^2 + a^2 * x1^3 * x2 * x3 + a^2 * x1^3 * y2 * x3^2 * y3 + a^2 * x1^2 * y1 * x2 *
     x3^2 * y3 + a^2 * x1^2 * y1 * y2 * x3^3 - a^2 * x1 * y1^2 * x2 * x3^3 + a^2 * x1 * x2 * x3^3 - a * d^2 *
     x1^2 * y1 * x2^2 * y2 * x3^3 * y3^2 - a * d * x1^3 * x2 * y2^2 * x3 * y3^2 - a * d * x1^3 * y2 * x3^2 *
     y3^3 + a * d * x1^2 * y1 * x2^2 * y2 * x3 * y3^2 + a * d * x1^2 * y1 * x2 * y2^2 * x3^2 * y3 - a * d *
     x1^2 * y1 * x2 * x3^2 * y3^3 - a * d * x1^2 * y1 * y2 * x3^3 * y3^2 + a * d * x1 * y1^2 * x2^2 * y2 *
     x3^2 * y3 + a * d * x1 * y1^2 * x2 * x3^3 * y3^2 - a * d * x1 * x2^2 * y2 * x3^2 * y3 - a * d * x1 * x2 *
     x3^3 * y3^2 + a * x1^3 * y2 * y3^3 - a * x1^3 * y2 * y3 + a * x1^2 * y1 * x2 * y3^3 - a * x1^2 * y1 * x2
     * y3 + a * x1^2 * y1 * y2 * x3 * y3^2 - a * x1^2 * y1 * y2 * x3 - a * x1 * y1^2 * x2 * x3 * y3^2 + a * x1
     * y1^2 * x2 * x3 + a * x1 * y1^2 * y2 * x3^2 * y3 + a * x1 * x2 * x3 * y3^2 - a * x1 * x2 * x3 - a * x1 *
     y2 * x3^2 * y3 + a * y1^3 * x2 * x3^2 * y3 + a * y1^3 * y2 * x3^3 - a * y1 * x2 * x3^2 * y3 - a * y1 * y2
     * x3^3 - d^2 * x1^2 * y1 * x2 * y2^2 * x3^2 * y3^3 - d^2 * x1 * y1^2 * x2^2 * y2 * x3^2 * y3^3 + d^2 * x1
     * y1^2 * x2 * y2^2 * x3^3 * y3^2 - d * x1 * y1^2 * x2 * y2^2 * x3 * y3^2 - d * x1 * y1^2 * y2 * x3^2 *
     y3^3 + d * x1 * x2 * y2^2 * x3 * y3^2 + d * x1 * y2 * x3^2 * y3^3 + d * y1^3 * x2^2 * y2 * x3 * y3^2 + d
     * y1^3 * x2 * y2^2 * x3^2 * y3 - d * y1^3 * x2 * x3^2 * y3^3 - d * y1^3 * y2 * x3^3 * y3^2 - d * y1 *
     x2^2 * y2 * x3 * y3^2 - d * y1 * x2 * y2^2 * x3^2 * y3 + d * y1 * x2 * x3^2 * y3^3 + d * y1 * y2 * x3^3 *
     y3^2 + x1 * y1^2 * y2 * y3^3 - x1 * y1^2 * y2 * y3 - x1 * y2 * y3^3 + x1 * y2 * y3 + y1^3 * x2 * y3^3 -
     y1^3 * x2 * y3 + y1^3 * y2 * x3 * y3^2 - y1^3 * y2 * x3 - y1 * x2 * y3^3 + y1 * x2 * y3 - y1 * y2 * x3 *
     y3^2 + y1 * y2 * x3) *
      (a * x2^2 + y2^2 - 1 - d * x2^2 * y2^2) +
    (a^3 * x1^3 * x2^3 * x3 - a^2 * x1^3 * x2^2 * y2 * y3 + a^2 * x1^3 * x2 * y2^2 * x3 - a^2 * x1^3 * x2 * x3
     - a^2 * x1^2 * y1 * x2^3 * y3 - a^2 * x1^2 * y1 * x2^2 * y2 * x3 + a^2 * x1 * y1^2 * x2^3 * x3 - a^2 * x1
     * x2^3 * x3 + a * d * x1^2 * y1 * x2^2 * y2 * x3 - a * x1^3 * y2^3 * y3 + a * x1^3 * y2 * y3 - a * x1^2 *
     y1 * x2 * y2^2 * y3 + a * x1^2 * y1 * x2 * y3 - a * x1^2 * y1 * y2^3 * x3 + a * x1^2 * y1 * y2 * x3 - a *
     x1 * y1^2 * x2^2 * y2 * y3 + a * x1 * y1^2 * x2 * y2^2 * x3 - a * x1 * y1^2 * x2 * x3 + a * x1 * x2^2 *
     y2 * y3 - a * x1 * x2 * y2^2 * x3 + a * x1 * x2 * x3 - a * y1^3 * x2^3 * y3 - a * y1^3 * x2^2 * y2 * x3 +
     a * y1 * x2^3 * y3 + a * y1 * x2^2 * y2 * x3 + d * x1^2 * y1 * x2 * y2^2 * y3 + d * x1 * y1^2 * x2^2 * y2
     * y3 - d * x1 * y1^2 * x2 * y2^2 * x3 - x1 * y1^2 * y2^3 * y3 + x1 * y1^2 * y2 * y3 + x1 * y2^3 * y3 - x1
     * y2 * y3 - y1^3 * x2 * y2^2 * y3 + y1^3 * x2 * y3 - y1^3 * y2^3 * x3 + y1^3 * y2 * x3 + y1 * x2 * y2^2 *
     y3 - y1 * x2 * y3 + y1 * y2^3 * x3 - y1 * y2 * x3) *
      (a * x3^2 + y3^2 - 1 - d * x3^2 * y3^2)"
  by algebra

lemma assoc_y_identity:
  fixes a d x1 y1 x2 y2 x3 y3 :: int
  shows "((y1 * y2 - a * x1 * x2) * (1 + d * x1 * x2 * y1 * y2) * y3 - a * (x1 * y2 + y1 * x2) * (1 - d * x1 * x2 * y1 * y2) * x3) * ((1 + d * x2 * x3 * y2 * y3) * (1 - d * x2 * x3 * y2 * y3) - d * (x2 * y3 + y2 * x3) * (y2 * y3 - a * x2 * x3) * x1 * y1) -
    (y1 * (y2 * y3 - a * x2 * x3) * (1 + d * x2 * x3 * y2 * y3) - a * x1 * (x2 * y3 + y2 * x3) * (1 - d * x2 * x3 * y2 * y3)) * ((1 + d * x1 * x2 * y1 * y2) * (1 - d * x1 * x2 * y1 * y2) - d * (x1 * y2 + y1 * x2) * (y1 * y2 - a * x1 * x2) * x3 * y3) =
    (a^2 * d * x1 * x2^4 * y2 * x3 * y3^2 - a^2 * d * x1 * x2^2 * y2^3 * x3^3 - a^2 * d * y1 * x2^4 * y2 *
     x3^2 * y3 - a^2 * d * y1 * x2^3 * y2^2 * x3^3 - a * d^2 * x1 * x2^4 * y2^3 * x3 * y3^2 - a * d^2 * x1 *
     x2^3 * y2^4 * x3^2 * y3 + a * d^2 * y1 * x2^4 * y2^3 * x3^2 * y3 - a * d * x1 * x2^3 * y2^2 * y3^3 + a *
     d * x1 * x2^3 * y2^2 * y3 + a * d * x1 * x2^2 * y2^3 * x3 + a * d * x1 * x2 * y2^4 * x3^2 * y3 + a * d *
     y1 * x2^3 * y2^2 * x3 - d^2 * y1 * x2^3 * y2^4 * x3 * y3^2 + d * y1 * x2^2 * y2^3 * y3^3 - d * y1 * x2^2
     * y2^3 * y3 + d * y1 * x2 * y2^4 * x3 * y3^2) *
      (a * x1^2 + y1^2 - 1 - d * x1^2 * y1^2) +
    (0 - a^3 * x1^3 * x2 * x3^2 * y3 - a^3 * x1^3 * y2 * x3^3 - a^3 * x1^2 * y1 * x2 * x3^3 - a^2 * d * x1^3 *
     x2^2 * y2 * x3 * y3^2 - a^2 * d * x1^3 * x2 * y2^2 * x3^2 * y3 + a^2 * d * x1^3 * x2 * x3^2 * y3^3 + a^2
     * d * x1^3 * y2 * x3^3 * y3^2 + a^2 * d * x1^2 * y1 * x2^2 * y2 * x3^2 * y3 + a^2 * d * x1^2 * y1 * x2 *
     x3^3 * y3^2 - a^2 * x1^3 * x2 * y3^3 + a^2 * x1^3 * x2 * y3 - a^2 * x1^3 * y2 * x3 * y3^2 + a^2 * x1^3 *
     y2 * x3 - a^2 * x1^2 * y1 * x2 * x3 * y3^2 + a^2 * x1^2 * y1 * x2 * x3 + a^2 * x1^2 * y1 * y2 * x3^2 * y3
     - a^2 * x1 * y1^2 * x2 * x3^2 * y3 - a^2 * x1 * y1^2 * y2 * x3^3 + a^2 * x1 * x2 * x3^2 * y3 + a^2 * x1 *
     y2 * x3^3 - a^2 * y1^3 * x2 * x3^3 + a^2 * y1 * x2 * x3^3 - a * d^2 * x1^2 * y1 * x2^2 * y2 * x3^2 * y3^3
     + a * d^2 * x1^2 * y1 * x2 * y2^2 * x3^3 * y3^2 + a * d^2 * x1 * y1^2 * x2^2 * y2 * x3^3 * y3^2 - a * d *
     x1^2 * y1 * x2 * y2^2 * x3 * y3^2 - a * d * x1^2 * y1 * y2 * x3^2 * y3^3 - a * d * x1 * y1^2 * x2^2 * y2
     * x3 * y3^2 - a * d * x1 * y1^2 * x2 * y2^2 * x3^2 * y3 + a * d * x1 * y1^2 * x2 * x3^2 * y3^3 + a * d *
     x1 * y1^2 * y2 * x3^3 * y3^2 + a * d * x1 * x2^2 * y2 * x3 * y3^2 + a * d * x1 * x2 * y2^2 * x3^2 * y3 -
     a * d * x1 * x2 * x3^2 * y3^3 - a * d * x1 * y2 * x3^3 * y3^2 + a * d * y1^3 * x2^2 * y2 * x3^2 * y3 + a
     * d * y1^3 * x2 * x3^3 * y3^2 - a * d * y1 * x2^2 * y2 * x3^2 * y3 - a * d * y1 * x2 * x3^3 * y3^2 + a *
     x1^2 * y1 * y2 * y3^3 - a * x1^2 * y1 * y2 * y3 - a * x1 * y1^2 * x2 * y3^3 + a * x1 * y1^2 * x2 * y3 - a
     * x1 * y1^2 * y2 * x3 * y3^2 + a * x1 * y1^2 * y2 * x3 + a * x1 * x2 * y3^3 - a * x1 * x2 * y3 + a * x1 *
     y2 * x3 * y3^2 - a * x1 * y2 * x3 - a * y1^3 * x2 * x3 * y3^2 + a * y1^3 * x2 * x3 + a * y1^3 * y2 * x3^2
     * y3 + a * y1 * x2 * x3 * y3^2 - a * y1 * x2 * x3 - a * y1 * y2 * x3^2 * y3 + d^2 * x1 * y1^2 * x2 * y2^2
     * x3^2 * y3^3 - d * y1^3 * x2 * y2^2 * x3 * y3^2 - d * y1^3 * y2 * x3^2 * y3^3 + d * y1 * x2 * y2^2 * x3
     * y3^2 + d * y1 * y2 * x3^2 * y3^3 + y1^3 * y2 * y3^3 - y1^3 * y2 * y3 - y1 * y2 * y3^3 + y1 * y2 * y3) *
      (a * x2^2 + y2^2 - 1 - d * x2^2 * y2^2) +
    (a^3 * x1^3 * x2^3 * y3 + a^3 * x1^3 * x2^2 * y2 * x3 + a^3 * x1^2 * y1 * x2^3 * x3 + a^2 * x1^3 * x2 *
     y2^2 * y3 - a^2 * x1^3 * x2 * y3 + a^2 * x1^3 * y2^3 * x3 - a^2 * x1^3 * y2 * x3 - a^2 * x1^2 * y1 * x2^2
     * y2 * y3 + a^2 * x1^2 * y1 * x2 * y2^2 * x3 - a^2 * x1^2 * y1 * x2 * x3 + a^2 * x1 * y1^2 * x2^3 * y3 +
     a^2 * x1 * y1^2 * x2^2 * y2 * x3 - a^2 * x1 * x2^3 * y3 - a^2 * x1 * x2^2 * y2 * x3 + a^2 * y1^3 * x2^3 *
     x3 - a^2 * y1 * x2^3 * x3 + a * d * x1^2 * y1 * x2^2 * y2 * y3 - a * d * x1^2 * y1 * x2 * y2^2 * x3 - a *
     d * x1 * y1^2 * x2^2 * y2 * x3 - a * x1^2 * y1 * y2^3 * y3 + a * x1^2 * y1 * y2 * y3 + a * x1 * y1^2 * x2
     * y2^2 * y3 - a * x1 * y1^2 * x2 * y3 + a * x1 * y1^2 * y2^3 * x3 - a * x1 * y1^2 * y2 * x3 - a * x1 * x2
     * y2^2 * y3 + a * x1 * x2 * y3 - a * x1 * y2^3 * x3 + a * x1 * y2 * x3 - a * y1^3 * x2^2 * y2 * y3 + a *
     y1^3 * x2 * y2^2 * x3 - a * y1^3 * x2 * x3 + a * y1 * x2^2 * y2 * y3 - a * y1 * x2 * y2^2 * x3 + a * y1 *
     x2 * x3 - d * x1 * y1^2 * x2 * y2^2 * y3 - y1^3 * y2^3 * y3 + y1^3 * y2 * y3 + y1 * y2^3 * y3 - y1 * y2 *
     y3) *
      (a * x3^2 + y3^2 - 1 - d * x3^2 * y3^2)"
  by algebra

section \<open>The curve modulo a prime\<close>

definition ed_curve :: "int \<Rightarrow> int \<Rightarrow> int \<Rightarrow> int \<Rightarrow> int \<Rightarrow> bool" where
  "ed_curve p a d x y \<longleftrightarrow> p dvd a * x^2 + y^2 - 1 - d * x^2 * y^2"

definition ed_complete :: "int \<Rightarrow> int \<Rightarrow> int \<Rightarrow> bool" where
  "ed_complete p a d \<longleftrightarrow> prime_modulus p \<and> p \<noteq> 2 \<and> \<not> p dvd a \<and> (\<exists>s. p dvd s^2 - a) \<and> (\<forall>t. \<not> p dvd t^2 - d)"

text \<open>\<open>u\<close> is the fraction of \<open>n\<close> by \<open>m\<close> modulo \<open>p\<close>.\<close>

definition frac_of :: "int \<Rightarrow> int \<Rightarrow> int \<Rightarrow> int \<Rightarrow> bool" where
  "frac_of p n m u \<longleftrightarrow> p dvd u * m - n"

lemma prime_modulus_not_dvd_mult: "prime_modulus p \<Longrightarrow> \<not> p dvd x \<Longrightarrow> \<not> p dvd y \<Longrightarrow> \<not> p dvd x * (y :: int)"
  using prime_modulus_dvd_mult by blast

lemma dvd_change: "p dvd x - y \<Longrightarrow> p dvd x \<longleftrightarrow> p dvd (y :: int)"
  using dvd_diff_right_iff [of p y "x - y"] dvd_add_right_iff [of p "x - y" y] by simp

lemma square_quotient:
  assumes p: "prime_modulus p" and h: "p dvd A^2 - d * B^2" and B: "\<not> p dvd B"
  shows "\<exists>t. p dvd t^2 - (d :: int)"
proof -
  obtain c k where "c * B + k * p = gcd B p" using bezout_int [of B p] by blast
  then have c: "p dvd c * B - 1"
    using prime_modulus_coprime [OF p B] by (metis add_diff_cancel_left' coprime_iff_gcd_eq_1 diff_add_eq_diff_diff_swap
        dvd_minus_iff dvd_triv_right minus_diff_eq)
  have "(A * c)^2 - d = c^2 * (A^2 - d * B^2) + d * (c * B + 1) * (c * B - 1)" by algebra
  then show ?thesis using c h by (metis dvd_add dvd_mult)
qed

lemma ed_no_unit_product:
  assumes c: "ed_complete p a d" and P: "ed_curve p a d x1 y1" and Q: "ed_curve p a d x2 y2"
    and s: "\<sigma> * \<sigma> = 1"
  shows "\<not> p dvd d * x1 * x2 * y1 * y2 - \<sigma>"
proof
  assume h: "p dvd d * x1 * x2 * y1 * y2 - \<sigma>"
  obtain s where pr: "prime_modulus p" "p \<noteq> 2" "\<not> p dvd a" "p dvd s^2 - a" and ns: "\<And>t. \<not> p dvd t^2 - d"
    using c by (auto simp: ed_complete_def)
  have unit: "\<not> p dvd \<sigma>"
  proof
    assume "p dvd \<sigma>"
    then have "p dvd \<sigma> * \<sigma>" by (rule dvd_mult)
    then show False using s prime_modulus_gt_1 [OF pr(1)] by (auto dest: zdvd_imp_le)
  qed
  then have nz: "\<not> p dvd x1" "\<not> p dvd x2" "\<not> p dvd y1" "\<not> p dvd y2"
    using dvd_change [OF h] by (auto simp: mult.assoc)
  have sq: "p dvd (s * x1 + \<tau> * y1)^2 - d * (x1 * y1 * (s * x2 + \<rho> * y2))^2" if "\<tau> = \<sigma> * \<rho>" "\<rho> * \<rho> = 1" for \<rho> \<tau>
  proof -
    have "(s * x1 + \<tau> * y1)^2 - d * (x1 * y1 * (s * x2 + \<rho> * y2))^2 =
       (s^2 - a) * (x1^2 - d * x1^2 * y1^2 * x2^2) + (a * x1^2 + y1^2 - 1 - d * x1^2 * y1^2)
       - d * x1^2 * y1^2 * (a * x2^2 + y2^2 - 1 - d * x2^2 * y2^2)
       - (d * x1 * x2 * y1 * y2 - \<sigma>) * (2 * s * \<rho> * x1 * y1 + d * x1 * x2 * y1 * y2 + \<sigma>)"
      using that s by algebra
    then show ?thesis
      using pr(4) P Q h by (simp add: ed_curve_def)
  qed
  have "p dvd x1 * y1 * (s * x2 + y2)"
    using sq [of \<sigma> 1] square_quotient [OF pr(1), of "s * x1 + \<sigma> * y1" d "x1 * y1 * (s * x2 + y2)"] ns by auto
  then have "p dvd s * x2 + y2"
    using prime_modulus_dvd_mult [OF pr(1)] nz by blast
  moreover have "p dvd x1 * y1 * (s * x2 - y2)"
    using sq [of "- \<sigma>" "-1"] square_quotient [OF pr(1), of "s * x1 + - \<sigma> * y1" d "x1 * y1 * (s * x2 - y2)"] ns by auto
  then have "p dvd s * x2 - y2"
    using prime_modulus_dvd_mult [OF pr(1)] nz by blast
  ultimately have "p dvd (s * x2 + y2) + (s * x2 - y2)" by (rule dvd_add)
  then have "p dvd 2 * (s * x2)" by simp
  then have "p dvd 2 \<or> p dvd s"
    using prime_modulus_dvd_mult [OF pr(1)] nz by blast
  moreover have "\<not> p dvd 2"
    using prime_modulus_gt_1 [OF pr(1)] pr(2) by (auto dest: zdvd_imp_le)
  moreover have "\<not> p dvd s"
    using pr(3) dvd_change [OF pr(4)] by (auto simp: power2_eq_square)
  ultimately show False by blast
qed

lemma ed_denominators:
  assumes "ed_complete p a d" "ed_curve p a d x1 y1" "ed_curve p a d x2 y2"
  shows "\<not> p dvd 1 + d * x1 * x2 * y1 * y2" "\<not> p dvd 1 - d * x1 * x2 * y1 * y2"
  using ed_no_unit_product [OF assms, of "-1"] ed_no_unit_product [OF assms, of 1] dvd_minus_iff [of p "d * x1 * x2 * y1 * y2 - 1"]
  by (simp_all add: add.commute)

definition ed_sum :: "int \<Rightarrow> int \<Rightarrow> int \<Rightarrow> int \<times> int \<Rightarrow> int \<times> int \<Rightarrow> int \<times> int \<Rightarrow> bool" where
  "ed_sum p a d P Q R = (case (P, Q, R) of ((x1, y1), (x2, y2), (x3, y3)) \<Rightarrow>
     frac_of p (x1 * y2 + y1 * x2) (1 + d * x1 * x2 * y1 * y2) x3 \<and>
     frac_of p (y1 * y2 - a * x1 * x2) (1 - d * x1 * x2 * y1 * y2) y3)"

lemma ed_sum_curve:
  assumes c: "ed_complete p a d" and P: "ed_curve p a d x1 y1" and Q: "ed_curve p a d x2 y2"
    and s: "ed_sum p a d (x1, y1) (x2, y2) (x3, y3)"
  shows "ed_curve p a d x3 y3"
proof -
  define D N E M where "D = 1 + d * x1 * x2 * y1 * y2" and "N = x1 * y2 + y1 * x2"
    and "E = 1 - d * x1 * x2 * y1 * y2" and "M = y1 * y2 - a * x1 * x2"
  have pr: "prime_modulus p" using c by (simp add: ed_complete_def)
  have f: "p dvd x3 * D - N" "p dvd y3 * E - M" using s by (simp_all add: ed_sum_def frac_of_def D_def N_def E_def M_def)
  have nz: "\<not> p dvd D" "\<not> p dvd E" using ed_denominators [OF c P Q] by (simp_all add: D_def E_def)
  have "p dvd a * N^2 * E^2 + M^2 * D^2 - D^2 * E^2 - d * N^2 * M^2"
    unfolding D_def N_def E_def M_def closure_identity using P Q by (simp add: ed_curve_def)
  moreover have "(a * x3^2 + y3^2 - 1 - d * x3^2 * y3^2) * (D * E * D * E)
      = (a * N^2 * E^2 + M^2 * D^2 - D^2 * E^2 - d * N^2 * M^2)
      + (x3 * D - N) * (x3 * D + N) * (a * E^2 - d * y3^2 * E^2)
      + (y3 * E - M) * (y3 * E + M) * (D^2 - d * N^2)"
    by algebra
  ultimately have "p dvd (a * x3^2 + y3^2 - 1 - d * x3^2 * y3^2) * (D * E * D * E)"
    using f by simp
  then show ?thesis
    unfolding ed_curve_def using prime_modulus_dvd_mult [OF pr] nz by blast
qed

text \<open>Fractions whose operands are fractions.\<close>

lemma frac_nested:
  assumes "frac_of p n1 d1 u" "frac_of p m1 e1 v" "frac_of p (u * \<alpha> + v * \<beta>) (1 + w * u * v) s"
  shows "frac_of p (n1 * e1 * \<alpha> + m1 * d1 * \<beta>) (d1 * e1 + w * n1 * m1) s"
proof -
  have "s * (d1 * e1 + w * n1 * m1) - (n1 * e1 * \<alpha> + m1 * d1 * \<beta>) =
     d1 * e1 * (s * (1 + w * u * v) - (u * \<alpha> + v * \<beta>))
     + (u * d1 - n1) * (e1 * \<alpha> - s * w * m1) + (v * e1 - m1) * (d1 * \<beta> - s * w * u * d1)"
    by algebra
  then show ?thesis using assms by (simp add: frac_of_def)
qed

lemma frac_nested_denominator:
  assumes "prime_modulus p" "frac_of p n1 d1 u" "frac_of p m1 e1 v" "\<not> p dvd d1" "\<not> p dvd e1" "\<not> p dvd 1 + w * u * v"
  shows "\<not> p dvd d1 * e1 + w * n1 * m1"
proof -
  have "d1 * e1 + w * n1 * m1 - d1 * e1 * (1 + w * u * v) = (u * d1 - n1) * (- (w * m1)) + (v * e1 - m1) * (- (w * u * d1))"
    by algebra
  then have "p dvd d1 * e1 + w * n1 * m1 - d1 * e1 * (1 + w * u * v)"
    using assms(2,3) by (simp add: frac_of_def)
  then have "p dvd d1 * e1 + w * n1 * m1 \<longleftrightarrow> p dvd d1 * e1 * (1 + w * u * v)" by (rule dvd_change)
  moreover have "\<not> p dvd d1 * e1 * (1 + w * u * v)"
    using assms by (intro prime_modulus_not_dvd_mult)
  ultimately show ?thesis by blast
qed

lemma frac_unique:
  assumes "prime_modulus p" "frac_of p n m u" "frac_of p n' m' u'" "\<not> p dvd m" "\<not> p dvd m'" "p dvd n * m' - n' * m"
  shows "p dvd u - u'"
proof -
  have "(u - u') * (m * m') = (u * m - n) * m' - (u' * m' - n') * m + (n * m' - n' * m)" by algebra
  then have "p dvd (u - u') * (m * m')" using assms by (simp add: frac_of_def)
  then show ?thesis using prime_modulus_dvd_mult [OF assms(1)] assms(4,5) by blast
qed

lemma ed_sum_assoc:
  assumes c: "ed_complete p a d"
    and P: "ed_curve p a d x1 y1" and Q: "ed_curve p a d x2 y2" and R: "ed_curve p a d x3 y3"
    and PQ: "ed_sum p a d (x1, y1) (x2, y2) (u, v)" and l: "ed_sum p a d (u, v) (x3, y3) (s, t)"
    and QR: "ed_sum p a d (x2, y2) (x3, y3) (f, g)" and r: "ed_sum p a d (x1, y1) (f, g) (s', t')"
  shows "p dvd s - s' \<and> p dvd t - t'"
proof -
  have pr: "prime_modulus p" using c by (simp add: ed_complete_def)
  define D1 N1 E1 M1 where "D1 = 1 + d * x1 * x2 * y1 * y2" and "N1 = x1 * y2 + y1 * x2"
    and "E1 = 1 - d * x1 * x2 * y1 * y2" and "M1 = y1 * y2 - a * x1 * x2"
  define D2 N2 E2 M2 where "D2 = 1 + d * x2 * x3 * y2 * y3" and "N2 = x2 * y3 + y2 * x3"
    and "E2 = 1 - d * x2 * x3 * y2 * y3" and "M2 = y2 * y3 - a * x2 * x3"
  have f: "frac_of p N1 D1 u" "frac_of p M1 E1 v" "frac_of p N2 D2 f" "frac_of p M2 E2 g"
    using PQ QR by (simp_all add: ed_sum_def D1_def N1_def E1_def M1_def D2_def N2_def E2_def M2_def)
  have nz: "\<not> p dvd D1" "\<not> p dvd E1" "\<not> p dvd D2" "\<not> p dvd E2"
    using ed_denominators [OF c P Q] ed_denominators [OF c Q R] by (simp_all add: D1_def E1_def D2_def E2_def)
  have cu: "ed_curve p a d u v" "ed_curve p a d f g"
    using ed_sum_curve [OF c P Q PQ] ed_sum_curve [OF c Q R QR] .
  have l': "frac_of p (u * y3 + v * x3) (1 + (d * x3 * y3) * u * v) s"
      "frac_of p (u * - (a * x3) + v * y3) (1 + - (d * x3 * y3) * u * v) t"
    and r': "frac_of p (f * y1 + g * x1) (1 + (d * x1 * y1) * f * g) s'"
      "frac_of p (f * - (a * x1) + g * y1) (1 + - (d * x1 * y1) * f * g) t'"
    using l r by (simp_all add: ed_sum_def ac_simps)
  have nl: "\<not> p dvd 1 + (d * x3 * y3) * u * v" "\<not> p dvd 1 + - (d * x3 * y3) * u * v"
    and nr: "\<not> p dvd 1 + (d * x1 * y1) * f * g" "\<not> p dvd 1 + - (d * x1 * y1) * f * g"
    using ed_denominators [OF c cu(1) R] ed_denominators [OF c P cu(2)] by (simp_all add: ac_simps)
  note L = frac_nested [OF f(1,2) l'(1)] frac_nested [OF f(1,2) l'(2)]
  note R' = frac_nested [OF f(3,4) r'(1)] frac_nested [OF f(3,4) r'(2)]
  note dl = frac_nested_denominator [OF pr f(1,2) nz(1,2) nl(1)] frac_nested_denominator [OF pr f(1,2) nz(1,2) nl(2)]
  note dr = frac_nested_denominator [OF pr f(3,4) nz(3,4) nr(1)] frac_nested_denominator [OF pr f(3,4) nz(3,4) nr(2)]
  have e: "p dvd a * x1^2 + y1^2 - 1 - d * x1^2 * y1^2" "p dvd a * x2^2 + y2^2 - 1 - d * x2^2 * y2^2"
    "p dvd a * x3^2 + y3^2 - 1 - d * x3^2 * y3^2"
    using P Q R by (simp_all add: ed_curve_def)
  have "p dvd (N1 * E1 * y3 + M1 * D1 * x3) * (D2 * E2 + d * N2 * M2 * x1 * y1)
     - (x1 * M2 * D2 + y1 * N2 * E2) * (D1 * E1 + d * N1 * M1 * x3 * y3)"
    unfolding D1_def N1_def E1_def M1_def D2_def N2_def E2_def M2_def assoc_x_identity
    by (intro dvd_add dvd_mult e)
  then have x: "p dvd (N1 * E1 * y3 + M1 * D1 * x3) * (D2 * E2 + d * x1 * y1 * N2 * M2)
     - (N2 * E2 * y1 + M2 * D2 * x1) * (D1 * E1 + d * x3 * y3 * N1 * M1)"
    by (simp add: ac_simps)
  have "p dvd (M1 * D1 * y3 - a * N1 * E1 * x3) * (D2 * E2 - d * N2 * M2 * x1 * y1)
     - (y1 * M2 * D2 - a * x1 * N2 * E2) * (D1 * E1 - d * N1 * M1 * x3 * y3)"
    unfolding D1_def N1_def E1_def M1_def D2_def N2_def E2_def M2_def assoc_y_identity
    by (intro dvd_add dvd_mult e)
  moreover have "(M1 * D1 * y3 - a * N1 * E1 * x3) * (D2 * E2 - d * N2 * M2 * x1 * y1)
     - (y1 * M2 * D2 - a * x1 * N2 * E2) * (D1 * E1 - d * N1 * M1 * x3 * y3) =
     (N1 * E1 * - (a * x3) + M1 * D1 * y3) * (D2 * E2 + - (d * x1 * y1) * N2 * M2)
     - (N2 * E2 * - (a * x1) + M2 * D2 * y1) * (D1 * E1 + - (d * x3 * y3) * N1 * M1)"
    by algebra
  ultimately have y: "p dvd (N1 * E1 * - (a * x3) + M1 * D1 * y3) * (D2 * E2 + - (d * x1 * y1) * N2 * M2)
     - (N2 * E2 * - (a * x1) + M2 * D2 * y1) * (D1 * E1 + - (d * x3 * y3) * N1 * M1)"
    by (simp only:)
  show ?thesis
    using frac_unique [OF pr L(1) R'(1) dl(1) dr(1) x] frac_unique [OF pr L(2) R'(2) dl(2) dr(2) y] by blast
qed

section \<open>Groups of points\<close>

text \<open>The multiple \<open>n x\<close> by repeated addition.\<close>

primrec pt_times :: "('a \<Rightarrow> 'a \<Rightarrow> 'a) \<Rightarrow> 'a \<Rightarrow> nat \<Rightarrow> 'a \<Rightarrow> 'a" where
  "pt_times add unit 0 x = unit"
| "pt_times add unit (Suc n) x = add x (pt_times add unit n x)"

locale point_group =
  fixes ok :: "'c \<Rightarrow> bool" and pt :: "'c \<Rightarrow> 'a \<Rightarrow> bool" and add :: "'c \<Rightarrow> 'a \<Rightarrow> 'a \<Rightarrow> 'a" and unit :: "'c \<Rightarrow> 'a"
  assumes unit_pt: "ok c \<Longrightarrow> pt c (unit c)"
    and add_pt: "ok c \<Longrightarrow> pt c x \<Longrightarrow> pt c y \<Longrightarrow> pt c (add c x y)"
    and add_assoc: "ok c \<Longrightarrow> pt c x \<Longrightarrow> pt c y \<Longrightarrow> pt c z \<Longrightarrow> add c (add c x y) z = add c x (add c y z)"
    and add_commute: "ok c \<Longrightarrow> pt c x \<Longrightarrow> pt c y \<Longrightarrow> add c x y = add c y x"
    and add_unit: "ok c \<Longrightarrow> pt c x \<Longrightarrow> add c x (unit c) = x"
begin

definition times :: "'c \<Rightarrow> nat \<Rightarrow> 'a \<Rightarrow> 'a" where
  "times c n x = pt_times (add c) (unit c) n x"

lemma times_simps [simp]: "times c 0 x = unit c" "times c (Suc n) x = add c x (times c n x)"
  by (simp_all add: times_def)

lemma times_pt [intro]: "ok c \<Longrightarrow> pt c x \<Longrightarrow> pt c (times c n x)"
  by (induction n) (auto intro: unit_pt add_pt)

lemma unit_add: "ok c \<Longrightarrow> pt c x \<Longrightarrow> add c (unit c) x = x"
  using add_commute add_unit unit_pt by metis

lemma times_1: "ok c \<Longrightarrow> pt c x \<Longrightarrow> times c 1 x = x"
  by (simp add: add_unit)

lemma times_add: "ok c \<Longrightarrow> pt c x \<Longrightarrow> times c (m + n) x = add c (times c m x) (times c n x)"
  by (induction m) (simp_all add: unit_add times_pt add_assoc)

lemma times_mult: "ok c \<Longrightarrow> pt c x \<Longrightarrow> times c (m * n) x = times c m (times c n x)"
  by (induction m) (simp_all add: times_add)

lemma times_unit: "ok c \<Longrightarrow> times c n (unit c) = unit c"
  by (induction n) (simp_all add: add_unit unit_pt)

lemma times_double: "ok c \<Longrightarrow> pt c x \<Longrightarrow> times c n (add c x x) = times c (2 * n) x"
  using times_mult [of c x n 2] by (simp add: mult.commute numeral_2_eq_2 add_unit)

lemma times_mod:
  assumes "ok c" "pt c x" "times c l x = unit c"
  shows "times c (n mod l) x = times c n x"
proof -
  have "times c n x = times c (n div l * l + n mod l) x" by simp
  also have "\<dots> = add c (times c (n div l) (times c l x)) (times c (n mod l) x)"
    using assms by (simp only: times_add times_mult)
  finally show ?thesis using assms by (simp add: times_unit unit_add times_pt)
qed

text \<open>One round of double-and-add: the pair of the result so far and the doubled base.\<close>

lemma double_and_add_step:
  assumes "ok c" "pt c r" "pt c x"
  shows "add c r (times c n x) = add c (if odd n then add c r x else r) (times c (n div 2) (add c x x))"
proof (cases "odd n")
  case True
  then have "n = Suc (2 * (n div 2))" by simp
  then have "times c n x = add c x (times c (n div 2) (add c x x))"
    using times_simps(2) [of c "2 * (n div 2)" x] assms by (simp add: times_double)
  then show ?thesis using True assms by (simp add: add_assoc add_pt times_pt)
next
  case False
  then show ?thesis using assms by (simp add: times_double)
qed

end

end
