(* ===== verification/BabyJub.thy ===== *)
theory BabyJub
  imports F1Field Edwards
begin

text \<open>
  The Baby Jubjub curve: packages/albus-core/src/crypto/babyjub/babyjub.ts.  A point is
  the pair of its coordinates.  The curve object is a record with the field it was
  constructed with; \<open>bj_ok\<close> says that the field is prime, that \<open>A\<close> is a square and that
  \<open>D\<close> is not, which makes the addition law complete.  The lemmas show that \<open>addPoint\<close>
  is a group law on the points of the curve, that double-and-add computes multiples,
  and that packing a point and unpacking it gives the point back.
\<close>

section \<open>The code\<close>

record babyjub =
  bj_F :: F1Field
  bj_p :: int
  pm1d2 :: int
  bj_Generator :: "int \<times> int"
  Base8 :: "int \<times> int"
  bj_order :: int
  subOrder :: int
  bj_A :: int
  bj_D :: int

text \<open>\<open>F.e(s)\<close> of a string; without a base it is never undefined.\<close>

definition e_of_string :: "F1Field \<Rightarrow> string \<Rightarrow> int js" where
  "e_of_string F s = bindJ (F1_e_string F s None) (\<lambda>r. case r of Some x \<Rightarrow> ret x | None \<Rightarrow> throw (TypeError ''undefined operand''))"

definition BabyJub_new :: "F1Field \<Rightarrow> babyjub js" where
  "BabyJub_new F =
    bindJ (BigInt_of_string ''21888242871839275222246405745257275088548364400416034343698204186575808495617'') (\<lambda>p.
    bindJ (Scalar_div (Scalar_sub p Scalar_one) 2) (\<lambda>pm1d2.
    bindJ (e_of_string F ''995203441582195749578291179787384436505546430278305826713579947235728471134'') (\<lambda>gx.
    bindJ (e_of_string F ''5472060717959818805561601436314318772137091100104008585924551046643952123905'') (\<lambda>gy.
    bindJ (e_of_string F ''5299619240641551281634865583518297030282874472190772894086521144482721001553'') (\<lambda>bx.
    bindJ (e_of_string F ''16950150798460657717958625567821834550301663161624707787222815936182638968203'') (\<lambda>by'.
    bindJ (BigInt_of_string ''21888242871839275222246405745257275088614511777268538073601725287587578984328'') (\<lambda>order.
    bindJ (e_of_string F ''168700'') (\<lambda>A.
    bindJ (e_of_string F ''168696'') (\<lambda>D.
    ret \<lparr> bj_F = F, bj_p = p, pm1d2 = pm1d2, bj_Generator = (gx, gy), Base8 = (bx, by'), bj_order = order,
      subOrder = Scalar_shiftRight order 3, bj_A = A, bj_D = D \<rparr>)))))))))"

definition addPoint :: "babyjub \<Rightarrow> int \<times> int \<Rightarrow> int \<times> int \<Rightarrow> (int \<times> int) js" where
  "addPoint B a b =
    (let F = bj_F B;
         beta = F1_mul F (fst a) (snd b);
         gamma = F1_mul F (snd a) (fst b);
         delta = F1_mul F (F1_sub F (snd a) (F1_mul F (bj_A B) (fst a))) (F1_add F (fst b) (snd b));
         tau = F1_mul F beta gamma;
         dtau = F1_mul F (bj_D B) tau
     in bindJ (F1_div F (F1_add F beta gamma) (F1_add F (F_one F) dtau)) (\<lambda>x.
        bindJ (F1_div F (F1_add F delta (F1_sub F (F1_mul F (bj_A B) beta) gamma)) (F1_sub F (F_one F) dtau)) (\<lambda>y.
        ret (x, y))))"

text \<open>The loop of \<open>mulPointEscalar\<close>; a negative \<open>rem\<close> never becomes zero.\<close>

partial_function (option) mulPoint_loop :: "babyjub \<Rightarrow> int \<times> int \<Rightarrow> int \<Rightarrow> int \<times> int \<Rightarrow> (int \<times> int) js" where
  "mulPoint_loop B res rem exp =
    (if Scalar_isZero rem then ret res
     else bindJ (if Scalar_isOdd rem then addPoint B res exp else ret res) (\<lambda>res.
          bindJ (addPoint B exp exp) (\<lambda>exp.
          mulPoint_loop B res (Scalar_shiftRight rem Scalar_one) exp)))"

definition mulPointEscalar :: "babyjub \<Rightarrow> int \<times> int \<Rightarrow> int \<Rightarrow> (int \<times> int) js" where
  "mulPointEscalar B base e =
    bindJ (e_of_string (bj_F B) ''0'') (\<lambda>x0. bindJ (e_of_string (bj_F B) ''1'') (\<lambda>y0.
    mulPoint_loop B (x0, y0) e base))"

definition inCurve :: "babyjub \<Rightarrow> int \<times> int \<Rightarrow> bool" where
  "inCurve B P =
    (let F = bj_F B; x2 = F1_square F (fst P); y2 = F1_square F (snd P) in
     F1_eq F (F1_add F (F1_mul F (bj_A B) x2) y2)
             (F1_add F (F_one F) (F1_mul F (F1_mul F x2 y2) (bj_D B))))"

definition inSubgroup :: "babyjub \<Rightarrow> int \<times> int \<Rightarrow> bool js" where
  "inSubgroup B P =
    (if \<not> inCurve B P then ret False
     else bindJ (mulPointEscalar B P (subOrder B)) (\<lambda>res.
       ret (F1_isZero (bj_F B) (fst res) \<and> F1_eq (bj_F B) (snd res) (F_one (bj_F B)))))"

definition packPoint :: "babyjub \<Rightarrow> int \<times> int \<Rightarrow> bytes js" where
  "packPoint B P =
    (let F = bj_F B in
     bindJ (F1_toRprLE F (replicate 32 0) 0 (snd P)) (\<lambda>buff.
     ret (if Scalar_gt (F1_toObject F (fst P)) (pm1d2 B) then buff[31 := buff ! 31 OR 0x80] else buff)))"

text \<open>\<open>unpackPoint\<close> clears the sign bit of the buffer it is given: the second component.\<close>

definition unpackPoint :: "babyjub \<Rightarrow> bytes \<Rightarrow> ((int \<times> int) option \<times> bytes) js" where
  "unpackPoint B buff0 =
    (let F = bj_F B;
         sign = (31 < length buff0 \<and> buff0 ! 31 AND 0x80 \<noteq> 0);
         buff = (if sign then buff0[31 := buff0 ! 31 AND 0x7F] else buff0)
     in bindJ (F1_fromRprLE F buff 0) (\<lambda>y.
        if Scalar_gt (F1_toObject F y) (bj_p B) then ret (None, buff)
        else let y2 = F1_square F y in
          bindJ (F1_div F (F1_sub F (F_one F) y2) (F1_sub F (bj_A B) (F1_mul F (bj_D B) y2))) (\<lambda>x2.
          bindJ (F1_exp F x2 (F_half F)) (\<lambda>x2h.
          if \<not> F1_eq F (F_one F) x2h then ret (None, buff)
          else bindJ (F1_sqrt F x2) (\<lambda>r. case r of
            None \<Rightarrow> ret (None, buff)
          | Some x \<Rightarrow> ret (Some (if sign then F1_neg F x else x, y), buff))))))"

section \<open>Addition is a group law\<close>

definition bj_ok :: "babyjub \<Rightarrow> bool" where
  "bj_ok B \<longleftrightarrow> F1_wf (bj_F B) \<and> in_field (bj_F B) (bj_A B) \<and> in_field (bj_F B) (bj_D B) \<and>
     ed_complete (F_p (bj_F B)) (bj_A B) (bj_D B)"

definition bj_pt :: "babyjub \<Rightarrow> int \<times> int \<Rightarrow> bool" where
  "bj_pt B P \<longleftrightarrow> in_field (bj_F B) (fst P) \<and> in_field (bj_F B) (snd P) \<and>
     ed_curve (F_p (bj_F B)) (bj_A B) (bj_D B) (fst P) (snd P)"

lemma bj_okD:
  assumes "bj_ok B"
  shows "F1_wf (bj_F B)" "in_field (bj_F B) (bj_A B)" "in_field (bj_F B) (bj_D B)"
    "ed_complete (F_p (bj_F B)) (bj_A B) (bj_D B)" "prime_modulus (F_p (bj_F B))" "1 < F_p (bj_F B)"
  using assms by (auto simp: bj_ok_def ed_complete_def F1_wf_p)

lemma frac_mod: "frac_of p (n mod p) (m mod p) u \<longleftrightarrow> frac_of p n m u"
  unfolding frac_of_def mod_eq_dvd [symmetric] by (simp add: mod_simps)

lemma F1_div_frac:
  assumes F: "F1_wf F" and p: "prime_modulus (F_p F)" and b: "\<not> F_p F dvd b"
  shows "\<exists>x. F1_div F (a mod F_p F) (b mod F_p F) = ret x \<and> in_field F x \<and> frac_of (F_p F) a b x"
proof -
  let ?p = "F_p F"
  have p0: "0 < ?p" using F1_wf_p [OF F] by simp
  have "\<not> ?p dvd b mod ?p" using b by (simp add: dvd_mod_iff)
  then have "coprime (b mod ?p) ?p" by (rule prime_modulus_coprime [OF p])
  moreover have "0 \<le> b mod ?p" using p0 by simp
  ultimately obtain i where i: "F1_inv F (b mod ?p) = ret i" "in_field F i" "b mod ?p * i mod ?p = 1"
    using F1_inv_correct [OF F] by metis
  let ?x = "(a mod ?p * i) mod ?p"
  have "?x * b mod ?p = a * (b mod ?p * i mod ?p) mod ?p"
    by (simp add: mod_simps ac_simps)
  then have "frac_of ?p a b ?x"
    using i(3) by (simp add: frac_of_def mod_eq_dvd [symmetric])
  moreover have "F1_div F (a mod ?p) (b mod ?p) = ret ?x"
    using i F p0 by (simp add: F1_div_def F1_mul_mod in_field_nonneg)
  ultimately show ?thesis using F by auto
qed

lemma F1_mod_ops:
  assumes F: "F1_wf F"
  shows "F1_mul F (a mod F_p F) (b mod F_p F) = (a * b) mod F_p F"
    "F1_add F (a mod F_p F) (b mod F_p F) = (a + b) mod F_p F"
    "F1_sub F (a mod F_p F) (b mod F_p F) = (a - b) mod F_p F"
    "F1_square F (a mod F_p F) = (a * a) mod F_p F"
    "F_one F = 1 mod F_p F"
  using F F1_wf_p [OF F]
  by (simp_all add: F1_mul_mod F1_add_mod F1_sub_mod F1_square_mod in_field_nonneg mod_simps F1_wf_simps)

lemma addPoint_sum:
  assumes B: "bj_ok B" and P: "bj_pt B P" and Q: "bj_pt B Q"
  shows "\<exists>R. addPoint B P Q = ret R \<and> in_field (bj_F B) (fst R) \<and> in_field (bj_F B) (snd R) \<and>
    ed_sum (F_p (bj_F B)) (bj_A B) (bj_D B) P Q R"
proof -
  obtain x1 y1 x2 y2 where PQ: "P = (x1, y1)" "Q = (x2, y2)" by fastforce
  define F p a d where "F = bj_F B" and "p = F_p F" and "a = bj_A B" and "d = bj_D B"
  have F: "F1_wf F" "prime_modulus p" "ed_complete p a d" and ad: "in_field F a" "in_field F d"
    using bj_okD [OF B] by (simp_all add: F_def p_def a_def d_def)
  have c: "ed_curve p a d x1 y1" "ed_curve p a d x2 y2" and r: "in_field F x1" "in_field F y1" "in_field F x2" "in_field F y2"
    using P Q PQ by (simp_all add: bj_pt_def F_def p_def a_def d_def)
  have nn: "0 \<le> x1" "0 \<le> y1" "0 \<le> x2" "0 \<le> y2" "0 \<le> a" "0 \<le> d" "\<And>z. 0 \<le> z mod p" "\<And>z. in_field F (z mod p)"
    using r ad F(1) F1_wf_p [OF F(1)] by (simp_all add: in_field_nonneg p_def)
  note f = F1_mul_mod [OF F(1), folded p_def] F1_add_mod [where F = F, folded p_def] F1_sub_mod [where F = F, folded p_def]
    F1_wf_simps [OF F(1)] in_field_0_1 [OF F(1)]
  have beta: "F1_mul F x1 y2 = (x1 * y2) mod p" and gamma: "F1_mul F y1 x2 = (y1 * x2) mod p"
    and delta: "F1_mul F (F1_sub F y1 (F1_mul F a x1)) (F1_add F x2 y2) = ((y1 - a * x1) * (x2 + y2)) mod p"
    by (simp_all add: f nn r mod_simps)
  have dtau: "F1_mul F d (F1_mul F ((x1 * y2) mod p) ((y1 * x2) mod p)) = (d * x1 * x2 * y1 * y2) mod p"
  proof -
    have "d * ((x1 * y2) * (y1 * x2)) = d * x1 * x2 * y1 * y2" by algebra
    then show ?thesis by (simp add: f nn mod_simps) (simp only: ac_simps)
  qed
  have ops: "F1_add F ((x1 * y2) mod p) ((y1 * x2) mod p) = (x1 * y2 + y1 * x2) mod p"
    "F1_add F (F_one F) ((d * x1 * x2 * y1 * y2) mod p) = (1 + d * x1 * x2 * y1 * y2) mod p"
    "F1_sub F (F_one F) ((d * x1 * x2 * y1 * y2) mod p) = (1 - d * x1 * x2 * y1 * y2) mod p"
    by (simp_all add: f nn mod_simps)
  have num: "F1_add F (((y1 - a * x1) * (x2 + y2)) mod p) (F1_sub F (F1_mul F a ((x1 * y2) mod p)) ((y1 * x2) mod p))
     = (y1 * y2 - a * x1 * x2) mod p"
  proof -
    have "(y1 - a * x1) * (x2 + y2) + (a * (x1 * y2) - y1 * x2) = y1 * y2 - a * x1 * x2" by algebra
    then show ?thesis by (simp add: f nn mod_simps)
  qed
  obtain x where x: "F1_div F ((x1 * y2 + y1 * x2) mod p) ((1 + d * x1 * x2 * y1 * y2) mod p) = ret x" "in_field F x"
      "frac_of p (x1 * y2 + y1 * x2) (1 + d * x1 * x2 * y1 * y2) x"
    using F1_div_frac [OF F(1)] F(2) ed_denominators(1) [OF F(3) c] by (metis p_def)
  obtain y where y: "F1_div F ((y1 * y2 - a * x1 * x2) mod p) ((1 - d * x1 * x2 * y1 * y2) mod p) = ret y" "in_field F y"
      "frac_of p (y1 * y2 - a * x1 * x2) (1 - d * x1 * x2 * y1 * y2) y"
    using F1_div_frac [OF F(1)] F(2) ed_denominators(2) [OF F(3) c] by (metis p_def)
  have "addPoint B P Q = ret (x, y)"
    using x(1) y(1) unfolding addPoint_def Let_def PQ fst_conv snd_conv F_def [symmetric] a_def [symmetric] d_def [symmetric]
      beta gamma delta dtau ops num by simp
  then show ?thesis using x y unfolding ed_sum_def PQ by (simp add: F_def p_def a_def d_def)
qed

definition bj_add :: "babyjub \<Rightarrow> int \<times> int \<Rightarrow> int \<times> int \<Rightarrow> int \<times> int" where
  "bj_add B P Q = (case addPoint B P Q of Some (Inr R) \<Rightarrow> R | _ \<Rightarrow> (0, 1))"

lemma bj_add_sum:
  assumes "bj_ok B" "bj_pt B P" "bj_pt B Q"
  shows "addPoint B P Q = ret (bj_add B P Q)"
    "ed_sum (F_p (bj_F B)) (bj_A B) (bj_D B) P Q (bj_add B P Q)" "bj_pt B (bj_add B P Q)"
proof -
  obtain R where R: "addPoint B P Q = ret R" "in_field (bj_F B) (fst R)" "in_field (bj_F B) (snd R)"
    "ed_sum (F_p (bj_F B)) (bj_A B) (bj_D B) P Q R"
    using addPoint_sum [OF assms] by blast
  then have e: "bj_add B P Q = R" by (simp add: bj_add_def ret_def)
  show "addPoint B P Q = ret (bj_add B P Q)" "ed_sum (F_p (bj_F B)) (bj_A B) (bj_D B) P Q (bj_add B P Q)"
    using R e by simp_all
  show "bj_pt B (bj_add B P Q)"
    using R ed_sum_curve [OF bj_okD(4) [OF assms(1)], of "fst P" "snd P" "fst Q" "snd Q" "fst R" "snd R"] assms
    by (simp add: e bj_pt_def)
qed

lemma in_field_eq: "in_field F x \<Longrightarrow> in_field F y \<Longrightarrow> F_p F dvd x - y \<Longrightarrow> x = y"
  by (metis in_field_mod_id mod_eq_dvd)

lemma ed_sum_unique:
  assumes "bj_ok B" "bj_pt B P" "bj_pt B Q" "bj_pt B R" "ed_sum (F_p (bj_F B)) (bj_A B) (bj_D B) P Q R"
  shows "bj_add B P Q = R"
proof -
  let ?p = "F_p (bj_F B)"
  let ?D = "1 + bj_D B * fst P * fst Q * snd P * snd Q" and ?E = "1 - bj_D B * fst P * fst Q * snd P * snd Q"
  have nz: "\<not> ?p dvd ?D" "\<not> ?p dvd ?E"
    using ed_denominators [OF bj_okD(4) [OF assms(1)]] assms(2,3) by (simp_all add: bj_pt_def)
  note s = bj_add_sum(2,3) [OF assms(1-3)]
  have "?p dvd fst (bj_add B P Q) - fst R" "?p dvd snd (bj_add B P Q) - snd R"
    using s(1) assms(5) frac_unique [OF bj_okD(5) [OF assms(1)], of _ ?D _ _ ?D] frac_unique [OF bj_okD(5) [OF assms(1)], of _ ?E _ _ ?E] nz
    by (auto simp: ed_sum_def split: prod.splits)
  then show ?thesis
    using s(2) assms(4) by (intro prod_eqI in_field_eq) (auto simp: bj_pt_def)
qed

interpretation bj: point_group bj_ok bj_pt bj_add "\<lambda>_. (0, 1)"
proof
  fix B :: babyjub and P Q R :: "int \<times> int"
  assume B: "bj_ok B"
  show unit: "bj_pt B (0, 1)" using bj_okD(1) [OF B] by (simp add: bj_pt_def ed_curve_def)
  show add: "bj_pt B (bj_add B P Q)" if "bj_pt B P" "bj_pt B Q" for P Q using bj_add_sum(3) [OF B that] .
  show "bj_add B P Q = bj_add B Q P" if "bj_pt B P" "bj_pt B Q"
  proof (rule ed_sum_unique [OF B that add [OF that(2,1)]])
    show "ed_sum (F_p (bj_F B)) (bj_A B) (bj_D B) P Q (bj_add B Q P)"
      using bj_add_sum(2) [OF B that(2,1)] by (auto simp: ed_sum_def ac_simps split: prod.splits)
  qed
  show "bj_add B P (0, 1) = P" if "bj_pt B P"
    by (rule ed_sum_unique [OF B that unit that]) (auto simp: ed_sum_def frac_of_def split: prod.splits)
  show "bj_add B (bj_add B P Q) R = bj_add B P (bj_add B Q R)" if "bj_pt B P" "bj_pt B Q" "bj_pt B R"
  proof -
    note c = bj_okD(4) [OF B]
    have curve: "ed_curve (F_p (bj_F B)) (bj_A B) (bj_D B) (fst X) (snd X)" if "bj_pt B X" for X
      using that by (simp add: bj_pt_def)
    note PQ = add [OF that(1,2)] and QR = add [OF that(2,3)]
    have "F_p (bj_F B) dvd fst (bj_add B (bj_add B P Q) R) - fst (bj_add B P (bj_add B Q R)) \<and>
      F_p (bj_F B) dvd snd (bj_add B (bj_add B P Q) R) - snd (bj_add B P (bj_add B Q R))"
      by (rule ed_sum_assoc [OF c curve [OF that(1)] curve [OF that(2)] curve [OF that(3)], 
        of "fst (bj_add B P Q)" "snd (bj_add B P Q)" _ _ "fst (bj_add B Q R)" "snd (bj_add B Q R)"])
        (simp_all add: bj_add_sum(2) B that PQ QR)
    then show ?thesis
      using add [OF PQ that(3)] add [OF that(1) QR] by (intro prod_eqI in_field_eq) (auto simp: bj_pt_def)
  qed
qed

section \<open>Multiples\<close>

lemma Scalar_isOdd_int: "Scalar_isOdd (int n) \<longleftrightarrow> odd n"
  by (simp add: Scalar_isOdd_def Scalar_one_def and_one_mod2 even_iff_mod_2_eq_zero) presburger

lemma mulPoint_loop_correct:
  assumes "bj_ok B"
  shows "bj_pt B r \<Longrightarrow> bj_pt B x \<Longrightarrow> mulPoint_loop B r (int n) x = ret (bj_add B r (bj.times B n x))"
proof (induction n arbitrary: r x rule: less_induct)
  case (less n)
  show ?case
  proof (cases "n = 0")
    case True
    then show ?thesis using assms less.prems by (subst mulPoint_loop.simps) (simp add: Scalar_isZero_def Scalar_zero_def bj.add_unit)
  next
    case False
    have "bindJ (if Scalar_isOdd (int n) then addPoint B r x else ret r) f = f (if odd n then bj_add B r x else r)" for f :: "int \<times> int \<Rightarrow> (int \<times> int) js"
      using bj_add_sum(1) [OF assms less.prems] by (simp add: Scalar_isOdd_int)
    moreover have "Scalar_shiftRight (int n) Scalar_one = int (n div 2)"
      by (simp add: Scalar_shiftRight_def Scalar_one_def bigint_shr_def zdiv_int)
    ultimately have "mulPoint_loop B r (int n) x = mulPoint_loop B (if odd n then bj_add B r x else r) (int (n div 2)) (bj_add B x x)"
      using False bj_add_sum(1) [OF assms less.prems(2,2)] by (subst mulPoint_loop.simps) (simp add: Scalar_isZero_def Scalar_zero_def)
    also have "\<dots> = ret (bj_add B (if odd n then bj_add B r x else r) (bj.times B (n div 2) (bj_add B x x)))"
      using False less.prems by (intro less.IH) (auto intro: bj.add_pt [OF assms])
    also have "\<dots> = ret (bj_add B r (bj.times B n x))"
      using bj.double_and_add_step [OF assms less.prems, of n] by simp
    finally show ?thesis .
  qed
qed

lemma e_of_string_0_1:
  assumes "F1_wf F"
  shows "e_of_string F ''0'' = ret 0" "e_of_string F ''1'' = ret 1"
  using F1_wf_p [OF assms]
  by (simp_all add: e_of_string_def F1_e_string_def BigInt_of_string_def Let_def trim_def is_space_def parse_digits_def
      digit_val_def digits_value_def F1_e_def)

lemma mulPointEscalar_times:
  assumes "bj_ok B" "bj_pt B P" "0 \<le> e"
  shows "mulPointEscalar B P e = ret (bj.times B (nat e) P)"
  using mulPoint_loop_correct [OF assms(1) bj.unit_pt [OF assms(1)] assms(2), of "nat e"] assms
    bj.unit_add [OF assms(1) bj.times_pt [OF assms(1,2)]]
  by (simp add: mulPointEscalar_def e_of_string_0_1 bj_okD)

lemma mulPoint_loop_returns:
  assumes "mulPoint_loop B r rem x = Some y"
  shows "bj_ok B \<longrightarrow> bj_pt B r \<longrightarrow> bj_pt B x \<longrightarrow> 0 \<le> rem"
proof (rule mulPoint_loop.raw_induct [where P = "\<lambda>B r rem x y. bj_ok B \<longrightarrow> bj_pt B r \<longrightarrow> bj_pt B x \<longrightarrow> 0 \<le> rem", OF _ assms])
  fix f B r rem x y
  assume IH: "\<And>B r rem x y. f B r rem x = Some y \<Longrightarrow> bj_ok B \<longrightarrow> bj_pt B r \<longrightarrow> bj_pt B x \<longrightarrow> 0 \<le> rem"
    and body: "(if Scalar_isZero rem then ret r
     else bindJ (if Scalar_isOdd rem then addPoint B r x else ret r) (\<lambda>res.
          bindJ (addPoint B x x) (\<lambda>exp. f B res (Scalar_shiftRight rem Scalar_one) exp))) = Some y"
  show "bj_ok B \<longrightarrow> bj_pt B r \<longrightarrow> bj_pt B x \<longrightarrow> 0 \<le> rem"
  proof (intro impI)
    assume B: "bj_ok B" "bj_pt B r" "bj_pt B x"
    show "0 \<le> rem"
    proof (cases "rem = 0")
      case False
      let ?r = "if Scalar_isOdd rem then bj_add B r x else r"
      have "f B ?r (Scalar_shiftRight rem Scalar_one) (bj_add B x x) = Some y"
        using body False bj_add_sum(1) [OF B] bj_add_sum(1) [OF B(1,3,3)]
        by (auto simp: Scalar_isZero_def Scalar_zero_def split: if_splits)
      then have "0 \<le> Scalar_shiftRight rem Scalar_one"
        using IH B bj.add_pt [OF B] bj.add_pt [OF B(1,3,3)] by (metis (full_types))
      then show ?thesis by (simp add: Scalar_shiftRight_def Scalar_one_def bigint_shr_def)
    qed simp
  qed
qed

lemma mulPointEscalar_negative:
  assumes "bj_ok B" "bj_pt B P" "e < 0"
  shows "mulPointEscalar B P e = None"
proof (cases "mulPointEscalar B P e")
  case (Some y)
  then have "mulPoint_loop B (0, 1) e P = Some y"
    by (simp add: mulPointEscalar_def e_of_string_0_1 bj_okD assms)
  then show ?thesis using mulPoint_loop_returns [of B "(0, 1)" e P y] bj.unit_pt assms by simp
qed simp

lemma inCurve_iff:
  assumes B: "bj_ok B"
  shows "inCurve B P \<longleftrightarrow> ed_curve (F_p (bj_F B)) (bj_A B) (bj_D B) (fst P) (snd P)"
proof -
  define F p a d x y where "F = bj_F B" and "p = F_p F" and "a = bj_A B" and "d = bj_D B" and "x = fst P" and "y = snd P"
  have F: "F1_wf F" and ad: "in_field F a" "in_field F d"
    using bj_okD [OF B] by (simp_all add: F_def a_def d_def)
  have nn: "0 \<le> a" "0 \<le> d" "\<And>z. 0 \<le> z mod p" "\<And>z. in_field F (z mod p)"
    using ad F F1_wf_p [OF F] by (simp_all add: in_field_nonneg p_def)
  note f = F1_mul_mod [OF F, folded p_def] F1_add_mod [where F = F, folded p_def] F1_square_mod [OF F, folded p_def]
    F1_wf_simps [OF F] in_field_0_1 [OF F]
  have "inCurve B P \<longleftrightarrow> (a * (x * x) + y * y) mod p = (1 + x * x * (y * y) * d) mod p"
    unfolding inCurve_def Let_def F_def [symmetric] a_def [symmetric] d_def [symmetric] x_def [symmetric] y_def [symmetric]
    by (simp add: f nn F1_eq_def mod_simps)
  also have "\<dots> \<longleftrightarrow> p dvd a * x^2 + y^2 - 1 - d * x^2 * y^2"
    unfolding mod_eq_dvd by (simp add: power2_eq_square algebra_simps)
  finally show ?thesis by (simp add: ed_curve_def F_def p_def a_def d_def x_def y_def)
qed

lemma bj_pt_inCurve:
  "bj_ok B \<Longrightarrow> bj_pt B P \<longleftrightarrow> in_field (bj_F B) (fst P) \<and> in_field (bj_F B) (snd P) \<and> inCurve B P"
  by (simp add: bj_pt_def inCurve_iff)

section \<open>Packed points\<close>

definition bj_codec_ok :: "babyjub \<Rightarrow> bool" where
  "bj_codec_ok B \<longleftrightarrow> bj_ok B \<and> F1_sqrt_wf (bj_F B) \<and> bj_p B = F_p (bj_F B) \<and> pm1d2 B = (F_p (bj_F B) - 1) div 2 \<and>
     F_n8 (bj_F B) = F_n64 (bj_F B) * 8 \<and> 0 < F_n8 (bj_F B) \<and> F_n8 (bj_F B) \<le> 32 \<and>
     F_p (bj_F B) \<le> 256 ^ F_n8 (bj_F B) \<and> F_p (bj_F B) < 2 ^ 255"

lemma bit_less_128: "uint (w :: 8 word) < 128 \<Longrightarrow> bit w k \<Longrightarrow> k < 7"
proof (rule ccontr)
  assume w: "uint w < 128" "bit w k" "\<not> k < 7"
  then have "k < 8" using bit_imp_le_length [of w k] by simp
  with w(3) have "k = 7" by simp
  then have "bit (uint w) 7" using w(2) by (simp add: bit_uint_iff)
  then have "odd (uint w div 2 ^ 7)" unfolding bit_iff_odd .
  moreover have "uint w div 2 ^ 7 = 0" using w(1) by (intro div_pos_pos_trivial) simp_all
  ultimately show False by simp
qed

lemma sign_bit:
  assumes "uint (w :: 8 word) < 128"
  shows "w AND 0x80 = 0" "(w OR 0x80) AND 0x80 \<noteq> 0" "(w OR 0x80) AND 0x7F = w"
proof -
  have e: "bit (0x80 :: 8 word) k \<longleftrightarrow> k = 7" for k
    using bit_exp_iff [of 7 k, where ?'a = "8 word"] by auto
  have m: "bit (0x7F :: 8 word) k \<longleftrightarrow> k < 7" for k
    using bit_mask_iff [of 7 k, where ?'a = "8 word"] bit_imp_le_length [of "0x7F :: 8 word" k]
    by (auto simp: mask_eq_exp_minus_1)
  show "w AND 0x80 = 0"
  proof (rule bit_word_eqI)
    fix n show "bit (w AND 0x80) n = bit 0 n"
      using bit_less_128 [OF assms, of n] unfolding bit_and_iff e by auto
  qed
  have "bit ((w OR 0x80) AND 0x80) 7" by (simp add: bit_and_iff bit_or_iff e)
  then show "(w OR 0x80) AND 0x80 \<noteq> 0" by (metis bit_0_eq bot_apply bot_bool_def)
  show "(w OR 0x80) AND 0x7F = w"
  proof (rule bit_word_eqI)
    fix n show "bit ((w OR 0x80) AND 0x7F) n = bit w n"
      using bit_less_128 [OF assms, of n] unfolding bit_and_iff bit_or_iff e m by auto
  qed
qed

lemma pack_bytes:
  assumes "0 \<le> y" "y < 256 ^ n" "n \<le> 32"
  shows "put_bytes (replicate 32 0) 0 (le_bytes n y) = le_bytes 32 y"
proof -
  let ?b = "put_bytes (replicate 32 0) 0 (le_bytes n y)"
  have z: "le_val (replicate k 0) = 0" for k by (induction k) simp_all
  have "?b = le_bytes n y @ replicate (32 - n) 0" using assms(3) by (simp add: put_bytes_def)
  then have "le_val ?b = y" "length ?b = 32"
    using assms by (simp_all add: le_val_append le_val_le_bytes z)
  then show ?thesis using le_bytes_le_val [of ?b] by simp
qed

lemma packPoint_bytes:
  assumes B: "bj_codec_ok B" and P: "bj_pt B P"
  shows "packPoint B P = ret (let b = le_bytes 32 (snd P) in if fst P > pm1d2 B then b[31 := b ! 31 OR 0x80] else b)"
proof -
  have "snd P < 256 ^ F_n8 (bj_F B)" "0 \<le> snd P" using B P by (auto simp: bj_codec_ok_def bj_pt_def in_field_def)
  moreover have "F_n8 (bj_F B) mod 4 = 0" "F_n8 (bj_F B) \<le> 32" "F_n64 (bj_F B) * 8 = F_n8 (bj_F B)"
    using B by (auto simp: bj_codec_ok_def)
  ultimately show ?thesis
    by (simp add: packPoint_def F1_toRprLE_def toRprLE_words pack_bytes Scalar_gt_def F1_toObject_def Let_def)
qed

lemma ed_x_denominator:
  assumes "ed_complete p a d"
  shows "\<not> p dvd a - d * y^2"
proof
  assume h: "p dvd a - d * y^2"
  obtain s where s: "prime_modulus p" "\<not> p dvd a" "p dvd s^2 - a" and ns: "\<And>t. \<not> p dvd t^2 - d"
    using assms by (auto simp: ed_complete_def)
  have "p dvd (s^2 - a) + (a - d * y^2)" using s(3) h by (rule dvd_add)
  then have "p dvd s^2 - d * y^2" by simp
  moreover have "\<not> p dvd y" using h s(2) dvd_change [OF h] by (auto simp: power2_eq_square)
  ultimately show False using square_quotient [OF s(1)] ns by blast
qed

text \<open>The quotient that unpacking takes the root of.\<close>

lemma unpack_x2:
  assumes B: "bj_ok B" and y: "0 \<le> y"
  shows "\<exists>x2. F1_div (bj_F B) (F1_sub (bj_F B) (F_one (bj_F B)) (F1_square (bj_F B) y))
      (F1_sub (bj_F B) (bj_A B) (F1_mul (bj_F B) (bj_D B) (F1_square (bj_F B) y))) = ret x2 \<and> in_field (bj_F B) x2 \<and>
    frac_of (F_p (bj_F B)) (1 - y^2) (bj_A B - bj_D B * y^2) x2"
proof -
  define F p a d where "F = bj_F B" and "p = F_p F" and "a = bj_A B" and "d = bj_D B"
  have F: "F1_wf F" "prime_modulus p" and ad: "in_field F a" "in_field F d" and c: "ed_complete p a d"
    using bj_okD [OF B] by (simp_all add: F_def p_def a_def d_def)
  have nn: "0 \<le> a" "0 \<le> d" "\<And>z. 0 \<le> z mod p" "\<And>z. in_field F (z mod p)"
    using ad F(1) F1_wf_p [OF F(1)] by (simp_all add: in_field_nonneg p_def)
  note f = F1_mul_mod [OF F(1), folded p_def] F1_sub_mod [where F = F, folded p_def] F1_square_mod [OF F(1), folded p_def]
    F1_wf_simps [OF F(1)] in_field_0_1 [OF F(1)]
  have "F1_sub F (F_one F) (F1_square F y) = (1 - y^2) mod p"
    "F1_sub F a (F1_mul F d (F1_square F y)) = (a - d * y^2) mod p"
    by (simp_all add: f nn ad mod_simps power2_eq_square)
  then show ?thesis
    using F1_div_frac [OF F(1), of "a - d * y^2" "1 - y^2"] F(2) ed_x_denominator [OF c] by (simp add: F_def p_def a_def d_def)
qed

text \<open>A root that is at most \<open>p div 2\<close> is the element or its negation.\<close>

lemma root_cases:
  assumes "prime_modulus p" "r * r mod p = x * x mod p" "0 \<le> r" "r < p" "0 \<le> x" "x < p"
  shows "r = x \<or> r = (p - x) mod p"
proof -
  have "p dvd r * r - x * x" using assms(2) by (simp add: mod_eq_dvd)
  then have "p dvd (r - x) * (r + x)" by (simp add: algebra_simps)
  then consider "p dvd r - x" | "p dvd r + x" using prime_modulus_dvd_mult [OF assms(1)] by blast
  then show ?thesis
  proof cases
    case 1
    then have "r mod p = x mod p" by (simp add: mod_eq_dvd)
    then show ?thesis using assms by simp
  next
    case 2
    then have "r mod p = (p - x) mod p" by (simp add: mod_eq_dvd)
    then show ?thesis using assms by simp
  qed
qed

lemma bj_odd: "bj_ok B \<Longrightarrow> odd (F_p (bj_F B))"
proof
  assume B: "bj_ok B" and "even (F_p (bj_F B))"
  note F = bj_okD [OF B]
  have "2 < F_p (bj_F B)" using F by (auto simp: ed_complete_def)
  then have "2 \<in> {1..<F_p (bj_F B)}" by simp
  then have "coprime 2 (F_p (bj_F B))" using F(5) unfolding prime_modulus_def by blast
  then have "is_unit (2 :: int)" by (meson \<open>even (F_p (bj_F B))\<close> coprime_common_divisor dvd_refl)
  then show False by simp
qed

lemma unpack_pack:
  assumes B: "bj_codec_ok B" and P: "bj_pt B P" and b: "packPoint B P = ret b"
  shows "unpackPoint B b = ret (if fst P = 0 then None else Some P, le_bytes 32 (snd P))" "length b = 32"
proof -
  define F p a d x y where "F = bj_F B" and "p = F_p F" and "a = bj_A B" and "d = bj_D B" and "x = fst P" and "y = snd P"
  have ok: "bj_ok B" and S: "F1_sqrt_wf F" and h: "pm1d2 B = (p - 1) div 2" "bj_p B = p"
    and n: "0 < F_n8 F" "F_n8 F \<le> 32" "F_n8 F mod 4 = 0" "p \<le> 256 ^ F_n8 F" "p < 2 ^ 255"
    using B by (auto simp: bj_codec_ok_def F_def p_def)
  have F: "F1_wf F" "prime_modulus p" "1 < p" and c: "ed_complete p a d"
    using bj_okD [OF ok] by (simp_all add: F_def p_def a_def d_def)
  have odd: "odd p" using bj_odd [OF ok] by (simp add: p_def F_def)
  have xy: "0 \<le> x" "x < p" "0 \<le> y" "y < p" "ed_curve p a d x y"
    using P by (simp_all add: bj_pt_def in_field_def F_def p_def a_def d_def x_def y_def)
  let ?c = "le_bytes 32 y"
  let ?sg = "x > (p - 1) div 2"
  have b': "b = (if ?sg then ?c[31 := ?c ! 31 OR 0x80] else ?c)"
    using b packPoint_bytes [OF B P] h by (auto simp: Let_def x_def y_def)
  then show "length b = 32" by simp
  have "y div 256 ^ 31 \<le> (2 ^ 255 - 1) div 256 ^ 31" using xy n(5) by (intro zdiv_mono1) simp_all
  then have "y div 256 ^ 31 < 128" by simp
  then have w: "uint (?c ! 31) < 128"
    using xy by (simp add: le_bytes_def uint8_word_of_int pos_imp_zdiv_nonneg_iff)
  note sb = sign_bit [OF w]
  have sgn: "(31 < length b \<and> b ! 31 AND 0x80 \<noteq> 0) \<longleftrightarrow> ?sg"
    using sb by (simp add: b')
  have buff: "(if ?sg then b[31 := b ! 31 AND 0x7F] else b) = ?c"
    using sb by (simp add: b')
  have rd: "F1_fromRprLE F ?c 0 = ret y"
  proof -
    have "take (F_n8 F) ?c = le_bytes (F_n8 F) y"
      using n(2) le_bytes_add [of "F_n8 F" "32 - F_n8 F" y] by simp
    then show ?thesis
      using n xy by (simp add: F1_fromRprLE_def fromRprLE_words le_val_le_bytes)
  qed
  obtain x2 where x2: "F1_div F (F1_sub F (F_one F) (F1_square F y)) (F1_sub F a (F1_mul F d (F1_square F y))) = ret x2"
      "in_field F x2" "frac_of p (1 - y^2) (a - d * y^2) x2"
    using unpack_x2 [OF ok xy(3)] by (auto simp: F_def p_def a_def d_def)
  have "p dvd (x * x) * (a - d * y^2) - (1 - y^2)"
    using xy(5) by (simp add: ed_curve_def algebra_simps power2_eq_square)
  then have "p dvd x2 - x * x"
    using frac_unique [OF F(2) x2(3), of "1 - y^2" "a - d * y^2" "x * x"] ed_x_denominator [OF c]
    by (simp add: frac_of_def)
  then have x2x: "x2 = x * x mod p"
    using x2(2) by (metis in_field_mod_id mod_eq_dvd p_def)
  have half: "F_half F = (p - 1) div 2" "0 < F_half F" "p - 1 = 2 * int (nat (F_half F))"
    using F odd by (auto simp: F1_wf_simps(4) simp flip: p_def elim!: oddE)
  have exp: "F1_exp F x2 (F_half F) = ret (x2 ^ nat (F_half F) mod p)"
    using F1_exp_correct [OF F(1) x2(2)] half(2) by (simp add: p_def)
  have main: "unpackPoint B b = ret (if x = 0 then None else Some (x, y), ?c)"
  proof (cases "x = 0")
    case True
    then have "x2 = 0" by (simp add: x2x)
    then have "x2 ^ nat (F_half F) mod p = 0" using half(2) by (simp add: zero_power)
    then show ?thesis
      using True x2(1) exp F xy
      unfolding unpackPoint_def Let_def sgn buff F_def [symmetric] a_def [symmetric] d_def [symmetric]
      by (simp add: rd h Scalar_gt_def F1_toObject_def F1_eq_def F1_wf_simps)
  next
    case False
    then have "\<not> p dvd x" using xy by (auto dest: zdvd_imp_le)
    then have "x2 ^ nat (F_half F) mod p = 1"
      using euler_half(2) [OF F(2) half(3)] by (simp add: x2x power_mod)
    obtain r where r: "F1_sqrt F x2 = ret r" "case r of None \<Rightarrow> \<not> (\<exists>y. y * y mod p = x2)
       | Some x \<Rightarrow> 0 \<le> x \<and> x \<le> F_half F \<and> x * x mod p = x2"
      using F1_sqrt_total [OF S, folded p_def, OF F(2) x2(2)] by blast
    then obtain z where z: "r = Some z" "0 \<le> z" "z \<le> F_half F" "z * z mod p = x2"
      using x2x by (cases r) auto
    have "z < p" using z(3) half F(3) by linarith
    have x2i: "x2 = x * x mod p" by (rule x2x)
    have "z = x \<or> z = (p - x) mod p"
      by (rule root_cases [OF F(2)]) (use z \<open>z < p\<close> xy x2i in simp_all)
    moreover have "(p - x) mod p = p - x" using xy False by (intro mod_pos_pos_trivial) simp_all
    ultimately consider "z = x" | "z = p - x" by presburger
    then have zx: "(if ?sg then F1_neg F z else z) = x"
    proof cases
      case 1
      then show ?thesis using z(3) half(1) by simp
    next
      case 2
      obtain k where k: "p = 2 * k + 1" using odd by (rule oddE)
      have "z \<le> k" using z(3) half(1) k by simp
      then have "?sg" using 2 k by simp
      have "F1_neg F z = (- (p - x)) mod p"
        using F1_neg_mod [of F z] z(2) \<open>z < p\<close> 2 by (simp add: in_field_def p_def)
      also have "\<dots> = x" using mod_eq_dvd [of "- (p - x)" p x] xy by simp
      finally show ?thesis using \<open>?sg\<close> by simp
    qed
    have one: "F1_eq F (F_one F) (x2 ^ nat (F_half F) mod p)"
      using \<open>x2 ^ nat (F_half F) mod p = 1\<close> F(1) by (simp only: F1_eq_def F1_wf_simps)
    have "\<not> Scalar_gt (F1_toObject F y) p" using xy by (simp add: Scalar_gt_def F1_toObject_def)
    then have "unpackPoint B b = ret (Some (if ?sg then F1_neg F z else z, y), ?c)"
      unfolding unpackPoint_def Let_def sgn buff F_def [symmetric] a_def [symmetric] d_def [symmetric]
      by (simp only: rd h x2(1) exp r(1) z(1) one bindJ_ret if_False not_True_eq_False option.case)
    then show ?thesis using zx False by (simp only: if_False)
  qed
  then show "unpackPoint B b = ret (if fst P = 0 then None else Some P, le_bytes 32 (snd P))"
    by (simp add: x_def y_def)
qed

section \<open>Properties\<close>

text \<open>
  C28: on a complete curve \<open>addPoint\<close> never divides by zero and is the addition of a
  commutative group: the sum of two points of the curve is a point of the curve, the two
  orders of adding two points agree, and so do the two ways of adding three.
\<close>

theorem addPoint_group:
  assumes B: "bj_ok B"
    and "bj_pt B P" "bj_pt B Q" "bj_pt B R"
  shows "\<exists>S T U. addPoint B P Q = ret S \<and> addPoint B Q P = ret S \<and> inCurve B S \<and> bj_pt B S \<and>
    addPoint B Q R = ret T \<and> addPoint B S R = ret U \<and> addPoint B P T = ret U \<and> addPoint B P (0, 1) = ret P"
proof (intro exI conjI)
  note add = bj_add_sum(1) [OF B]
  show "addPoint B P Q = ret (bj_add B P Q)" "addPoint B Q R = ret (bj_add B Q R)"
    using add assms by simp_all
  show "addPoint B Q P = ret (bj_add B P Q)" using add assms bj.add_commute [OF B] by simp
  show pt: "bj_pt B (bj_add B P Q)" using bj.add_pt assms by simp
  then show "inCurve B (bj_add B P Q)" by (simp add: bj_pt_inCurve [OF B])
  show "addPoint B (bj_add B P Q) R = ret (bj_add B P (bj_add B Q R))"
    using add [OF pt] assms bj.add_assoc [OF B] by simp
  show "addPoint B P (bj_add B Q R) = ret (bj_add B P (bj_add B Q R))"
    using add assms bj.add_pt [OF B] by simp
  show "addPoint B P (0, 1) = ret P"
    using add assms bj.unit_pt [OF B] bj.add_unit [OF B] by simp
qed

text \<open>A curve over 13 elements, with the constants of the code reduced into it.\<close>

definition BJ13 :: babyjub where
  "BJ13 = \<lparr> bj_F = F13, bj_p = 13, pm1d2 = 6, bj_Generator = (4, 6), Base8 = (4, 6), bj_order = 16, subOrder = 2, bj_A = 12, bj_D = 8 \<rparr>"

lemma BJ13_ok: "bj_ok BJ13"
proof -
  have "\<not> 13 dvd t^2 - (8 :: int)" for t
  proof -
    have "t mod 13 \<in> {0..<13}" by simp
    then have "t mod 13 \<in> set [0..12]" by (simp add: upto_aux_rec upto.simps) presburger
    then have "(t mod 13)^2 mod 13 \<noteq> 8" by (auto simp: upto.simps)
    then have "t^2 mod 13 \<noteq> 8 mod 13" by (simp add: power_mod)
    then show ?thesis using mod_eq_dvd [of "t^2" 13 8] by blast
  qed
  moreover have "(13 :: int) dvd 5^2 - 12" by simp
  ultimately have "ed_complete 13 12 8"
    unfolding ed_complete_def using prime_modulus_13 by (auto intro!: exI [of _ 5])
  moreover have "F1_wf F13" "F_p F13 = 13" by (simp_all add: F13_def F1_wf_def)
  ultimately show ?thesis by (simp add: bj_ok_def BJ13_def in_field_def)
qed

theorem addPoint_group_witness:
  "\<exists>S T U. addPoint BJ13 (2, 5) (4, 6) = ret S \<and> addPoint BJ13 (4, 6) (2, 5) = ret S \<and> inCurve BJ13 S \<and> bj_pt BJ13 S \<and>
    addPoint BJ13 (4, 6) (8, 0) = ret T \<and> addPoint BJ13 S (8, 0) = ret U \<and> addPoint BJ13 (2, 5) T = ret U \<and>
    addPoint BJ13 (2, 5) (0, 1) = ret (2, 5)"
  by (rule addPoint_group [OF BJ13_ok]) (simp_all add: bj_pt_def BJ13_def F13_def in_field_def ed_curve_def)

text \<open>
  C29: double-and-add computes the multiple of a point for every scalar that is not
  negative, and it does not return for a negative one.
\<close>

theorem mulPointEscalar_correct:
  assumes "bj_ok B" "bj_pt B P"
  shows "mulPointEscalar B P e =
    (if 0 \<le> e then ret (pt_times (bj_add B) (0, 1) (nat e) P) else None)"
  using mulPointEscalar_times [OF assms, of e] mulPointEscalar_negative [OF assms, of e] by (simp add: bj.times_def)

theorem mulPointEscalar_correct_witness:
  "mulPointEscalar BJ13 (2, 5) (-1) = None \<and> mulPointEscalar BJ13 (2, 5) 16 = ret (pt_times (bj_add BJ13) (0, 1) 16 (2, 5))"
  using mulPointEscalar_correct [OF BJ13_ok, of "(2, 5)" "-1"] mulPointEscalar_correct [OF BJ13_ok, of "(2, 5)" 16]
  by (simp add: bj_pt_def BJ13_def F13_def in_field_def ed_curve_def)

text \<open>
  a packed point takes 32 bytes and unpacks to itself, except that the points with
  \<open>x = 0\<close>, the identity among them, unpack to \<open>null\<close>; unpacking clears the sign bit of
  the buffer it was given.
\<close>

theorem packPoint_roundtrip:
  assumes "bj_codec_ok B" "bj_pt B P"
  shows "\<exists>b. packPoint B P = ret b \<and> length b = 32 \<and>
    unpackPoint B b = ret (if fst P = 0 then None else Some P, le_bytes 32 (snd P))"
  using packPoint_bytes [OF assms] unpack_pack [OF assms] by (metis (no_types, lifting))

lemma BJ13_codec_ok: "bj_codec_ok BJ13"
proof -
  have "F1_sqrt_wf F13" using F1Field_new_wf [OF F13_new prime_modulus_13] by (simp add: F13_def)
  then show ?thesis using BJ13_ok by (simp add: bj_codec_ok_def BJ13_def) (simp add: F13_def)
qed

theorem packPoint_roundtrip_witness:
  "\<exists>b. packPoint BJ13 (11, 5) = ret b \<and> length b = 32 \<and> unpackPoint BJ13 b = ret (Some (11, 5), le_bytes 32 5)"
  using packPoint_roundtrip [OF BJ13_codec_ok, of "(11, 5)"] by (simp add: bj_pt_def BJ13_def F13_def in_field_def ed_curve_def)

end
