(* ===== verification/Eddsa.thy ===== *)
theory Eddsa
  imports BabyJub Blake Poseidon CryptoUtils
begin

text \<open>
  EdDSA signatures over Baby Jubjub: packages/albus-core/src/crypto/babyjub/eddsa.ts and
  eddsa-keys.ts.  The module's curve object, hash tables, string codecs and the random
  draws of the scalar field are a record \<open>eddsa_env\<close>.  The lemmas show that a signature
  verifies under the public key of the private key that made it, and that signatures and
  keys survive their compressed, hexadecimal and base-58 forms.
\<close>

record eddsa_env =
  ee_bj :: babyjub
  ee_pos :: poseidon_env
  ee_codec :: uint8arrays
  ee_draws :: "nat \<Rightarrow> bytes"

section \<open>eddsa.ts\<close>

definition pruneBuffer :: "bytes \<Rightarrow> bytes" where
  "pruneBuffer buff =
    (let buff = buff[0 := buff ! 0 AND 0xF8];
         buff = buff[31 := buff ! 31 AND 0x7F]
     in buff[31 := buff ! 31 OR 0x40])"

definition blake512 :: "bytes \<Rightarrow> bytes js" where
  "blake512 m = bindJ (bindJ (Blake512_update Blake512_new m) Blake512_digest) (\<lambda>(h, _). ret h)"

definition prv2pub :: "eddsa_env \<Rightarrow> bytes \<Rightarrow> (int \<times> int) js" where
  "prv2pub E prv =
    bindJ (blake512 prv) (\<lambda>h.
    bindJ (Scalar_fromRprLE (pruneBuffer h) 0 32) (\<lambda>s.
    mulPointEscalar (ee_bj E) (Base8 (ee_bj E)) (Scalar_shiftRight s 3)))"

record signature =
  sg_R8 :: "int list"
  sg_S :: int

definition point_of :: "int list \<Rightarrow> int \<times> int" where "point_of l = (l ! 0, l ! 1)"

definition coords :: "int \<times> int \<Rightarrow> int list" where "coords P = [fst P, snd P]"

definition Eddsa_signPoseidon :: "eddsa_env \<Rightarrow> bytes \<Rightarrow> int \<Rightarrow> signature js" where
  "Eddsa_signPoseidon E prv msg =
    (let B = ee_bj E in
     bindJ (blake512 prv) (\<lambda>h1.
     let sBuff = pruneBuffer (take 32 h1); s = leBuff2int sBuff in
     bindJ (mulPointEscalar B (Base8 B) (Scalar_shiftRight s 3)) (\<lambda>A.
     bindJ (leInt2Buff msg (Some 32)) (\<lambda>msgBuff.
     bindJ (typed_set (replicate 64 0) 0 (take 32 (drop 32 h1))) (\<lambda>composeBuff.
     bindJ (typed_set composeBuff 32 msgBuff) (\<lambda>composeBuff.
     bindJ (blake512 composeBuff) (\<lambda>rBuff.
     bindJ (F1Field_new (subOrder B) (ee_draws E)) (\<lambda>Fr.
     let r = F1_e Fr (leBuff2int rBuff) in
     bindJ (mulPointEscalar B (Base8 B) r) (\<lambda>R8.
     bindJ (Poseidon_hash (ee_pos E) [fst R8, snd R8, fst A, snd A, msg]) (\<lambda>hm.
     ret \<lparr> sg_R8 = coords R8, sg_S = F1_add Fr r (F1_mul Fr hm s) \<rparr>))))))))))"

text \<open>That the arguments are objects and arrays is given by their types.\<close>

definition Eddsa_verifyPoseidon :: "eddsa_env \<Rightarrow> int \<Rightarrow> signature \<Rightarrow> int list \<Rightarrow> bool js" where
  "Eddsa_verifyPoseidon E msg sig A =
    (let B = ee_bj E in
     if length (sg_R8 sig) \<noteq> 2 then ret False
     else if \<not> inCurve B (point_of (sg_R8 sig)) then ret False
     else if length A \<noteq> 2 then ret False
     else if \<not> inCurve B (point_of A) then ret False
     else if sg_S sig \<ge> subOrder B then ret False
     else
       bindJ (Poseidon_hash (ee_pos E) [sg_R8 sig ! 0, sg_R8 sig ! 1, A ! 0, A ! 1, msg]) (\<lambda>hms.
       bindJ (mulPointEscalar B (Base8 B) (sg_S sig)) (\<lambda>Pleft.
       bindJ (mulPointEscalar B (point_of A) (Scalar_mul hms 8)) (\<lambda>Pright.
       bindJ (addPoint B (point_of (sg_R8 sig)) Pright) (\<lambda>Pright.
       if \<not> F1_eq (bj_F B) (fst Pleft) (fst Pright) then ret False
       else ret (F1_eq (bj_F B) (snd Pleft) (snd Pright)))))))"

definition packSignature :: "eddsa_env \<Rightarrow> signature \<Rightarrow> bytes js" where
  "packSignature E sig =
    bindJ (packPoint (ee_bj E) (point_of (sg_R8 sig))) (\<lambda>R8p.
    bindJ (typed_set (replicate 64 0) 0 R8p) (\<lambda>buff.
    Scalar_toRprLE buff 32 (sg_S sig) 32))"

definition unpackSignature :: "eddsa_env \<Rightarrow> bytes \<Rightarrow> ((int \<times> int) option \<times> int) js" where
  "unpackSignature E sigBuff =
    bindJ (unpackPoint (ee_bj E) (take 32 sigBuff)) (\<lambda>(R8, _).
    bindJ (Scalar_fromRprLE sigBuff 32 32) (\<lambda>S. ret (R8, S)))"

section \<open>eddsa-keys.ts\<close>

text \<open>\<open>toString\<close> of a byte array: its elements in decimal, separated by commas.\<close>

fun bytes_toString :: "bytes \<Rightarrow> string" where
  "bytes_toString [] = ''''"
| "bytes_toString [b] = to_radix 10 (uint b)"
| "bytes_toString (b # bs) = to_radix 10 (uint b) @ '','' @ bytes_toString bs"

definition Signature_newFromCompressed :: "eddsa_env \<Rightarrow> bytes \<Rightarrow> signature js" where
  "Signature_newFromCompressed E buf =
    (if length buf \<noteq> 64 then throw (Error ''buf must be 64 bytes'')
     else bindJ (unpackSignature E buf) (\<lambda>(R8, S). case R8 of
       None \<Rightarrow> throw (Error ''unpackSignature failed'')
     | Some P \<Rightarrow> ret \<lparr> sg_R8 = coords P, sg_S = S \<rparr>))"

definition Signature_compress :: "eddsa_env \<Rightarrow> signature \<Rightarrow> bytes js" where
  "Signature_compress E sig = packSignature E sig"

definition Signature_toString :: "eddsa_env \<Rightarrow> signature \<Rightarrow> string js" where
  "Signature_toString E sig = bindJ (Signature_compress E sig) (\<lambda>b. ret (bytes_toString b))"

definition Signature_toBase58 :: "eddsa_env \<Rightarrow> signature \<Rightarrow> string js" where
  "Signature_toBase58 E sig = bindJ (Signature_compress E sig) (\<lambda>b. ret (bytesToBase58 (ee_codec E) b))"

definition Signature_toHex :: "eddsa_env \<Rightarrow> signature \<Rightarrow> string js" where
  "Signature_toHex E sig = bindJ (Signature_compress E sig) (\<lambda>b. ret (bytesToHex (ee_codec E) b))"

text \<open>A public key is its point.\<close>

definition PublicKey_newFromCompressed :: "eddsa_env \<Rightarrow> bytes \<Rightarrow> (int \<times> int) js" where
  "PublicKey_newFromCompressed E buf =
    (if length buf \<noteq> 32 then throw (Error ''buf must be 32 bytes'')
     else bindJ (unpackPoint (ee_bj E) buf) (\<lambda>(p, _). case p of
       None \<Rightarrow> throw (Error ''unpackPoint failed'')
     | Some P \<Rightarrow> ret P))"

definition PublicKey_newFromHex :: "eddsa_env \<Rightarrow> string \<Rightarrow> (int \<times> int) js" where
  "PublicKey_newFromHex E hexStr = bindJ (hexToBytes (ee_codec E) hexStr 0) (PublicKey_newFromCompressed E)"

definition PublicKey_newFromBase58 :: "eddsa_env \<Rightarrow> string \<Rightarrow> (int \<times> int) js" where
  "PublicKey_newFromBase58 E str = bindJ (base58ToBytes (ee_codec E) str) (PublicKey_newFromCompressed E)"

definition PublicKey_compress :: "eddsa_env \<Rightarrow> int \<times> int \<Rightarrow> bytes js" where
  "PublicKey_compress E p = packPoint (ee_bj E) p"

definition PublicKey_toString :: "eddsa_env \<Rightarrow> int \<times> int \<Rightarrow> string js" where
  "PublicKey_toString E p = bindJ (PublicKey_compress E p) (\<lambda>b. ret (bytes_toString b))"

definition PublicKey_toBase58 :: "eddsa_env \<Rightarrow> int \<times> int \<Rightarrow> string js" where
  "PublicKey_toBase58 E p = bindJ (PublicKey_compress E p) (\<lambda>b. ret (bytesToBase58 (ee_codec E) b))"

definition PublicKey_toHex :: "eddsa_env \<Rightarrow> int \<times> int \<Rightarrow> string js" where
  "PublicKey_toHex E p = bindJ (PublicKey_compress E p) (\<lambda>b. ret (bytesToHex (ee_codec E) b))"

definition PublicKey_verifyPoseidon :: "eddsa_env \<Rightarrow> int \<times> int \<Rightarrow> int \<Rightarrow> signature \<Rightarrow> bool js" where
  "PublicKey_verifyPoseidon E p msg sig = Eddsa_verifyPoseidon E msg sig (coords p)"

text \<open>A private key is its bytes.\<close>

definition PrivateKey_newFromHex :: "eddsa_env \<Rightarrow> string \<Rightarrow> bytes js" where
  "PrivateKey_newFromHex E str = hexToBytes (ee_codec E) str 0"

definition PrivateKey_newFromBase58 :: "eddsa_env \<Rightarrow> string \<Rightarrow> bytes js" where
  "PrivateKey_newFromBase58 E str = base58ToBytes (ee_codec E) str"

definition PrivateKey_toString :: "bytes \<Rightarrow> string" where
  "PrivateKey_toString sk = bytes_toString sk"

definition PrivateKey_toBase58 :: "eddsa_env \<Rightarrow> bytes \<Rightarrow> string" where
  "PrivateKey_toBase58 E sk = bytesToBase58 (ee_codec E) sk"

definition PrivateKey_toHex :: "eddsa_env \<Rightarrow> bytes \<Rightarrow> string" where
  "PrivateKey_toHex E sk = bytesToHex (ee_codec E) sk"

definition PrivateKey_public :: "eddsa_env \<Rightarrow> bytes \<Rightarrow> (int \<times> int) js" where
  "PrivateKey_public E sk = prv2pub E sk"

definition PrivateKey_signPoseidon :: "eddsa_env \<Rightarrow> bytes \<Rightarrow> int \<Rightarrow> signature js" where
  "PrivateKey_signPoseidon E sk msg = bindJ (Eddsa_signPoseidon E sk msg) (\<lambda>s. ret \<lparr> sg_R8 = sg_R8 s, sg_S = sg_S s \<rparr>)"

section \<open>Signatures verify\<close>

text \<open>
  The curve is complete, the generator has the order that the code divides by, the
  scalar field can be constructed, and the hash tables have their shape.
\<close>

definition eddsa_ok :: "eddsa_env \<Rightarrow> bool" where
  "eddsa_ok E \<longleftrightarrow> bj_ok (ee_bj E) \<and> env_ok (ee_pos E) \<and> prime_modulus (subOrder (ee_bj E)) \<and>
     returns (F1Field_new (subOrder (ee_bj E)) (ee_draws E)) \<and>
     bj_pt (ee_bj E) (Base8 (ee_bj E)) \<and>
     pt_times (bj_add (ee_bj E)) (0, 1) (nat (subOrder (ee_bj E))) (Base8 (ee_bj E)) = (0, 1)"

lemma blake512_ref: "8 * length m < 2 ^ 128 \<Longrightarrow> blake512 m = ret (ref_hash m)"
proof -
  assume b: "8 * length m < 2 ^ 128"
  obtain st where "Blake512_update Blake512_new m = ret st" "absorbed m st"
    using update_absorbed [OF absorbed_new, of m] b by auto
  then show "blake512 m = ret (ref_hash m)" using digest_absorbed [OF _ b] by (simp add: blake512_def)
qed

lemma uint_clear_low: "uint (w AND 0xF8 :: 8 word) mod 8 = 0"
proof -
  have "uint (w AND 0xF8) mod 8 = take_bit 3 (uint w AND 0xF8)"
    by (simp add: uint_and take_bit_eq_mod)
  also have "\<dots> = take_bit 3 (uint w) AND take_bit 3 0xF8" by (rule take_bit_and)
  also have "\<dots> = 0" by (simp add: take_bit_eq_mod)
  finally show ?thesis .
qed

lemma prune_take:
  assumes "32 \<le> length h"
  shows "take 32 (pruneBuffer h) = pruneBuffer (take 32 h)"
  using assms by (simp add: pruneBuffer_def Let_def take_update_swap)

lemma length_prune [simp]: "length (pruneBuffer h) = length h"
  by (simp add: pruneBuffer_def Let_def)

lemma prune_multiple_8: "le_val (pruneBuffer h) mod 8 = 0"
proof (cases h)
  case (Cons b bs)
  have e: "pruneBuffer h = (b AND 0xF8) # tl (pruneBuffer h)"
    by (simp add: Cons pruneBuffer_def Let_def)
  have "le_val (pruneBuffer h) = uint (b AND 0xF8) + 8 * (32 * le_val (tl (pruneBuffer h)))"
    by (subst e) simp
  then have "le_val (pruneBuffer h) mod 8 = uint (b AND 0xF8) mod 8" by (simp only: mod_mult_self2)
  then show ?thesis by (simp only: uint_clear_low)
qed (simp add: pruneBuffer_def Let_def)

text \<open>The secret scalar of a private key.\<close>

definition secret_scalar :: "bytes \<Rightarrow> int" where
  "secret_scalar prv = le_val (pruneBuffer (take 32 (ref_hash prv)))"

lemma secret_scalar: "secret_scalar prv = 8 * (secret_scalar prv div 8)" "0 \<le> secret_scalar prv"
  using prune_multiple_8 [of "take 32 (ref_hash prv)"] le_val_nonneg by (auto simp: secret_scalar_def)

lemma prv2pub_times:
  assumes E: "bj_ok (ee_bj E)" "bj_pt (ee_bj E) (Base8 (ee_bj E))" and b: "8 * length prv < 2 ^ 128"
  shows "prv2pub E prv = ret (bj.times (ee_bj E) (nat (secret_scalar prv div 8)) (Base8 (ee_bj E)))"
proof -
  have "Scalar_fromRprLE (pruneBuffer (ref_hash prv)) 0 32 = ret (secret_scalar prv)"
    by (simp add: fromRprLE_words secret_scalar_def prune_take)
  moreover have "Scalar_shiftRight (secret_scalar prv) 3 = secret_scalar prv div 8"
    by (simp add: Scalar_shiftRight_def bigint_shr_def)
  ultimately show ?thesis
    using mulPointEscalar_times [OF E, of "secret_scalar prv div 8"] secret_scalar(2) [of prv]
    by (simp add: prv2pub_def blake512_ref [OF b] pos_imp_zdiv_nonneg_iff)
qed

text \<open>What signing returns: the nonce point, and the response modulo the order.\<close>

lemma sign_result:
  assumes E: "eddsa_ok E" and b: "8 * length prv < 2 ^ 128" and msg: "0 \<le> msg" "msg < 256 ^ 32"
  obtains r hm where "0 \<le> r" "r < subOrder (ee_bj E)" "0 \<le> hm"
    "Poseidon_hash (ee_pos E) (coords (bj.times (ee_bj E) (nat r) (Base8 (ee_bj E))) @
       coords (bj.times (ee_bj E) (nat (secret_scalar prv div 8)) (Base8 (ee_bj E))) @ [msg]) = ret hm"
    "Eddsa_signPoseidon E prv msg = ret \<lparr> sg_R8 = coords (bj.times (ee_bj E) (nat r) (Base8 (ee_bj E))),
       sg_S = (r + hm * secret_scalar prv) mod subOrder (ee_bj E) \<rparr>"
proof -
  let ?B = "ee_bj E" let ?G = "Base8 ?B" and ?l = "subOrder ?B" and ?s = "secret_scalar prv"
  let ?c = "drop 32 (ref_hash prv) @ le_bytes 32 msg"
  have B: "bj_ok ?B" "bj_pt ?B ?G" and l: "prime_modulus ?l" and P: "env_ok (ee_pos E)"
    using E by (simp_all add: eddsa_ok_def)
  obtain Fr where Fr: "F1Field_new ?l (ee_draws E) = ret Fr" "F_p Fr = ?l" "F1_wf Fr"
  proof -
    obtain Fr where "F1Field_new ?l (ee_draws E) = ret Fr"
      using E by (cases "F1Field_new ?l (ee_draws E)" rule: js_cases) (auto simp: eddsa_ok_def ret_def throw_def)
    then show ?thesis using that F1Field_new_wf [OF _ l] by blast
  qed
  define r where "r = le_val (ref_hash ?c) mod ?l"
  have l0: "1 < ?l" using Fr(2,3) F1_wf_p by metis
  have r: "0 \<le> r" "r < ?l" "F1_e Fr (le_val (ref_hash ?c)) = r"
    using l0 le_val_nonneg [of "ref_hash ?c"] Fr(2,3) by (simp_all add: r_def F1_e_cases)
  let ?A = "bj.times ?B (nat (?s div 8)) ?G" and ?R = "bj.times ?B (nat r) ?G"
  obtain hm where hm: "Poseidon_hash (ee_pos E) [fst ?R, snd ?R, fst ?A, snd ?A, msg] = ret hm" "in_field (pe_F (ee_pos E)) hm"
    using Poseidon_hash_total [OF P, of "[fst ?R, snd ?R, fst ?A, snd ?A, msg]"] by auto
  have s8: "0 \<le> ?s div 8" "Scalar_shiftRight ?s 3 = ?s div 8"
    using secret_scalar(2) [of prv] by (simp_all add: pos_imp_zdiv_nonneg_iff Scalar_shiftRight_def bigint_shr_def)
  have sb: "le_val (pruneBuffer (take 32 (ref_hash prv))) = ?s" by (simp add: secret_scalar_def)
  have h: "blake512 prv = ret (ref_hash prv)" "blake512 ?c = ret (ref_hash ?c)"
    using blake512_ref [OF b] blake512_ref [of ?c] by simp_all
  have put: "typed_set (replicate 64 0) 0 (drop 32 (ref_hash prv)) = ret (drop 32 (ref_hash prv) @ replicate 32 0)"
    "typed_set (drop 32 (ref_hash prv) @ replicate 32 0) 32 (le_bytes 32 msg) = ret ?c"
    by (simp_all add: typed_set_def put_bytes_def)
  have mA: "mulPointEscalar ?B ?G (?s div 8) = ret ?A" and mR: "mulPointEscalar ?B ?G r = ret ?R"
    using mulPointEscalar_times [OF B] s8(1) r(1) by auto
  have S: "F1_add Fr r (F1_mul Fr hm ?s) = (r + hm * ?s) mod ?l"
    using r hm(2) secret_scalar(2) [of prv] Fr l0
    by (simp add: F1_mul_mod F1_add_mod in_field_def mod_simps)
  have "Eddsa_signPoseidon E prv msg = ret \<lparr> sg_R8 = coords ?R, sg_S = (r + hm * ?s) mod ?l \<rparr>"
    using msg by (simp add: Eddsa_signPoseidon_def Let_def h sb s8(2) mA leInt2Buff_eq put leBuff2int_eq Fr(1) r(3) mR hm(1) S)
  moreover have "0 \<le> hm" using hm(2) by (simp add: in_field_def)
  ultimately show ?thesis using that r hm(1) by (simp add: coords_def)
qed

lemma point_of_coords [simp]: "point_of (coords P) = P" "length (coords P) = 2"
  by (simp_all add: point_of_def coords_def)

lemma sign_verifies:
  assumes E: "eddsa_ok E" and b: "8 * length prv < 2 ^ 128" and msg: "0 \<le> msg" "msg < 256 ^ 32"
  shows "\<exists>sig A. Eddsa_signPoseidon E prv msg = ret sig \<and> prv2pub E prv = ret A \<and> Eddsa_verifyPoseidon E msg sig (coords A) = ret True"
proof -
  let ?B = "ee_bj E" let ?G = "Base8 ?B" and ?l = "subOrder ?B" and ?s = "secret_scalar prv"
  have B: "bj_ok ?B" "bj_pt ?B ?G" and l: "prime_modulus ?l" and ord: "bj.times ?B (nat ?l) ?G = (0, 1)"
    using E by (simp_all add: eddsa_ok_def bj.times_def)
  define A where "A = bj.times ?B (nat (?s div 8)) ?G"
  have A: "prv2pub E prv = ret A" using prv2pub_times [OF B b] by (simp add: A_def)
  obtain r hm where r: "0 \<le> r" "r < ?l" "0 \<le> hm"
    and h: "Poseidon_hash (ee_pos E) (coords (bj.times ?B (nat r) ?G) @ coords A @ [msg]) = ret hm"
    and sig: "Eddsa_signPoseidon E prv msg = ret \<lparr> sg_R8 = coords (bj.times ?B (nat r) ?G), sg_S = (r + hm * ?s) mod ?l \<rparr>"
    using sign_result [OF E b msg] unfolding A_def by metis
  define R where "R = bj.times ?B (nat r) ?G"
  define S where "S = (r + hm * ?s) mod ?l"
  have l0: "0 < ?l" using prime_modulus_gt_1 [OF l] by simp
  have pts: "bj_pt ?B A" "bj_pt ?B R" using bj.times_pt [OF B] by (simp_all add: A_def R_def)
  have S: "0 \<le> S" "S < ?l" using l0 by (simp_all add: S_def)
  have "nat S = (nat r + nat hm * 8 * nat (?s div 8)) mod nat ?l"
  proof -
    define X where "X = nat r + nat hm * 8 * nat (?s div 8)"
    have "r + hm * ?s = int X"
      using r secret_scalar [of prv] by (simp add: X_def pos_imp_zdiv_nonneg_iff)
    then show ?thesis using l0 unfolding S_def X_def [symmetric] by (simp add: nat_mod_distrib)
  qed
  then have "bj.times ?B (nat S) ?G = bj.times ?B (nat r + nat hm * 8 * nat (?s div 8)) ?G"
    using bj.times_mod [OF B ord] by simp
  also have "\<dots> = bj_add ?B R (bj.times ?B (nat (hm * 8)) A)"
    using r by (simp only: bj.times_add [OF B] bj.times_mult [OF B] R_def A_def nat_mult_distrib nat_numeral)
  finally have eq: "bj.times ?B (nat S) ?G = bj_add ?B R (bj.times ?B (nat (hm * 8)) A)" .
  have m: "mulPointEscalar ?B ?G S = ret (bj.times ?B (nat S) ?G)" "mulPointEscalar ?B A (hm * 8) = ret (bj.times ?B (nat (hm * 8)) A)"
    using mulPointEscalar_times [OF B S(1)] mulPointEscalar_times [OF B(1) pts(1), of "hm * 8"] r by simp_all
  have "addPoint ?B R (bj.times ?B (nat (hm * 8)) A) = ret (bj.times ?B (nat S) ?G)"
    using bj_add_sum(1) [OF B(1) pts(2) bj.times_pt [OF B(1) pts(1)]] eq by simp
  then have "Eddsa_verifyPoseidon E msg \<lparr> sg_R8 = coords R, sg_S = S \<rparr> (coords A) = ret True"
    using pts S(2) h m unfolding Eddsa_verifyPoseidon_def Let_def R_def [symmetric]
    by (simp add: bj_pt_inCurve [OF B(1)] Scalar_mul_def F1_eq_def) (simp add: coords_def F1_eq_def)
  then show ?thesis using A sig by (simp add: R_def S_def)
qed

section \<open>Compressed forms\<close>

definition sig_ok :: "eddsa_env \<Rightarrow> signature \<Rightarrow> bool" where
  "sig_ok E sig \<longleftrightarrow> length (sg_R8 sig) = 2 \<and> bj_pt (ee_bj E) (point_of (sg_R8 sig)) \<and> sg_R8 sig ! 0 \<noteq> 0 \<and>
     0 \<le> sg_S sig \<and> sg_S sig < 256 ^ 32"

lemma coords_point_of: "length l = 2 \<Longrightarrow> coords (point_of l) = l"
  by (auto simp: numeral_2_eq_2 length_Suc_conv coords_def point_of_def)

lemma signature_bytes:
  assumes B: "bj_codec_ok (ee_bj E)" and s: "sig_ok E sig"
  shows "\<exists>b. Signature_compress E sig = ret b \<and> length b = 64 \<and> Signature_newFromCompressed E b = ret sig"
proof -
  let ?P = "point_of (sg_R8 sig)"
  have P: "bj_pt (ee_bj E) ?P" "fst ?P \<noteq> 0" and S: "0 \<le> sg_S sig" "sg_S sig < 256 ^ 32" and l: "length (sg_R8 sig) = 2"
    using s by (auto simp: sig_ok_def point_of_def)
  obtain p where p: "packPoint (ee_bj E) ?P = ret p" "length p = 32" "unpackPoint (ee_bj E) p = ret (Some ?P, le_bytes 32 (snd ?P))"
    using unpack_pack [OF B P(1)] packPoint_bytes [OF B P(1)] P(2) by auto
  let ?b = "p @ le_bytes 32 (sg_S sig)"
  have "Signature_compress E sig = ret ?b"
    using p S by (simp add: Signature_compress_def packSignature_def typed_set_def toRprLE_words put_bytes_def)
  moreover have "Scalar_fromRprLE ?b 32 32 = ret (sg_S sig)"
    using p S by (simp add: fromRprLE_words le_val_le_bytes)
  then have "Signature_newFromCompressed E ?b = ret sig"
    using p l by (simp add: Signature_newFromCompressed_def unpackSignature_def coords_point_of)
  ultimately show ?thesis using p by simp
qed

lemma publicKey_bytes:
  assumes B: "bj_codec_ok (ee_bj E)" and P: "bj_pt (ee_bj E) P" "fst P \<noteq> 0"
  shows "\<exists>b. PublicKey_compress E P = ret b \<and> length b = 32 \<and> PublicKey_newFromCompressed E b = ret P"
  using unpack_pack [OF B P(1)] packPoint_bytes [OF B P(1)] P(2)
  by (auto simp: PublicKey_compress_def PublicKey_newFromCompressed_def)


section \<open>Witnesses\<close>

text \<open>A curve over 17 elements of order 24, and the generator of its points of order 3.\<close>

definition BJ17 :: babyjub where
  "BJ17 = \<lparr> bj_F = F13\<lparr> F_p := 17, F_negone := 16, F_half := 8 \<rparr>, bj_p = 17, pm1d2 = 8, bj_Generator = (3, 13),
     Base8 = (3, 13), bj_order = 24, subOrder = 3, bj_A = 1, bj_D = 3 \<rparr>"

definition E17 :: eddsa_env where
  "E17 = \<lparr> ee_bj = BJ17, ee_pos = env13, ee_codec = plain_codec, ee_draws = draws2 \<rparr>"

lemma BJ17_ok: "bj_ok BJ17"
proof -
  have pr: "prime_modulus 17" by code_simp
  have "\<not> 17 dvd t^2 - (3 :: int)" for t
  proof -
    have "t mod 17 \<in> {0..<17}" by simp
    then have "t mod 17 \<in> set [0..16]" by (simp add: upto_aux_rec upto.simps) presburger
    then have "(t mod 17)^2 mod 17 \<noteq> 3" by (auto simp: upto.simps)
    then have "t^2 mod 17 \<noteq> 3 mod 17" by (simp add: power_mod)
    then show ?thesis using mod_eq_dvd [of "t^2" 17 3] by blast
  qed
  moreover have "(17 :: int) dvd 1^2 - 1" by simp
  ultimately have "ed_complete 17 1 3"
    unfolding ed_complete_def using pr by (auto intro!: exI [of _ 1])
  then show ?thesis by (simp add: bj_ok_def BJ17_def in_field_def F13_def F1_wf_def)
qed

lemma BJ17_sel [simp]:
  "F_p (bj_F BJ17) = 17" "bj_A BJ17 = 1" "bj_D BJ17 = 3" "Base8 BJ17 = (3, 13)" "subOrder BJ17 = 3"
  by (simp_all add: BJ17_def)

lemma BJ17_pt: "bj_pt BJ17 (0, 1)" "bj_pt BJ17 (3, 13)" "bj_pt BJ17 (14, 13)"
  by (simp_all add: bj_pt_def in_field_def ed_curve_def)

lemma BJ17_order: "pt_times (bj_add BJ17) (0, 1) 3 (3, 13) = (0, 1)"
proof -
  have "bj_add BJ17 (3, 13) (0, 1) = (3, 13)"
    by (rule ed_sum_unique [OF BJ17_ok BJ17_pt(2,1,2)]) (simp add: ed_sum_def frac_of_def)
  moreover have "bj_add BJ17 (3, 13) (3, 13) = (14, 13)"
    by (rule ed_sum_unique [OF BJ17_ok BJ17_pt(2,2,3)]) (simp add: ed_sum_def frac_of_def)
  moreover have "bj_add BJ17 (3, 13) (14, 13) = (0, 1)"
    by (rule ed_sum_unique [OF BJ17_ok BJ17_pt(2,3,1)]) (simp add: ed_sum_def frac_of_def)
  ultimately show ?thesis by (simp add: numeral_3_eq_3)
qed

lemma F3_new: "returns (F1Field_new 3 draws2)"
proof -
  have bl: "Scalar_bitLength 3 = Some 2" by code_simp
  have draw: "take n (draws2 i) = (if n = 0 then [] else [2])" for n i by (simp add: draws2_def)
  show ?thesis
    unfolding F1Field_new_def bl option.case
    by (simp add: F1Field_init_def Let_def F1_e_def smod_nonneg bigint_shl_def bigint_shr_def F1_inv_def inv_loop.simps
      sdiv_nonneg F1_pow_def F1_exp_correct F1_wf_def in_field_def nqr_loop.simps F1_eq_def odd_part.simps and_one_mod2
      tonelliShanks_def sqrt_odd_part.simps Scalar_one_def Scalar_zero_def Scalar_pow_def bigint_pow_def Scalar_isOdd_def Scalar_sub_def
      Scalar_div_def bigint_div_def sqrt_z_loop.simps F1_random_def random_count_def draw F1_square_def)
      (simp add: ret_def)
qed

lemma E17_ok: "eddsa_ok E17"
proof -
  have "prime_modulus 3" by code_simp
  then show ?thesis
    using BJ17_ok env13_ok F3_new BJ17_pt(2) BJ17_order by (simp add: eddsa_ok_def E17_def)
qed

section \<open>Properties\<close>

text \<open>
  C3: a signature that \<open>signPoseidon\<close> makes of a 256-bit message is accepted by
  \<open>verifyPoseidon\<close> under the public key that \<open>prv2pub\<close> derives from the same private key,
  for private keys of any length; both calls return.
\<close>

theorem eddsa_sign_verify:
  assumes "eddsa_ok E" "8 * length prv < 2 ^ 128" "0 \<le> msg" "msg < 2 ^ 256"
  shows "\<exists>sig A. PrivateKey_signPoseidon E prv msg = ret sig \<and> PrivateKey_public E prv = ret A \<and>
    PublicKey_verifyPoseidon E A msg sig = ret True"
proof -
  have "msg < 256 ^ 32" using assms(4) by simp
  then obtain sig A where "Eddsa_signPoseidon E prv msg = ret sig" "prv2pub E prv = ret A"
      "Eddsa_verifyPoseidon E msg sig (coords A) = ret True"
    using sign_verifies [OF assms(1-3)] by blast
  moreover have eta: "\<lparr> sg_R8 = sg_R8 sig, sg_S = sg_S sig \<rparr> = sig" by (cases sig) simp
  ultimately show ?thesis
    unfolding PrivateKey_signPoseidon_def PrivateKey_public_def PublicKey_verifyPoseidon_def
    by (intro exI [of _ sig] exI [of _ A]) (simp only: bindJ_ret eta)
qed

theorem eddsa_sign_verify_witness:
  "\<exists>sig A. PrivateKey_signPoseidon E17 [1, 2, 3] 42 = ret sig \<and> PrivateKey_public E17 [1, 2, 3] = ret A \<and>
    PublicKey_verifyPoseidon E17 A 42 sig = ret True"
  by (rule eddsa_sign_verify [OF E17_ok]) simp_all

text \<open>
  C32: \<open>verifyPoseidon\<close> rejects a signature whose response is not below the order of the
  subgroup, and one whose nonce point or key is off the curve, without computing with
  them; for a negative response, which it does not reject, it does not return.
\<close>

theorem eddsa_verify_guards:
  assumes "eddsa_ok E" "length (sg_R8 sig) = 2" "length A = 2"
  shows "if \<not> inCurve (ee_bj E) (point_of (sg_R8 sig)) \<or> \<not> inCurve (ee_bj E) (point_of A) \<or> sg_S sig \<ge> subOrder (ee_bj E)
    then Eddsa_verifyPoseidon E msg sig A = ret False
    else sg_S sig < 0 \<longrightarrow> Eddsa_verifyPoseidon E msg sig A = None"
proof (cases "\<not> inCurve (ee_bj E) (point_of (sg_R8 sig)) \<or> \<not> inCurve (ee_bj E) (point_of A) \<or> sg_S sig \<ge> subOrder (ee_bj E)")
  case True
  then show ?thesis using assms(2,3) by (auto simp: Eddsa_verifyPoseidon_def Let_def)
next
  case False
  obtain hm where "Poseidon_hash (ee_pos E) [sg_R8 sig ! 0, sg_R8 sig ! 1, A ! 0, A ! 1, msg] = ret hm"
    using Poseidon_hash_total [of "ee_pos E" "[sg_R8 sig ! 0, sg_R8 sig ! 1, A ! 0, A ! 1, msg]"] assms(1)
    by (auto simp: eddsa_ok_def)
  moreover have "mulPointEscalar (ee_bj E) (Base8 (ee_bj E)) (sg_S sig) = None" if "sg_S sig < 0"
    using mulPointEscalar_negative that assms(1) by (simp add: eddsa_ok_def)
  ultimately show ?thesis
    using assms(2,3) False by (auto simp: Eddsa_verifyPoseidon_def Let_def)
qed

theorem eddsa_verify_guards_witness:
  "Eddsa_verifyPoseidon E17 7 \<lparr> sg_R8 = [3, 13], sg_S = 3 \<rparr> [14, 13] = ret False \<and>
   Eddsa_verifyPoseidon E17 7 \<lparr> sg_R8 = [3, 13], sg_S = -1 \<rparr> [14, 13] = None"
proof -
  have "inCurve BJ17 (3, 13)" "inCurve BJ17 (14, 13)"
    using BJ17_pt by (simp_all add: bj_pt_inCurve [OF BJ17_ok])
  then show ?thesis
    using eddsa_verify_guards [OF E17_ok, of "\<lparr> sg_R8 = [3, 13], sg_S = 3 \<rparr>" "[14, 13]" 7]
      eddsa_verify_guards [OF E17_ok, of "\<lparr> sg_R8 = [3, 13], sg_S = -1 \<rparr>" "[14, 13]" 7]
    by (simp add: E17_def point_of_def)
qed

text \<open>
  a signature and a public key whose points have \<open>x \<noteq> 0\<close> are read back from their
  compressed bytes, and a key also from its hexadecimal and base-58 strings.
\<close>

theorem eddsa_keys_roundtrip:
  assumes "bj_codec_ok (ee_bj E)" "codec_ok (ee_codec E)" "sig_ok E sig" "bj_pt (ee_bj E) P" "fst P \<noteq> 0"
  shows "bindJ (Signature_compress E sig) (Signature_newFromCompressed E) = ret sig \<and>
    bindJ (PublicKey_toHex E P) (PublicKey_newFromHex E) = ret P \<and>
    bindJ (PublicKey_toBase58 E P) (PublicKey_newFromBase58 E) = ret P"
proof (intro conjI)
  show "bindJ (Signature_compress E sig) (Signature_newFromCompressed E) = ret sig"
    using signature_bytes [OF assms(1,3)] by auto
  obtain b where b: "PublicKey_compress E P = ret b" "PublicKey_newFromCompressed E b = ret P"
    using publicKey_bytes [OF assms(1,4,5)] by blast
  show "bindJ (PublicKey_toHex E P) (PublicKey_newFromHex E) = ret P"
    using b hex_bytes_roundtrip [OF assms(2)] by (simp add: PublicKey_toHex_def PublicKey_newFromHex_def)
  show "bindJ (PublicKey_toBase58 E P) (PublicKey_newFromBase58 E) = ret P"
    using b assms(2) by (simp add: PublicKey_toBase58_def PublicKey_newFromBase58_def base58ToBytes_def bytesToBase58_def codec_ok_def)
qed

theorem eddsa_keys_roundtrip_witness:
  "bindJ (Signature_compress (E17\<lparr> ee_bj := BJ13 \<rparr>) \<lparr> sg_R8 = [2, 5], sg_S = 9 \<rparr>) (Signature_newFromCompressed (E17\<lparr> ee_bj := BJ13 \<rparr>))
     = ret \<lparr> sg_R8 = [2, 5], sg_S = 9 \<rparr> \<and>
   bindJ (PublicKey_toHex (E17\<lparr> ee_bj := BJ13 \<rparr>) (11, 5)) (PublicKey_newFromHex (E17\<lparr> ee_bj := BJ13 \<rparr>)) = ret (11, 5) \<and>
   bindJ (PublicKey_toBase58 (E17\<lparr> ee_bj := BJ13 \<rparr>) (11, 5)) (PublicKey_newFromBase58 (E17\<lparr> ee_bj := BJ13 \<rparr>)) = ret (11, 5)"
proof -
  have pt: "bj_pt BJ13 (2, 5)" "bj_pt BJ13 (11, 5)" by (simp_all add: bj_pt_def BJ13_def F13_def in_field_def ed_curve_def)
  show ?thesis
    by (rule eddsa_keys_roundtrip) (simp_all add: E17_def BJ13_codec_ok plain_codec_ok sig_ok_def point_of_def pt)
qed

end
