(* ===== verification/Zkp.thy ===== *)
theory Zkp
  imports Eddsa
begin

text \<open>
  The zero-knowledge proof helpers: packages/albus-core/src/zkp.ts.  Proofs, verifying
  keys and public signals are turned from the form of snarkjs, bigints and decimal
  strings, into byte arrays and back; the proof system itself, the network and the
  random bytes are not under src, and only the last of them appears here, as the stream
  of drawn byte strings.  The lemmas show the round trips, that the shared key of a
  Diffie-Hellman exchange is the same on both sides, and that the random value is drawn
  without bias.
\<close>

definition BN128_GROUP_ORDER :: int where
  "BN128_GROUP_ORDER = 21888242871839275222246405745257275088548364400416034343698204186575808495617"

definition BN128_PRIME_FIELD :: int where
  "BN128_PRIME_FIELD = 21888242871839275222246405745257275088696311157297823662689037894645226208583"

section \<open>Points, proofs and keys\<close>

definition altBn128G1Neg :: "uint8arrays \<Rightarrow> (nat \<Rightarrow> bytes) \<Rightarrow> bytes \<Rightarrow> bytes js" where
  "altBn128G1Neg U draws p =
    bindJ (F1Field_new BN128_PRIME_FIELD draws) (\<lambda>F.
    bindJ (bytesToBigInt U (drop 32 p)) (\<lambda>y.
    bindJ (bigintToBytes U (F1_neg F y) 32) (\<lambda>b.
    ret (take 32 p @ b))))"

definition finiteToBytes :: "bigint_arg \<Rightarrow> nat \<Rightarrow> bytes js" where
  "finiteToBytes n len = bindJ (BigInt_arg n) (\<lambda>n. leInt2Buff n (Some len))"

definition bytesToFinite :: "bytes \<Rightarrow> int" where
  "bytesToFinite bs = leBuff2int bs"

definition encodeG1 :: "bigint_arg list \<Rightarrow> bytes js" where
  "encodeG1 p =
    bindJ (mapJ BigInt_arg p) (\<lambda>ns.
    bindJ (foldJ (\<lambda>a b. bindJ (finiteToBytes (Arg_int b) 32) (\<lambda>bs. ret (a @ rev bs))) [] ns) (\<lambda>bs.
    ret (take 64 bs)))"

definition encodeG2 :: "(bigint_arg \<times> bigint_arg) list \<Rightarrow> bytes js" where
  "encodeG2 p =
    bindJ (foldJ (\<lambda>a b. bindJ (finiteToBytes (fst b) 32) (\<lambda>x. bindJ (finiteToBytes (snd b) 32) (\<lambda>y.
             ret (a @ rev (x @ y))))) [] p) (\<lambda>bs.
    ret (take 128 bs))"

definition decodeG1 :: "bytes \<Rightarrow> int list js" where
  "decodeG1 bs =
    (if length bs < 64 then throw (Error ''G1 point must be 64 long'')
     else ret [bytesToFinite (rev (take 32 bs)), bytesToFinite (rev (take 32 (drop 32 bs))), 1])"

text \<open>The loop over chunks of 64 bytes.\<close>

function decodeG2_loop :: "bytes \<Rightarrow> (int \<times> int) list" where
  "decodeG2_loop bs =
    (if bs = [] then []
     else let chunk = rev (take 64 bs) in
       (bytesToFinite (take 32 chunk), bytesToFinite (take 32 (drop 32 chunk))) # decodeG2_loop (drop 64 bs))"
  by pat_completeness auto
termination by (relation "measure length") auto

declare decodeG2_loop.simps [simp del]

definition decodeG2 :: "bytes \<Rightarrow> (int \<times> int) list js" where
  "decodeG2 bs =
    (if length bs < 128 then throw (Error ''G2 point must be 128 long'')
     else ret (decodeG2_loop bs @ [(1, 0)]))"

record proof_data =
  pd_curve :: string
  pd_protocol :: string
  pi_a :: "bigint_arg list"
  pi_b :: "(bigint_arg \<times> bigint_arg) list"
  pi_c :: "bigint_arg list"

record proof_bytes =
  pb_a :: bytes
  pb_b :: bytes
  pb_c :: bytes

definition int_args :: "int list \<Rightarrow> bigint_arg list" where "int_args = map Arg_int"

definition int_arg_pairs :: "(int \<times> int) list \<Rightarrow> (bigint_arg \<times> bigint_arg) list" where
  "int_arg_pairs = map (\<lambda>(x, y). (Arg_int x, Arg_int y))"

definition encodeProof :: "uint8arrays \<Rightarrow> (nat \<Rightarrow> bytes) \<Rightarrow> proof_data \<Rightarrow> proof_bytes js" where
  "encodeProof U draws payload =
    bindJ (encodeG1 (pi_a payload)) (\<lambda>a.
    bindJ (altBn128G1Neg U draws a) (\<lambda>a.
    bindJ (encodeG2 (pi_b payload)) (\<lambda>b.
    bindJ (encodeG1 (pi_c payload)) (\<lambda>c.
    ret \<lparr> pb_a = a, pb_b = b, pb_c = c \<rparr>))))"

definition decodeProof :: "uint8arrays \<Rightarrow> (nat \<Rightarrow> bytes) \<Rightarrow> proof_bytes \<Rightarrow> proof_data js" where
  "decodeProof U draws pr =
    bindJ (altBn128G1Neg U draws (pb_a pr)) (\<lambda>a.
    bindJ (decodeG1 a) (\<lambda>a.
    bindJ (decodeG2 (pb_b pr)) (\<lambda>b.
    bindJ (decodeG1 (pb_c pr)) (\<lambda>c.
    ret \<lparr> pd_curve = ''bn128'', pd_protocol = ''groth16'', pi_a = int_args a, pi_b = int_arg_pairs b, pi_c = int_args c \<rparr>))))"

definition encodePublicSignals :: "bigint_arg list \<Rightarrow> bytes list js" where
  "encodePublicSignals publicSignals = mapJ (\<lambda>s. bindJ (finiteToBytes s 32) (\<lambda>b. ret (rev b))) publicSignals"

text \<open>\<open>s.reverse()\<close> reverses the arrays of the argument in place: the second component.\<close>

definition decodePublicSignals :: "bytes list \<Rightarrow> int list \<times> bytes list" where
  "decodePublicSignals publicSignals = (map (\<lambda>s. bytesToFinite (rev s)) publicSignals, map rev publicSignals)"

record vk_data =
  vk_curve :: string
  vk_protocol :: string
  vk_nPublic :: int
  vk_alpha_1 :: "bigint_arg list"
  vk_beta_2 :: "(bigint_arg \<times> bigint_arg) list"
  vk_gamma_2 :: "(bigint_arg \<times> bigint_arg) list"
  vk_delta_2 :: "(bigint_arg \<times> bigint_arg) list"
  vk_IC :: "bigint_arg list list"

record vk_bytes =
  vb_curve :: string
  vb_nPublic :: string
  vb_alpha :: bytes
  vb_beta :: bytes
  vb_gamma :: bytes
  vb_delta :: bytes
  vb_ic :: "bytes list"

definition encodeVerifyingKey :: "vk_data \<Rightarrow> vk_bytes js" where
  "encodeVerifyingKey d =
    bindJ (encodeG1 (vk_alpha_1 d)) (\<lambda>alpha.
    bindJ (encodeG2 (vk_beta_2 d)) (\<lambda>beta.
    bindJ (encodeG2 (vk_gamma_2 d)) (\<lambda>gamma.
    bindJ (encodeG2 (vk_delta_2 d)) (\<lambda>delta.
    bindJ (mapJ encodeG1 (vk_IC d)) (\<lambda>ic.
    ret \<lparr> vb_curve = vk_curve d, vb_nPublic = to_radix 10 (vk_nPublic d), vb_alpha = alpha, vb_beta = beta,
      vb_gamma = gamma, vb_delta = delta, vb_ic = ic \<rparr>)))))"

text \<open>The optional \<open>curve\<close> and \<open>protocol\<close> are further arguments.\<close>

definition decodeVerifyingKey :: "vk_bytes \<Rightarrow> string option \<Rightarrow> string option \<Rightarrow> vk_data js" where
  "decodeVerifyingKey d curve protocol =
    bindJ (decodeG1 (vb_alpha d)) (\<lambda>alpha.
    bindJ (decodeG2 (vb_beta d)) (\<lambda>beta.
    bindJ (decodeG2 (vb_gamma d)) (\<lambda>gamma.
    bindJ (decodeG2 (vb_delta d)) (\<lambda>delta.
    bindJ (mapJ decodeG1 (vb_ic d)) (\<lambda>ic.
    ret \<lparr> vk_curve = (case curve of Some c \<Rightarrow> c | None \<Rightarrow> ''bn128''),
      vk_protocol = (case protocol of Some p \<Rightarrow> p | None \<Rightarrow> ''groth16''),
      vk_nPublic = int (length (vb_ic d)) - 1, vk_alpha_1 = int_args alpha, vk_beta_2 = int_arg_pairs beta,
      vk_gamma_2 = int_arg_pairs gamma, vk_delta_2 = int_arg_pairs delta, vk_IC = map int_args ic \<rparr>)))))"

section \<open>Keys and random values\<close>

definition formatPrivKeyForBabyJub :: "bytes \<Rightarrow> int js" where
  "formatPrivKeyForBabyJub prv =
    bindJ (blake512 prv) (\<lambda>h.
    bindJ (Scalar_fromRprLE (pruneBuffer h) 0 32) (\<lambda>s. ret (Scalar_shiftRight s 3)))"

text \<open>The private key is the 64-byte secret key of a given or a generated key pair.\<close>

definition getBabyJubPrivateKey :: "bytes option \<Rightarrow> bytes \<Rightarrow> bytes" where
  "getBabyJubPrivateKey secretKey generated = (case secretKey of Some k \<Rightarrow> k | None \<Rightarrow> generated)"

definition generateEcdhSharedKey :: "eddsa_env \<Rightarrow> bytes \<Rightarrow> int \<times> int \<Rightarrow> (int \<times> int) js" where
  "generateEcdhSharedKey E privKey pubKey =
    bindJ (formatPrivKeyForBabyJub privKey) (\<lambda>e. mulPointEscalar (ee_bj E) pubKey e)"

definition packPubkey :: "eddsa_env \<Rightarrow> int \<times> int \<Rightarrow> bytes js" where
  "packPubkey E pubkey = packPoint (ee_bj E) pubkey"

definition unpackPubkey :: "eddsa_env \<Rightarrow> bytes \<Rightarrow> ((int \<times> int) option \<times> bytes) js" where
  "unpackPubkey E packed = unpackPoint (ee_bj E) packed"

definition random_min :: int where
  "random_min = 6350874878119819312338956282401532410528162663560392320966563075034087161851"

partial_function (option) random_loop :: "uint8arrays \<Rightarrow> (nat \<Rightarrow> bytes) \<Rightarrow> nat \<Rightarrow> int js" where
  "random_loop U draws i =
    bindJ (bytesToBigInt U (draws i)) (\<lambda>rand.
    if rand \<ge> random_min then ret rand else random_loop U draws (i + 1))"

definition genRandomBabyJubValue :: "uint8arrays \<Rightarrow> (nat \<Rightarrow> bytes) \<Rightarrow> int js" where
  "genRandomBabyJubValue U draws = bindJ (random_loop U draws 0) (\<lambda>rand. bigint_rem rand BN128_GROUP_ORDER)"

section \<open>Round trips\<close>

definition fits :: "int \<Rightarrow> bool" where "fits n \<longleftrightarrow> 0 \<le> n \<and> n < 256 ^ 32"

lemma finiteToBytes_fits: "fits n \<Longrightarrow> finiteToBytes (Arg_int n) 32 = ret (le_bytes 32 n)"
  by (simp add: finiteToBytes_def leInt2Buff_eq fits_def)

lemma bytesToFinite_le: "fits n \<Longrightarrow> bytesToFinite (le_bytes 32 n) = n"
  by (simp add: bytesToFinite_def leBuff2int_eq le_val_le_bytes fits_def)

text \<open>An argument that denotes a number of at most 32 bytes.\<close>

definition denotes :: "bigint_arg \<Rightarrow> int \<Rightarrow> bool" where
  "denotes v n \<longleftrightarrow> BigInt_arg v = ret n \<and> fits n"

lemma finiteToBytes_denotes: "denotes v n \<Longrightarrow> finiteToBytes v 32 = ret (le_bytes 32 n)"
  by (simp add: finiteToBytes_def leInt2Buff_eq fits_def denotes_def)

lemma encodeG1_bytes:
  assumes "denotes x a" "denotes y b" "list_all2 denotes zs cs"
  shows "encodeG1 (x # y # zs) = ret (be_bytes 32 a @ be_bytes 32 b)"
proof -
  have m: "mapJ BigInt_arg zs = ret cs"
    using assms(3) by (induction zs cs rule: list_all2_induct) (simp_all add: denotes_def)
  have f: "\<exists>r. foldJ (\<lambda>a b. bindJ (finiteToBytes (Arg_int b) 32) (\<lambda>bs. ret (a @ rev bs))) acc cs = ret (acc @ r)" for acc
    using assms(3)
  proof (induction zs cs arbitrary: acc rule: list_all2_induct)
    case (Cons z zs c cs)
    then have "fits c" by (simp add: denotes_def)
    then show ?case using Cons.IH [of "acc @ rev (le_bytes 32 c)"] by (auto simp: finiteToBytes_fits)
  qed simp
  have "fits a" "fits b" "BigInt_arg x = ret a" "BigInt_arg y = ret b" using assms by (simp_all add: denotes_def)
  then show ?thesis
    using f [of "be_bytes 32 a @ be_bytes 32 b"]
    by (auto simp: encodeG1_def m finiteToBytes_fits be_bytes_def [symmetric])
qed

lemma decodeG1_bytes: "fits a \<Longrightarrow> fits b \<Longrightarrow> decodeG1 (be_bytes 32 a @ be_bytes 32 b) = ret [a, b, 1]"
  by (simp add: decodeG1_def be_bytes_def bytesToFinite_le)
lemma tonelliShanks_frame:
  assumes "tonelliShanks G draws = ret H"
  shows "F_p H = F_p G \<and> F_zero H = F_zero G \<and> F_one H = F_one G \<and> F_negone H = F_negone G \<and> F_half H = F_half G"
  using assms by (auto simp: tonelliShanks_def Let_def bindJ_eq_ret split: prod.splits)

lemma F1Field_new_frame:
  assumes r: "F1Field_new p draws = ret F"
  shows "F_p F = p \<and> F1_wf F"
proof -
  obtain bl Ri nqr s t nt H k where
    H: "tonelliShanks (F1Field_with_R p bl\<lparr>F_Ri := Ri, F_nqr := nqr, F_s := s, F_t := t, F_nqr_to_t := nt\<rparr>) draws = ret H"
    and F: "F = H\<lparr>F_shift := F1_square H (F_nqr H), F_k := k\<rparr>"
    using r by (rule F1Field_new_steps)
  have "1 < p" by (rule F1Field_new_p [OF r])
  moreover have "F_half (F1Field_init p bl) = p div 2" by (simp add: F1Field_init_def Let_def bigint_shr_def)
  ultimately show ?thesis
    using tonelliShanks_frame [OF H] by (simp add: F F1_wf_def F1Field_with_R_def Let_def F1Field_init_simps)
qed

lemma bigintToBytes_32:
  assumes "codec_ok U" "fits n"
  shows "bigintToBytes U n 32 = ret (be_bytes 32 n)"
proof -
  have "length (radix_digits 16 (nat n)) \<le> 64"
  proof (cases "nat n = 0")
    case False
    then have "16 ^ (length (radix_digits 16 (nat n)) - 1) \<le> nat n" by (intro length_radix_digits(2)) simp_all
    also have "nat n < 16 ^ 64" using assms(2) by (simp add: fits_def nat_less_iff)
    finally have "length (radix_digits 16 (nat n)) - 1 < 64" by (rule power_less_imp_less_exp [rotated]) simp
    then show ?thesis by simp
  qed (simp add: radix_digits.simps [of 16 0])
  then have "max ((length (radix_digits 16 (nat n)) + 1) div 2) 32 = 32" by simp
  then show ?thesis using bigintToBytes_be_bytes [OF assms(1), of n 32] assms(2) by (simp add: fits_def)
qed

definition in_BN128 :: "int \<Rightarrow> bool" where "in_BN128 n \<longleftrightarrow> 0 \<le> n \<and> n < BN128_PRIME_FIELD"

lemma in_BN128_fits: "in_BN128 n \<Longrightarrow> fits n"
  by (simp add: in_BN128_def fits_def BN128_PRIME_FIELD_def)

lemma altBn128G1Neg_bytes:
  assumes U: "codec_ok U" and b: "in_BN128 b" and x: "length x = 32"
  shows "altBn128G1Neg U draws (x @ be_bytes 32 b) =
    bindJ (F1Field_new BN128_PRIME_FIELD draws) (\<lambda>_. ret (x @ be_bytes 32 ((- b) mod BN128_PRIME_FIELD)))"
proof (cases "F1Field_new BN128_PRIME_FIELD draws" rule: js_cases)
  case (ret F)
  then have F: "F_p F = BN128_PRIME_FIELD" "F1_wf F" using F1Field_new_frame by auto
  have y: "bytesToBigInt U (be_bytes 32 b) = ret b"
  proof -
    have "be_bytes 32 b \<noteq> []" using length_be_bytes [of 32 b] by fastforce
    then have "bytesToBigInt U (be_bytes 32 b) = ret (be_val (be_bytes 32 b))" by (rule bytesToBigInt_be_val [OF U])
    then show ?thesis using in_BN128_fits [OF b] by (simp add: be_val_be_bytes fits_def)
  qed
  have neg: "F1_neg F b = (- b) mod BN128_PRIME_FIELD" using b F by (simp add: F1_neg_mod in_field_def in_BN128_def)
  have "in_BN128 ((- b) mod BN128_PRIME_FIELD)" by (simp add: in_BN128_def BN128_PRIME_FIELD_def)
  then show ?thesis using x by (simp add: altBn128G1Neg_def ret y neg bigintToBytes_32 [OF U] in_BN128_fits)
qed (simp_all add: altBn128G1Neg_def)

lemma neg_neg_BN128: "in_BN128 b \<Longrightarrow> (- ((- b) mod BN128_PRIME_FIELD)) mod BN128_PRIME_FIELD = b"
  by (simp add: mod_minus_eq in_BN128_def)

lemma encodeG2_bytes:
  assumes "denotes x0 a0" "denotes x1 a1" "denotes y0 b0" "denotes y1 b1" "\<forall>(u, v) \<in> set zs. \<exists>c d. denotes u c \<and> denotes v d"
  shows "encodeG2 ((x0, x1) # (y0, y1) # zs) = ret (be_bytes 32 a1 @ be_bytes 32 a0 @ be_bytes 32 b1 @ be_bytes 32 b0)"
proof -
  have f: "\<exists>r. foldJ (\<lambda>a b. bindJ (finiteToBytes (fst b) 32) (\<lambda>x. bindJ (finiteToBytes (snd b) 32) (\<lambda>y.
             ret (a @ rev (x @ y))))) acc zs = ret (acc @ r)" for acc
    using assms(5)
  proof (induction zs arbitrary: acc)
    case (Cons z zs)
    obtain c d where "denotes (fst z) c" "denotes (snd z) d" using Cons.prems by (cases z) auto
    then show ?case using Cons.IH [of "acc @ rev (le_bytes 32 c @ le_bytes 32 d)"] Cons.prems
      by (auto simp: finiteToBytes_denotes)
  qed simp
  show ?thesis
    using f [of "be_bytes 32 a1 @ be_bytes 32 a0 @ be_bytes 32 b1 @ be_bytes 32 b0"] assms(1-4)
    by (auto simp: encodeG2_def finiteToBytes_denotes be_bytes_def [symmetric])
qed

lemma decodeG2_bytes:
  assumes "fits a0" "fits a1" "fits b0" "fits b1"
  shows "decodeG2 (be_bytes 32 a1 @ be_bytes 32 a0 @ be_bytes 32 b1 @ be_bytes 32 b0) = ret [(a0, a1), (b0, b1), (1, 0)]"
proof -
  have chunk: "decodeG2_loop (be_bytes 32 v @ be_bytes 32 u @ r) = (u, v) # decodeG2_loop r" if "fits u" "fits v" for u v r
  proof -
    have "take 64 (be_bytes 32 v @ be_bytes 32 u @ r) = be_bytes 32 v @ be_bytes 32 u" "be_bytes 32 v \<noteq> []"
      using length_be_bytes [of 32 v] by fastforce+
    then show ?thesis
      using that by (subst decodeG2_loop.simps) (simp add: be_bytes_def bytesToFinite_le Let_def)
  qed
  have "decodeG2_loop [] = []" by (subst decodeG2_loop.simps) simp
  then show ?thesis
    using chunk [of a0 a1 "be_bytes 32 b1 @ be_bytes 32 b0"] chunk [of b0 b1 "[]"] assms by (simp add: decodeG2_def)
qed

text \<open>A point as snarkjs writes it: two coordinates, and a third that the encoding drops.\<close>

fun g1_denotes :: "bigint_arg list \<Rightarrow> int \<times> int \<Rightarrow> bool" where
  "g1_denotes [x, y, z] (a, b) \<longleftrightarrow> denotes x a \<and> denotes y b \<and> (\<exists>c. denotes z c)"
| "g1_denotes _ _ \<longleftrightarrow> False"

fun g2_denotes :: "(bigint_arg \<times> bigint_arg) list \<Rightarrow> (int \<times> int) \<times> (int \<times> int) \<Rightarrow> bool" where
  "g2_denotes [(x0, x1), (y0, y1), (z0, z1)] ((a0, a1), (b0, b1)) \<longleftrightarrow>
     denotes x0 a0 \<and> denotes x1 a1 \<and> denotes y0 b0 \<and> denotes y1 b1 \<and> (\<exists>c d. denotes z0 c \<and> denotes z1 d)"
| "g2_denotes _ _ \<longleftrightarrow> False"

definition g1_point :: "int \<times> int \<Rightarrow> bigint_arg list" where
  "g1_point P = int_args [fst P, snd P, 1]"

definition g2_point :: "(int \<times> int) \<times> (int \<times> int) \<Rightarrow> (bigint_arg \<times> bigint_arg) list" where
  "g2_point P = int_arg_pairs [fst P, snd P, (1, 0)]"

lemma g1_roundtrip:
  assumes "g1_denotes p P"
  shows "encodeG1 p = ret (be_bytes 32 (fst P) @ be_bytes 32 (snd P))"
    "bindJ (encodeG1 p) decodeG1 = ret [fst P, snd P, 1]"
proof -
  obtain x y z where p: "p = [x, y, z]" "denotes x (fst P)" "denotes y (snd P)" "\<exists>c. denotes z c"
    using assms by (cases "(p, P)" rule: g1_denotes.cases) auto
  then show e: "encodeG1 p = ret (be_bytes 32 (fst P) @ be_bytes 32 (snd P))"
    using encodeG1_bytes [of x "fst P" y "snd P" "[z]"] by auto
  have "fits (fst P)" "fits (snd P)" using p by (simp_all add: denotes_def)
  then show "bindJ (encodeG1 p) decodeG1 = ret [fst P, snd P, 1]"
    by (simp add: e decodeG1_bytes)
qed

lemma g2_roundtrip:
  assumes "g2_denotes p P"
  shows "\<exists>b. encodeG2 p = ret b \<and> decodeG2 b = ret [fst P, snd P, (1, 0)]"
proof -
  obtain x0 x1 y0 y1 z where p: "p = [(x0, x1), (y0, y1), z]" "denotes x0 (fst (fst P))" "denotes x1 (snd (fst P))"
    "denotes y0 (fst (snd P))" "denotes y1 (snd (snd P))" "\<exists>c d. denotes (fst z) c \<and> denotes (snd z) d"
    using assms by (cases "(p, P)" rule: g2_denotes.cases) auto
  then have "encodeG2 p = ret (be_bytes 32 (snd (fst P)) @ be_bytes 32 (fst (fst P)) @ be_bytes 32 (snd (snd P)) @ be_bytes 32 (fst (snd P)))"
    using encodeG2_bytes [of x0 "fst (fst P)" x1 "snd (fst P)" y0 "fst (snd P)" y1 "snd (snd P)" "[z]"] by (cases z) auto
  then show ?thesis using p decodeG2_bytes by (simp add: denotes_def)
qed

lemma mapJ_g1:
  "list_all2 g1_denotes ps Ps \<Longrightarrow> \<exists>bs. mapJ encodeG1 ps = ret bs \<and> mapJ decodeG1 bs = ret (map (\<lambda>P. [fst P, snd P, 1]) Ps) \<and> length bs = length Ps"
proof (induction ps Ps rule: list_all2_induct)
  case (Cons p ps P Ps)
  obtain b where "encodeG1 p = ret b" "decodeG1 b = ret [fst P, snd P, 1]"
    using g1_roundtrip [OF Cons.hyps(1)] by (auto simp: bindJ_eq_ret)
  with Cons.IH show ?case by auto
qed simp

section \<open>Shared keys\<close>

lemma formatPrivKey_scalar:
  "8 * length prv < 2 ^ 128 \<Longrightarrow> formatPrivKeyForBabyJub prv = ret (secret_scalar prv div 8)"
  by (simp add: formatPrivKeyForBabyJub_def blake512_ref fromRprLE_words secret_scalar_def prune_take
      Scalar_shiftRight_def bigint_shr_def)

lemma ecdh_times:
  assumes "bj_ok (ee_bj E)" "bj_pt (ee_bj E) P" "8 * length prv < 2 ^ 128"
  shows "generateEcdhSharedKey E prv P = ret (bj.times (ee_bj E) (nat (secret_scalar prv div 8)) P)"
  using mulPointEscalar_times [OF assms(1,2), of "secret_scalar prv div 8"] secret_scalar(2) [of prv]
  by (simp add: generateEcdhSharedKey_def formatPrivKey_scalar [OF assms(3)] pos_imp_zdiv_nonneg_iff)

text \<open>The shared key from both sides, as a multiple of the base point.\<close>

lemma ecdh_agree:
  assumes "bj_ok (ee_bj E)" "bj_pt (ee_bj E) (Base8 (ee_bj E))" "8 * length a < 2 ^ 128" "8 * length b < 2 ^ 128"
  shows "\<exists>A B K. PrivateKey_public E a = ret A \<and> PrivateKey_public E b = ret B \<and>
    generateEcdhSharedKey E a B = ret K \<and> generateEcdhSharedKey E b A = ret K"
proof -
  let ?t = "\<lambda>p. bj.times (ee_bj E) (nat (secret_scalar p div 8))"
  have "?t a (?t b (Base8 (ee_bj E))) = ?t b (?t a (Base8 (ee_bj E)))"
    by (simp only: bj.times_mult [OF assms(1,2), symmetric] mult.commute)
  then show ?thesis
    using ecdh_times [OF assms(1)] prv2pub_times [OF assms(1,2)] bj.times_pt [OF assms(1,2)] assms(3,4)
    by (simp add: PrivateKey_public_def)
qed

section \<open>Random values\<close>

lemma random_loop_first:
  assumes "codec_ok U" "\<forall>j < n. draws (i + j) \<noteq> [] \<and> be_val (draws (i + j)) < random_min"
    and "draws (i + n) \<noteq> []" "be_val (draws (i + n)) \<ge> random_min"
  shows "random_loop U draws i = ret (be_val (draws (i + n)))"
  using assms(2-)
proof (induction n arbitrary: i)
  case 0
  then show ?case by (subst random_loop.simps) (simp add: bytesToBigInt_be_val [OF assms(1)])
next
  case (Suc n)
  have "random_loop U draws (i + 1) = ret (be_val (draws (i + 1 + n)))"
  proof (rule Suc.IH)
    show "\<forall>j < n. draws (i + 1 + j) \<noteq> [] \<and> be_val (draws (i + 1 + j)) < random_min"
    proof (intro allI impI)
      fix j assume "j < n"
      then show "draws (i + 1 + j) \<noteq> [] \<and> be_val (draws (i + 1 + j)) < random_min"
        using Suc.prems(1) [rule_format, of "Suc j"] by simp
    qed
  qed (use Suc.prems in simp_all)
  moreover have "draws i \<noteq> []" "be_val (draws i) < random_min" using Suc.prems(1) by (auto dest!: spec [of _ 0])
  ultimately show ?case by (subst random_loop.simps) (simp add: bytesToBigInt_be_val [OF assms(1)])
qed

text \<open>The numbers of a residue class in an interval of whole periods.\<close>

lemma residues_in_interval:
  fixes r :: int
  assumes "0 < r" "0 \<le> v" "v < r" "b = a + r * int k"
  shows "card {x. a \<le> x \<and> x < b \<and> x mod r = v} = k"
proof -
  define c where "c = a + (v - a) mod r"
  have c: "a \<le> c" "c < a + r" "c mod r = v" using assms by (simp_all add: c_def mod_simps)
  have "bij_betw (\<lambda>i. c + r * int i) {..<k} {x. a \<le> x \<and> x < b \<and> x mod r = v}"
  proof (rule bij_betwI')
    show "c + r * int x = c + r * int y \<longleftrightarrow> x = y" for x y using assms(1) by simp
    show "c + r * int i \<in> {x. a \<le> x \<and> x < b \<and> x mod r = v}" if "i \<in> {..<k}" for i
    proof -
      have "r * (int i + 1) \<le> r * int k" using that assms(1) by (intro mult_left_mono) simp_all
      then have "r * int i + r \<le> r * int k" by (simp add: distrib_left)
      moreover have "0 \<le> r * int i" using assms(1) by simp
      ultimately have "a \<le> c + r * int i" "c + r * int i < b" using c(1,2) assms(4) by linarith+
      then show ?thesis using c(3) by simp
    qed
    show "\<exists>i \<in> {..<k}. x = c + r * int i" if "x \<in> {x. a \<le> x \<and> x < b \<and> x mod r = v}" for x
    proof -
      have x: "a \<le> x" "x < b" "x mod r = c mod r" using that c(3) by simp_all
      have "r dvd x - c" using x(3) by (simp only: mod_eq_dvd)
      then obtain z where z: "x - c = r * z" by (rule dvdE)
      have "- r < r * z" using z x(1) c(2) by linarith
      have "0 \<le> z"
      proof (rule ccontr)
        assume "\<not> 0 \<le> z"
        then have "r * z \<le> r * - 1" using assms(1) by (intro mult_left_mono) simp_all
        then show False using \<open>- r < r * z\<close> by simp
      qed
      have "r * z < r * int k" using z x(2) c(1) assms(4) by linarith
      then have "z < int k" using assms(1) by simp
      then have "nat z \<in> {..<k}" "x = c + r * int (nat z)" using z \<open>0 \<le> z\<close> by simp_all
      then show ?thesis by blast
    qed
  qed
  from bij_betw_same_card [OF this] show ?thesis by simp
qed

section \<open>Properties\<close>


definition proof17 :: proof_data where
  "proof17 = \<lparr> pd_curve = ''bn128'', pd_protocol = ''groth16'', pi_a = [Arg_int 5, Arg_string ''11'', Arg_int 1],
     pi_b = [(Arg_int 1, Arg_int 2), (Arg_int 3, Arg_string ''0x10''), (Arg_int 1, Arg_int 0)], pi_c = [Arg_int 7, Arg_int 8, Arg_int 1] \<rparr>"

lemma denotes_int [simp]: "denotes (Arg_int n) m \<longleftrightarrow> m = n \<and> fits n"
  by (auto simp: denotes_def)

lemma denotes_int_Ex [simp]: "Ex (denotes (Arg_int n)) \<longleftrightarrow> fits n"
  by auto

lemma denotes_strings: "denotes (Arg_string ''11'') 11" "denotes (Arg_string ''0x10'') 16"
proof -
  have "BigInt_of_string ''11'' = ret 11" "BigInt_of_string ''0x10'' = ret 16" by code_simp+
  then show "denotes (Arg_string ''11'') 11" "denotes (Arg_string ''0x10'') 16"
    by (simp_all add: denotes_def BigInt_arg_def fits_def)
qed


text \<open>
  a verifying key survives encoding and decoding, with every point brought to affine
  form and the number of public inputs recomputed from the number of its points.
\<close>

theorem verifyingKey_roundtrip:
  assumes "g1_denotes (vk_alpha_1 d) A" "g2_denotes (vk_beta_2 d) B" "g2_denotes (vk_gamma_2 d) G" "g2_denotes (vk_delta_2 d) D"
    and "list_all2 g1_denotes (vk_IC d) Is"
  shows "bindJ (encodeVerifyingKey d) (\<lambda>e. decodeVerifyingKey e (Some (vb_curve e)) None) =
    ret \<lparr> vk_curve = vk_curve d, vk_protocol = ''groth16'', vk_nPublic = int (length Is) - 1, vk_alpha_1 = g1_point A,
      vk_beta_2 = g2_point B, vk_gamma_2 = g2_point G, vk_delta_2 = g2_point D, vk_IC = map g1_point Is \<rparr>"
proof -
  obtain a where a: "encodeG1 (vk_alpha_1 d) = ret a" "decodeG1 a = ret [fst A, snd A, 1]"
    using g1_roundtrip(1,2) [OF assms(1)] by (auto simp: bindJ_eq_ret)
  obtain b g x where b: "encodeG2 (vk_beta_2 d) = ret b" "decodeG2 b = ret [fst B, snd B, (1, 0)]"
    and g: "encodeG2 (vk_gamma_2 d) = ret g" "decodeG2 g = ret [fst G, snd G, (1, 0)]"
    and x: "encodeG2 (vk_delta_2 d) = ret x" "decodeG2 x = ret [fst D, snd D, (1, 0)]"
    using g2_roundtrip [OF assms(2)] g2_roundtrip [OF assms(3)] g2_roundtrip [OF assms(4)] by blast
  obtain ic where ic: "mapJ encodeG1 (vk_IC d) = ret ic" "mapJ decodeG1 ic = ret (map (\<lambda>P. [fst P, snd P, 1]) Is)" "length ic = length Is"
    using mapJ_g1 [OF assms(5)] by blast
  show ?thesis
    by (simp add: encodeVerifyingKey_def decodeVerifyingKey_def a b g x ic g1_point_def g2_point_def comp_def)
qed

theorem verifyingKey_roundtrip_witness:
  "bindJ (encodeVerifyingKey \<lparr> vk_curve = ''bn128'', vk_protocol = ''groth16'', vk_nPublic = 1, vk_alpha_1 = pi_a proof17,
      vk_beta_2 = pi_b proof17, vk_gamma_2 = pi_b proof17, vk_delta_2 = pi_b proof17, vk_IC = [pi_a proof17, pi_c proof17] \<rparr>)
      (\<lambda>e. decodeVerifyingKey e (Some (vb_curve e)) None) =
    ret \<lparr> vk_curve = ''bn128'', vk_protocol = ''groth16'', vk_nPublic = 1, vk_alpha_1 = g1_point (5, 11),
      vk_beta_2 = g2_point ((1, 2), (3, 16)), vk_gamma_2 = g2_point ((1, 2), (3, 16)), vk_delta_2 = g2_point ((1, 2), (3, 16)),
      vk_IC = [g1_point (5, 11), g1_point (7, 8)] \<rparr>"
  using verifyingKey_roundtrip [of "\<lparr> vk_curve = ''bn128'', vk_protocol = ''groth16'', vk_nPublic = 1, vk_alpha_1 = pi_a proof17,
      vk_beta_2 = pi_b proof17, vk_gamma_2 = pi_b proof17, vk_delta_2 = pi_b proof17, vk_IC = [pi_a proof17, pi_c proof17] \<rparr>"
      "(5, 11)" "((1, 2), (3, 16))" "((1, 2), (3, 16))" "((1, 2), (3, 16))" "[(5, 11), (7, 8)]"]
  by (simp add: proof17_def denotes_strings fits_def)

text \<open>
  public signals are read back from their bytes; decoding leaves the byte arrays that
  it was given reversed, so that decoding the same arrays again gives other numbers.
\<close>

theorem publicSignals_roundtrip:
  assumes "list_all2 denotes ss ns"
  shows "\<exists>bs. encodePublicSignals ss = ret bs \<and> decodePublicSignals bs = (ns, map (le_bytes 32) ns)"
proof -
  have "mapJ (\<lambda>s. bindJ (finiteToBytes s 32) (\<lambda>b. ret (rev b))) ss = ret (map (be_bytes 32) ns)"
    using assms by (induction ss ns rule: list_all2_induct) (simp_all add: finiteToBytes_denotes be_bytes_def)
  moreover have "map (\<lambda>s. bytesToFinite (rev s)) (map (be_bytes 32) ns) = ns"
    using assms by (induction ss ns rule: list_all2_induct) (auto simp: be_bytes_def bytesToFinite_le denotes_def)
  ultimately show ?thesis
    by (simp add: encodePublicSignals_def decodePublicSignals_def be_bytes_def comp_def)
qed

theorem publicSignals_roundtrip_witness:
  "\<exists>bs. encodePublicSignals [Arg_string ''11'', Arg_int 500] = ret bs \<and>
    decodePublicSignals bs = ([11, 500], [le_bytes 32 11, le_bytes 32 500])"
  using publicSignals_roundtrip [of "[Arg_string ''11'', Arg_int 500]" "[11, 500]"] by (simp add: denotes_strings fits_def)

text \<open>
  C27: the two sides of a Diffie-Hellman exchange, each from its own private key and the
  public key of the other, compute the same point.
\<close>

theorem ecdh_agreement:
  assumes "bj_ok (ee_bj E)" "bj_pt (ee_bj E) (Base8 (ee_bj E))" "8 * length a < 2 ^ 128" "8 * length b < 2 ^ 128"
  shows "\<exists>A B K. PrivateKey_public E a = ret A \<and> PrivateKey_public E b = ret B \<and>
    generateEcdhSharedKey E a B = ret K \<and> generateEcdhSharedKey E b A = ret K"
  by (rule ecdh_agree [OF assms])

theorem ecdh_agreement_witness:
  "\<exists>A B K. PrivateKey_public E17 [1] = ret A \<and> PrivateKey_public E17 [2, 3] = ret B \<and>
    generateEcdhSharedKey E17 [1] B = ret K \<and> generateEcdhSharedKey E17 [2, 3] A = ret K"
  by (rule ecdh_agreement) (simp_all add: E17_def BJ17_ok BJ17_pt)

text \<open>
  C40: as soon as a draw of 32 bytes reaches the threshold, \<open>genRandomBabyJubValue\<close>
  returns, with that first draw reduced modulo the group order; and every residue is
  reached from the same number of accepted 256-bit draws, so that the value has no bias.
\<close>

theorem random_value_unbiased:
  assumes "codec_ok U" "\<forall>i. length (draws i) = 32" "be_val (draws n) \<ge> random_min" "\<forall>i < n. be_val (draws i) < random_min"
    and "0 \<le> v" "v < BN128_GROUP_ORDER"
  shows "genRandomBabyJubValue U draws = ret (be_val (draws n) mod BN128_GROUP_ORDER) \<and>
    card {x. random_min \<le> x \<and> x < 2 ^ 256 \<and> x mod BN128_GROUP_ORDER = v} = 5"
proof
  have ne: "draws i \<noteq> []" for i using assms(2) by (metis list.size(3) zero_neq_numeral)
  have "random_loop U draws 0 = ret (be_val (draws (0 + n)))"
    by (rule random_loop_first [OF assms(1)]) (use assms ne in simp_all)
  then show "genRandomBabyJubValue U draws = ret (be_val (draws n) mod BN128_GROUP_ORDER)"
    using be_val_nonneg by (simp add: genRandomBabyJubValue_def bigint_rem_def BN128_GROUP_ORDER_def smod_nonneg)
  show "card {x. random_min \<le> x \<and> x < 2 ^ 256 \<and> x mod BN128_GROUP_ORDER = v} = 5"
    by (rule residues_in_interval) (use assms(5,6) in \<open>simp_all add: BN128_GROUP_ORDER_def random_min_def\<close>)
qed

theorem random_value_unbiased_witness:
  "genRandomBabyJubValue plain_codec (\<lambda>i. if i = 0 then be_bytes 32 7 else be_bytes 32 (2 ^ 255)) =
     ret (be_val (be_bytes 32 (2 ^ 255)) mod BN128_GROUP_ORDER) \<and>
   card {x. random_min \<le> x \<and> x < 2 ^ 256 \<and> x mod BN128_GROUP_ORDER = 3} = 5"
  using random_value_unbiased [OF plain_codec_ok, of "\<lambda>i. if i = 0 then be_bytes 32 7 else be_bytes 32 (2 ^ 255)" 1 3]
  by (simp add: be_val_be_bytes random_min_def BN128_GROUP_ORDER_def)

end
