(* ===== verification/Smt.thy ===== *)
theory Smt
  imports Poseidon
begin

text \<open>
  The sparse Merkle tree: packages/albus-core/src/crypto/smt.ts.  The database is a map
  from the decimal string of a node's hash to the node, an array of two hashes or the
  leaf \<open>[1, key, value]\<close>; the tree object holds the root and the database.  The object
  that the code builds step by step and returns is one record.  A loop over the levels
  of a path runs from the last sibling to the first.
\<close>

section \<open>The database\<close>

type_synonym nodes = "string \<rightharpoonup> int list"

record smt_db =
  db_root :: int
  db_nodes :: nodes

definition SMTMemDb_new :: "F1Field \<Rightarrow> smt_db" where
  "SMTMemDb_new F = \<lparr> db_root = F_zero F, db_nodes = Map.empty \<rparr>"

definition SMTMemDb_getRoot :: "smt_db \<Rightarrow> int" where "SMTMemDb_getRoot db = db_root db"

definition key2str :: "F1Field \<Rightarrow> int \<Rightarrow> string" where "key2str F k = F1_toString F k 10"

definition SMTMemDb_normalize :: "F1Field \<Rightarrow> int list \<Rightarrow> int list" where
  "SMTMemDb_normalize F n = map (F1_e F) n"

definition SMTMemDb_get :: "F1Field \<Rightarrow> smt_db \<Rightarrow> int \<Rightarrow> int list option" where
  "SMTMemDb_get F db key = db_nodes db (key2str F key)"

text \<open>\<open>multiGet\<close> collects one promise per key, which resolves to the result of \<open>get\<close>.\<close>

definition SMTMemDb_multiGet :: "F1Field \<Rightarrow> smt_db \<Rightarrow> int list \<Rightarrow> int list option list" where
  "SMTMemDb_multiGet F db keys = map (SMTMemDb_get F db) keys"

definition SMTMemDb_setRoot :: "int \<Rightarrow> smt_db \<Rightarrow> smt_db" where
  "SMTMemDb_setRoot newRoot db = db\<lparr>db_root := newRoot\<rparr>"

definition SMTMemDb_multiIns :: "F1Field \<Rightarrow> (int \<times> int list) list \<Rightarrow> smt_db \<Rightarrow> smt_db" where
  "SMTMemDb_multiIns F inserts db =
    foldl (\<lambda>db (k, n). db\<lparr>db_nodes := (db_nodes db)(key2str F k \<mapsto> SMTMemDb_normalize F n)\<rparr>) db inserts"

definition SMTMemDb_multiDel :: "F1Field \<Rightarrow> int list \<Rightarrow> smt_db \<Rightarrow> smt_db" where
  "SMTMemDb_multiDel F keys db =
    foldl (\<lambda>db k. db\<lparr>db_nodes := (db_nodes db)(key2str F k := None)\<rparr>) db keys"

section \<open>The tree object\<close>

record smt =
  smt_db :: smt_db
  smt_root :: int

definition SMT_new :: "poseidon_env \<Rightarrow> smt_db option \<Rightarrow> smt" where
  "SMT_new E db = (let db = (case db of Some d \<Rightarrow> d | None \<Rightarrow> SMTMemDb_new (pe_F E))
     in \<lparr> smt_db = db, smt_root = db_root db \<rparr>)"

text \<open>The bits of a key, padded with zeros to at least 256; reading past the end is \<open>undefined\<close>.\<close>

definition getBits :: "poseidon_env \<Rightarrow> int \<Rightarrow> int list js" where
  "getBits E key = bindJ (Scalar_bits (F1_toObject (pe_F E) key)) (\<lambda>res. ret (res @ replicate (256 - length res) 0))"

definition bit_at :: "int list \<Rightarrow> nat \<Rightarrow> int option" where
  "bit_at bits i = (if i < length bits then Some (bits ! i) else None)"

definition bit_set :: "int list \<Rightarrow> nat \<Rightarrow> bool" where
  "bit_set bits i \<longleftrightarrow> bit_at bits i \<noteq> None \<and> bit_at bits i \<noteq> Some 0"

definition hash0 :: "poseidon_env \<Rightarrow> int \<Rightarrow> int \<Rightarrow> int js" where
  "hash0 E left right = Poseidon_hash E [left, right]"

definition hash1 :: "poseidon_env \<Rightarrow> int \<Rightarrow> int \<Rightarrow> int js" where
  "hash1 E key val = Poseidon_hash E [key, val, F_one (pe_F E)]"

record find_response =
  fr_found :: bool
  fr_key :: int
  fr_value :: int
  fr_siblings :: "int list"
  fr_isOld0 :: bool

definition read_node :: "F1Field \<Rightarrow> smt_db \<Rightarrow> int \<Rightarrow> int list js" where
  "read_node F db h = (case SMTMemDb_get F db h of
     None \<Rightarrow> throw (TypeError ''Cannot read properties of undefined'') | Some n \<Rightarrow> ret n)"

definition is_leaf :: "F1Field \<Rightarrow> int list \<Rightarrow> bool" where
  "is_leaf F n \<longleftrightarrow> length n = 3 \<and> F1_eq F (n ! 0) (F_one F)"

partial_function (option) SMT_find :: "poseidon_env \<Rightarrow> smt_db \<Rightarrow> int \<Rightarrow> int list \<Rightarrow> int \<Rightarrow> nat \<Rightarrow> find_response js" where
  "SMT_find E db key keyBits root level =
    (if F1_isZero (pe_F E) root
     then ret \<lparr> fr_found = False, fr_key = key, fr_value = F_zero (pe_F E), fr_siblings = [], fr_isOld0 = True \<rparr>
     else bindJ (read_node (pe_F E) db root) (\<lambda>record.
       if is_leaf (pe_F E) record
       then let found = F1_eq (pe_F E) (record ! 1) key in
         ret \<lparr> fr_found = found, fr_key = (if found then key else record ! 1), fr_value = record ! 2,
               fr_siblings = [], fr_isOld0 = False \<rparr>
       else bindJ (elem_at record 0) (\<lambda>left. bindJ (elem_at record 1) (\<lambda>right.
         if bit_at keyBits level = Some 0
         then bindJ (SMT_find E db key keyBits left (level + 1)) (\<lambda>res.
           ret (res\<lparr>fr_siblings := right # fr_siblings res\<rparr>))
         else bindJ (SMT_find E db key keyBits right (level + 1)) (\<lambda>res.
           ret (res\<lparr>fr_siblings := left # fr_siblings res\<rparr>))))))"

definition SMT_get :: "poseidon_env \<Rightarrow> smt \<Rightarrow> int \<Rightarrow> find_response js" where
  "SMT_get E s k =
    (let key = F1_e (pe_F E) k in bindJ (getBits E key) (\<lambda>bits. SMT_find E (smt_db s) key bits (smt_root s) 0))"

text \<open>The pair of hashes of an inner node: the sibling on the left when the bit is set.\<close>

definition node_pair :: "int list \<Rightarrow> nat \<Rightarrow> int \<Rightarrow> int \<Rightarrow> int \<times> int" where
  "node_pair bits level sibling h = (if bit_set bits level then (sibling, h) else (h, sibling))"

section \<open>Update\<close>

record update_response =
  ur_oldRoot :: int
  ur_oldKey :: int
  ur_oldValue :: int
  ur_newKey :: int
  ur_newValue :: int
  ur_siblings :: "int list"
  ur_newRoot :: int

definition update_step :: "poseidon_env \<Rightarrow> int list \<Rightarrow> int list \<Rightarrow> int \<times> int \<times> (int \<times> int list) list \<times> int list \<Rightarrow> nat
    \<Rightarrow> (int \<times> int \<times> (int \<times> int list) list \<times> int list) js" where
  "update_step E keyBits siblings st level = (case st of (rtOld, newRoot, inserts, deletes) \<Rightarrow>
    (let sibling = siblings ! level; oldNode = node_pair keyBits level sibling rtOld;
         newNode = node_pair keyBits level sibling newRoot in
     bindJ (hash0 E (fst oldNode) (snd oldNode)) (\<lambda>rtOld. bindJ (hash0 E (fst newNode) (snd newNode)) (\<lambda>newRoot.
     ret (rtOld, newRoot, inserts @ [(newRoot, [fst newNode, snd newNode])], deletes @ [rtOld])))))"

definition SMT_update :: "poseidon_env \<Rightarrow> smt \<Rightarrow> int \<Rightarrow> int \<Rightarrow> (smt \<times> update_response) js" where
  "SMT_update E s key newValue =
    bindJ (SMT_get E s key) (\<lambda>resFind.
    bindJ (hash1 E key (fr_value resFind)) (\<lambda>rtOld.
    bindJ (hash1 E key newValue) (\<lambda>newRoot.
    bindJ (getBits E key) (\<lambda>keyBits.
    bindJ (foldJ (update_step E keyBits (fr_siblings resFind))
             (rtOld, newRoot, [(newRoot, [F_one (pe_F E), key, newValue])], [rtOld])
             (rev [0..<length (fr_siblings resFind)])) (\<lambda>(rtOld, newRoot, inserts, deletes).
    let db = SMTMemDb_setRoot newRoot (SMTMemDb_multiIns (pe_F E) inserts (SMTMemDb_multiDel (pe_F E) deletes (smt_db s)))
    in ret (s\<lparr>smt_db := db, smt_root := newRoot\<rparr>,
       \<lparr> ur_oldRoot = smt_root s, ur_oldKey = key, ur_oldValue = fr_value resFind, ur_newKey = key,
         ur_newValue = newValue, ur_siblings = fr_siblings resFind, ur_newRoot = newRoot \<rparr>))))))"

section \<open>Delete\<close>

record delete_response =
  dr_oldRoot :: int
  dr_oldKey :: int
  dr_oldValue :: int
  dr_delKey :: int
  dr_delValue :: int
  dr_siblings :: "int list"
  dr_newRoot :: int
  dr_isOld0 :: bool

text \<open>What replaces the removed leaf: the new root at the bottom, whether a node above is already
  mixed, and the fields \<open>oldKey\<close>, \<open>oldValue\<close>, \<open>isOld0\<close>.\<close>

definition delete_start :: "poseidon_env \<Rightarrow> smt_db \<Rightarrow> int \<Rightarrow> int list \<Rightarrow> (int \<times> bool \<times> int \<times> int \<times> bool) js" where
  "delete_start E db key siblings =
    (if length siblings > 0 then
       bindJ (read_node (pe_F E) db (last siblings)) (\<lambda>record.
       if is_leaf (pe_F E) record then ret (last siblings, False, record ! 1, record ! 2, False)
       else if length record = 2 then ret (F_zero (pe_F E), True, key, F_zero (pe_F E), True)
       else throw (Error ''Invalid node. Database corrupted''))
     else ret (F_zero (pe_F E), False, key, F_zero (pe_F E), True))"

record delete_state =
  ds_oldRoot :: int
  ds_newRoot :: int
  ds_mixed :: bool
  ds_siblings :: "int list"
  ds_inserts :: "(int \<times> int list) list"
  ds_deletes :: "int list"

definition delete_step :: "poseidon_env \<Rightarrow> int list \<Rightarrow> int list \<Rightarrow> bool \<Rightarrow> delete_state \<Rightarrow> nat \<Rightarrow> delete_state js" where
  "delete_step E keyBits siblings isOld0 st level =
    (let newSibling = (if level = length siblings - 1 \<and> \<not> isOld0 then F_zero (pe_F E) else siblings ! level);
         oldSibling = siblings ! level; oldNode = node_pair keyBits level oldSibling (ds_oldRoot st) in
     bindJ (hash0 E (fst oldNode) (snd oldNode)) (\<lambda>oldRoot.
     let st = st\<lparr>ds_oldRoot := oldRoot, ds_deletes := ds_deletes st @ [oldRoot],
                 ds_mixed := (ds_mixed st \<or> \<not> F1_isZero (pe_F E) newSibling)\<rparr> in
     if ds_mixed st then
       let newNode = node_pair keyBits level newSibling (ds_newRoot st) in
       bindJ (hash0 E (fst newNode) (snd newNode)) (\<lambda>newRoot.
       ret (st\<lparr>ds_siblings := (siblings ! level) # ds_siblings st, ds_newRoot := newRoot,
               ds_inserts := ds_inserts st @ [(newRoot, [fst newNode, snd newNode])]\<rparr>))
     else ret st))"

definition SMT_delete :: "poseidon_env \<Rightarrow> smt \<Rightarrow> int \<Rightarrow> (smt \<times> delete_response) js" where
  "SMT_delete E s key =
    bindJ (SMT_get E s key) (\<lambda>resFind.
    if \<not> fr_found resFind then throw (Error ''Key does not exists'')
    else
    bindJ (hash1 E key (fr_value resFind)) (\<lambda>oldRoot.
    bindJ (delete_start E (smt_db s) key (fr_siblings resFind)) (\<lambda>(newRoot, mixed, oldKey, oldValue, isOld0).
    bindJ (getBits E key) (\<lambda>keyBits.
    bindJ (foldJ (delete_step E keyBits (fr_siblings resFind) isOld0)
             \<lparr> ds_oldRoot = oldRoot, ds_newRoot = newRoot, ds_mixed = mixed, ds_siblings = [], ds_inserts = [], ds_deletes = [oldRoot] \<rparr>
             (rev [0..<length (fr_siblings resFind)])) (\<lambda>st.
    let db = SMTMemDb_multiDel (pe_F E) (ds_deletes st)
               (SMTMemDb_setRoot (ds_newRoot st) (SMTMemDb_multiIns (pe_F E) (ds_inserts st) (smt_db s)))
    in ret (s\<lparr>smt_db := db, smt_root := ds_newRoot st\<rparr>,
       \<lparr> dr_oldRoot = ds_oldRoot st, dr_oldKey = oldKey, dr_oldValue = oldValue, dr_delKey = key,
         dr_delValue = fr_value resFind, dr_siblings = ds_siblings st, dr_newRoot = ds_newRoot st, dr_isOld0 = isOld0 \<rparr>))))))"

section \<open>Add\<close>

record add_response =
  ar_oldRoot :: int
  ar_oldKey :: int
  ar_oldValue :: int
  ar_siblings :: "int list"
  ar_newRoot :: int
  ar_isOld0 :: bool

text \<open>The siblings after a zero was pushed for every further bit the two keys share.\<close>

partial_function (option) push_common :: "poseidon_env \<Rightarrow> int list \<Rightarrow> int list \<Rightarrow> nat \<Rightarrow> int list \<Rightarrow> int list js" where
  "push_common E oldBits newBits i siblings =
    (if bit_at oldBits i = bit_at newBits i then push_common E oldBits newBits (i + 1) (siblings @ [F_zero (pe_F E)])
     else ret siblings)"

text \<open>The siblings, \<open>oldRoot\<close> (\<open>None\<close> while it is not set), \<open>mixed\<close> and \<open>addedOne\<close>.\<close>

definition add_start :: "poseidon_env \<Rightarrow> int list \<Rightarrow> find_response \<Rightarrow> (int list \<times> int option \<times> bool \<times> bool) js" where
  "add_start E newKeyBits resFind =
    (if \<not> fr_isOld0 resFind then
       bindJ (getBits E (fr_key resFind)) (\<lambda>oldKeyBits.
       bindJ (push_common E oldKeyBits newKeyBits (length (fr_siblings resFind)) (fr_siblings resFind)) (\<lambda>siblings.
       bindJ (hash1 E (fr_key resFind) (fr_value resFind)) (\<lambda>oldRoot.
       ret (siblings @ [oldRoot], Some oldRoot, False, True))))
     else if length (fr_siblings resFind) > 0 then ret (fr_siblings resFind, Some (F_zero (pe_F E)), True, False)
     else ret (fr_siblings resFind, None, False, False))"

record add_state =
  as_oldRoot :: "int option"
  as_root :: int
  as_mixed :: bool
  as_inserts :: "(int \<times> int list) list"
  as_deletes :: "int list"

definition add_step :: "poseidon_env \<Rightarrow> int list \<Rightarrow> int list \<Rightarrow> add_state \<Rightarrow> nat \<Rightarrow> add_state js" where
  "add_step E newKeyBits siblings st i =
    (let st = st\<lparr>as_mixed := (as_mixed st \<or> (i < length siblings - 1 \<and> \<not> F1_isZero (pe_F E) (siblings ! i)))\<rparr> in
     bindJ (if as_mixed st then
              (case as_oldRoot st of
                 None \<Rightarrow> throw (TypeError ''Cannot convert undefined to a BigInt'')
               | Some old \<Rightarrow>
                   let oldNode = node_pair newKeyBits i (siblings ! i) old in
                   bindJ (hash0 E (fst oldNode) (snd oldNode)) (\<lambda>oldRoot.
                   ret (st\<lparr>as_oldRoot := Some oldRoot, as_deletes := as_deletes st @ [oldRoot]\<rparr>)))
            else ret st) (\<lambda>st.
     let newNode = node_pair newKeyBits i (siblings ! i) (as_root st) in
     bindJ (hash0 E (fst newNode) (snd newNode)) (\<lambda>newRoot.
     ret (st\<lparr>as_inserts := as_inserts st @ [(newRoot, [fst newNode, snd newNode])], as_root := newRoot\<rparr>))))"

text \<open>The final siblings: the pushed leaf is popped, then trailing zeros.\<close>

definition pop_zeros :: "F1Field \<Rightarrow> int list \<Rightarrow> int list" where
  "pop_zeros F xs = rev (dropWhile (F1_isZero F) (rev xs))"

definition SMT_add :: "poseidon_env \<Rightarrow> smt \<Rightarrow> int \<Rightarrow> int \<Rightarrow> (smt \<times> add_response) js" where
  "SMT_add E s key val =
    bindJ (getBits E key) (\<lambda>newKeyBits.
    bindJ (SMT_get E s key) (\<lambda>resFind.
    if fr_found resFind then throw (Error ''Key already exists'')
    else
    bindJ (add_start E newKeyBits resFind) (\<lambda>(siblings, oldRoot, mixed, addedOne).
    bindJ (hash1 E key val) (\<lambda>root.
    bindJ (foldJ (add_step E newKeyBits siblings)
             \<lparr> as_oldRoot = oldRoot, as_root = root, as_mixed = mixed,
               as_inserts = [(root, [F_one (pe_F E), key, val])], as_deletes = [] \<rparr>
             (rev [0..<length siblings])) (\<lambda>st.
    let db = SMTMemDb_multiDel (pe_F E) (as_deletes st)
               (SMTMemDb_setRoot (as_root st) (SMTMemDb_multiIns (pe_F E) (as_inserts st) (smt_db s)))
    in ret (s\<lparr>smt_db := db, smt_root := as_root st\<rparr>,
       \<lparr> ar_oldRoot = smt_root s, ar_oldKey = fr_key resFind, ar_oldValue = fr_value resFind,
         ar_siblings = pop_zeros (pe_F E) (if addedOne then butlast siblings else siblings),
         ar_newRoot = as_root st, ar_isOld0 = fr_isOld0 resFind \<rparr>))))))"

end
