(* ===== verification/SmtSpec.thy ===== *)
theory SmtSpec
  imports Smt
begin

text \<open>
  The specification of the sparse Merkle tree and the link to its database.  The abstract
  tree \<open>mtree\<close> and its map of entries say what the operations on the database implement:
  insertion, removal and replacement of an entry, as long as no two nodes of the tree
  before and after collide under the hash (\<open>collision_free\<close>).  The locale \<open>node_store\<close> is
  what the tree relies on in its database.
\<close>

section \<open>The abstract tree\<close>

datatype mtree = MEmpty | MLeaf int int | MNode mtree mtree

fun leaves :: "mtree \<Rightarrow> (int \<times> int) list" where
  "leaves MEmpty = []"
| "leaves (MLeaf k v) = [(k, v)]"
| "leaves (MNode l r) = leaves l @ leaves r"

definition entries :: "mtree \<Rightarrow> int \<rightharpoonup> int" where "entries t = map_of (leaves t)"

definition tree_keys :: "mtree \<Rightarrow> int set" where "tree_keys t = fst ` set (leaves t)"

lemma tree_keys_simps [simp]:
  "tree_keys MEmpty = {}" "tree_keys (MLeaf k v) = {k}" "tree_keys (MNode l r) = tree_keys l \<union> tree_keys r"
  by (auto simp: tree_keys_def)

text \<open>
  At level \<open>n\<close> the keys of the left subtree have bit \<open>n\<close> clear, those of the right one set; an inner node
  has at least two leaves.
\<close>

fun wf_tree :: "int \<Rightarrow> nat \<Rightarrow> mtree \<Rightarrow> bool" where
  "wf_tree p n MEmpty = True"
| "wf_tree p n (MLeaf k v) = (0 \<le> k \<and> k < p \<and> 0 \<le> v \<and> v < p)"
| "wf_tree p n (MNode l r) = (n < 256 \<and> wf_tree p (Suc n) l \<and> wf_tree p (Suc n) r \<and> 2 \<le> length (leaves l @ leaves r)
     \<and> (\<forall>x \<in> fst ` set (leaves l). \<not> bit x n) \<and> (\<forall>x \<in> fst ` set (leaves r). bit x n))"

fun subs :: "mtree \<Rightarrow> mtree list" where
  "subs MEmpty = []"
| "subs (MLeaf k v) = [MLeaf k v]"
| "subs (MNode l r) = MNode l r # subs l @ subs r"

text \<open>The hash of a tree as the code computes it.\<close>

definition hash_value :: "poseidon_env \<Rightarrow> int list \<Rightarrow> int" where
  "hash_value E xs = (case Poseidon_hash E xs of Some (Inr h) \<Rightarrow> h | _ \<Rightarrow> 0)"

fun digest :: "poseidon_env \<Rightarrow> mtree \<Rightarrow> int" where
  "digest E MEmpty = 0"
| "digest E (MLeaf k v) = hash_value E [k, v, 1]"
| "digest E (MNode l r) = hash_value E [digest E l, digest E r]"

fun content :: "poseidon_env \<Rightarrow> mtree \<Rightarrow> int list" where
  "content E MEmpty = []"
| "content E (MLeaf k v) = [1, k, v]"
| "content E (MNode l r) = [digest E l, digest E r]"

definition collision_free :: "poseidon_env \<Rightarrow> mtree list \<Rightarrow> bool" where
  "collision_free E ts \<longleftrightarrow> (\<forall>s \<in> set ts. digest E s \<noteq> 0 \<and> (\<forall>s' \<in> set ts. digest E s = digest E s' \<longrightarrow> s = s'))"

definition smt_env_ok :: "poseidon_env \<Rightarrow> bool" where
  "smt_env_ok E \<longleftrightarrow> env_ok E \<and> F_p (pe_F E) < 2 ^ 256"

definition smt_stored :: "poseidon_env \<Rightarrow> smt_db \<Rightarrow> mtree \<Rightarrow> bool" where
  "smt_stored E db t \<longleftrightarrow> (\<forall>s \<in> set (subs t). SMTMemDb_get (pe_F E) db (digest E s) = Some (content E s))"

definition smt_rep :: "poseidon_env \<Rightarrow> smt \<Rightarrow> mtree \<Rightarrow> bool" where
  "smt_rep E s t \<longleftrightarrow> wf_tree (F_p (pe_F E)) 0 t \<and> smt_root s = digest E t \<and> db_root (smt_db s) = digest E t
     \<and> smt_stored E (smt_db s) t"

section \<open>Paths\<close>

text \<open>The way to a key: the siblings from the root down and what is found at the end.\<close>

fun locate :: "int \<Rightarrow> nat \<Rightarrow> mtree \<Rightarrow> mtree list \<times> mtree" where
  "locate k n (MNode l r) =
    (if bit k n then (let (c, b) = locate k (Suc n) r in (l # c, b)) else (let (c, b) = locate k (Suc n) l in (r # c, b)))"
| "locate k n t = ([], t)"

fun plug :: "int \<Rightarrow> nat \<Rightarrow> mtree list \<Rightarrow> mtree \<Rightarrow> mtree" where
  "plug k n [] b = b"
| "plug k n (c # ctx) b = (if bit k n then MNode c (plug k (Suc n) ctx b) else MNode (plug k (Suc n) ctx b) c)"

text \<open>The inner nodes of a path.\<close>

fun path_nodes :: "int \<Rightarrow> nat \<Rightarrow> mtree list \<Rightarrow> mtree \<Rightarrow> mtree set" where
  "path_nodes k n [] b = {}"
| "path_nodes k n (c # ctx) b = insert (plug k n (c # ctx) b) (path_nodes k (Suc n) ctx b)"

lemma plug_locate: "locate k n t = (ctx, b) \<Longrightarrow> plug k n ctx b = t \<and> (\<forall>l r. b \<noteq> MNode l r)"
proof (induction k n t arbitrary: ctx rule: locate.induct)
  case (1 k n l r)
  then show ?case by (auto split: if_splits prod.splits)
qed auto

lemma plug_append: "plug k n (c @ d) b = plug k n c (plug k (n + length c) d b)"
  by (induction c arbitrary: n) auto

lemma set_leaves_plug: "set (leaves (plug k n ctx b)) = set (leaves b) \<union> (\<Union>c \<in> set ctx. set (leaves c))"
  by (induction ctx arbitrary: n) auto

lemma tree_keys_plug: "tree_keys (plug k n ctx b) = tree_keys b \<union> (\<Union>c \<in> set ctx. tree_keys c)"
  by (auto simp: tree_keys_def set_leaves_plug image_Un)

lemma length_leaves_plug: "length (leaves (plug k n ctx b)) = length (leaves b) + sum_list (map (\<lambda>c. length (leaves c)) ctx)"
  by (induction ctx arbitrary: n) auto

lemma set_subs_plug: "set (subs (plug k n ctx b)) = path_nodes k n ctx b \<union> (\<Union>c \<in> set ctx. set (subs c)) \<union> set (subs b)"
  by (induction ctx arbitrary: n) auto

lemma path_nodes_keys: "s \<in> path_nodes k n ctx b \<Longrightarrow> tree_keys b \<subseteq> tree_keys s \<and> (\<exists>l r. s = MNode l r)"
proof (induction ctx arbitrary: n)
  case (Cons c ctx)
  then show ?case by (auto simp: tree_keys_plug)
qed simp

lemma subs_keys: "s \<in> set (subs t) \<Longrightarrow> tree_keys s \<subseteq> tree_keys t \<and> size s \<le> size t \<and> s \<noteq> MEmpty"
  by (induction t) auto

lemma subs_self: "t \<noteq> MEmpty \<Longrightarrow> t \<in> set (subs t)"
  by (cases t) auto

lemma wf_plug_Cons:
  "wf_tree p n (plug k n (c # ctx) b) \<longleftrightarrow> n < 256 \<and> wf_tree p (Suc n) c \<and> wf_tree p (Suc n) (plug k (Suc n) ctx b)
    \<and> 2 \<le> length (leaves c) + length (leaves (plug k (Suc n) ctx b))
    \<and> (\<forall>x \<in> tree_keys c. bit x n \<noteq> bit k n) \<and> (\<forall>x \<in> tree_keys (plug k (Suc n) ctx b). bit x n = bit k n)"
  by (auto simp: tree_keys_def)

lemma wf_plug_bottom: "wf_tree p n (plug k n ctx b) \<Longrightarrow> wf_tree p (n + length ctx) b"
proof (induction ctx arbitrary: n)
  case (Cons c ctx)
  then show ?case using Cons.IH [of "Suc n"] unfolding wf_plug_Cons by simp
qed simp

lemma wf_subs: "wf_tree p n t \<Longrightarrow> s \<in> set (subs t) \<Longrightarrow> \<exists>m. wf_tree p m s"
  by (induction t arbitrary: n) auto

lemma wf_keys_range: "wf_tree p n t \<Longrightarrow> (k, v) \<in> set (leaves t) \<Longrightarrow> 0 \<le> k \<and> k < p \<and> 0 \<le> v \<and> v < p"
  by (induction t arbitrary: n) auto

lemma wf_nonempty: "wf_tree p n t \<Longrightarrow> t \<noteq> MEmpty \<Longrightarrow> leaves t \<noteq> []"
  by (cases t) auto

lemma wf_nonempty_keys: "wf_tree p n t \<Longrightarrow> t \<noteq> MEmpty \<Longrightarrow> tree_keys t \<noteq> {}"
  using wf_nonempty by (auto simp: tree_keys_def)

lemma wf_distinct: "wf_tree p n t \<Longrightarrow> distinct (map fst (leaves t))"
  by (induction t arbitrary: n) fastforce+

lemma entries_iff: "wf_tree p n t \<Longrightarrow> entries t k = Some v \<longleftrightarrow> (k, v) \<in> set (leaves t)"
  unfolding entries_def by (rule map_of_eq_Some_iff) (rule wf_distinct)

lemma dom_entries: "dom (entries t) = tree_keys t"
  by (simp add: entries_def tree_keys_def dom_map_of_conv_image_fst)

text \<open>Off the path there is no key that agrees with \<open>k\<close> as far as the sibling's level.\<close>

lemma wf_path_keys: "wf_tree p n (plug k n ctx b) \<Longrightarrow> c \<in> set ctx \<Longrightarrow> k \<notin> tree_keys c"
proof (induction ctx arbitrary: n)
  case (Cons d ctx)
  then show ?case unfolding wf_plug_Cons using Cons.IH [of "Suc n"] by auto
qed simp

lemma wf_agree:
  "wf_tree p n (plug k n ctx b) \<Longrightarrow> i < length ctx \<Longrightarrow> x \<in> tree_keys (ctx ! i) \<Longrightarrow> j < i \<Longrightarrow> bit x (n + j) = bit k (n + j)"
proof (induction ctx arbitrary: n i j)
  case (Cons c ctx)
  then obtain i' where i: "i = Suc i'" "i' < length ctx" by (cases i) auto
  have w: "wf_tree p (Suc n) (plug k (Suc n) ctx b)" "\<forall>x \<in> tree_keys (plug k (Suc n) ctx b). bit x n = bit k n"
    using Cons.prems(1) unfolding wf_plug_Cons by auto
  show ?case
  proof (cases j)
    case 0
    have "x \<in> tree_keys (plug k (Suc n) ctx b)"
      using i Cons.prems(3) nth_mem [OF i(2)] by (auto simp: tree_keys_plug)
    then show ?thesis using w(2) 0 by simp
  next
    case (Suc j')
    then show ?thesis using Cons.IH [OF w(1) i(2), of j'] i(1) Cons.prems by simp
  qed
qed simp

lemma wf_agree_bottom:
  "wf_tree p n (plug k n ctx b) \<Longrightarrow> x \<in> tree_keys b \<Longrightarrow> j < length ctx \<Longrightarrow> bit x (n + j) = bit k (n + j)"
proof (induction ctx arbitrary: n j)
  case (Cons c ctx)
  have w: "wf_tree p (Suc n) (plug k (Suc n) ctx b)" "\<forall>x \<in> tree_keys (plug k (Suc n) ctx b). bit x n = bit k n"
    using Cons.prems(1) unfolding wf_plug_Cons by auto
  show ?case
    using w Cons.IH [OF w(1) Cons.prems(2), of "j - 1"] Cons.prems by (cases j) (auto simp: tree_keys_plug)
qed simp

lemma wf_path_entry:
  assumes "wf_tree p 0 (plug k 0 ctx b)" "\<forall>l r. b \<noteq> MNode l r"
  shows "entries (plug k 0 ctx b) k = (case b of MLeaf k' v \<Rightarrow> if k' = k then Some v else None | _ \<Rightarrow> None)"
proof -
  have n: "(k, v) \<notin> set (leaves c)" if "c \<in> set ctx" for c v
    using wf_path_keys [OF assms(1) that] by (auto simp: tree_keys_def image_iff)
  have "entries (plug k 0 ctx b) k = Some v \<longleftrightarrow> (k, v) \<in> set (leaves b)" for v
    using n by (auto simp: entries_iff [OF assms(1)] set_leaves_plug)
  then show ?thesis
    using assms(2) by (cases b) (auto intro: option.exhaust [of "entries (plug k 0 ctx b) k"] simp: not_Some_eq [symmetric] simp del: not_Some_eq)
qed

text \<open>Another tree at the end of a path.\<close>

lemma wf_replace:
  assumes "wf_tree p n (plug k n ctx b)" "wf_tree p (n + length ctx) b'"
    and "\<And>x i. x \<in> tree_keys b' \<Longrightarrow> i < length ctx \<Longrightarrow> bit x (n + i) = bit k (n + i)"
    and "ctx \<noteq> [] \<Longrightarrow> 2 \<le> length (leaves (last ctx)) + length (leaves b')"
  shows "wf_tree p n (plug k n ctx b')"
  using assms
proof (induction ctx arbitrary: n)
  case (Cons c ctx)
  have w: "n < 256" "wf_tree p (Suc n) c" "wf_tree p (Suc n) (plug k (Suc n) ctx b)" "\<forall>x \<in> tree_keys c. bit x n \<noteq> bit k n"
    "\<forall>x \<in> tree_keys (plug k (Suc n) ctx b). bit x n = bit k n"
    using Cons.prems(1) unfolding wf_plug_Cons by auto
  have IH: "wf_tree p (Suc n) (plug k (Suc n) ctx b')"
  proof (rule Cons.IH [OF w(3)])
    show "bit x (Suc n + i) = bit k (Suc n + i)" if "x \<in> tree_keys b'" "i < length ctx" for x i
      using Cons.prems(3) [OF that(1), of "Suc i"] that(2) by simp
  qed (use Cons.prems in auto)
  have "2 \<le> length (leaves c) + length (leaves (plug k (Suc n) ctx b'))"
  proof (cases ctx rule: rev_cases)
    case Nil
    then show ?thesis using Cons.prems(4) by simp
  next
    case (snoc ys y)
    then show ?thesis using Cons.prems(4) by (simp add: length_leaves_plug)
  qed
  moreover have "\<forall>x \<in> tree_keys (plug k (Suc n) ctx b'). bit x n = bit k n"
    using w(5) Cons.prems(3) [of _ 0] by (auto simp: tree_keys_plug)
  ultimately show ?case unfolding wf_plug_Cons using w IH by blast
qed simp

text \<open>The nodes of a path are not among the nodes off it.\<close>

lemma size_plug: "size (plug k n ctx b) = size b + sum_list (map size ctx) + length ctx"
  by (induction ctx arbitrary: n) auto

lemma size_plug_sibling:
  assumes "c \<in> set ctx"
  shows "size c < size (plug k n ctx b)"
proof -
  have "size c \<le> sum_list (map size ctx)" using assms by (intro member_le_sum_list) simp_all
  moreover have "1 \<le> length ctx" using assms by (cases ctx) auto
  ultimately show ?thesis unfolding size_plug by linarith
qed

lemma path_nodes_off:
  "wf_tree p n (plug k n ctx b) \<Longrightarrow> s \<in> path_nodes k n ctx b \<Longrightarrow> c \<in> set ctx \<Longrightarrow> s \<notin> set (subs c)"
proof (induction ctx arbitrary: n)
  case (Cons d ctx)
  have w: "wf_tree p (Suc n) d" "wf_tree p (Suc n) (plug k (Suc n) ctx b)" "\<forall>x \<in> tree_keys d. bit x n \<noteq> bit k n"
    "\<forall>x \<in> tree_keys (plug k (Suc n) ctx b). bit x n = bit k n"
    using Cons.prems(1) unfolding wf_plug_Cons by auto
  consider (top) "s = plug k n (d # ctx) b" | (below) "s \<in> path_nodes k (Suc n) ctx b" "c = d"
    | (off) "s \<in> path_nodes k (Suc n) ctx b" "c \<in> set ctx"
    using Cons.prems(2,3) by auto
  then show ?case
  proof cases
    case top
    then show ?thesis using size_plug_sibling [OF Cons.prems(3)] subs_keys by (metis leD)
  next
    case below
    have "s \<in> set (subs (plug k (Suc n) ctx b))" using below(1) by (simp add: set_subs_plug)
    then have sub: "tree_keys s \<subseteq> tree_keys (plug k (Suc n) ctx b)" "s \<noteq> MEmpty" using subs_keys by auto
    have "\<exists>m. wf_tree p m s" using wf_subs [OF w(2)] \<open>s \<in> set (subs (plug k (Suc n) ctx b))\<close> .
    then obtain x where x: "x \<in> tree_keys s" using wf_nonempty_keys sub(2) by blast
    show ?thesis
    proof
      assume "s \<in> set (subs c)"
      then have "x \<in> tree_keys d" using subs_keys x below(2) by blast
      then show False using w(3,4) x sub(1) by blast
    qed
  next
    case off
    then show ?thesis using Cons.IH [OF w(2)] by blast
  qed
qed simp

section \<open>The tree is determined by its entries\<close>

lemma wf_length_leaves: "wf_tree p n t \<Longrightarrow> length (leaves t) = card (set (leaves t))"
  using wf_distinct [of p n t] by (metis distinct_card distinct_map)

lemma wf_unique:
  "wf_tree p n t \<Longrightarrow> wf_tree p n t' \<Longrightarrow> set (leaves t) = set (leaves t') \<Longrightarrow> t = t'"
proof (induction t arbitrary: n t')
  case MEmpty
  then show ?case using wf_nonempty [of p n t'] by auto
next
  case (MLeaf k v)
  have "length (leaves t') = 1" using wf_length_leaves [OF MLeaf.prems(2)] MLeaf.prems(3) [symmetric] by simp
  then show ?case using MLeaf.prems(2,3) by (cases t') auto
next
  case (MNode l r)
  have "length (leaves t') = length (leaves (MNode l r))"
    using wf_length_leaves [OF MNode.prems(1)] wf_length_leaves [OF MNode.prems(2)] MNode.prems(3) by simp
  then have "2 \<le> length (leaves t')" using MNode.prems(1) by simp
  then obtain l' r' where t': "t' = MNode l' r'" by (cases t') auto
  have L: "set (leaves l) = {x \<in> set (leaves (MNode l r)). \<not> bit (fst x) n}"
    and R: "set (leaves r) = {x \<in> set (leaves (MNode l r)). bit (fst x) n}"
    using MNode.prems(1) by auto
  have L': "set (leaves l') = {x \<in> set (leaves t'). \<not> bit (fst x) n}"
    and R': "set (leaves r') = {x \<in> set (leaves t'). bit (fst x) n}"
    using MNode.prems(2) by (auto simp: t')
  have w: "wf_tree p (Suc n) l" "wf_tree p (Suc n) r" "wf_tree p (Suc n) l'" "wf_tree p (Suc n) r'"
    using MNode.prems(1,2) by (simp_all add: t')
  have "l = l'" using w(1,3) by (rule MNode.IH(1)) (simp only: L L' MNode.prems(3))
  moreover have "r = r'" using w(2,4) by (rule MNode.IH(2)) (simp only: R R' MNode.prems(3))
  ultimately show ?case by (simp add: t')
qed

lemma entries_unique:
  assumes "wf_tree p n t" "wf_tree p n t'" "entries t = entries t'"
  shows "t = t'"
proof (rule wf_unique [OF assms(1,2)])
  have "(k, v) \<in> set (leaves t) \<longleftrightarrow> (k, v) \<in> set (leaves t')" for k v
    using entries_iff [OF assms(1), of k v] entries_iff [OF assms(2), of k v] unfolding assms(3) by blast
  then show "set (leaves t) = set (leaves t')" unfolding set_eq_iff split_paired_All by blast
qed

section \<open>Bits, hashes and database keys\<close>

lemma length_binary: "n < 2 ^ m \<Longrightarrow> length (binary n) \<le> m"
proof (induction m arbitrary: n)
  case 0
  then show ?case by (simp add: binary_0)
next
  case (Suc m)
  then show ?case by (cases "n = 0") (simp_all add: binary_0 binary_pos less_mult_imp_div_less)
qed

lemma nth_binary: "i < length (binary n) \<Longrightarrow> binary n ! i = (if bit n i then 1 else 0)"
proof (induction i arbitrary: n)
  case 0
  then show ?case by (cases "n = 0") (auto simp: binary_0 binary_pos bit_0 odd_iff_mod_2_eq_one even_iff_mod_2_eq_zero)
next
  case (Suc i)
  then show ?case by (cases "n = 0") (simp_all add: binary_0 binary_pos bit_Suc)
qed

lemma bit_binary: "bit n i \<Longrightarrow> i < length (binary n)"
proof (induction i arbitrary: n)
  case 0
  then show ?case by (cases "n = 0") (simp_all add: binary_pos)
next
  case (Suc i)
  then show ?case by (cases "n = 0") (simp_all add: binary_pos bit_Suc)
qed

definition key_bits :: "int \<Rightarrow> int list" where
  "key_bits k = map (\<lambda>i. if bit k i then 1 else 0) [0..<256]"

lemma getBits_key:
  assumes "0 \<le> k" "k < 2 ^ 256"
  shows "getBits E k = ret (key_bits k)"
proof -
  have l: "length (binary (nat k)) \<le> 256"
    by (rule length_binary) (use assms in \<open>simp add: nat_less_iff\<close>)
  have b: "bit (nat k) i = bit k i" for i using assms(1) by (simp add: bit_nat_iff)
  have "binary (nat k) @ replicate (256 - length (binary (nat k))) 0 = key_bits k"
  proof (rule nth_equalityI)
    fix i assume "i < length (binary (nat k) @ replicate (256 - length (binary (nat k))) 0)"
    then have i: "i < 256" using l by simp
    show "(binary (nat k) @ replicate (256 - length (binary (nat k))) 0) ! i = key_bits k ! i"
      using i bit_binary [of "nat k" i] by (auto simp: key_bits_def nth_append nth_binary b)
  qed (use l in \<open>simp add: key_bits_def\<close>)
  then show ?thesis using assms(1) by (simp add: getBits_def F1_toObject_def Scalar_bits_binary)
qed

lemma bit_at_key [simp]: "n < 256 \<Longrightarrow> bit_at (key_bits k) n = Some (if bit k n then 1 else 0)"
  by (simp add: bit_at_def key_bits_def)

lemma bit_set_key [simp]: "n < 256 \<Longrightarrow> bit_set (key_bits k) n = bit k n"
  by (simp add: bit_set_def)

lemma node_pair_key: "n < 256 \<Longrightarrow> node_pair (key_bits k) n s h = (if bit k n then (s, h) else (h, s))"
  by (simp add: node_pair_def)

lemma smt_env_okD:
  assumes "smt_env_ok E"
  shows "env_ok E" "F1_wf (pe_F E)" "F_p (pe_F E) < 2 ^ 256" "F_zero (pe_F E) = 0" "F_one (pe_F E) = 1" "0 < F_p (pe_F E)"
proof -
  show e: "env_ok E" "F_p (pe_F E) < 2 ^ 256" using assms by (simp_all add: smt_env_ok_def)
  show w: "F1_wf (pe_F E)" using e(1) by (simp add: env_ok_def Let_def)
  then show "F_zero (pe_F E) = 0" "F_one (pe_F E) = 1" "0 < F_p (pe_F E)" by (simp_all add: F1_wf_def)
qed

lemma hash_value_ok:
  assumes "smt_env_ok E" "1 \<le> length xs" "length xs \<le> 16"
  shows "Poseidon_hash E xs = ret (hash_value E xs)" "in_field (pe_F E) (hash_value E xs)"
  using Poseidon_hash_total [OF smt_env_okD(1) [OF assms(1)] assms(2,3)] by (auto simp: hash_value_def ret_def)

lemma hash0_value: "smt_env_ok E \<Longrightarrow> hash0 E l r = ret (hash_value E [l, r])"
  by (simp add: hash0_def hash_value_ok)

lemma hash1_value: "smt_env_ok E \<Longrightarrow> hash1 E k v = ret (hash_value E [k, v, 1])"
  by (simp add: hash1_def hash_value_ok smt_env_okD)

lemma digest_in_field: "smt_env_ok E \<Longrightarrow> in_field (pe_F E) (digest E t)"
  by (cases t) (simp_all add: hash_value_ok(2), simp add: in_field_def smt_env_okD)

text \<open>A value and its residue have the same hash.\<close>

lemma F1_e_idem: "F1_wf F \<Longrightarrow> 0 \<le> a \<Longrightarrow> F1_e F (F1_e F a) = F1_e F a"
  using pos_mod_sign [of "F_p F" a] by (auto simp: F1_e_cases F1_wf_p not_less [symmetric] dest: F1_wf_p)

lemma to_radix_inj:
  assumes "to_radix 10 a = to_radix 10 b" "0 \<le> a" "0 \<le> b"
  shows "a = b"
proof -
  have "map digit_val (to_radix 10 a) = map digit_val (to_radix 10 b)" using assms(1) by simp
  moreover have v: "map digit_val (to_radix 10 n) = map Some (radix_digits 10 (nat n))" if "0 \<le> n" for n
    using that radix_digits_less [of 10 _ "nat n"] by (force simp: to_radix_def)
  ultimately have eq: "radix_digits 10 (nat a) = radix_digits 10 (nat b)" using assms(2,3) by (simp add: inj_map_eq_map)
  have "nat a = digits_value 10 (radix_digits 10 (nat a))" by (rule digits_value_radix_digits [symmetric]) simp
  also have "\<dots> = digits_value 10 (radix_digits 10 (nat b))" by (simp only: eq)
  also have "\<dots> = nat b" by (rule digits_value_radix_digits) simp
  finally show ?thesis using assms(2,3) by simp
qed

lemma to_radix_not_minus: "0 \<le> a \<Longrightarrow> hd (to_radix 10 a) \<noteq> CHR ''-''"
proof -
  assume "0 \<le> a"
  obtain d ds where d: "radix_digits 10 (nat a) = d # ds" using radix_digits_nonempty by (cases "radix_digits 10 (nat a)") auto
  then have "d < 10" using radix_digits_less [of 10 d "nat a"] by simp
  then have "digit_val (digit_char d) = Some d" by simp
  moreover have "digit_val (CHR ''-'') = None" by (simp add: digit_val_def)
  ultimately show ?thesis using d \<open>0 \<le> a\<close> by (auto simp: to_radix_def)
qed

lemma key2str_inj:
  assumes "F1_wf F" "in_field F a" "in_field F b" "key2str F a = key2str F b"
  shows "a = b"
proof -
  have r: "0 \<le> a" "0 \<le> b" "0 \<le> F_p F - a" "0 \<le> F_p F - b" using assms(2,3) by (simp_all add: in_field_def)
  have n: "to_radix 10 a \<noteq> CHR ''-'' # xs" "to_radix 10 b \<noteq> CHR ''-'' # xs" for xs
    using to_radix_not_minus [OF r(1)] to_radix_not_minus [OF r(2)] by auto
  have s: "key2str F x = (if x > F_half F then CHR ''-'' # to_radix 10 (F_p F - x) else to_radix 10 x)" for x
    by (simp add: key2str_def F1_toString_def)
  consider "to_radix 10 (F_p F - a) = to_radix 10 (F_p F - b)" | "to_radix 10 a = to_radix 10 b"
    using assms(4) n unfolding s by (metis list.inject)
  then show ?thesis
  proof cases
    case 1
    from to_radix_inj [OF this r(3,4)] show ?thesis by simp
  next
    case 2
    from to_radix_inj [OF this r(1,2)] show ?thesis .
  qed
qed

section \<open>What the tree relies on in its database\<close>

text \<open>
  A store of nodes: reading after writing or deleting a node.  A written node is normalised.
  The lemmas are about lists of writes and deletions, as the operations use them.
\<close>

locale node_store =
  fixes ok :: "'c \<Rightarrow> bool" and key :: "'c \<Rightarrow> 'k \<Rightarrow> bool" and norm :: "'c \<Rightarrow> 'n \<Rightarrow> 'n"
    and get :: "'c \<Rightarrow> 's \<Rightarrow> 'k \<Rightarrow> 'n option" and ins :: "'c \<Rightarrow> ('k \<times> 'n) list \<Rightarrow> 's \<Rightarrow> 's" and del :: "'c \<Rightarrow> 'k list \<Rightarrow> 's \<Rightarrow> 's"
  assumes ins_Nil: "ins c [] s = s"
    and ins_Cons: "ins c ((k, n) # xs) s = ins c xs (ins c [(k, n)] s)"
    and get_ins: "ok c \<Longrightarrow> key c k \<Longrightarrow> key c h \<Longrightarrow> get c (ins c [(k, n)] s) h = (if h = k then Some (norm c n) else get c s h)"
    and del_Nil: "del c [] s = s"
    and del_Cons: "del c (k # ks) s = del c ks (del c [k] s)"
    and get_del: "ok c \<Longrightarrow> key c k \<Longrightarrow> key c h \<Longrightarrow> get c (del c [k] s) h = (if h = k then None else get c s h)"
begin

lemma get_del_other:
  "ok c \<Longrightarrow> (\<And>k. k \<in> set ks \<Longrightarrow> key c k) \<Longrightarrow> key c h \<Longrightarrow> h \<notin> set ks \<Longrightarrow> get c (del c ks s) h = get c s h"
proof (induction ks arbitrary: s)
  case (Cons k ks)
  then show ?case by (subst del_Cons) (simp add: get_del)
qed (simp add: del_Nil)

lemma get_ins_keep:
  "ok c \<Longrightarrow> (\<And>k n. (k, n) \<in> set xs \<Longrightarrow> key c k) \<Longrightarrow> key c h \<Longrightarrow> (\<And>n. (h, n) \<in> set xs \<Longrightarrow> norm c n = m)
    \<Longrightarrow> get c s h = Some m \<Longrightarrow> get c (ins c xs s) h = Some m"
proof (induction xs arbitrary: s)
  case (Cons x xs)
  obtain k n where x: "x = (k, n)" by (cases x)
  have "key c k" using Cons.prems(2) [of k n] x by simp
  then have "get c (ins c [(k, n)] s) h = Some m"
    using Cons.prems x get_ins by (cases "h = k") auto
  then have "get c (ins c xs (ins c [(k, n)] s)) h = Some m"
    by (rule Cons.IH [rotated 4]) (use Cons.prems in auto)
  then show ?case unfolding x by (subst ins_Cons)
qed (simp add: ins_Nil)

lemma get_ins_some:
  "ok c \<Longrightarrow> (\<And>k n. (k, n) \<in> set xs \<Longrightarrow> key c k) \<Longrightarrow> key c h \<Longrightarrow> (\<And>n. (h, n) \<in> set xs \<Longrightarrow> norm c n = m)
    \<Longrightarrow> (h, n0) \<in> set xs \<Longrightarrow> get c (ins c xs s) h = Some m"
proof (induction xs arbitrary: s)
  case (Cons x xs)
  obtain k n where x: "x = (k, n)" by (cases x)
  have k: "key c k" using Cons.prems(2) [of k n] x by simp
  show ?case
  proof (cases "(h, n0) \<in> set xs")
    case True
    have "get c (ins c xs (ins c [(k, n)] s)) h = Some m"
      by (rule Cons.IH [OF Cons.prems(1) _ Cons.prems(3) _ True]) (use Cons.prems in auto)
    then show ?thesis unfolding x by (subst ins_Cons)
  next
    case False
    then have h: "h = k" using Cons.prems(5) x by auto
    have "norm c n = m" using Cons.prems(4) [of n] x h by simp
    then have "get c (ins c [(k, n)] s) h = Some m" using Cons.prems(1,3) k h by (simp add: get_ins)
    then have "get c (ins c xs (ins c [(k, n)] s)) h = Some m"
      by (rule get_ins_keep [rotated 4]) (use Cons.prems in auto)
    then show ?thesis unfolding x by (subst ins_Cons)
  qed
qed simp

end

interpretation mem: node_store F1_wf in_field SMTMemDb_normalize SMTMemDb_get SMTMemDb_multiIns SMTMemDb_multiDel
proof
  fix F :: F1Field and k h :: int and n :: "int list" and xs :: "(int \<times> int list) list" and ks :: "int list" and s :: smt_db
  show "SMTMemDb_multiIns F [] s = s" "SMTMemDb_multiDel F [] s = s"
    "SMTMemDb_multiIns F ((k, n) # xs) s = SMTMemDb_multiIns F xs (SMTMemDb_multiIns F [(k, n)] s)"
    "SMTMemDb_multiDel F (k # ks) s = SMTMemDb_multiDel F ks (SMTMemDb_multiDel F [k] s)"
    by (simp_all add: SMTMemDb_multiIns_def SMTMemDb_multiDel_def)
  assume "F1_wf F" "in_field F k" "in_field F h"
  then have "key2str F h = key2str F k \<longleftrightarrow> h = k" using key2str_inj by blast
  then show "SMTMemDb_get F (SMTMemDb_multiIns F [(k, n)] s) h = (if h = k then Some (SMTMemDb_normalize F n) else SMTMemDb_get F s h)"
    "SMTMemDb_get F (SMTMemDb_multiDel F [k] s) h = (if h = k then None else SMTMemDb_get F s h)"
    by (simp_all add: SMTMemDb_get_def SMTMemDb_multiIns_def SMTMemDb_multiDel_def)
qed

lemma get_setRoot [simp]: "SMTMemDb_get F (SMTMemDb_setRoot r db) h = SMTMemDb_get F db h"
  by (simp add: SMTMemDb_get_def SMTMemDb_setRoot_def)

lemma db_root_ops [simp]:
  "db_root (SMTMemDb_setRoot r db) = r" "db_root (SMTMemDb_multiIns F xs db) = db_root db" "db_root (SMTMemDb_multiDel F ks db) = db_root db"
proof -
  show "db_root (SMTMemDb_setRoot r db) = r" by (simp add: SMTMemDb_setRoot_def)
  show "db_root (SMTMemDb_multiIns F xs db) = db_root db"
    unfolding SMTMemDb_multiIns_def by (induction xs arbitrary: db) (auto split: prod.splits)
  show "db_root (SMTMemDb_multiDel F ks db) = db_root db"
    unfolding SMTMemDb_multiDel_def by (induction ks arbitrary: db) auto
qed

text \<open>The writes of an operation are nodes of the new tree, its deletions nodes of the old one only.\<close>

definition writes :: "poseidon_env \<Rightarrow> (int \<times> int list) list \<Rightarrow> mtree set \<Rightarrow> bool" where
  "writes E inserts N \<longleftrightarrow> (\<lambda>(h, n). (h, SMTMemDb_normalize (pe_F E) n)) ` set inserts = (\<lambda>s. (digest E s, content E s)) ` N"

definition removes :: "poseidon_env \<Rightarrow> int list \<Rightarrow> mtree set \<Rightarrow> bool" where
  "removes E deletes D \<longleftrightarrow> set deletes = digest E ` D"

lemma collision_free_eq:
  "collision_free E ts \<Longrightarrow> s \<in> set ts \<Longrightarrow> s' \<in> set ts \<Longrightarrow> digest E s = digest E s' \<Longrightarrow> s = s'"
  unfolding collision_free_def by blast

lemma stored_ins:
  assumes E: "smt_env_ok E" and cf: "collision_free E ts" and ts: "N \<union> K \<subseteq> set ts"
    and w: "writes E inserts N" and k: "\<And>s. s \<in> K \<Longrightarrow> SMTMemDb_get (pe_F E) db (digest E s) = Some (content E s)"
    and s: "s \<in> N \<union> K"
  shows "SMTMemDb_get (pe_F E) (SMTMemDb_multiIns (pe_F E) inserts db) (digest E s) = Some (content E s)"
proof -
  have F: "F1_wf (pe_F E)" using E by (rule smt_env_okD)
  have W: "\<exists>s' \<in> N. h = digest E s' \<and> SMTMemDb_normalize (pe_F E) n = content E s'" if "(h, n) \<in> set inserts" for h n
  proof -
    have "(h, SMTMemDb_normalize (pe_F E) n) \<in> (\<lambda>(h, n). (h, SMTMemDb_normalize (pe_F E) n)) ` set inserts"
      using that by force
    then show ?thesis unfolding w [unfolded writes_def] by auto
  qed
  have key: "in_field (pe_F E) h" if "(h, n) \<in> set inserts" for h n
    using W [OF that] digest_in_field [OF E] by auto
  have same: "SMTMemDb_normalize (pe_F E) n = content E s" if n: "(digest E s, n) \<in> set inserts" for n
  proof -
    obtain s' where s': "s' \<in> N" "digest E s = digest E s'" "SMTMemDb_normalize (pe_F E) n = content E s'"
      using W [OF n] by auto
    have "s = s'" by (rule collision_free_eq [OF cf _ _ s'(2)]) (use s s'(1) ts in auto)
    then show ?thesis using s'(3) by simp
  qed
  show ?thesis
  proof (cases "s \<in> N")
    case True
    then have "(digest E s, content E s) \<in> (\<lambda>(h, n). (h, SMTMemDb_normalize (pe_F E) n)) ` set inserts"
      unfolding w [unfolded writes_def] by auto
    then obtain n where "(digest E s, n) \<in> set inserts" by auto
    show ?thesis
      by (rule mem.get_ins_some [OF F _ digest_in_field [OF E] _ \<open>(digest E s, n) \<in> set inserts\<close>]) (fact key, fact same)
  next
    case False
    then have "s \<in> K" using s by blast
    show ?thesis
      by (rule mem.get_ins_keep [OF F _ digest_in_field [OF E] _ k [OF \<open>s \<in> K\<close>]]) (fact key, fact same)
  qed
qed

lemma get_removed_other:
  assumes E: "smt_env_ok E" and cf: "collision_free E ts" and ts: "D \<subseteq> set ts" "s \<in> set ts" and r: "removes E deletes D" "s \<notin> D"
  shows "SMTMemDb_get (pe_F E) (SMTMemDb_multiDel (pe_F E) deletes db) (digest E s) = SMTMemDb_get (pe_F E) db (digest E s)"
proof (rule mem.get_del_other [OF smt_env_okD(2) [OF E] _ digest_in_field [OF E]])
  show "in_field (pe_F E) k" if "k \<in> set deletes" for k
    using that r(1) digest_in_field [OF E] by (auto simp: removes_def)
  show "digest E s \<notin> set deletes"
  proof
    assume "digest E s \<in> set deletes"
    then obtain s' where "s' \<in> D" "digest E s = digest E s'" using r(1) by (auto simp: removes_def)
    then show False using collision_free_eq [OF cf ts(2), of s'] ts(1) r(2) by blast
  qed
qed

text \<open>Both orders of writing and deleting leave the new tree stored.\<close>

lemma stored_after:
  assumes E: "smt_env_ok E" and cf: "collision_free E (subs t @ subs t')" and st: "smt_stored E db t"
    and w: "writes E inserts N" and N: "N \<subseteq> set (subs t')" "set (subs t') \<subseteq> N \<union> set (subs t)"
    and r: "removes E deletes D" and D: "D \<subseteq> set (subs t)" "D \<inter> set (subs t') = {}"
  shows "smt_stored E (SMTMemDb_multiDel (pe_F E) deletes (SMTMemDb_setRoot h (SMTMemDb_multiIns (pe_F E) inserts db))) t'"
  unfolding smt_stored_def
proof
  fix s assume s: "s \<in> set (subs t')"
  have "SMTMemDb_get (pe_F E) (SMTMemDb_multiIns (pe_F E) inserts db) (digest E s) = Some (content E s)"
    by (rule stored_ins [OF E cf _ w, where K = "set (subs t)"]) (use st N s in \<open>auto simp: smt_stored_def\<close>)
  moreover have "s \<notin> D" "D \<subseteq> set (subs t @ subs t')" "s \<in> set (subs t @ subs t')" using D s by auto
  ultimately show "SMTMemDb_get (pe_F E) (SMTMemDb_multiDel (pe_F E) deletes
      (SMTMemDb_setRoot h (SMTMemDb_multiIns (pe_F E) inserts db))) (digest E s) = Some (content E s)"
    using get_removed_other [OF E cf _ _ r, of s] by simp
qed

lemma stored_after_del_first:
  assumes E: "smt_env_ok E" and cf: "collision_free E (subs t @ subs t')" and st: "smt_stored E db t"
    and w: "writes E inserts N" and N: "N \<subseteq> set (subs t')" "set (subs t') \<subseteq> N \<union> (set (subs t) - D)"
    and r: "removes E deletes D" and D: "D \<subseteq> set (subs t)"
  shows "smt_stored E (SMTMemDb_setRoot h (SMTMemDb_multiIns (pe_F E) inserts (SMTMemDb_multiDel (pe_F E) deletes db))) t'"
  unfolding smt_stored_def
proof
  fix s assume s: "s \<in> set (subs t')"
  have k: "SMTMemDb_get (pe_F E) (SMTMemDb_multiDel (pe_F E) deletes db) (digest E s') = Some (content E s')"
    if "s' \<in> set (subs t) - D" for s'
  proof -
    have "s' \<notin> D" "D \<subseteq> set (subs t @ subs t')" "s' \<in> set (subs t @ subs t')" using D that by auto
    then show ?thesis using that st get_removed_other [OF E cf _ _ r, of s'] by (simp add: smt_stored_def)
  qed
  show "SMTMemDb_get (pe_F E) (SMTMemDb_setRoot h (SMTMemDb_multiIns (pe_F E) inserts (SMTMemDb_multiDel (pe_F E) deletes db))) (digest E s)
      = Some (content E s)"
    unfolding get_setRoot
    by (rule stored_ins [OF E cf _ w k, where K = "set (subs t) - D"]) (use N s in auto)
qed

section \<open>Searching\<close>

definition found_at :: "int \<Rightarrow> mtree \<Rightarrow> int list \<Rightarrow> find_response" where
  "found_at k b siblings = (case b of
     MLeaf k' v \<Rightarrow> \<lparr> fr_found = (k' = k), fr_key = k', fr_value = v, fr_siblings = siblings, fr_isOld0 = False \<rparr>
   | _ \<Rightarrow> \<lparr> fr_found = False, fr_key = k, fr_value = 0, fr_siblings = siblings, fr_isOld0 = True \<rparr>)"

lemma stored_node: "smt_stored E db (MNode l r) \<Longrightarrow> smt_stored E db l \<and> smt_stored E db r"
  by (simp add: smt_stored_def)

lemma read_stored: "smt_stored E db t \<Longrightarrow> t \<noteq> MEmpty \<Longrightarrow> read_node (pe_F E) db (digest E t) = ret (content E t)"
  using subs_self [of t] by (simp add: read_node_def smt_stored_def)

lemma find_located:
  assumes E: "smt_env_ok E" and "wf_tree p n t" "smt_stored E db t" "\<forall>s \<in> set (subs t). digest E s \<noteq> 0"
    and "locate k n t = (ctx, b)"
  shows "SMT_find E db k (key_bits k) (digest E t) n = ret (found_at k b (map (digest E) ctx))"
  using assms(2-)
proof (induction t arbitrary: n ctx b)
  case MEmpty
  then show ?case using smt_env_okD [OF E] by (subst SMT_find.simps) (simp add: F1_isZero_def found_at_def)
next
  case (MLeaf k' v)
  have "digest E (MLeaf k' v) \<noteq> 0" "ctx = []" "b = MLeaf k' v" using MLeaf.prems by auto
  then show ?case
    using read_stored [OF MLeaf.prems(2)] smt_env_okD [OF E]
    by (subst SMT_find.simps) (auto simp: F1_isZero_def F1_eq_def is_leaf_def found_at_def Let_def simp del: digest.simps)
next
  case (MNode l r)
  have n: "n < 256" using MNode.prems(1) by simp
  have 0: "digest E (MNode l r) \<noteq> 0" using MNode.prems(3) by simp
  have rd: "read_node (pe_F E) db (digest E (MNode l r)) = ret [digest E l, digest E r]"
    using read_stored [OF MNode.prems(2)] by simp
  have find: "SMT_find E db k (key_bits k) (digest E (MNode l r)) n =
      (if bit k n then bindJ (SMT_find E db k (key_bits k) (digest E r) (Suc n)) (\<lambda>res. ret (res\<lparr>fr_siblings := digest E l # fr_siblings res\<rparr>))
       else bindJ (SMT_find E db k (key_bits k) (digest E l) (Suc n)) (\<lambda>res. ret (res\<lparr>fr_siblings := digest E r # fr_siblings res\<rparr>)))"
    using 0 n by (subst SMT_find.simps) (simp add: F1_isZero_def smt_env_okD [OF E] rd is_leaf_def del: digest.simps)
  have upd: "(found_at k b ss)\<lparr>fr_siblings := x # fr_siblings (found_at k b ss)\<rparr> = found_at k b (x # ss)" for x ss
    by (cases b) (simp_all add: found_at_def)
  have sub: "wf_tree p (Suc n) l" "wf_tree p (Suc n) r" "smt_stored E db l" "smt_stored E db r"
    "\<forall>s \<in> set (subs l). digest E s \<noteq> 0" "\<forall>s \<in> set (subs r). digest E s \<noteq> 0"
    using MNode.prems(1,3) stored_node [OF MNode.prems(2)] by simp_all
  show ?case
  proof (cases "bit k n")
    case True
    then obtain c where c: "locate k (Suc n) r = (c, b)" "ctx = l # c" using MNode.prems(4) by (auto split: prod.splits)
    have e: "SMT_find E db k (key_bits k) (digest E r) (Suc n) = ret (found_at k b (map (digest E) c))"
      by (rule MNode.IH(2) [OF sub(2,4,6) c(1)])
    show ?thesis unfolding find c(2) by (simp only: True if_True e bindJ_ret upd list.map)
  next
    case False
    then obtain c where c: "locate k (Suc n) l = (c, b)" "ctx = r # c" using MNode.prems(4) by (auto split: prod.splits)
    have e: "SMT_find E db k (key_bits k) (digest E l) (Suc n) = ret (found_at k b (map (digest E) c))"
      by (rule MNode.IH(1) [OF sub(1,3,5) c(1)])
    show ?thesis unfolding find c(2) by (simp only: False if_False e bindJ_ret upd list.map)
  qed
qed

end
