(* ===== verification/SmtRefine.thy ===== *)
theory SmtRefine
  imports SmtSpec
begin

text \<open>
  The operations of the sparse Merkle tree on its database implement those of the
  abstract tree.  Each loop over the levels of a path is one invariant
  (\<open>update_inv\<close>, \<open>delete_inv\<close>, \<open>add_inv\<close>) about the subtree that starts at a level.
\<close>

section \<open>Walking up a path\<close>

text \<open>A loop over the levels, from the last one down to 0, with an invariant on the level.\<close>

lemma foldJ_down:
  assumes "P n st" "\<And>j st. j < n \<Longrightarrow> P (Suc j) st \<Longrightarrow> \<exists>st'. f st j = ret st' \<and> P j st'"
  shows "\<exists>st'. foldJ f st (rev [0..<n]) = ret st' \<and> P 0 st'"
  using assms
proof (induction n arbitrary: st)
  case (Suc n)
  obtain st' where s: "f st n = ret st'" "P n st'" using Suc.prems(1) Suc.prems(2) [of n st] by auto
  obtain z where "foldJ f st' (rev [0..<n]) = ret z \<and> P 0 z" using Suc.IH [OF s(2)] Suc.prems(2) by (meson less_SucI)
  then show ?case using s(1) by auto
qed simp

text \<open>The subtree on the way to \<open>k\<close> that starts at level \<open>j\<close>.\<close>

definition sub_at :: "int \<Rightarrow> mtree list \<Rightarrow> mtree \<Rightarrow> nat \<Rightarrow> mtree" where
  "sub_at k ctx b j = plug k j (drop j ctx) b"

lemma sub_at_0: "sub_at k ctx b 0 = plug k 0 ctx b"
  by (simp add: sub_at_def)

lemma sub_at_end: "length ctx \<le> j \<Longrightarrow> sub_at k ctx b j = b"
  by (simp add: sub_at_def)

lemma upto_step:
  "j < length ctx \<Longrightarrow> sub_at k ctx b j = (if bit k j then MNode (ctx ! j) (sub_at k ctx b (Suc j)) else MNode (sub_at k ctx b (Suc j)) (ctx ! j))"
  unfolding sub_at_def by (subst Cons_nth_drop_Suc [symmetric]) simp_all

lemma path_nodes_upto: "path_nodes k n ctx b = (\<lambda>i. plug k (n + i) (drop i ctx) b) ` {..<length ctx}"
proof (induction ctx arbitrary: n)
  case (Cons c ctx)
  have s: "{..<length (c # ctx)} = insert 0 (Suc ` {..<length ctx})" by (simp add: lessThan_Suc_eq_insert_0)
  show ?case unfolding path_nodes.simps Cons.IH s image_insert image_image by simp
qed simp

lemma path_nodes_0: "path_nodes k 0 ctx b = sub_at k ctx b ` {..<length ctx}"
  by (simp add: path_nodes_upto sub_at_def)

lemma digest_upto:
  assumes "j < length ctx"
  shows "digest E (sub_at k ctx b j) = hash_value E
      (if bit k j then [digest E (ctx ! j), digest E (sub_at k ctx b (Suc j))] else [digest E (sub_at k ctx b (Suc j)), digest E (ctx ! j)])"
    "content E (sub_at k ctx b j) =
      (if bit k j then [digest E (ctx ! j), digest E (sub_at k ctx b (Suc j))] else [digest E (sub_at k ctx b (Suc j)), digest E (ctx ! j)])"
  unfolding upto_step [OF assms] by simp_all

lemma atLeast_upto: "j < n \<Longrightarrow> {j..<n} = insert j {Suc j..<(n::nat)}"
  by auto

text \<open>One level of a loop: the hash of the node that the level's sibling and the hash below make.\<close>

lemma hash0_upto:
  assumes "smt_env_ok E" "j < length ctx" "j < 256"
  shows "hash0 E (fst (node_pair (key_bits k) j (digest E (ctx ! j)) (digest E (sub_at k ctx b (Suc j)))))
      (snd (node_pair (key_bits k) j (digest E (ctx ! j)) (digest E (sub_at k ctx b (Suc j))))) = ret (digest E (sub_at k ctx b j))"
    "[fst (node_pair (key_bits k) j (digest E (ctx ! j)) (digest E (sub_at k ctx b (Suc j)))),
      snd (node_pair (key_bits k) j (digest E (ctx ! j)) (digest E (sub_at k ctx b (Suc j))))] = content E (sub_at k ctx b j)"
  using assms by (simp_all add: digest_upto node_pair_key hash0_value)

lemma normalize_field: "F1_wf F \<Longrightarrow> (\<And>x. x \<in> set xs \<Longrightarrow> in_field F x) \<Longrightarrow> SMTMemDb_normalize F xs = xs"
  unfolding SMTMemDb_normalize_def by (rule map_idI) (simp add: F1_e_def in_field_def not_less [symmetric])

lemma normalize_content_node: "smt_env_ok E \<Longrightarrow> SMTMemDb_normalize (pe_F E) (content E (MNode l r)) = content E (MNode l r)"
  by (intro normalize_field smt_env_okD) (auto intro: digest_in_field)

lemma normalize_content_upto:
  "smt_env_ok E \<Longrightarrow> j < length ctx \<Longrightarrow> SMTMemDb_normalize (pe_F E) (content E (sub_at k ctx b j)) = content E (sub_at k ctx b j)"
  unfolding upto_step by (cases "bit k j") (simp_all only: if_True if_False normalize_content_node)

text \<open>A value above the modulus is stored and hashed as its residue.\<close>

lemma leaf_residue:
  assumes E: "smt_env_ok E" and "0 \<le> k" "k < F_p (pe_F E)" "0 \<le> w"
  shows "SMTMemDb_normalize (pe_F E) [1, k, w] = [1, k, w mod F_p (pe_F E)]"
    "hash_value E [k, w, 1] = hash_value E [k, w mod F_p (pe_F E), 1]"
proof -
  have F: "F1_wf (pe_F E)" using E by (rule smt_env_okD)
  have e: "F1_e (pe_F E) k = k" "F1_e (pe_F E) 1 = 1" "F1_e (pe_F E) w = w mod F_p (pe_F E)"
    "F1_e (pe_F E) (w mod F_p (pe_F E)) = w mod F_p (pe_F E)"
    using assms F1_wf_p [OF F] smt_env_okD(6) [OF E] pos_mod_sign [of "F_p (pe_F E)" w] by (auto simp: F1_e_cases [OF F] leD)
  then show "SMTMemDb_normalize (pe_F E) [1, k, w] = [1, k, w mod F_p (pe_F E)]" by (simp add: SMTMemDb_normalize_def)
  show "hash_value E [k, w, 1] = hash_value E [k, w mod F_p (pe_F E), 1]"
    unfolding hash_value_def Poseidon_hash_def by (simp only: list.map list.size e Let_def)
qed

lemma wf_plug_levels: "wf_tree p n (plug k n ctx b) \<Longrightarrow> ctx \<noteq> [] \<Longrightarrow> n + length ctx \<le> 256"
proof (induction ctx arbitrary: n)
  case (Cons c ctx)
  have w: "n < 256" "wf_tree p (Suc n) (plug k (Suc n) ctx b)" using Cons.prems(1) unfolding wf_plug_Cons by auto
  then show ?case using Cons.IH [OF w(2)] by (cases ctx) auto
qed simp

lemma smt_get_located:
  assumes E: "smt_env_ok E" and s: "smt_rep E s t" and cf: "collision_free E (subs t @ ts)"
    and k: "0 \<le> k" "k < F_p (pe_F E)" and loc: "locate k 0 t = (ctx, b)"
  shows "SMT_get E s k = ret (found_at k b (map (digest E) ctx))"
proof -
  have "F1_e (pe_F E) k = k" using k by (simp add: F1_e_def)
  moreover have "getBits E k = ret (key_bits k)" using getBits_key k smt_env_okD(3) [OF E] by simp
  moreover have "SMT_find E (smt_db s) k (key_bits k) (digest E t) 0 = ret (found_at k b (map (digest E) ctx))"
    by (rule find_located [OF E _ _ _ loc]) (use s cf in \<open>auto simp: smt_rep_def collision_free_def\<close>)
  moreover have "smt_root s = digest E t" using s by (simp add: smt_rep_def)
  ultimately show ?thesis by (simp add: SMT_get_def)
qed

lemma wf_last_sibling: "wf_tree p n (plug k n ctx b) \<Longrightarrow> ctx \<noteq> [] \<Longrightarrow> 2 \<le> length (leaves (last ctx)) + length (leaves b)"
proof (induction ctx arbitrary: n)
  case (Cons c ctx)
  have w: "wf_tree p (Suc n) (plug k (Suc n) ctx b)" "2 \<le> length (leaves c) + length (leaves (plug k (Suc n) ctx b))"
    using Cons.prems(1) unfolding wf_plug_Cons by auto
  then show ?case using Cons.IH [OF w(1)] by (cases ctx) auto
qed simp

section \<open>Update\<close>

definition update_inv :: "poseidon_env \<Rightarrow> int \<Rightarrow> mtree list \<Rightarrow> int \<Rightarrow> int \<Rightarrow> nat \<Rightarrow> int \<times> int \<times> (int \<times> int list) list \<times> int list \<Rightarrow> bool" where
  "update_inv E k ctx v v' j st \<longleftrightarrow> (case st of (rtOld, newRoot, inserts, deletes) \<Rightarrow>
     rtOld = digest E (sub_at k ctx (MLeaf k v) j) \<and> newRoot = digest E (sub_at k ctx (MLeaf k v') j)
     \<and> writes E inserts (sub_at k ctx (MLeaf k v') ` {j..<Suc (length ctx)})
     \<and> removes E deletes (sub_at k ctx (MLeaf k v) ` {j..<Suc (length ctx)}))"

lemma writes_snoc: "writes E ins N \<Longrightarrow> SMTMemDb_normalize (pe_F E) n = content E s \<Longrightarrow> writes E (ins @ [(digest E s, n)]) (insert s N)"
  by (simp add: writes_def)

lemma removes_snoc: "removes E dels D \<Longrightarrow> removes E (dels @ [digest E s]) (insert s D)"
  by (simp add: removes_def)

lemma update_loop:
  assumes E: "smt_env_ok E" and len: "length ctx \<le> 256" and j: "j < length ctx" and inv: "update_inv E k ctx v v' (Suc j) st"
  shows "\<exists>st'. update_step E (key_bits k) (map (digest E) ctx) st j = ret st' \<and> update_inv E k ctx v v' j st'"
proof -
  obtain rtOld newRoot inserts deletes where st: "st = (rtOld, newRoot, inserts, deletes)" by (cases st)
  have i: "rtOld = digest E (sub_at k ctx (MLeaf k v) (Suc j))" "newRoot = digest E (sub_at k ctx (MLeaf k v') (Suc j))"
    "writes E inserts (sub_at k ctx (MLeaf k v') ` {Suc j..<Suc (length ctx)})"
    "removes E deletes (sub_at k ctx (MLeaf k v) ` {Suc j..<Suc (length ctx)})"
    using inv by (simp_all add: update_inv_def st)
  have j': "j < 256" using j len by simp
  show ?thesis
    using j writes_snoc [OF i(3) normalize_content_upto [OF E j]] removes_snoc [OF i(4)]
    by (simp add: update_step_def st Let_def i(1,2) hash0_upto [OF E j j'] update_inv_def atLeast_upto [of j])
qed


lemma SMT_update_rep:
  assumes E: "smt_env_ok E" and s: "smt_rep E s t" and k: "0 \<le> k" "k < F_p (pe_F E)" "0 \<le> w" "v' = w mod F_p (pe_F E)"
    and loc: "locate k 0 t = (ctx, MLeaf k v)" and cf: "collision_free E (subs t @ subs (plug k 0 ctx (MLeaf k v')))"
  shows "\<exists>s' r. SMT_update E s k w = ret (s', r) \<and> smt_rep E s' (plug k 0 ctx (MLeaf k v')) \<and> ur_oldValue r = v
    \<and> ur_oldRoot r = smt_root s \<and> ur_newRoot r = smt_root s'"
proof -
  define ss where "ss = map (digest E) ctx"
  define t' where "t' = plug k 0 ctx (MLeaf k v')"
  have t: "t = plug k 0 ctx (MLeaf k v)" using plug_locate [OF loc] by simp
  have wf: "wf_tree (F_p (pe_F E)) 0 (plug k 0 ctx (MLeaf k v))" using s t by (simp add: smt_rep_def)
  have len: "length ctx \<le> 256" using wf_plug_levels [OF wf] by (cases ctx) auto
  have bits: "getBits E k = ret (key_bits k)" using getBits_key k smt_env_okD(3) [OF E] by simp
  have get: "SMT_get E s k = ret (found_at k (MLeaf k v) ss)"
    unfolding ss_def by (rule smt_get_located [OF E s cf k(1,2) loc])
  define st0 where "st0 = (hash_value E [k, v, 1], hash_value E [k, v', 1], [(hash_value E [k, v', 1], [1, k, w])], [hash_value E [k, v, 1]])"
  note leaf = leaf_residue [OF E k(1-3), folded k(4)]
  have init: "update_inv E k ctx v v' (length ctx) st0"
    by (simp add: update_inv_def st0_def sub_at_end writes_def removes_def leaf)
  have "\<exists>st. foldJ (update_step E (key_bits k) ss) st0 (rev [0..<length ctx]) = ret st \<and> update_inv E k ctx v v' 0 st"
    unfolding ss_def by (rule foldJ_down [where P = "update_inv E k ctx v v'", OF init]) (rule update_loop [OF E len])
  then obtain st where st: "foldJ (update_step E (key_bits k) ss) st0 (rev [0..<length ctx]) = ret st" "update_inv E k ctx v v' 0 st"
    by blast
  obtain rtOld newRoot inserts deletes where r: "st = (rtOld, newRoot, inserts, deletes)" by (cases st)
  define db where "db = SMTMemDb_setRoot newRoot (SMTMemDb_multiIns (pe_F E) inserts (SMTMemDb_multiDel (pe_F E) deletes (smt_db s)))"
  have i: "newRoot = digest E t'" "writes E inserts (sub_at k ctx (MLeaf k v') ` {..<Suc (length ctx)})"
    "removes E deletes (sub_at k ctx (MLeaf k v) ` {..<Suc (length ctx)})"
    using st(2) by (simp_all add: update_inv_def r sub_at_0 t'_def atLeast0LessThan)
  have P: "sub_at k ctx b ` {..<Suc (length ctx)} = insert b (path_nodes k 0 ctx b)" for b
    by (simp add: path_nodes_0 lessThan_Suc sub_at_end)
  have stored: "smt_stored E db t'"
    unfolding db_def
  proof (rule stored_after_del_first [OF E, where t = t and N = "insert (MLeaf k v') (path_nodes k 0 ctx (MLeaf k v'))" and D = "insert (MLeaf k v) (path_nodes k 0 ctx (MLeaf k v))"])
    show "collision_free E (subs t @ subs t')" using cf by (simp add: t'_def)
    show "smt_stored E (smt_db s) t" using s by (simp add: smt_rep_def)
    have off: "x \<notin> insert (MLeaf k v) (path_nodes k 0 ctx (MLeaf k v))" if "c \<in> set ctx" "x \<in> set (subs c)" for c x
      using wf_path_keys [OF wf that(1)] subs_keys [OF that(2)] path_nodes_keys [of x k 0 ctx "MLeaf k v"] by auto
    show "set (subs t') \<subseteq> insert (MLeaf k v') (path_nodes k 0 ctx (MLeaf k v')) \<union> (set (subs t) - insert (MLeaf k v) (path_nodes k 0 ctx (MLeaf k v)))"
      using off by (auto simp: t'_def t set_subs_plug)
  qed (use i in \<open>auto simp: P t'_def t set_subs_plug\<close>)
  have "wf_tree (F_p (pe_F E)) 0 t'"
    unfolding t'_def
  proof (rule wf_replace [OF wf])
    show "wf_tree (F_p (pe_F E)) (0 + length ctx) (MLeaf k v')" using k smt_env_okD(6) [OF E] by simp
    show "ctx \<noteq> [] \<Longrightarrow> 2 \<le> length (leaves (last ctx)) + length (leaves (MLeaf k v'))"
      using wf_last_sibling [OF wf] by simp
  qed simp
  then have "smt_rep E (s\<lparr>smt_db := db, smt_root := newRoot\<rparr>) t'"
    using stored i(1) by (simp add: smt_rep_def db_def)
  moreover have "SMT_update E s k w = ret (s\<lparr>smt_db := db, smt_root := newRoot\<rparr>,
       \<lparr> ur_oldRoot = smt_root s, ur_oldKey = k, ur_oldValue = v, ur_newKey = k,
         ur_newValue = w, ur_siblings = ss, ur_newRoot = newRoot \<rparr>)"
    using st(1) by (simp add: SMT_update_def get found_at_def hash1_value [OF E] leaf(2) bits smt_env_okD(5) [OF E] st0_def r db_def ss_def Let_def)
  ultimately show ?thesis unfolding t'_def by (intro exI conjI) (assumption | simp)+
qed

section \<open>Delete\<close>

definition delete_inv :: "poseidon_env \<Rightarrow> int \<Rightarrow> mtree list \<Rightarrow> int \<Rightarrow> mtree list \<Rightarrow> mtree \<Rightarrow> bool \<Rightarrow> nat \<Rightarrow> delete_state \<Rightarrow> bool" where
  "delete_inv E k ctx v ctx2 b2 m0 j st \<longleftrightarrow>
     ds_oldRoot st = digest E (sub_at k ctx (MLeaf k v) j) \<and> ds_newRoot st = digest E (sub_at k ctx2 b2 j)
     \<and> ds_mixed st = (m0 \<or> j < length ctx2)
     \<and> writes E (ds_inserts st) (sub_at k ctx2 b2 ` {j..<length ctx2})
     \<and> removes E (ds_deletes st) (sub_at k ctx (MLeaf k v) ` {j..<Suc (length ctx)})"

text \<open>What the path \<open>ctx\<close> becomes when its end is removed.\<close>

definition shrinks :: "poseidon_env \<Rightarrow> mtree list \<Rightarrow> mtree list \<Rightarrow> bool \<Rightarrow> bool" where
  "shrinks E ctx ctx2 m0 \<longleftrightarrow> (if m0 then ctx2 = ctx
     else length ctx2 < length ctx \<and> (\<forall>j < length ctx2. ctx2 ! j = ctx ! j) \<and> (ctx2 \<noteq> [] \<longrightarrow> digest E (last ctx2) \<noteq> 0)
       \<and> (\<forall>j. length ctx2 \<le> j \<and> j < length ctx - 1 \<longrightarrow> ctx ! j = MEmpty))"

lemma delete_loop:
  assumes E: "smt_env_ok E" and len: "length ctx \<le> 256" and sh: "shrinks E ctx ctx2 m0"
    and j: "j < length ctx" and inv: "delete_inv E k ctx v ctx2 b2 m0 (Suc j) st"
  shows "\<exists>st'. delete_step E (key_bits k) (map (digest E) ctx) m0 st j = ret st' \<and> delete_inv E k ctx v ctx2 b2 m0 j st'"
proof -
  have j': "j < 256" using j len by simp
  define ns where "ns = (if j = length (map (digest E) ctx) - 1 \<and> \<not> m0 then F_zero (pe_F E) else map (digest E) ctx ! j)"
  define mixed where "mixed = (ds_mixed st \<or> \<not> F1_isZero (pe_F E) ns)"
  have z: "F_zero (pe_F E) = 0" using E by (rule smt_env_okD)
  have mixed: "mixed \<longleftrightarrow> m0 \<or> j < length ctx2"
  proof (cases m0)
    case True
    then show ?thesis using inv by (simp add: mixed_def delete_inv_def)
  next
    case False
    have m: "mixed \<longleftrightarrow> Suc j < length ctx2 \<or> ns \<noteq> 0" using inv False by (simp add: mixed_def delete_inv_def F1_isZero_def z)
    consider "Suc j < length ctx2" | "Suc j = length ctx2" | "length ctx2 \<le> j" by linarith
    then show ?thesis
    proof cases
      case 2
      then have "ctx2 \<noteq> []" by auto
      have "j \<noteq> length ctx - 1" using 2 sh False by (auto simp: shrinks_def)
      then have "ns = digest E (ctx ! j)" using j by (simp add: ns_def)
      also have "ctx ! j = last ctx2"
      proof -
        have "length ctx2 - 1 = j" "j < length ctx2" using 2 by simp_all
        then show ?thesis using sh False \<open>ctx2 \<noteq> []\<close> by (simp add: shrinks_def last_conv_nth)
      qed
      finally have "ns \<noteq> 0" using sh False \<open>ctx2 \<noteq> []\<close> by (simp add: shrinks_def)
      then show ?thesis using m 2 by simp
    next
      case 3
      have "ns = 0" using 3 sh False j by (auto simp: ns_def shrinks_def z)
      then show ?thesis using m 3 False by simp
    qed (use m False in simp)
  qed
  have ns: "ns = digest E (ctx2 ! j)" if "j < length ctx2"
    using that sh j by (auto simp: ns_def shrinks_def split: if_splits)
  define old where "old = ds_oldRoot st"
  have i: "ds_oldRoot st = digest E (sub_at k ctx (MLeaf k v) (Suc j))" "ds_newRoot st = digest E (sub_at k ctx2 b2 (Suc j))"
    "writes E (ds_inserts st) (sub_at k ctx2 b2 ` {Suc j..<length ctx2})"
    "removes E (ds_deletes st) (sub_at k ctx (MLeaf k v) ` {Suc j..<Suc (length ctx)})"
    using inv by (simp_all add: delete_inv_def)
  have dels: "removes E (ds_deletes st @ [digest E (sub_at k ctx (MLeaf k v) j)]) (sub_at k ctx (MLeaf k v) ` {j..<Suc (length ctx)})"
    using removes_snoc [OF i(4)] j by (simp add: atLeast_upto [of j])
  show ?thesis
  proof (cases "j < length ctx2")
    case True
    have ins: "writes E (ds_inserts st @ [(digest E (sub_at k ctx2 b2 j), content E (sub_at k ctx2 b2 j))]) (sub_at k ctx2 b2 ` {j..<length ctx2})"
      using writes_snoc [OF i(3) normalize_content_upto [OF E True]] True by (simp add: atLeast_upto [of j])
    show ?thesis
      unfolding delete_step_def ns_def [symmetric] Let_def
      using True ns dels ins mixed [unfolded mixed_def]
      by (simp add: i(1,2) hash0_upto [OF E j j'] hash0_upto [OF E True j'] nth_map [OF j] delete_inv_def)
  next
    case False
    then have m: "\<not> m0" using sh j by (auto simp: shrinks_def)
    have e: "sub_at k ctx2 b2 (Suc j) = sub_at k ctx2 b2 j" "{j..<length ctx2} = {}" "{Suc j..<length ctx2} = {}"
      using False by (simp_all add: sub_at_end)
    show ?thesis
      unfolding delete_step_def ns_def [symmetric] Let_def
      using False m e dels mixed [unfolded mixed_def] i(3)
      by (simp add: i(1,2) hash0_upto [OF E j j'] nth_map [OF j] delete_inv_def)
  qed
qed

text \<open>The way without its trailing empty siblings.\<close>

definition strip :: "mtree list \<Rightarrow> mtree list" where
  "strip ctx = rev (dropWhile (\<lambda>c. c = MEmpty) (rev ctx))"

lemma strip_prefix: "\<exists>m. ctx = strip ctx @ replicate m MEmpty"
proof -
  have "rev ctx = takeWhile (\<lambda>c. c = MEmpty) (rev ctx) @ dropWhile (\<lambda>c. c = MEmpty) (rev ctx)" by simp
  then have "ctx = strip ctx @ rev (takeWhile (\<lambda>c. c = MEmpty) (rev ctx))" unfolding strip_def by (metis rev_append rev_rev_ident)
  moreover have "rev (takeWhile (\<lambda>c. c = MEmpty) (rev ctx)) = replicate (length (takeWhile (\<lambda>c. c = MEmpty) (rev ctx))) MEmpty"
    by (rule replicate_eqI) (auto dest: set_takeWhileD)
  ultimately show ?thesis by metis
qed

lemma strip_last: "strip ctx \<noteq> [] \<Longrightarrow> last (strip ctx) \<noteq> MEmpty"
  using hd_dropWhile [of "\<lambda>c. c = MEmpty" "rev ctx"] by (simp add: strip_def last_rev)

definition tree_remove :: "int \<Rightarrow> mtree \<Rightarrow> mtree" where
  "tree_remove k t = (case locate k 0 t of (ctx, b) \<Rightarrow>
     (case b of MLeaf k' v \<Rightarrow>
        (if k' \<noteq> k then t else if ctx = [] then MEmpty
         else (case last ctx of MLeaf x y \<Rightarrow> plug k 0 (strip (butlast ctx)) (MLeaf x y) | _ \<Rightarrow> plug k 0 ctx MEmpty))
      | _ \<Rightarrow> t))"

text \<open>The node that replaces the removed leaf, read from the database.\<close>

lemma delete_start_stored:
  assumes E: "smt_env_ok E" and st: "smt_stored E db t" and ne: "ctx \<noteq> []" "last ctx \<noteq> MEmpty" and sub: "set (subs (last ctx)) \<subseteq> set (subs t)"
  shows "delete_start E db k (map (digest E) ctx) = ret
    (case last ctx of MLeaf x y \<Rightarrow> (digest E (last ctx), False, x, y, False) | _ \<Rightarrow> (0, True, k, 0, True))"
proof -
  have "read_node (pe_F E) db (digest E (last ctx)) = ret (content E (last ctx))"
    by (rule read_stored) (use st sub ne in \<open>auto simp: smt_stored_def\<close>)
  moreover have "last (map (digest E) ctx) = digest E (last ctx)" using ne(1) by (rule last_map)
  ultimately show ?thesis
    using ne smt_env_okD [OF E] by (cases "last ctx") (simp_all add: delete_start_def is_leaf_def F1_eq_def del: digest.simps)
qed

lemma SMT_delete_rep:
  assumes E: "smt_env_ok E" and s: "smt_rep E s t" and k: "0 \<le> k" "k < F_p (pe_F E)"
    and loc: "locate k 0 t = (ctx, MLeaf k v)" and cf: "collision_free E (subs t @ subs (tree_remove k t))"
  shows "\<exists>s' r. SMT_delete E s k = ret (s', r) \<and> smt_rep E s' (tree_remove k t) \<and> dr_delValue r = v
    \<and> dr_oldRoot r = smt_root s \<and> dr_newRoot r = smt_root s'"
proof -
  define ss where "ss = map (digest E) ctx"
  have t: "t = plug k 0 ctx (MLeaf k v)" using plug_locate [OF loc] by simp
  have wf: "wf_tree (F_p (pe_F E)) 0 (plug k 0 ctx (MLeaf k v))" using s t by (simp add: smt_rep_def)
  have st: "smt_stored E (smt_db s) t" using s by (simp add: smt_rep_def)
  have len: "length ctx \<le> 256" using wf_plug_levels [OF wf] by (cases ctx) auto
  have bits: "getBits E k = ret (key_bits k)" using getBits_key k smt_env_okD(3) [OF E] by simp
  have get: "SMT_get E s k = ret (found_at k (MLeaf k v) ss)"
    unfolding ss_def by (rule smt_get_located [OF E s cf k(1,2) loc])
  have last: "last ctx \<noteq> MEmpty" if "ctx \<noteq> []" using wf_last_sibling [OF wf that] by auto
  have subs_ctx: "set (subs c) \<subseteq> set (subs t)" if "c \<in> set ctx" for c using that by (auto simp: t set_subs_plug)
  define leafy where "leafy = (ctx \<noteq> [] \<and> (\<exists>x y. last ctx = MLeaf x y))"
  define ctx2 where "ctx2 = (if leafy then strip (butlast ctx) else ctx)"
  define L where "L = last ctx"
  define b2 where "b2 = (if leafy then L else MEmpty)"
  define t' where "t' = plug k 0 ctx2 b2"
  have t': "tree_remove k t = t'"
    unfolding tree_remove_def loc t'_def ctx2_def b2_def leafy_def L_def using last by (auto split: mtree.splits)
  obtain m where m: "leafy \<Longrightarrow> ctx = ctx2 @ replicate m MEmpty @ [L]"
  proof (cases leafy)
    case True
    obtain m where m: "butlast ctx = strip (butlast ctx) @ replicate m MEmpty" using strip_prefix by blast
    have "ctx = butlast ctx @ [L]" using True by (simp add: leafy_def L_def)
    also have "\<dots> = (strip (butlast ctx) @ replicate m MEmpty) @ [L]" using m by simp
    finally show ?thesis using that True by (simp add: ctx2_def)
  qed simp
  have set2: "set ctx2 \<subseteq> set ctx"
  proof (cases leafy)
    case True
    show ?thesis by (subst m [OF True]) auto
  qed (simp add: ctx2_def)
  have l2: "length ctx2 \<le> length ctx"
  proof (cases leafy)
    case True
    show ?thesis by (subst m [OF True]) simp
  qed (simp add: ctx2_def)
  have nz: "digest E (last ctx2) \<noteq> 0" if "leafy" "ctx2 \<noteq> []"
  proof -
    have "last ctx2 \<noteq> MEmpty" using strip_last that by (simp add: ctx2_def)
    then have "last ctx2 \<in> set (subs t)" using subs_self subs_ctx set2 that(2) last_in_set by blast
    then show ?thesis using cf by (auto simp: collision_free_def)
  qed
  have sh: "shrinks E ctx ctx2 (\<not> leafy)"
  proof (cases leafy)
    case True
    have l: "length ctx = length ctx2 + m + 1" by (subst m [OF True]) simp
    have n: "ctx ! j = (ctx2 @ replicate m MEmpty @ [L]) ! j" for j by (subst m [OF True]) simp
    have "length ctx2 < length ctx" "\<forall>j < length ctx2. ctx2 ! j = ctx ! j"
      "\<forall>j. length ctx2 \<le> j \<and> j < length ctx - 1 \<longrightarrow> ctx ! j = MEmpty"
      using l by (auto simp: n nth_append)
    then show ?thesis using nz True by (simp add: shrinks_def)
  qed (simp add: shrinks_def ctx2_def)
  define st0 where "st0 = \<lparr> ds_oldRoot = hash_value E [k, v, 1], ds_newRoot = digest E b2, ds_mixed = (ctx \<noteq> [] \<and> \<not> leafy), ds_siblings = [],
    ds_inserts = [], ds_deletes = [hash_value E [k, v, 1]] \<rparr>"
  have init: "delete_inv E k ctx v ctx2 b2 (ctx \<noteq> [] \<and> \<not> leafy) (length ctx) st0"
    using l2 by (simp add: delete_inv_def st0_def sub_at_end writes_def removes_def)
  have loop: "\<exists>st'. delete_step E (key_bits k) ss (\<not> leafy) st j = ret st' \<and> delete_inv E k ctx v ctx2 b2 (ctx \<noteq> [] \<and> \<not> leafy) j st'"
    if "j < length ctx" "delete_inv E k ctx v ctx2 b2 (ctx \<noteq> [] \<and> \<not> leafy) (Suc j) st" for j st
  proof -
    have e: "(ctx \<noteq> [] \<and> \<not> leafy) = (\<not> leafy)" using that(1) by auto
    show ?thesis using delete_loop [OF E len sh that(1)] that(2) unfolding e ss_def by blast
  qed
  have "\<exists>st. foldJ (delete_step E (key_bits k) ss (\<not> leafy)) st0 (rev [0..<length ctx]) = ret st
      \<and> delete_inv E k ctx v ctx2 b2 (ctx \<noteq> [] \<and> \<not> leafy) 0 st"
    by (rule foldJ_down [where P = "delete_inv E k ctx v ctx2 b2 (ctx \<noteq> [] \<and> \<not> leafy)", OF init loop])
  then obtain st1 where st1: "foldJ (delete_step E (key_bits k) ss (\<not> leafy)) st0 (rev [0..<length ctx]) = ret st1"
    "delete_inv E k ctx v ctx2 b2 (ctx \<noteq> [] \<and> \<not> leafy) 0 st1" by blast
  define db where "db = SMTMemDb_multiDel (pe_F E) (ds_deletes st1)
     (SMTMemDb_setRoot (ds_newRoot st1) (SMTMemDb_multiIns (pe_F E) (ds_inserts st1) (smt_db s)))"
  have i: "ds_newRoot st1 = digest E t'" "ds_oldRoot st1 = digest E t" "writes E (ds_inserts st1) (path_nodes k 0 ctx2 b2)"
    "removes E (ds_deletes st1) (insert (MLeaf k v) (path_nodes k 0 ctx (MLeaf k v)))"
    using st1(2) by (simp_all add: delete_inv_def sub_at_0 t'_def t atLeast0LessThan path_nodes_0 lessThan_Suc sub_at_end)
  have b2: "set (subs b2) \<subseteq> set (subs t)" "k \<notin> tree_keys b2"
    using subs_ctx [of L] wf_path_keys [OF wf, of L] by (auto simp: b2_def leafy_def L_def)
  have keys: "k \<notin> tree_keys t'"
    using b2(2) wf_path_keys [OF wf] set2 by (auto simp: t'_def tree_keys_plug)
  have stored: "smt_stored E db t'"
    unfolding db_def
  proof (rule stored_after [OF E _ st i(3) _ _ i(4)])
    show "collision_free E (subs t @ subs t')" using cf by (simp add: t')
    show "path_nodes k 0 ctx2 b2 \<subseteq> set (subs t')" by (auto simp: t'_def set_subs_plug)
    show "set (subs t') \<subseteq> path_nodes k 0 ctx2 b2 \<union> set (subs t)"
      using b2(1) subs_ctx set2 by (fastforce simp: t'_def set_subs_plug)
    show "insert (MLeaf k v) (path_nodes k 0 ctx (MLeaf k v)) \<subseteq> set (subs t)" by (auto simp: t set_subs_plug)
    have "k \<in> tree_keys x" if "x \<in> insert (MLeaf k v) (path_nodes k 0 ctx (MLeaf k v))" for x
      using that path_nodes_keys [of x k 0 ctx "MLeaf k v"] by auto
    then show "insert (MLeaf k v) (path_nodes k 0 ctx (MLeaf k v)) \<inter> set (subs t') = {}"
      using subs_keys [of _ t'] keys by blast
  qed
  have wf_sub: "\<exists>m. wf_tree (F_p (pe_F E)) m c" if "c \<in> set ctx" "c \<noteq> MEmpty" for c
    using wf_subs [OF wf [folded t]] subs_self [OF that(2)] subs_ctx [OF that(1)] by blast
  have wf': "wf_tree (F_p (pe_F E)) 0 t'"
  proof (cases "ctx = []")
    case True
    then show ?thesis by (simp add: t'_def ctx2_def b2_def leafy_def)
  next
    case ne: False
    have Lin: "L \<in> set ctx" "L \<noteq> MEmpty" using ne last by (simp_all add: L_def)
    obtain n where wL: "wf_tree (F_p (pe_F E)) n L" using wf_sub [OF Lin] by blast
    show ?thesis
    proof (cases leafy)
      case True
      then obtain x y where xy: "L = MLeaf x y" by (auto simp: leafy_def L_def)
      have w: "wf_tree (F_p (pe_F E)) 0 (plug k 0 ctx2 (plug k (0 + length ctx2) (replicate m MEmpty @ [L]) (MLeaf k v)))"
        using wf unfolding plug_append [symmetric] m [OF True, symmetric] .
      have L: "L = ctx ! (length ctx - 1)" using ne by (simp add: L_def last_conv_nth)
      have lt: "length ctx2 \<le> length ctx - 1" by (subst m [OF True]) simp
      show ?thesis
        unfolding t'_def
      proof (rule wf_replace [OF w])
        show "wf_tree (F_p (pe_F E)) (0 + length ctx2) b2" using wL True by (simp add: b2_def xy)
        show "bit z (0 + i) = bit k (0 + i)" if "z \<in> tree_keys b2" "i < length ctx2" for z i
        proof (rule wf_agree [OF wf, of "length ctx - 1"])
          show "length ctx - 1 < length ctx" using ne by simp
          show "z \<in> tree_keys (ctx ! (length ctx - 1))" using that(1) True unfolding b2_def L [symmetric] by simp
          show "i < length ctx - 1" using that(2) lt by simp
        qed
        assume ne2: "ctx2 \<noteq> []"
        then have "last ctx2 \<in> set ctx" "last ctx2 \<noteq> MEmpty" using set2 strip_last True by (auto simp: ctx2_def)
        then obtain n' where "wf_tree (F_p (pe_F E)) n' (last ctx2)" using wf_sub by blast
        then have "leaves (last ctx2) \<noteq> []" using wf_nonempty \<open>last ctx2 \<noteq> MEmpty\<close> by blast
        then have "1 \<le> length (leaves (last ctx2))" by (simp add: Suc_le_eq)
        then show "2 \<le> length (leaves (last ctx2)) + length (leaves b2)" using True by (simp add: b2_def xy)
      qed
    next
      case False
      then obtain l r where lr: "L = MNode l r" using Lin(2) ne by (cases L) (auto simp: leafy_def L_def)
      have "2 \<le> length (leaves L)" using wL by (simp add: lr)
      then show ?thesis
        using False unfolding t'_def b2_def ctx2_def
        by (simp del: wf_tree.simps) (rule wf_replace [OF wf], simp_all add: L_def)
    qed
  qed
  have "smt_rep E (s\<lparr>smt_db := db, smt_root := ds_newRoot st1\<rparr>) t'"
    using stored i(1) wf' by (simp add: smt_rep_def db_def)
  moreover have "\<exists>r. SMT_delete E s k = ret (s\<lparr>smt_db := db, smt_root := ds_newRoot st1\<rparr>, r) \<and> dr_delValue r = v
      \<and> dr_oldRoot r = digest E t \<and> dr_newRoot r = ds_newRoot st1"
  proof -
    obtain a b where start: "delete_start E (smt_db s) k ss = ret (digest E b2, ctx \<noteq> [] \<and> \<not> leafy, a, b, \<not> leafy)"
    proof (cases "ctx = []")
      case True
      then show ?thesis using that smt_env_okD(4) [OF E] by (simp add: delete_start_def ss_def leafy_def b2_def)
    next
      case False
      have "set (subs (last ctx)) \<subseteq> set (subs t)" using subs_ctx False by simp
      then show ?thesis
        using that delete_start_stored [OF E st False last [OF False], of k] False
        by (cases "last ctx") (simp_all add: ss_def leafy_def b2_def L_def)
    qed
    have lenss: "length ss = length ctx" by (simp add: ss_def)
    show ?thesis
      unfolding SMT_delete_def get bindJ_ret
      using st1(1) by (simp add: found_at_def hash1_value [OF E] start bits st0_def [symmetric] i(2) lenss db_def Let_def)
  qed
  moreover have "digest E t = smt_root s" using s by (simp add: smt_rep_def)
  ultimately show ?thesis unfolding t' by auto
qed

section \<open>Add\<close>

text \<open>The number of further levels on which two keys agree.\<close>

definition common_bits :: "int \<Rightarrow> int \<Rightarrow> nat \<Rightarrow> nat" where
  "common_bits k k' n = length (takeWhile (\<lambda>i. bit k i = bit k' i) [n..<256])"

lemma common_bits:
  assumes "0 \<le> k" "k < 2 ^ 256" "0 \<le> k'" "k' < 2 ^ 256" "k \<noteq> k'" "\<And>i. i < n \<Longrightarrow> bit k i = bit k' i"
  shows "n + common_bits k k' n < 256" "bit k (n + common_bits k k' n) \<noteq> bit k' (n + common_bits k k' n)"
    "i < common_bits k k' n \<Longrightarrow> bit k (n + i) = bit k' (n + i)"
proof -
  define xs where "xs = takeWhile (\<lambda>i. bit k i = bit k' i) [n..<256]"
  have "\<exists>i < 256. bit k i \<noteq> bit k' i"
  proof (rule ccontr)
    assume "\<not> ?thesis"
    then have "take_bit 256 k = take_bit 256 k'" by (intro bit_eqI) (auto simp: bit_take_bit_iff)
    moreover have "take_bit 256 k = k" "take_bit 256 k' = k'" using assms by (simp_all add: take_bit_int_eq_self)
    ultimately show False using assms(5) by simp
  qed
  then obtain d where d: "d < 256" "bit k d \<noteq> bit k' d" by blast
  then have "n \<le> d" using assms(6) by (meson not_less)
  then have "d \<in> set [n..<256]" using d by simp
  then have "length xs < length [n..<256]"
    using d(2) unfolding xs_def by (metis (mono_tags, lifting) length_takeWhile_le order_le_imp_less_or_eq set_takeWhileD takeWhile_eq_take take_all_iff order_refl)
  then have l: "length xs < 256 - n" by simp
  have m: "common_bits k k' n = length xs" by (simp add: common_bits_def xs_def)
  show "n + common_bits k k' n < 256" using l m by simp
  have "\<not> (bit k ([n..<256] ! length xs) = bit k' ([n..<256] ! length xs))"
    using l unfolding xs_def by (intro nth_length_takeWhile) simp
  then show "bit k (n + common_bits k k' n) \<noteq> bit k' (n + common_bits k k' n)" using l by (simp add: m)
  show "bit k (n + i) = bit k' (n + i)" if "i < common_bits k k' n"
  proof -
    have i: "i < length xs" using that m by simp
    have "xs ! i = n + i" using i l unfolding xs_def by (subst takeWhile_nth) simp_all
    then show ?thesis using nth_mem [OF i] unfolding xs_def by (metis (mono_tags, lifting) set_takeWhileD)
  qed
qed

lemma push_common_run:
  "i + m < 256 \<Longrightarrow> bit k (i + m) \<noteq> bit k' (i + m) \<Longrightarrow> (\<And>j. j < m \<Longrightarrow> bit k (i + j) = bit k' (i + j))
    \<Longrightarrow> push_common E (key_bits k) (key_bits k') i ss = ret (ss @ replicate m (F_zero (pe_F E)))"
proof (induction m arbitrary: i ss)
  case 0
  then show ?case by (subst push_common.simps) (simp split: if_splits)
next
  case (Suc m)
  have e: "bit k i = bit k' i" using Suc.prems(3) [of 0] by simp
  have "push_common E (key_bits k) (key_bits k') (i + 1) (ss @ [F_zero (pe_F E)]) = ret ((ss @ [F_zero (pe_F E)]) @ replicate m (F_zero (pe_F E)))"
  proof (rule Suc.IH)
    show "bit k (i + 1 + j) = bit k' (i + 1 + j)" if "j < m" for j using Suc.prems(3) [of "Suc j"] that by simp
  qed (use Suc.prems in simp_all)
  then show ?case using Suc.prems(1) e by (subst push_common.simps) (simp add: bit_at_key)
qed

definition add_inv :: "poseidon_env \<Rightarrow> int \<Rightarrow> mtree list \<Rightarrow> mtree \<Rightarrow> mtree list \<Rightarrow> mtree \<Rightarrow> bool \<Rightarrow> nat \<Rightarrow> add_state \<Rightarrow> bool" where
  "add_inv E k ctx b0 ctx2 b2 m0 j st \<longleftrightarrow>
     (ctx2 \<noteq> [] \<longrightarrow> as_oldRoot st = Some (digest E (sub_at k ctx b0 j))) \<and> as_root st = digest E (sub_at k ctx2 b2 j)
     \<and> as_mixed st = (m0 \<or> j < length ctx)
     \<and> writes E (as_inserts st) (sub_at k ctx2 b2 ` {j..<Suc (length ctx2)})
     \<and> removes E (as_deletes st) (sub_at k ctx b0 ` {j..<length ctx})"

text \<open>How the path \<open>ctx\<close> grows: by nothing, or by empty siblings and one leaf.\<close>

definition grows :: "poseidon_env \<Rightarrow> mtree list \<Rightarrow> mtree list \<Rightarrow> bool \<Rightarrow> bool" where
  "grows E ctx ctx2 m0 \<longleftrightarrow> (if m0 then ctx2 = ctx
     else length ctx < length ctx2 \<and> (\<forall>j < length ctx. ctx2 ! j = ctx ! j) \<and> (ctx \<noteq> [] \<longrightarrow> digest E (last ctx) \<noteq> 0)
       \<and> (\<forall>j. length ctx \<le> j \<and> j < length ctx2 - 1 \<longrightarrow> ctx2 ! j = MEmpty))"

lemma add_loop:
  assumes E: "smt_env_ok E" and len: "length ctx2 \<le> 256" and g: "grows E ctx ctx2 m0"
    and j: "j < length ctx2" and inv: "add_inv E k ctx b0 ctx2 b2 m0 (Suc j) st"
  shows "\<exists>st'. add_step E (key_bits k) (map (digest E) ctx2) st j = ret st' \<and> add_inv E k ctx b0 ctx2 b2 m0 j st'"
proof -
  have j': "j < 256" using j len by simp
  have z: "F_zero (pe_F E) = 0" using E by (rule smt_env_okD)
  define mixed where "mixed = (as_mixed st \<or> (j < length (map (digest E) ctx2) - 1 \<and> \<not> F1_isZero (pe_F E) (map (digest E) ctx2 ! j)))"
  have mixed: "mixed \<longleftrightarrow> m0 \<or> j < length ctx"
  proof (cases m0)
    case True
    then show ?thesis using inv by (simp add: mixed_def add_inv_def)
  next
    case False
    have m: "mixed \<longleftrightarrow> Suc j < length ctx \<or> (j < length ctx2 - 1 \<and> digest E (ctx2 ! j) \<noteq> 0)"
      using inv False j by (simp add: mixed_def add_inv_def F1_isZero_def z)
    consider "Suc j < length ctx" | "Suc j = length ctx" | "length ctx \<le> j" by linarith
    then show ?thesis
    proof cases
      case 2
      then have ne: "ctx \<noteq> []" "j < length ctx2 - 1" "length ctx - 1 = j" "j < length ctx" using g False by (auto simp: grows_def)
      have "ctx2 ! j = last ctx" using g False ne by (simp add: grows_def last_conv_nth)
      then have "digest E (ctx2 ! j) \<noteq> 0" using g False ne(1) by (simp add: grows_def)
      then show ?thesis using m ne 2 by simp
    next
      case 3
      have "digest E (ctx2 ! j) = 0" if "j < length ctx2 - 1" using 3 g False that by (auto simp: grows_def)
      then show ?thesis using m 3 False by auto
    qed (use m False in simp)
  qed
  have i: "as_oldRoot st = Some (digest E (sub_at k ctx b0 (Suc j)))" "as_root st = digest E (sub_at k ctx2 b2 (Suc j))"
    "writes E (as_inserts st) (sub_at k ctx2 b2 ` {Suc j..<Suc (length ctx2)})"
    "removes E (as_deletes st) (sub_at k ctx b0 ` {Suc j..<length ctx})"
    using inv j by (auto simp: add_inv_def)
  have ins: "writes E (as_inserts st @ [(digest E (sub_at k ctx2 b2 j), content E (sub_at k ctx2 b2 j))]) (sub_at k ctx2 b2 ` {j..<Suc (length ctx2)})"
    using writes_snoc [OF i(3) normalize_content_upto [OF E j]] j by (simp add: atLeast_upto [of j])
  show ?thesis
  proof (cases "j < length ctx")
    case True
    have s: "ctx2 ! j = ctx ! j" using g True by (auto simp: grows_def split: if_splits)
    have dels: "removes E (as_deletes st @ [digest E (sub_at k ctx b0 j)]) (sub_at k ctx b0 ` {j..<length ctx})"
      using removes_snoc [OF i(4)] True by (simp add: atLeast_upto [of j])
    show ?thesis
      unfolding add_step_def mixed_def [symmetric] Let_def
      using True ins dels mixed
      by (simp add: i(1,2) hash0_upto [OF E True j', folded s] hash0_upto [OF E j j'] nth_map [OF j] add_inv_def)
  next
    case False
    then have m: "\<not> m0" using g j by (auto simp: grows_def)
    have e: "sub_at k ctx b0 (Suc j) = sub_at k ctx b0 j" "{j..<length ctx} = {}" "{Suc j..<length ctx} = {}"
      using False by (simp_all add: sub_at_end)
    show ?thesis
      unfolding add_step_def mixed_def [symmetric] Let_def
      using False m ins mixed i(4) e
      by (simp add: i(1,2) hash0_upto [OF E j j'] nth_map [OF j] add_inv_def)
  qed
qed

definition tree_insert :: "int \<Rightarrow> int \<Rightarrow> mtree \<Rightarrow> mtree" where
  "tree_insert k v t = (case locate k 0 t of (ctx, b) \<Rightarrow>
     (case b of MLeaf k' v' \<Rightarrow>
        if k' = k then plug k 0 ctx (MLeaf k v)
        else plug k 0 (ctx @ replicate (common_bits k' k (length ctx)) MEmpty @ [MLeaf k' v']) (MLeaf k v)
      | _ \<Rightarrow> plug k 0 ctx (MLeaf k v)))"

text \<open>Two leaves below the levels on which their keys agree.\<close>

lemma wf_branch:
  "wf_tree p n (MLeaf k v) \<Longrightarrow> wf_tree p n (MLeaf k' v') \<Longrightarrow> n + m < 256 \<Longrightarrow> bit k (n + m) \<noteq> bit k' (n + m)
    \<Longrightarrow> (\<And>i. i < m \<Longrightarrow> bit k (n + i) = bit k' (n + i))
    \<Longrightarrow> wf_tree p n (plug k n (replicate m MEmpty @ [MLeaf k' v']) (MLeaf k v))"
proof (induction m arbitrary: n)
  case (Suc m)
  have "wf_tree p (Suc n) (plug k (Suc n) (replicate m MEmpty @ [MLeaf k' v']) (MLeaf k v))"
  proof (rule Suc.IH)
    show "bit k (Suc n + i) = bit k' (Suc n + i)" if "i < m" for i using Suc.prems(5) [of "Suc i"] that by simp
  qed (use Suc.prems in simp_all)
  moreover have "bit k n = bit k' n" using Suc.prems(5) [of 0] by simp
  ultimately show ?case
    using Suc.prems(3) unfolding replicate_Suc append_Cons wf_plug_Cons by (auto simp: tree_keys_plug length_leaves_plug)
qed auto

text \<open>The path of a new key and what the code keeps of the old one.\<close>

lemma add_common:
  assumes E: "smt_env_ok E" and s: "smt_rep E s t" and k: "0 \<le> k" "k < F_p (pe_F E)" "0 \<le> w" "v = w mod F_p (pe_F E)"
    and loc: "locate k 0 t = (ctx, b)" and b: "\<And>v. b \<noteq> MLeaf k v"
    and cf: "collision_free E (subs t @ subs t')" and t': "t' = plug k 0 ctx2 (MLeaf k v)"
    and wf': "wf_tree (F_p (pe_F E)) 0 t'" and g: "grows E ctx ctx2 (b = MEmpty)"
    and off: "\<And>c. c \<in> set ctx2 \<Longrightarrow> c \<in> set ctx \<or> c = MEmpty \<or> c = b"
    and start: "add_start E (key_bits k) (found_at k b (map (digest E) ctx)) =
      ret (map (digest E) ctx2, (if ctx2 = [] then None else Some (digest E b)), b = MEmpty \<and> ctx2 \<noteq> [], b \<noteq> MEmpty)"
  shows "\<exists>s' r. SMT_add E s k w = ret (s', r) \<and> smt_rep E s' t' \<and> ar_oldRoot r = smt_root s \<and> ar_newRoot r = smt_root s'"
proof -
  define ss where "ss = map (digest E) ctx2"
  have t: "t = plug k 0 ctx b" and bn: "\<forall>l r. b \<noteq> MNode l r" using plug_locate [OF loc] by simp_all
  have wf: "wf_tree (F_p (pe_F E)) 0 (plug k 0 ctx b)" using s t by (simp add: smt_rep_def)
  have st: "smt_stored E (smt_db s) t" using s by (simp add: smt_rep_def)
  have len: "length ctx2 \<le> 256" using wf_plug_levels [OF wf' [unfolded t']] by (cases ctx2) auto
  have bits: "getBits E k = ret (key_bits k)" using getBits_key k smt_env_okD(3) [OF E] by simp
  have get: "SMT_get E s k = ret (found_at k b (map (digest E) ctx))"
    by (rule smt_get_located [OF E s cf k(1,2) loc])
  have nf: "\<not> fr_found (found_at k b (map (digest E) ctx))"   proof (cases b)
    case (MLeaf a c)
    then show ?thesis using b [of c] by (simp add: found_at_def)
  qed (simp_all add: found_at_def)
  note leaf = leaf_residue [OF E k(1-3), folded k(4)]
  have one: "F_one (pe_F E) = 1" using E by (rule smt_env_okD)
  define m0 where "m0 = (b = MEmpty)"
  define st0 where "st0 = \<lparr> as_oldRoot = (if ctx2 = [] then None else Some (digest E b)), as_root = hash_value E [k, v, 1],
    as_mixed = (m0 \<and> ctx2 \<noteq> []), as_inserts = [(hash_value E [k, v, 1], [1, k, w])], as_deletes = [] \<rparr>"
  have lc: "length ctx \<le> length ctx2" using g by (auto simp: grows_def split: if_splits)
  define P where "P = add_inv E k ctx b ctx2 (MLeaf k v) (m0 \<and> ctx2 \<noteq> [])"
  have init: "P (length ctx2) st0"
    using lc by (simp add: P_def add_inv_def st0_def sub_at_end writes_def removes_def leaf)
  have loop: "\<exists>st'. add_step E (key_bits k) ss st j = ret st' \<and> P j st'" if "j < length ctx2" "P (Suc j) st" for j st
  proof -
    have e: "(m0 \<and> ctx2 \<noteq> []) = m0" using that(1) by auto
    show ?thesis using add_loop [OF E len g [folded m0_def] that(1)] that(2) unfolding P_def e ss_def by blast
  qed
  have "\<exists>st. foldJ (add_step E (key_bits k) ss) st0 (rev [0..<length ctx2]) = ret st \<and> P 0 st"
    by (rule foldJ_down [where P = P, OF init loop])
  then obtain st1 where st1: "foldJ (add_step E (key_bits k) ss) st0 (rev [0..<length ctx2]) = ret st1" "P 0 st1" by blast
  define db where "db = SMTMemDb_multiDel (pe_F E) (as_deletes st1)
     (SMTMemDb_setRoot (as_root st1) (SMTMemDb_multiIns (pe_F E) (as_inserts st1) (smt_db s)))"
  have i: "as_root st1 = digest E t'" "writes E (as_inserts st1) (insert (MLeaf k v) (path_nodes k 0 ctx2 (MLeaf k v)))"
    "removes E (as_deletes st1) (path_nodes k 0 ctx b)"
    using st1(2) by (simp_all add: P_def add_inv_def sub_at_0 t' atLeast0LessThan path_nodes_0 lessThan_Suc sub_at_end)
  have kt: "k \<notin> tree_keys t"
    using wf_path_keys [OF wf] b bn by (cases b) (auto simp: t tree_keys_plug)
  have stored: "smt_stored E db t'"
    unfolding db_def
  proof (rule stored_after [OF E cf st i(2) _ _ i(3)])
    show "insert (MLeaf k v) (path_nodes k 0 ctx2 (MLeaf k v)) \<subseteq> set (subs t')" by (auto simp: t' set_subs_plug)
    show "path_nodes k 0 ctx b \<subseteq> set (subs t)" by (auto simp: t set_subs_plug)
    have sib: "x \<in> (\<Union>c \<in> set ctx. set (subs c)) \<union> set (subs b)" if "c \<in> set ctx2" "x \<in> set (subs c)" for c x
      using off [OF that(1)] that(2) by auto
    then show "set (subs t') \<subseteq> insert (MLeaf k v) (path_nodes k 0 ctx2 (MLeaf k v)) \<union> set (subs t)"
      by (auto simp: t' t set_subs_plug)
    have new: "k \<in> tree_keys x" if "x \<in> insert (MLeaf k v) (path_nodes k 0 ctx2 (MLeaf k v))" for x
      using that path_nodes_keys [of x k 0 ctx2 "MLeaf k v"] by auto
    show "path_nodes k 0 ctx b \<inter> set (subs t') = {}"
    proof (rule equals0I)
      fix x assume x: "x \<in> path_nodes k 0 ctx b \<inter> set (subs t')"
      then have xt: "x \<in> set (subs t)" by (auto simp: t set_subs_plug)
      then have "k \<notin> tree_keys x" using subs_keys kt by blast
      then have "x \<in> (\<Union>c \<in> set ctx. set (subs c)) \<union> set (subs b)"
        using x new sib by (auto simp: t' set_subs_plug)
      moreover have "x \<notin> set (subs b)" using x path_nodes_keys [of x k 0 ctx b] bn by (cases b) auto
      ultimately show False using path_nodes_off [OF wf] x by blast
    qed
  qed
  have "smt_rep E (s\<lparr>smt_db := db, smt_root := as_root st1\<rparr>) t'"
    using stored i(1) wf' by (simp add: smt_rep_def db_def)
  moreover have "\<exists>r. SMT_add E s k w = ret (s\<lparr>smt_db := db, smt_root := as_root st1\<rparr>, r) \<and> ar_oldRoot r = smt_root s
      \<and> ar_newRoot r = as_root st1"
  proof -
    have lenss: "length ss = length ctx2" by (simp add: ss_def)
    show ?thesis
      unfolding SMT_add_def bits get bindJ_ret if_not_P [OF nf] start
      using st1(1) by (simp add: hash1_value [OF E] leaf one ss_def [symmetric] lenss st0_def m0_def db_def Let_def)
  qed
  ultimately show ?thesis by auto
qed

lemma grown_wf:
  assumes E: "smt_env_ok E" and wf: "wf_tree (F_p (pe_F E)) 0 (plug k 0 ctx (MLeaf k' v'))" and k: "0 \<le> k" "k < F_p (pe_F E)" "k' \<noteq> k"
  shows "wf_tree (F_p (pe_F E)) 0 (plug k 0 (ctx @ replicate (common_bits k' k (length ctx)) MEmpty @ [MLeaf k' v']) (MLeaf k (w mod F_p (pe_F E))))"
    (is "wf_tree ?p 0 (plug k 0 (ctx @ ?ext) ?new)")
    and "length ctx + common_bits k' k (length ctx) < 256"
    "bit k' (length ctx + common_bits k' k (length ctx)) \<noteq> bit k (length ctx + common_bits k' k (length ctx))"
    "\<And>i. i < common_bits k' k (length ctx) \<Longrightarrow> bit k' (length ctx + i) = bit k (length ctx + i)"
    "0 \<le> k'" "k' < F_p (pe_F E)"
proof -
  have bot: "wf_tree ?p (length ctx) (MLeaf k' v')" using wf_plug_bottom [OF wf] by simp
  then show r: "0 \<le> k'" "k' < ?p" by simp_all
  have agree: "bit k' i = bit k i" if "i < length ctx" for i
    using wf_agree_bottom [OF wf, of k' i] that by simp
  have p: "k < 2 ^ 256" "k' < 2 ^ 256" using k r smt_env_okD(3) [OF E] by simp_all
  note cb = common_bits [OF r(1) p(2) k(1) p(1) k(3) agree]
  show "length ctx + common_bits k' k (length ctx) < 256"
    "bit k' (length ctx + common_bits k' k (length ctx)) \<noteq> bit k (length ctx + common_bits k' k (length ctx))"
    "\<And>i. i < common_bits k' k (length ctx) \<Longrightarrow> bit k' (length ctx + i) = bit k (length ctx + i)"
    by (rule cb; assumption)+
  have keys: "tree_keys (plug k (length ctx) ?ext ?new) = {k', k}" by (auto simp: tree_keys_plug)
  show "wf_tree ?p 0 (plug k 0 (ctx @ ?ext) ?new)"
  proof (subst plug_append, rule wf_replace [OF wf])
    show "wf_tree ?p (0 + length ctx) (plug k (0 + length ctx) ?ext ?new)"
      unfolding add_0
    proof (rule wf_branch)
      show "wf_tree ?p (length ctx) ?new" using k smt_env_okD(6) [OF E] by simp
    qed (use bot cb in \<open>auto\<close>)
    show "bit x (0 + i) = bit k (0 + i)" if "x \<in> tree_keys (plug k (0 + length ctx) ?ext ?new)" "i < length ctx" for x i
      using that agree unfolding add_0 keys by auto
    show "2 \<le> length (leaves (last ctx)) + length (leaves (plug k (0 + length ctx) ?ext ?new))"
      by (simp add: length_leaves_plug)
  qed
qed

lemma SMT_add_rep:
  assumes E: "smt_env_ok E" and s: "smt_rep E s t" and k: "0 \<le> k" "k < F_p (pe_F E)" "0 \<le> w"
    and new: "k \<notin> dom (entries t)" and cf: "collision_free E (subs t @ subs (tree_insert k (w mod F_p (pe_F E)) t))"
  shows "\<exists>s' r. SMT_add E s k w = ret (s', r) \<and> smt_rep E s' (tree_insert k (w mod F_p (pe_F E)) t)
    \<and> ar_oldRoot r = smt_root s \<and> ar_newRoot r = smt_root s'"
proof -
  let ?p = "F_p (pe_F E)"
  let ?v = "w mod F_p (pe_F E)"
  obtain ctx b where loc: "locate k 0 t = (ctx, b)" by (cases "locate k 0 t")
  have t: "t = plug k 0 ctx b" and bn: "\<forall>l r. b \<noteq> MNode l r" using plug_locate [OF loc] by simp_all
  have wf: "wf_tree ?p 0 (plug k 0 ctx b)" using s t by (simp add: smt_rep_def)
  have b: "b \<noteq> MLeaf k v" for v
    using new by (auto simp: dom_entries t tree_keys_plug)
  have last: "digest E (last ctx) \<noteq> 0" if "ctx \<noteq> []"
  proof -
    have "2 \<le> length (leaves (last ctx)) + length (leaves b)" using wf_last_sibling [OF wf that] .
    then have "last ctx \<noteq> MEmpty" using bn by (cases b) auto
    then have "last ctx \<in> set (subs t)" using subs_self [of "last ctx"] that by (auto simp: t set_subs_plug)
    then show ?thesis using cf by (simp add: collision_free_def)
  qed
  have z: "F_zero (pe_F E) = 0" using E by (rule smt_env_okD)
  show ?thesis
  proof (cases b)
    case MEmpty
    have ins: "tree_insert k ?v t = plug k 0 ctx (MLeaf k ?v)" by (simp add: tree_insert_def loc MEmpty)
    show ?thesis
    proof (rule add_common [OF E s k refl loc b cf ins])
      show "wf_tree ?p 0 (tree_insert k ?v t)"
        unfolding ins
      proof (rule wf_replace [OF wf])
        show "2 \<le> length (leaves (last ctx)) + length (leaves (MLeaf k ?v))" if "ctx \<noteq> []"
          using wf_last_sibling [OF wf that] by (simp add: MEmpty)
      qed (use k smt_env_okD(6) [OF E] in simp_all)
      show "grows E ctx ctx (b = MEmpty)" by (simp add: grows_def MEmpty)
    qed (auto simp: MEmpty add_start_def found_at_def z)
  next
    case (MLeaf k' v')
    have kk: "k' \<noteq> k" using b MLeaf by blast
    define m where "m = common_bits k' k (length ctx)"
    define ext where "ext = replicate m MEmpty @ [MLeaf k' v']"
    have ins: "tree_insert k ?v t = plug k 0 (ctx @ ext) (MLeaf k ?v)"
      using kk by (simp add: tree_insert_def loc MLeaf m_def ext_def)
    note gw = grown_wf [OF E wf [unfolded MLeaf] k(1,2) kk, folded m_def ext_def]
    show ?thesis
    proof (rule add_common [OF E s k refl loc b cf ins])
      show "wf_tree ?p 0 (tree_insert k ?v t)" unfolding ins ext_def m_def by (rule grown_wf(1) [OF E wf [unfolded MLeaf] k(1,2) kk])
      show "grows E ctx (ctx @ ext) (b = MEmpty)"
        using last by (auto simp: grows_def MLeaf ext_def nth_append)
      show "c \<in> set ctx \<or> c = MEmpty \<or> c = b" if "c \<in> set (ctx @ ext)" for c
        using that by (auto simp: ext_def MLeaf)
      have bits: "getBits E k' = ret (key_bits k')" using getBits_key gw(5,6) smt_env_okD(3) [OF E] by simp
      have push: "push_common E (key_bits k') (key_bits k) (length ctx) ss = ret (ss @ replicate m 0)" for ss
        unfolding z [symmetric] by (rule push_common_run [OF gw(2,3)]) (rule gw(4))
      show "add_start E (key_bits k) (found_at k b (map (digest E) ctx)) = ret (map (digest E) (ctx @ ext),
          (if ctx @ ext = [] then None else Some (digest E b)), b = MEmpty \<and> ctx @ ext \<noteq> [], b \<noteq> MEmpty)"
        by (simp add: MLeaf add_start_def found_at_def bits push hash1_value [OF E] ext_def)
    qed
  qed (use bn in simp)
qed

section \<open>Entries\<close>

lemma entries_eqI:
  assumes "wf_tree p n t" "\<And>x y. (x, y) \<in> set (leaves t) \<longleftrightarrow> m x = Some y"
  shows "entries t = m"
proof
  fix x
  show "entries t x = m x"
    using entries_iff [OF assms(1), of x] assms(2) [of x] by (cases "m x") (auto intro: option.exhaust [of "entries t x"])
qed

end
