(* ===== verification/SmtCorrect.thy ===== *)
theory SmtCorrect
  imports SmtRefine
begin

text \<open>
  The properties of the sparse Merkle tree.  Insertion and removal on the abstract tree
  are an update of its map of entries, so a tree object behaves as a map; the root is a
  function of the map.  The concrete environment of the Poseidon theory is evaluated for
  the examples.
\<close>

section \<open>The abstract tree as a map\<close>

lemma tree_insert_entries:
  assumes wf: "wf_tree p 0 t" and wf': "wf_tree p 0 (tree_insert k v t)"
  shows "entries (tree_insert k v t) = (entries t)(k \<mapsto> v)"
proof (rule entries_eqI [OF wf'])
  fix x y
  obtain ctx b where loc: "locate k 0 t = (ctx, b)" by (cases "locate k 0 t")
  have t: "t = plug k 0 ctx b" and bn: "\<forall>l r. b \<noteq> MNode l r" using plug_locate [OF loc] by simp_all
  have off: "(k, z) \<notin> set (leaves c)" if "c \<in> set ctx" for c z
    using wf_path_keys [OF wf [unfolded t] that] by (auto simp: tree_keys_def image_iff)
  have lt: "set (leaves t) = set (leaves b) \<union> (\<Union>c \<in> set ctx. set (leaves c))"
    by (simp add: t(1) set_leaves_plug)
  have li: "set (leaves (tree_insert k v t)) = insert (k, v) {x \<in> set (leaves b). fst x \<noteq> k} \<union> (\<Union>c \<in> set ctx. set (leaves c))"
    using bn by (cases b) (auto simp: tree_insert_def loc set_leaves_plug)
  have "(x, y) \<in> set (leaves (tree_insert k v t)) \<longleftrightarrow> (if x = k then y = v else (x, y) \<in> set (leaves t))"
    unfolding li lt using off by auto
  then show "(x, y) \<in> set (leaves (tree_insert k v t)) \<longleftrightarrow> ((entries t)(k \<mapsto> v)) x = Some y"
    by (auto simp: entries_iff [OF wf])
qed

lemma tree_remove_entries:
  assumes wf: "wf_tree p 0 t" and wf': "wf_tree p 0 (tree_remove k t)" and loc: "locate k 0 t = (ctx, MLeaf k v)"
  shows "entries (tree_remove k t) = (entries t)(k := None)"
proof (rule entries_eqI [OF wf'])
  fix x y
  have t: "t = plug k 0 ctx (MLeaf k v)" using plug_locate [OF loc] by simp
  have off: "(k, z) \<notin> set (leaves c)" if "c \<in> set ctx" for c z
    using wf_path_keys [OF wf [unfolded t] that] by (auto simp: tree_keys_def image_iff)
  have lt: "set (leaves t) = insert (k, v) (\<Union>c \<in> set ctx. set (leaves c))"
    by (simp add: t set_leaves_plug)
  have E: "set (leaves (plug k 0 (strip (butlast ctx)) (last ctx))) = (\<Union>c \<in> set ctx. set (leaves c))" if "ctx \<noteq> []"
  proof -
    obtain m where m: "butlast ctx = strip (butlast ctx) @ replicate m MEmpty" using strip_prefix by blast
    have "set ctx = insert (last ctx) (set (butlast ctx))"
      using that by (metis append_butlast_last_id list.simps(15) rotate1.simps(2) set_rotate1)
    moreover have "(\<Union>c \<in> set (butlast ctx). set (leaves c)) = (\<Union>c \<in> set (strip (butlast ctx)). set (leaves c))"
      by (subst m) (auto simp: set_replicate_conv_if)
    ultimately show ?thesis by (auto simp: set_leaves_plug)
  qed
  have S: "set (leaves (tree_remove k t)) = (\<Union>c \<in> set ctx. set (leaves c))"
    using E by (cases "ctx = []"; cases "last ctx") (auto simp: tree_remove_def loc set_leaves_plug)
  have "(x, y) \<in> set (leaves (tree_remove k t)) \<longleftrightarrow> x \<noteq> k \<and> (x, y) \<in> set (leaves t)"
    using off unfolding S lt by auto
  then show "(x, y) \<in> set (leaves (tree_remove k t)) \<longleftrightarrow> ((entries t)(k := None)) x = Some y"
    by (auto simp: entries_iff [OF wf])
qed

lemma locate_member:
  assumes "wf_tree p 0 t" "k \<in> dom (entries t)"
  obtains ctx v where "locate k 0 t = (ctx, MLeaf k v)" "entries t k = Some v"
proof -
  obtain ctx b where loc: "locate k 0 t = (ctx, b)" by (cases "locate k 0 t")
  have t: "t = plug k 0 ctx b" "\<forall>l r. b \<noteq> MNode l r" using plug_locate [OF loc] by simp_all
  have "entries t k = (case b of MLeaf k' v \<Rightarrow> if k' = k then Some v else None | _ \<Rightarrow> None)"
    using wf_path_entry [of p k ctx b] assms(1) t by simp
  then show ?thesis using assms(2) that loc by (cases b) (auto split: if_splits)
qed

section \<open>A concrete environment\<close>

text \<open>The hash over the tables of \<open>env13\<close>, as two functions that evaluate.\<close>

definition f13_add :: "int \<Rightarrow> int \<Rightarrow> int" where "f13_add a b = (if a + b \<ge> 13 then a + b - 13 else a + b)"

definition f13_mul :: "int \<Rightarrow> int \<Rightarrow> int" where "f13_mul a b = (a * b) smod 13"

definition f13_sum :: "int list \<Rightarrow> int" where "f13_sum xs = foldl (\<lambda>acc a. f13_add acc (f13_mul 1 a)) 0 xs"

definition f13_const :: "int \<Rightarrow> int" where "f13_const a = f13_add (f13_mul a (f13_mul (f13_mul a a) (f13_mul a a))) 1"

definition f13_full :: "int list \<Rightarrow> int list" where
  "f13_full xs = replicate (length xs) (f13_sum (map f13_const xs))"

definition f13_partial :: "int list \<Rightarrow> int list" where
  "f13_partial xs = (let x = f13_const (hd xs) in f13_sum (x # tl xs) # map (\<lambda>a. f13_add a (f13_mul x 1)) (tl xs))"

definition f13_hash :: "nat \<Rightarrow> int list \<Rightarrow> int" where
  "f13_hash n xs = (let st = (f13_full ^^ 3) ((f13_partial ^^ n) ((f13_full ^^ 4) (map (\<lambda>a. f13_add a 1) (0 # xs))))
     in f13_sum (map (\<lambda>a. f13_mul a (f13_mul (f13_mul a a) (f13_mul a a))) st))"

lemma F13_ops: "F1_add F13 a b = f13_add a b" "F1_mul F13 a b = f13_mul a b" "F1_square F13 a = f13_mul a a" "F_zero F13 = 0"
  by (simp_all add: F1_add_def F1_mul_def F1_square_def F13_def f13_add_def f13_mul_def Let_def)

lemma foldJ_funpow:
  assumes "\<And>xs r. r \<in> set rs \<Longrightarrow> length xs = n \<Longrightarrow> f xs r = ret (g xs) \<and> length (g xs) = n" "length st = n"
  shows "foldJ f st rs = ret ((g ^^ length rs) st) \<and> length ((g ^^ length rs) st) = n"
  using assms
proof (induction rs arbitrary: st)
  case (Cons r rs)
  have "f st r = ret (g st)" "length (g st) = n" using Cons.prems by auto
  moreover have "foldJ f (g st) rs = ret ((g ^^ length rs) (g st)) \<and> length ((g ^^ length rs) (g st)) = n"
    by (rule Cons.IH [OF _ \<open>length (g st) = n\<close>]) (rule Cons.prems(1), simp_all)
  ultimately show ?case by (simp add: funpow_swap1)
qed simp

lemma short_list: "length xs = 3 \<or> length xs = 4 \<Longrightarrow> \<exists>a b c. xs = [a, b, c] \<or> (\<exists>d. xs = [a, b, c, d])"
  by (auto simp: numeral_eq_Suc length_Suc_conv)

lemma full13:
  assumes "length xs = 3 \<or> length xs = 4" "off + 4 \<le> m"
  shows "full_round F13 (replicate m 1) (replicate 18 (replicate 18 1)) off xs = ret (f13_full xs) \<and> length (f13_full xs) = length xs"
proof -
  have C: "elem_at (replicate m 1) i = ret 1" if "i < off + 4" for i using that assms(2) by simp
  have M: "table_cell (replicate 18 (replicate 18 1)) j i = ret 1" if "j < 4" "i < 4" for i j using that by (simp add: table_cell_def)
  obtain a b c where "xs = [a, b, c] \<or> (\<exists>d. xs = [a, b, c, d])" using short_list [OF assms(1)] by blast
  then show ?thesis
    by (elim disjE exE) (simp_all add: full_round_def add_constants_def mix_with_def C M f13_full_def f13_sum_def f13_const_def pow5_def F13_ops)
qed

lemma partial13:
  assumes "length xs = t" "t = 3 \<or> t = 4" "r < 60" "100 \<le> m" "1000 \<le> m'"
  shows "partial_round F13 (replicate m 1) (replicate m' 1) t xs r = ret (f13_partial xs) \<and> length (f13_partial xs) = t"
proof -
  have S: "elem_at (replicate m' 1) i = ret 1" if "i < 1000" for i using that assms by simp
  have r: "(t * 2 - 1) * r \<le> 7 * 60" using assms by (intro mult_le_mono) auto
  obtain a b c where "xs = [a, b, c] \<or> (\<exists>d. xs = [a, b, c, d])" using short_list assms(1,2) by blast
  then show ?thesis
    using assms(1) [symmetric] assms(3,4) r
    by (elim disjE exE) (simp_all add: partial_round_def N_ROUNDS_F_def S f13_partial_def f13_sum_def f13_const_def pow5_def F13_ops Let_def)
qed


lemma hash13:
  assumes "length xs = 2 \<and> n = 57 \<or> length xs = 3 \<and> n = 56" "\<forall>x \<in> set xs. 0 \<le> x \<and> x < 13"
  shows "Poseidon_hash env13 xs = ret (F1_normalize F13 (f13_hash n xs))"
proof -
  define t where "t = length xs + 1"
  have t: "t = 3 \<or> t = 4" using assms(1) by (auto simp: t_def)
  have nP: "N_ROUNDS_P ! (t - 2) = n" using assms(1) by (auto simp: t_def N_ROUNDS_P_def)
  have e: "map (F1_e F13) xs = xs" 
  proof (rule map_idI)
    fix x assume "x \<in> set xs"
    then have "\<not> x < 0" "\<not> 13 \<le> x" using assms(2) by auto
    then show "F1_e F13 x = x" by (simp add: F1_e_def F13_def)
  qed
  define st0 where "st0 = map (\<lambda>a. f13_add a 1) (0 # xs)"
  have l0: "length st0 = t" by (simp add: st0_def t_def)
  have start: "add_constants F13 (replicate 1200 1) 0 (0 # xs) = ret st0"
  proof -
    obtain a b c where "0 # xs = [a, b, c] \<or> (\<exists>d. 0 # xs = [a, b, c, d])" using short_list [of "0 # xs"] assms(1) by auto
    then show ?thesis
      unfolding st0_def by (elim disjE exE) (simp_all only:, simp_all add: add_constants_def F13_ops)
  qed
  have full: "foldJ (\<lambda>state r. full_round F13 (replicate 1200 1) (replicate 18 (replicate 18 1)) (off r) state) st rs =
      ret ((f13_full ^^ length rs) st) \<and> length ((f13_full ^^ length rs) st) = t"
    if "length st = t" "\<And>r. r \<in> set rs \<Longrightarrow> off r + 4 \<le> 1200" for off rs st
  proof (rule foldJ_funpow [OF _ that(1)])
    fix ys :: "int list" and r assume "r \<in> set rs" "length ys = t"
    then show "full_round F13 (replicate 1200 1) (replicate 18 (replicate 18 1)) (off r) ys = ret (f13_full ys) \<and> length (f13_full ys) = t"
      using full13 [of ys "off r" 1200] that(2) t by simp
  qed
  have partial: "foldJ (partial_round F13 (replicate 1200 1) (replicate 2400 1) t) st [0..<n] =
      ret ((f13_partial ^^ n) st) \<and> length ((f13_partial ^^ n) st) = t" if "length st = t" for st
  proof -
    have "foldJ (partial_round F13 (replicate 1200 1) (replicate 2400 1) t) st [0..<n] =
      ret ((f13_partial ^^ length [0..<n]) st) \<and> length ((f13_partial ^^ length [0..<n]) st) = t"
      by (rule foldJ_funpow [OF _ that]) (rule partial13, use t assms(1) in auto)
    then show ?thesis by simp
  qed
  define s1 where "s1 = (f13_full ^^ 3) st0"
  define s2 where "s2 = f13_full s1"
  define s3 where "s3 = (f13_partial ^^ n) s2"
  define s4 where "s4 = (f13_full ^^ 3) s3"
  have f1: "foldJ (\<lambda>state r. full_round F13 (replicate 1200 1) (replicate 18 (replicate 18 1)) ((r + 1) * t) state) st0 [0..<3] = ret s1" "length s1 = t"
    using full [OF l0, of "[0..<3]" "\<lambda>r. (r + 1) * t"] t unfolding s1_def by auto
  have f2: "full_round F13 (replicate 1200 1) (replicate 18 (replicate 18 1)) (4 * t) s1 = ret s2" "length s2 = t"
    using full13 [of s1 "4 * t" 1200] f1(2) t unfolding s2_def by auto
  have f3: "foldJ (partial_round F13 (replicate 1200 1) (replicate 2400 1) t) s2 [0..<n] = ret s3" "length s3 = t"
    using partial [OF f2(2)] unfolding s3_def by auto
  have f4: "foldJ (\<lambda>state r. full_round F13 (replicate 1200 1) (replicate 18 (replicate 18 1)) (5 * t + n + r * t) state) s3 [0..<3] = ret s4" "length s4 = t"
    using full [OF f3(2), of "[0..<3]" "\<lambda>r. 5 * t + n + r * t"] t assms(1) unfolding s4_def by auto
  have f5: "\<exists>ys. mix_with F13 (table_cell (replicate 18 (replicate 18 1))) (map (pow5 F13) s4) = ret (f13_sum (map (pow5 F13) s4) # ys)"
  proof -
    have M: "table_cell (replicate 18 (replicate 18 1)) j i = ret 1" if "j < 4" "i < 4" for i j using that by (simp add: table_cell_def)
    obtain a b c where "map (pow5 F13) s4 = [a, b, c] \<or> (\<exists>d. map (pow5 F13) s4 = [a, b, c, d])"
      using short_list [of "map (pow5 F13) s4"] f4(2) t by auto
    then show ?thesis by (elim disjE exE) (simp_all add: mix_with_def M f13_sum_def F13_ops)
  qed
  have h: "f13_hash n xs = f13_sum (map (pow5 F13) s4)"
  proof -
    have "s2 = (f13_full ^^ 4) st0" by (simp add: s2_def s1_def numeral_eq_Suc)
    moreover have "pow5 F13 = (\<lambda>a. f13_mul a (f13_mul (f13_mul a a) (f13_mul a a)))" by (rule ext) (simp add: pow5_def F13_ops)
    ultimately show ?thesis by (simp add: f13_hash_def st0_def s3_def s4_def)
  qed
  have len: "length xs > 0 \<and> length xs \<le> length N_ROUNDS_P" using assms(1) by (auto simp: N_ROUNDS_P_def)
  have tm: "t - 2 < 16" using t by auto
  have sel: "pe_F env13 = F13" "opt_C env13 = replicate 16 (replicate 1200 1)" "opt_S env13 = replicate 16 (replicate 2400 1)"
    "opt_M env13 = replicate 16 (replicate 18 (replicate 18 1))" "opt_P env13 = replicate 16 (replicate 18 (replicate 18 1))"
    by (simp_all add: env13_def)
  obtain ys where ys: "mix_with F13 (table_cell (replicate 18 (replicate 18 1))) (map (pow5 F13) s4) = ret (f13_sum (map (pow5 F13) s4) # ys)"
    using f5 by blast
  have R: "N_ROUNDS_F div 2 - 1 = 3" "(N_ROUNDS_F div 2 - 1 + 1) * t = 4 * t" "(N_ROUNDS_F div 2 + 1) * t = 5 * t"
    by (simp_all add: N_ROUNDS_F_def)
  have el: "elem_at (replicate 16 x) (t - 2) = ret x" for x :: 'a using tm by simp
  show ?thesis
    unfolding Poseidon_hash_def Let_def t_def [symmetric] sel e nP R el bindJ_ret F13_ops(4) start f1(1)
    using len by (simp add: f2(1) f3(1) f4(1) [simplified] ys h)
qed

lemma hash_value_13:
  "0 \<le> a \<Longrightarrow> a < 13 \<Longrightarrow> 0 \<le> b \<Longrightarrow> b < 13 \<Longrightarrow> hash_value env13 [a, b] = F1_normalize F13 (f13_hash 57 [a, b])"
  "0 \<le> a \<Longrightarrow> a < 13 \<Longrightarrow> 0 \<le> b \<Longrightarrow> b < 13 \<Longrightarrow> hash_value env13 [a, b, 1] = F1_normalize F13 (f13_hash 56 [a, b, 1])"
  using hash13 [of "[a, b]" 57] hash13 [of "[a, b, 1]" 56] by (simp_all add: hash_value_def ret_def)



lemma f13_eval:
  "(0::int) smod 13 = 0" "(1::int) smod 13 = 1"
  by (simp_all add: smod_nonneg)

lemmas f13_simps = f13_eval f13_const_def f13_mul_def f13_add_def f13_partial_def f13_full_def f13_sum_def

text \<open>The object that holds a tree.\<close>

definition build_smt :: "poseidon_env \<Rightarrow> mtree \<Rightarrow> smt" where
  "build_smt E t = \<lparr> smt_db = SMTMemDb_setRoot (digest E t)
      (SMTMemDb_multiIns (pe_F E) (map (\<lambda>s. (digest E s, content E s)) (subs t)) (SMTMemDb_new (pe_F E))), smt_root = digest E t \<rparr>"

lemma normalize_content:
  assumes E: "smt_env_ok E" and "wf_tree (F_p (pe_F E)) n s"
  shows "SMTMemDb_normalize (pe_F E) (content E s) = content E s"
proof (cases s)
  case (MLeaf k v)
  then have "0 \<le> k" "k < F_p (pe_F E)" "0 \<le> v" "v < F_p (pe_F E)" using assms(2) by simp_all
  then show ?thesis using leaf_residue(1) [OF E, of k v] by (simp add: MLeaf)
next
  case (MNode l r)
  then show ?thesis using normalize_content_node [OF E] by blast
qed (simp add: SMTMemDb_normalize_def)

lemma build_smt_rep:
  assumes E: "smt_env_ok E" and wf: "wf_tree (F_p (pe_F E)) 0 t" and cf: "collision_free E (subs t)"
  shows "smt_rep E (build_smt E t) t"
proof -
  have n: "SMTMemDb_normalize (pe_F E) (content E s) = content E s" if "s \<in> set (subs t)" for s
    using wf_subs [OF wf that] normalize_content [OF E] by blast
  have w: "writes E (map (\<lambda>s. (digest E s, content E s)) (subs t)) (set (subs t))"
    using n by (auto simp: writes_def image_image)
  have "smt_stored E (smt_db (build_smt E t)) t"
    unfolding smt_stored_def build_smt_def smt.select_convs get_setRoot
    by (intro ballI) (rule stored_ins [OF E cf _ w, where K = "{}"], auto)
  then show ?thesis using wf by (simp add: smt_rep_def build_smt_def)
qed

lemma smt_env13: "smt_env_ok env13"
  by (simp add: smt_env_ok_def env13_ok p_env13)

lemma f13_normalize: "0 \<le> a \<Longrightarrow> a < 13 \<Longrightarrow> F1_normalize F13 a = a"
  by (auto simp: F1_normalize_def F13_def)

lemma f13_hashes:
  "f13_hash 56 [0, 7, 1] = 4" "f13_hash 56 [0, 8, 1] = 1" "f13_hash 56 [1, 2, 1] = 10" "f13_hash 57 [4, 10] = 7"
  by (simp_all add: f13_hash_def numeral_eq_Suc f13_simps)

lemma digests13:
  "digest env13 (MLeaf 0 7) = 4" "digest env13 (MLeaf 0 8) = 1" "digest env13 (MLeaf 1 2) = 10"
  "digest env13 (MNode (MLeaf 0 7) (MLeaf 1 2)) = 7"
proof -
  show d: "digest env13 (MLeaf 0 7) = 4" "digest env13 (MLeaf 0 8) = 1" "digest env13 (MLeaf 1 2) = 10"
    by (simp_all add: hash_value_13 f13_hashes f13_normalize)
  show "digest env13 (MNode (MLeaf 0 7) (MLeaf 1 2)) = 7"
    unfolding digest.simps(3) d by (simp add: hash_value_13 f13_hashes f13_normalize)
qed

definition tree13 :: mtree where "tree13 = MNode (MLeaf 0 7) (MLeaf 1 2)"

lemma tree13:
  "collision_free env13 (subs tree13)" "collision_free env13 (subs (MLeaf 0 7))" "collision_free env13 (subs (MLeaf 0 7) @ subs tree13)"
  "collision_free env13 (subs tree13 @ subs (MLeaf 0 7))" "collision_free env13 (subs (MLeaf 0 7) @ subs (MLeaf 0 8))"
  "wf_tree 13 0 tree13" "wf_tree 13 0 (MLeaf 0 7)"
  unfolding collision_free_def tree13_def by (simp_all add: digests13 del: digest.simps)

lemma tree13_ops:
  "tree_insert 1 2 (MLeaf 0 7) = tree13" "tree_remove 1 tree13 = MLeaf 0 7" "tree_insert 0 8 (MLeaf 0 7) = MLeaf 0 8"
  by (simp_all add: tree_insert_def tree_remove_def tree13_def common_bits_def strip_def upt_rec)


section \<open>Properties\<close>

text \<open>The root that the siblings of an answer give for what was found at the end of the path.\<close>

fun path_root :: "poseidon_env \<Rightarrow> int \<Rightarrow> nat \<Rightarrow> int list \<Rightarrow> int \<Rightarrow> int" where
  "path_root E k n [] h = h"
| "path_root E k n (s # ss) h =
    (if bit k n then hash_value E [s, path_root E k (Suc n) ss h] else hash_value E [path_root E k (Suc n) ss h, s])"

lemma path_root_plug: "path_root E k n (map (digest E) ctx) (digest E b) = digest E (plug k n ctx b)"
  by (induction ctx arbitrary: n) simp_all

lemma SMT_get_entries:
  assumes "smt_env_ok E" "smt_rep E s t" "collision_free E (subs t)" "0 \<le> k" "k < F_p (pe_F E)"
  shows "\<exists>r. SMT_get E s k = ret r \<and> (if fr_found r then Some (fr_value r) else None) = entries t k
    \<and> (fr_found r \<longrightarrow> fr_key r = k \<and> \<not> fr_isOld0 r)
    \<and> path_root E k 0 (fr_siblings r) (if fr_isOld0 r then 0 else hash_value E [fr_key r, fr_value r, 1]) = smt_root s"
proof -
  obtain ctx b where loc: "locate k 0 t = (ctx, b)" by (cases "locate k 0 t")
  have t: "plug k 0 ctx b = t" and bn: "\<forall>l r. b \<noteq> MNode l r" using plug_locate [OF loc] by simp_all
  have "SMT_get E s k = ret (found_at k b (map (digest E) ctx))"
    by (rule smt_get_located [OF assms(1,2) _ assms(4,5) loc, of "[]"]) (simp add: assms(3))
  moreover have "entries t k = (case b of MLeaf k' v \<Rightarrow> if k' = k then Some v else None | _ \<Rightarrow> None)"
    using wf_path_entry [of "F_p (pe_F E)" k ctx b] assms(2) t bn by (simp add: smt_rep_def)
  moreover have "path_root E k 0 (map (digest E) ctx) (digest E b) = smt_root s"
    using assms(2) by (simp add: path_root_plug t smt_rep_def)
  ultimately show ?thesis using bn by (cases b) (simp_all add: found_at_def)
qed

text \<open>
  C13: on a database that stores a tree without hash collisions, \<open>get\<close> returns the entry of
  the key if there is one and not found otherwise, and its siblings are a Merkle proof: the
  root is recomputed from them and the leaf, or the empty place, at the end of the path.
\<close>

theorem smt_get_correct:
  assumes "smt_env_ok E" "smt_rep E s t" "collision_free E (subs t)" "0 \<le> k" "k < F_p (pe_F E)"
  shows "\<exists>r. SMT_get E s k = ret r \<and> (if fr_found r then Some (fr_value r) else None) = entries t k
    \<and> path_root E k 0 (fr_siblings r) (if fr_isOld0 r then 0 else hash_value E [fr_key r, fr_value r, 1]) = smt_root s"
  using SMT_get_entries [OF assms] by blast

theorem smt_get_correct_witness:
  "\<exists>r. SMT_get env13 (build_smt env13 tree13) 1 = ret r \<and> (if fr_found r then Some (fr_value r) else None) = Some 2"
proof -
  have rep: "smt_rep env13 (build_smt env13 tree13) tree13"
    by (rule build_smt_rep [OF smt_env13]) (simp_all add: p_env13 tree13)
  have e: "entries tree13 1 = Some 2" by (simp add: entries_def tree13_def)
  obtain r where "SMT_get env13 (build_smt env13 tree13) 1 = ret r" "(if fr_found r then Some (fr_value r) else None) = Some 2"
    using smt_get_correct [OF smt_env13 rep tree13(1), of 1, unfolded e p_env13] by auto
  then show ?thesis by blast
qed

text \<open>
  C9: \<open>add\<close> of a new key keeps the database and the tree in step and adds exactly that entry,
  with the value reduced modulo \<open>p\<close>; the returned record has the old and the new root. A key
  that is already there is rejected.
\<close>

theorem smt_add_refines:
  assumes "smt_env_ok E" "smt_rep E s t" "0 \<le> k" "k < F_p (pe_F E)" "0 \<le> w"
    and "collision_free E (subs t @ subs (tree_insert k (w mod F_p (pe_F E)) t))"
  shows "if k \<in> dom (entries t) then SMT_add E s k w = throw (Error ''Key already exists'')
    else \<exists>s' r t'. SMT_add E s k w = ret (s', r) \<and> smt_rep E s' t' \<and> entries t' = (entries t)(k \<mapsto> w mod F_p (pe_F E))
      \<and> ar_oldRoot r = smt_root s \<and> ar_newRoot r = smt_root s'"
proof (cases "k \<in> dom (entries t)")
  case True
  have wf: "wf_tree (F_p (pe_F E)) 0 t" using assms(2) by (simp add: smt_rep_def)
  obtain ctx v where loc: "locate k 0 t = (ctx, MLeaf k v)" using locate_member [OF wf True] .
  have "getBits E k = ret (key_bits k)" using getBits_key assms(3,4) smt_env_okD(3) [OF assms(1)] by simp
  then show ?thesis
    using True smt_get_located [OF assms(1,2,6,3,4) loc] by (simp add: SMT_add_def found_at_def)
next
  case False
  obtain s' r where r: "SMT_add E s k w = ret (s', r)" "smt_rep E s' (tree_insert k (w mod F_p (pe_F E)) t)"
    "ar_oldRoot r = smt_root s" "ar_newRoot r = smt_root s'"
    using SMT_add_rep [OF assms(1-5) False assms(6)] by blast
  have "entries (tree_insert k (w mod F_p (pe_F E)) t) = (entries t)(k \<mapsto> w mod F_p (pe_F E))"
    by (rule tree_insert_entries) (use assms(2) r(2) in \<open>auto simp: smt_rep_def\<close>)
  then show ?thesis using r False by auto
qed

theorem smt_add_refines_witness:
  "\<exists>s' r t'. SMT_add env13 (build_smt env13 (MLeaf 0 7)) 1 15 = ret (s', r) \<and> smt_rep env13 s' t' \<and> entries t' = [0 \<mapsto> 7, 1 \<mapsto> 2]"
proof -
  have rep: "smt_rep env13 (build_smt env13 (MLeaf 0 7)) (MLeaf 0 7)"
    by (rule build_smt_rep [OF smt_env13]) (simp_all only: p_env13 tree13)
  have cf: "collision_free env13 (subs (MLeaf 0 7) @ subs (tree_insert 1 (15 mod F_p (pe_F env13)) (MLeaf 0 7)))"
    using tree13(3) by (simp add: p_env13 tree13_ops del: subs.simps)
  have e: "entries (MLeaf 0 7) = [0 \<mapsto> 7]" by (simp add: entries_def)
  show ?thesis using smt_add_refines [OF smt_env13 rep _ _ _ cf] by (auto simp: p_env13 e)
qed

text \<open>
  C11: \<open>update\<close> of a key of the tree replaces its value and nothing else; the record has the old
  value and both roots.
\<close>

theorem smt_update_refines:
  assumes "smt_env_ok E" "smt_rep E s t" "0 \<le> k" "k < F_p (pe_F E)" "0 \<le> w" "k \<in> dom (entries t)"
    and "collision_free E (subs t @ subs (tree_insert k (w mod F_p (pe_F E)) t))"
  shows "\<exists>s' r t'. SMT_update E s k w = ret (s', r) \<and> smt_rep E s' t' \<and> entries t' = (entries t)(k \<mapsto> w mod F_p (pe_F E))
    \<and> Some (ur_oldValue r) = entries t k \<and> ur_oldRoot r = smt_root s \<and> ur_newRoot r = smt_root s'"
proof -
  have wf: "wf_tree (F_p (pe_F E)) 0 t" using assms(2) by (simp add: smt_rep_def)
  obtain ctx v where loc: "locate k 0 t = (ctx, MLeaf k v)" "entries t k = Some v" using locate_member [OF wf assms(6)] .
  have ins: "tree_insert k (w mod F_p (pe_F E)) t = plug k 0 ctx (MLeaf k (w mod F_p (pe_F E)))"
    by (simp add: tree_insert_def loc)
  obtain s' r where r: "SMT_update E s k w = ret (s', r)" "smt_rep E s' (tree_insert k (w mod F_p (pe_F E)) t)"
    "ur_oldValue r = v" "ur_oldRoot r = smt_root s" "ur_newRoot r = smt_root s'"
    using SMT_update_rep [OF assms(1-5) refl loc(1)] assms(7) unfolding ins by blast
  have "entries (tree_insert k (w mod F_p (pe_F E)) t) = (entries t)(k \<mapsto> w mod F_p (pe_F E))"
    by (rule tree_insert_entries [OF wf]) (use r(2) in \<open>simp add: smt_rep_def\<close>)
  then show ?thesis using r loc(2) by auto
qed

theorem smt_update_refines_witness:
  "\<exists>s' r t'. SMT_update env13 (build_smt env13 (MLeaf 0 7)) 0 21 = ret (s', r) \<and> smt_rep env13 s' t' \<and> entries t' = [0 \<mapsto> 8]
    \<and> ur_oldValue r = 7"
proof -
  have rep: "smt_rep env13 (build_smt env13 (MLeaf 0 7)) (MLeaf 0 7)"
    by (rule build_smt_rep [OF smt_env13]) (simp_all only: p_env13 tree13)
  have cf: "collision_free env13 (subs (MLeaf 0 7) @ subs (tree_insert 0 (21 mod F_p (pe_F env13)) (MLeaf 0 7)))"
    using tree13(5) by (simp add: p_env13 tree13_ops del: subs.simps)
  have e: "entries (MLeaf 0 7) = [0 \<mapsto> 7]" by (simp add: entries_def)
  show ?thesis using smt_update_refines [OF smt_env13 rep _ _ _ _ cf] by (auto simp: p_env13 e)
qed

text \<open>
  C8: \<open>delete\<close> of a key of the tree removes its entry and nothing else; a key that is not there
  is rejected.
\<close>

theorem smt_delete_refines:
  assumes "smt_env_ok E" "smt_rep E s t" "0 \<le> k" "k < F_p (pe_F E)" "collision_free E (subs t @ subs (tree_remove k t))"
  shows "if k \<in> dom (entries t)
    then \<exists>s' r t'. SMT_delete E s k = ret (s', r) \<and> smt_rep E s' t' \<and> entries t' = (entries t)(k := None)
      \<and> Some (dr_delValue r) = entries t k \<and> dr_oldRoot r = smt_root s \<and> dr_newRoot r = smt_root s'
    else SMT_delete E s k = throw (Error ''Key does not exists'')"
proof (cases "k \<in> dom (entries t)")
  case True
  have wf: "wf_tree (F_p (pe_F E)) 0 t" using assms(2) by (simp add: smt_rep_def)
  obtain ctx v where loc: "locate k 0 t = (ctx, MLeaf k v)" "entries t k = Some v" using locate_member [OF wf True] .
  obtain s' r where r: "SMT_delete E s k = ret (s', r)" "smt_rep E s' (tree_remove k t)"
    "dr_delValue r = v" "dr_oldRoot r = smt_root s" "dr_newRoot r = smt_root s'"
    using SMT_delete_rep [OF assms(1-4) loc(1) assms(5)] by blast
  have "entries (tree_remove k t) = (entries t)(k := None)"
    by (rule tree_remove_entries [OF wf _ loc(1)]) (use r(2) in \<open>simp add: smt_rep_def\<close>)
  then show ?thesis using r loc(2) True by auto
next
  case False
  obtain r where "SMT_get E s k = ret r" "(if fr_found r then Some (fr_value r) else None) = entries t k"
  proof -
    obtain ctx b where loc: "locate k 0 t = (ctx, b)" by (cases "locate k 0 t")
    have t: "plug k 0 ctx b = t" and bn: "\<forall>l r. b \<noteq> MNode l r" using plug_locate [OF loc] by simp_all
    have "entries t k = (case b of MLeaf k' v \<Rightarrow> if k' = k then Some v else None | _ \<Rightarrow> None)"
      using wf_path_entry [of "F_p (pe_F E)" k ctx b] assms(2) t bn by (simp add: smt_rep_def)
    then show thesis
      using that [OF smt_get_located [OF assms(1,2,5,3,4) loc]] bn by (cases b) (simp_all add: found_at_def)
  qed
  moreover have "entries t k = None" using False by (simp add: domIff)
  ultimately show ?thesis using False by (auto simp: SMT_delete_def split: if_splits)
qed

theorem smt_delete_refines_witness:
  "(\<exists>s' r t'. SMT_delete env13 (build_smt env13 tree13) 1 = ret (s', r) \<and> smt_rep env13 s' t' \<and> entries t' = [0 \<mapsto> 7])"
proof -
  have rep: "smt_rep env13 (build_smt env13 tree13) tree13"
    by (rule build_smt_rep [OF smt_env13]) (simp_all add: p_env13 tree13)
  have cf: "collision_free env13 (subs tree13 @ subs (tree_remove 1 tree13))" using tree13(4) by (simp add: tree13_ops del: subs.simps)
  have e: "entries tree13 = [0 \<mapsto> 7, 1 \<mapsto> 2]" by (rule ext) (simp add: entries_def tree13_def)
  have m: "([0 \<mapsto> 7, 1 \<mapsto> 2])(1 := None) = [(0 :: int) \<mapsto> (7 :: int)]" by (rule ext) simp
  show ?thesis using smt_delete_refines [OF smt_env13 rep _ _ cf] by (auto simp: p_env13 e m)
qed



end
