(* ===== verification/ClaimsTree.thy ===== *)
theory ClaimsTree
  imports SmtCorrect FFUtils
begin

text \<open>
  The claims tree of a credential: packages/albus-core/src/credential/tree.ts.  A claim is
  encoded as a bigint and stored in a sparse Merkle tree under its position in the list
  of flattened claim names.  An object is the list of its properties in the order in
  which JavaScript enumerates them: array indices ascending, then the others in the order
  of their creation.  \<open>Date\<close> parsing is an argument, as is the codec of \<open>uint8arrays\<close>.  A
  call that throws gives no new tree, although the code has then already pushed the name.
\<close>

section \<open>Objects\<close>

type_synonym js_object = "(string \<times> js_value) list"

definition is_digit :: "char \<Rightarrow> bool" where
  "is_digit c \<longleftrightarrow> (let n = of_char c :: nat in 48 \<le> n \<and> n \<le> 57)"

text \<open>A property name that is an array index: a canonical decimal below \<open>2^32 - 1\<close>.\<close>

definition index_of :: "string \<Rightarrow> nat option" where
  "index_of k = (if k \<noteq> [] \<and> list_all is_digit k \<and> (k = ''0'' \<or> hd k \<noteq> CHR ''0'')
     then (let n = digits_value 10 (map (\<lambda>c. of_char c - 48) k) in if n < 2 ^ 32 - 1 then Some n else None) else None)"

definition comes_before :: "string \<Rightarrow> string \<Rightarrow> bool" where
  "comes_before k k' \<longleftrightarrow> (case index_of k of None \<Rightarrow> False | Some n \<Rightarrow> (case index_of k' of None \<Rightarrow> True | Some n' \<Rightarrow> n < n'))"

fun insert_new :: "string \<Rightarrow> 'a \<Rightarrow> (string \<times> 'a) list \<Rightarrow> (string \<times> 'a) list" where
  "insert_new k v [] = [(k, v)]"
| "insert_new k v ((k', v') # obj) = (if comes_before k k' then (k, v) # (k', v') # obj else (k', v') # insert_new k v obj)"

definition obj_put :: "(string \<times> 'a) list \<Rightarrow> string \<Rightarrow> 'a \<Rightarrow> (string \<times> 'a) list" where
  "obj_put obj k v = (if k \<in> fst ` set obj then map (\<lambda>(k', v'). if k' = k then (k, v) else (k', v')) obj else insert_new k v obj)"

definition obj_merge :: "(string \<times> 'a) list \<Rightarrow> (string \<times> 'a) list \<Rightarrow> (string \<times> 'a) list" where
  "obj_merge a b = foldl (\<lambda>obj (k, v). obj_put obj k v) a b"

section \<open>Flattening\<close>

definition sub_key :: "string option \<Rightarrow> string \<Rightarrow> string" where
  "sub_key parentKey key = (case parentKey of None \<Rightarrow> key | Some p \<Rightarrow> if p = [] then key else p @ ''.'' @ key)"

function flatten_from :: "string option \<Rightarrow> js_object \<Rightarrow> js_object \<Rightarrow> js_object js" where
  "flatten_from parentKey [] res = ret res"
| "flatten_from parentKey ((key, val) # obj) res =
    (let k = sub_key parentKey key in
     case val of
       JObject kvs \<Rightarrow> bindJ (flatten_from (Some k) kvs []) (\<lambda>sub. flatten_from parentKey obj (obj_merge res sub))
     | JArray xs \<Rightarrow> bindJ (flatten_from (Some k) (map (\<lambda>(x, i). (to_radix 10 (int i), x)) (zip xs [0..<length xs])) [])
         (\<lambda>sub. flatten_from parentKey obj (obj_merge res sub))
     | JNull \<Rightarrow> throw (TypeError ''Cannot convert undefined or null to object'')
     | v \<Rightarrow> flatten_from parentKey obj (obj_put res k v))"
  by pat_completeness auto

lemma size_array_entries:
  "(\<Sum>e \<leftarrow> map (\<lambda>(x, i). (to_radix 10 (int i), x)) (zip xs [0..<length xs]). Suc (size (snd e))) = (\<Sum>x \<leftarrow> xs. Suc (size x))"
proof -
  have "map (\<lambda>e. Suc (size (snd e))) (map (\<lambda>(x, i). (to_radix 10 (int i), x)) (zip xs [0..<length xs]))
      = map (\<lambda>x. Suc (size x)) (map fst (zip xs [0..<length xs]))"
    unfolding map_map by (simp add: split_def comp_def)
  also have "map fst (zip xs [0..<length xs]) = xs" by (rule map_fst_zip) simp
  finally show ?thesis by simp
qed

lemma size_list_sum: "size_list f xs = (\<Sum>x \<leftarrow> xs. Suc (f x))"
  by (induction xs) simp_all

termination flatten_from
proof (relation "measure (\<lambda>(p, es, res). \<Sum>e \<leftarrow> es. Suc (size (snd e)))")
  fix k :: string and xs :: "js_value list" and obj res :: js_object and p :: "string option" and key :: string and val :: js_value
  assume v: "val = JArray xs"
  show "((Some k, map (\<lambda>(x, i). (to_radix 10 (int i), x)) (zip xs [0..<length xs]), []), p, (key, val) # obj, res)
      \<in> measure (\<lambda>(p, es, res). \<Sum>e \<leftarrow> es. Suc (size (snd e)))"
    using size_array_entries [of xs] by (simp add: v size_list_sum)
next
  fix k :: string and kvs obj res :: js_object and p :: "string option" and key :: string and val :: js_value
  assume v: "val = JObject kvs"
  have "(\<Sum>e \<leftarrow> kvs. Suc (size (snd e))) \<le> size_list (size_prod (\<lambda>_. 0) size) kvs"
    unfolding size_list_sum by (intro sum_list_mono) auto
  then show "((Some k, kvs, []), p, (key, val) # obj, res) \<in> measure (\<lambda>(p, es, res). \<Sum>e \<leftarrow> es. Suc (size (snd e)))"
    by (simp add: v)
qed auto

definition flattenObject :: "js_object \<Rightarrow> string option \<Rightarrow> js_object js" where
  "flattenObject obj parentKey = flatten_from parentKey obj []"

section \<open>Claim values\<close>

datatype claim_value = ClaimValue "js_value + claim_value" "bool option"

text \<open>\<open>new TextEncoder().encode(s)\<close>.\<close>

definition text_bytes :: "string \<Rightarrow> bytes" where "text_bytes s = map (\<lambda>c. word_of_nat (of_char c)) s"

definition encode_text :: "poseidon_env \<Rightarrow> uint8arrays \<Rightarrow> js_value \<Rightarrow> bool \<Rightarrow> int option js" where
  "encode_text E U v hash =
    (let bs = text_bytes (js_text v) in
     if hash then Poseidon_hashBytes E bs
     else if length bs > 32 then Poseidon_hashBytes E bs
     else bindJ (bytesToBigInt U bs) (\<lambda>n. ret (Some n)))"

fun ClaimValue_encode :: "poseidon_env \<Rightarrow> uint8arrays \<Rightarrow> claim_value \<Rightarrow> int option js" where
  "ClaimValue_encode E U (ClaimValue (Inr cv) opts) = ClaimValue_encode E U cv"
| "ClaimValue_encode E U (ClaimValue (Inl v) opts) = encode_text E U v (opts = Some True)"

text \<open>The object's own fields, as \<open>Object.entries\<close> sees them; absent options are \<open>undefined\<close>.\<close>

fun claim_object :: "claim_value \<Rightarrow> js_value" where
  "claim_object (ClaimValue v opts) = JObject
    [(''value'', case v of Inl x \<Rightarrow> x | Inr cv \<Rightarrow> claim_object cv),
     (''opts'', case opts of None \<Rightarrow> JUndefined | Some h \<Rightarrow> JObject [(''hash'', JBool h)])]"

section \<open>The tree\<close>

definition DEFAULT_TREE_DEPTH :: nat where "DEFAULT_TREE_DEPTH = 5"

record claims_tree =
  ct_smt :: smt
  ct_keys :: "string list"
  ct_depth :: "nat option"

definition ClaimsTree_new :: "poseidon_env \<Rightarrow> nat option \<Rightarrow> claims_tree" where
  "ClaimsTree_new E depth = \<lparr> ct_smt = SMT_new E None, ct_keys = [], ct_depth = depth \<rparr>"

definition ClaimsTree_encodeValue :: "poseidon_env \<Rightarrow> uint8arrays \<Rightarrow> js_value + claim_value \<Rightarrow> bool option \<Rightarrow> int option js" where
  "ClaimsTree_encodeValue E U v opts = ClaimValue_encode E U (ClaimValue v opts)"

definition ClaimsTree_decodeValue :: "uint8arrays \<Rightarrow> int \<Rightarrow> string js" where
  "ClaimsTree_decodeValue U v = bindJ (bigintToBytes U v 0) (\<lambda>bs. ret (bytesToString U bs))"

definition treeDepth :: "claims_tree \<Rightarrow> nat" where
  "treeDepth T = (case ct_depth T of Some d \<Rightarrow> d | None \<Rightarrow> DEFAULT_TREE_DEPTH)"

definition ClaimsTree_root :: "claims_tree \<Rightarrow> int" where "ClaimsTree_root T = smt_root (ct_smt T)"

fun js_indexOf :: "'a list \<Rightarrow> 'a \<Rightarrow> int" where
  "js_indexOf [] x = - 1"
| "js_indexOf (y # ys) x = (if y = x then 0 else (let i = js_indexOf ys x in if i < 0 then i else i + 1))"

definition encodeKey :: "claims_tree \<Rightarrow> string \<Rightarrow> int" where
  "encodeKey T k = js_indexOf (ct_keys T) k"

record claim_proof =
  cp_found :: bool
  cp_key :: int
  cp_value :: int
  cp_siblings :: "int list"

definition ClaimsTree_get :: "poseidon_env \<Rightarrow> claims_tree \<Rightarrow> string \<Rightarrow> claim_proof js" where
  "ClaimsTree_get E T key =
    bindJ (SMT_get E (ct_smt T) (encodeKey T key)) (\<lambda>proof.
    ret \<lparr> cp_found = fr_found proof, cp_key = fr_key proof, cp_value = fr_value proof,
      cp_siblings = fr_siblings proof @ replicate (treeDepth T - length (fr_siblings proof)) (F_zero (pe_F E)) \<rparr>)"

definition ClaimsTree_delete :: "poseidon_env \<Rightarrow> claims_tree \<Rightarrow> string \<Rightarrow> (claims_tree \<times> delete_response) js" where
  "ClaimsTree_delete E T key = bindJ (SMT_delete E (ct_smt T) (encodeKey T key)) (\<lambda>(s, r). ret (T\<lparr>ct_smt := s\<rparr>, r))"

text \<open>An undefined encoding ends as a \<open>TypeError\<close> where it is hashed, after the key was looked up.\<close>

definition ClaimsTree_add :: "poseidon_env \<Rightarrow> uint8arrays \<Rightarrow> claims_tree \<Rightarrow> string \<Rightarrow> js_value + claim_value \<Rightarrow> claims_tree js" where
  "ClaimsTree_add E U T key val =
    (let T = T\<lparr>ct_keys := ct_keys T @ [key]\<rparr> in
     bindJ (ClaimsTree_encodeValue E U val None) (\<lambda>v.
     case v of
       None \<Rightarrow> bindJ (SMT_get E (ct_smt T) (encodeKey T key)) (\<lambda>r.
         if fr_found r then throw (Error ''Key already exists'') else throw (TypeError ''Cannot convert undefined to a BigInt''))
     | Some n \<Rightarrow> bindJ (SMT_add E (ct_smt T) (encodeKey T key) n) (\<lambda>(s, r). ret (T\<lparr>ct_smt := s\<rparr>))))"

definition ClaimsTree_update :: "poseidon_env \<Rightarrow> uint8arrays \<Rightarrow> claims_tree \<Rightarrow> string \<Rightarrow> js_value + claim_value \<Rightarrow> (claims_tree \<times> update_response) js" where
  "ClaimsTree_update E U T key val =
    bindJ (ClaimsTree_encodeValue E U val None) (\<lambda>v.
    case v of
      None \<Rightarrow> throw (TypeError ''Cannot convert undefined to a BigInt'')
    | Some n \<Rightarrow> bindJ (SMT_update E (ct_smt T) (encodeKey T key) n) (\<lambda>(s, r). ret (T\<lparr>ct_smt := s\<rparr>, r)))"

definition ClaimsTree_from :: "poseidon_env \<Rightarrow> uint8arrays \<Rightarrow> js_object \<Rightarrow> nat option \<Rightarrow> claims_tree js" where
  "ClaimsTree_from E U claims depth =
    bindJ (flattenObject claims None) (\<lambda>flattenClaims.
    foldJ (\<lambda>T (key, v). ClaimsTree_add E U T key (Inl v)) (ClaimsTree_new E depth) flattenClaims)"

section \<open>The tree of a credential\<close>

definition DEFAULT_VC_TYPE :: string where "DEFAULT_VC_TYPE = ''VerifiableCredential''"

definition AlbusCredential :: string where "AlbusCredential = ''AlbusCredential''"

datatype vc_issuer = Issuer_string string | Issuer_object "string option" | Issuer_undefined

record w3c_credential =
  vc_context :: "js_value list"
  vc_type :: "string list"
  vc_issuer :: vc_issuer
  vc_issuanceDate :: "string option"
  vc_validFrom :: "string option"
  vc_validUntil :: "string option"
  vc_credentialSubject :: js_object

text \<open>\<open>new Date(s).getTime()\<close> in milliseconds, or \<open>None\<close> for \<open>NaN\<close>.\<close>

type_synonym date_parser = "string \<Rightarrow> int option"

text \<open>A number that may be \<open>NaN\<close>; only its text is used.\<close>

definition number_value :: "int option \<Rightarrow> js_value" where
  "number_value n = (case n of Some i \<Rightarrow> JNumber i | None \<Rightarrow> JString ''NaN'')"

definition w3cDateToUnixTs :: "date_parser \<Rightarrow> string \<Rightarrow> int option" where
  "w3cDateToUnixTs D date = map_option (\<lambda>ms. ms div 1000) (D date)"

definition present :: "string option \<Rightarrow> string option" where
  "present s = (case s of Some x \<Rightarrow> if x = [] then None else Some x | None \<Rightarrow> None)"

definition issuer_of :: "vc_issuer \<Rightarrow> string" where
  "issuer_of i = (case i of Issuer_string s \<Rightarrow> s | Issuer_object (Some s) \<Rightarrow> s | _ \<Rightarrow> '''')"

definition credential_meta :: "date_parser \<Rightarrow> w3c_credential \<Rightarrow> js_object" where
  "credential_meta D c =
    (let issuer = issuer_of (vc_issuer c);
         meta = (if issuer \<noteq> [] then [(''issuer'', claim_object (ClaimValue (Inl (JString issuer)) (Some True)))] else []);
         meta = meta @ [(''validUntil'', case present (vc_validUntil c) of Some s \<Rightarrow> number_value (w3cDateToUnixTs D s) | None \<Rightarrow> JNumber 0)];
         meta = meta @ [(''validFrom'', case present (vc_validFrom c) of Some s \<Rightarrow> number_value (w3cDateToUnixTs D s)
           | None \<Rightarrow> (case present (vc_issuanceDate c) of Some s \<Rightarrow> number_value (w3cDateToUnixTs D s) | None \<Rightarrow> JNumber 0))];
         type = (if vc_type c = [] then None else Some (last (vc_type c)))
     in if type \<noteq> Some DEFAULT_VC_TYPE \<and> type \<noteq> Some AlbusCredential
        then meta @ [(''type'', claim_object (ClaimValue (Inl (case type of Some t \<Rightarrow> JString t | None \<Rightarrow> JUndefined)) (Some True)))]
        else meta)"

definition createCredentialTree :: "poseidon_env \<Rightarrow> uint8arrays \<Rightarrow> date_parser \<Rightarrow> w3c_credential \<Rightarrow> nat option \<Rightarrow> claims_tree js" where
  "createCredentialTree E U D c depth =
    ClaimsTree_from E U (obj_put (vc_credentialSubject c) ''meta'' (JObject (credential_meta D c))) depth"

section \<open>Property names stay distinct\<close>

lemma set_insert_new: "set (insert_new k v obj) = insert (k, v) (set obj)"
  by (induction obj) (auto split: if_splits)

lemma distinct_insert_new: "distinct (map fst obj) \<Longrightarrow> k \<notin> set (map fst obj) \<Longrightarrow> distinct (map fst (insert_new k v obj))"
proof (induction obj)
  case (Cons x obj)
  obtain k' v' where x: "x = (k', v')" by (cases x)
  have "set (map fst (insert_new k v obj)) = insert k (set (map fst obj))" by (simp add: set_insert_new)
  then have "k' \<notin> set (map fst (insert_new k v obj))" using Cons.prems by (auto simp: x)
  then show ?case using Cons by (simp add: x)
qed simp

lemma distinct_obj_put:
  assumes "distinct (map fst obj)"
  shows "distinct (map fst (obj_put obj k v))"
proof (cases "k \<in> fst ` set obj")
  case True
  have "map fst (map (\<lambda>(k', v'). if k' = k then (k, v) else (k', v')) obj) = map fst obj" by (induction obj) auto
  then show ?thesis using assms unfolding obj_put_def if_P [OF True] by (simp only:)
next
  case False
  then show ?thesis using distinct_insert_new [OF assms, of k v] by (simp add: obj_put_def)
qed

lemma distinct_obj_merge: "distinct (map fst a) \<Longrightarrow> distinct (map fst (obj_merge a b))"
  unfolding obj_merge_def by (induction b arbitrary: a) (auto simp: distinct_obj_put split: prod.splits)

lemma flatten_distinct:
  "flatten_from parentKey obj res = ret r \<Longrightarrow> distinct (map fst res) \<Longrightarrow> distinct (map fst r)"
proof (induction parentKey obj res arbitrary: r rule: flatten_from.induct)
  case (2 parentKey key val obj res)
  show ?case
  proof (cases val)
    case (JObject kvs)
    obtain sub where sub: "flatten_from (Some (sub_key parentKey key)) kvs [] = ret sub"
      "flatten_from parentKey obj (obj_merge res sub) = ret r"
      using "2.prems"(1) by (auto simp: JObject Let_def bindJ_eq_ret)
    show ?thesis by (rule "2.IH"(9) [OF refl JObject sub]) (simp add: distinct_obj_merge "2.prems")
  next
    case (JArray xs)
    obtain sub where sub: "flatten_from (Some (sub_key parentKey key)) (map (\<lambda>(x, i). (to_radix 10 (int i), x)) (zip xs [0..<length xs])) [] = ret sub"
      "flatten_from parentKey obj (obj_merge res sub) = ret r"
      using "2.prems"(1) by (auto simp: JArray Let_def bindJ_eq_ret)
    show ?thesis by (rule "2.IH"(7) [OF refl JArray sub]) (simp add: distinct_obj_merge "2.prems")
  qed (use 2 in \<open>auto simp: Let_def distinct_obj_put\<close>)
qed simp

section \<open>The stored claims\<close>

lemma indexOf_new: "x \<notin> set xs \<Longrightarrow> js_indexOf (xs @ [x]) x = int (length xs)"
  by (induction xs) (auto simp: Let_def)

lemma indexOf_nth: "distinct xs \<Longrightarrow> i < length xs \<Longrightarrow> js_indexOf xs (xs ! i) = int i"
proof (induction xs arbitrary: i)
  case (Cons x xs)
  then show ?case by (cases i) (auto simp: Let_def)
qed simp

text \<open>The abstract tree that holds the values under their positions.\<close>

definition claim_tree :: "int \<Rightarrow> int list \<Rightarrow> mtree" where
  "claim_tree p ws = foldl (\<lambda>t (w, i). tree_insert (int i) (w mod p) t) MEmpty (zip ws [0..<length ws])"

lemma claim_tree_Nil: "claim_tree p [] = MEmpty"
  by (simp add: claim_tree_def)

lemma claim_tree_snoc: "claim_tree p (ws @ [w]) = tree_insert (int (length ws)) (w mod p) (claim_tree p ws)"
  by (simp add: claim_tree_def)

definition no_collisions :: "poseidon_env \<Rightarrow> int list \<Rightarrow> bool" where
  "no_collisions E ws \<longleftrightarrow> (\<forall>n < length ws. collision_free E
     (subs (claim_tree (F_p (pe_F E)) (take n ws)) @ subs (claim_tree (F_p (pe_F E)) (take (Suc n) ws))))"

definition encodes :: "poseidon_env \<Rightarrow> uint8arrays \<Rightarrow> js_object \<Rightarrow> int list \<Rightarrow> bool" where
  "encodes E U kvs ws \<longleftrightarrow> list_all2 (\<lambda>(k, v) w. ClaimsTree_encodeValue E U (Inl v) None = ret (Some w) \<and> 0 \<le> w) kvs ws"

definition position_map :: "int \<Rightarrow> int list \<Rightarrow> int \<rightharpoonup> int" where
  "position_map p ws k = (if 0 \<le> k \<and> nat k < length ws then Some (ws ! nat k mod p) else None)"

lemma position_map_snoc: "position_map p (ws @ [w]) = (position_map p ws)(int (length ws) \<mapsto> w mod p)"
  by (rule ext) (auto simp: position_map_def nth_append)

lemma SMT_new_rep: "smt_env_ok E \<Longrightarrow> smt_rep E (SMT_new E None) MEmpty"
  by (simp add: smt_rep_def SMT_new_def SMTMemDb_new_def smt_stored_def smt_env_okD)

lemma claims_loop:
  assumes E: "smt_env_ok E"
  shows "encodes E U kvs ws \<Longrightarrow> distinct (map fst kvs) \<Longrightarrow> int (length kvs) < F_p (pe_F E) \<Longrightarrow> no_collisions E ws \<Longrightarrow>
    \<exists>T. foldJ (\<lambda>T (key, v). ClaimsTree_add E U T key (Inl v)) (ClaimsTree_new E depth) kvs = ret T
      \<and> smt_rep E (ct_smt T) (claim_tree (F_p (pe_F E)) ws) \<and> ct_keys T = map fst kvs \<and> ct_depth T = depth
      \<and> entries (claim_tree (F_p (pe_F E)) ws) = position_map (F_p (pe_F E)) ws"
proof (induction kvs arbitrary: ws rule: rev_induct)
  case Nil
  then have "ws = []" by (simp add: encodes_def)
  then show ?case
    using SMT_new_rep [OF E] by (simp add: ClaimsTree_new_def claim_tree_Nil entries_def position_map_def fun_eq_iff)
next
  case (snoc kv kvs)
  obtain k v where kv: "kv = (k, v)" by (cases kv)
  obtain us w where ws: "ws = us @ [w]" and e: "encodes E U kvs us" "ClaimsTree_encodeValue E U (Inl v) None = ret (Some w)" "0 \<le> w"
    using snoc.prems(1) by (auto simp: encodes_def kv list_all2_append1 list_all2_Cons1)
  have len: "length us = length kvs" using e(1) by (simp add: encodes_def list_all2_lengthD)
  have "no_collisions E us"
    using snoc.prems(4) by (auto simp: no_collisions_def ws less_Suc_eq)
  then obtain T where T: "foldJ (\<lambda>T (key, v). ClaimsTree_add E U T key (Inl v)) (ClaimsTree_new E depth) kvs = ret T"
    "smt_rep E (ct_smt T) (claim_tree (F_p (pe_F E)) us)" "ct_keys T = map fst kvs" "ct_depth T = depth"
    "entries (claim_tree (F_p (pe_F E)) us) = position_map (F_p (pe_F E)) us"
    using snoc.IH [OF e(1)] snoc.prems by auto
  define i where "i = int (length us)"
  have cf: "collision_free E (subs (claim_tree (F_p (pe_F E)) us) @ subs (tree_insert i (w mod F_p (pe_F E)) (claim_tree (F_p (pe_F E)) us)))"
    using snoc.prems(4) unfolding no_collisions_def ws i_def claim_tree_snoc [symmetric]
    by (elim allE [of _ "length us"]) simp
  have i: "0 \<le> i" "i < F_p (pe_F E)" using snoc.prems(3) len by (simp_all add: i_def)
  have new: "i \<notin> dom (entries (claim_tree (F_p (pe_F E)) us))"
    by (auto simp: T(5) position_map_def i_def)
  obtain s' r where s': "SMT_add E (ct_smt T) i w = ret (s', r)" "smt_rep E s' (tree_insert i (w mod F_p (pe_F E)) (claim_tree (F_p (pe_F E)) us))"
    using SMT_add_rep [OF E T(2) i e(3) new cf] by blast
  have key: "js_indexOf (ct_keys T @ [k]) k = i"
    using indexOf_new [of k "map fst kvs"] snoc.prems(2) by (simp add: T(3) kv i_def len)
  have add: "ClaimsTree_add E U T k (Inl v) = ret (T\<lparr>ct_keys := ct_keys T @ [k], ct_smt := s'\<rparr>)"
    using s'(1) key e(2) by (simp add: ClaimsTree_add_def encodeKey_def Let_def)
  have ent: "entries (tree_insert i (w mod F_p (pe_F E)) (claim_tree (F_p (pe_F E)) us)) = position_map (F_p (pe_F E)) ws"
    unfolding ws position_map_snoc i_def [symmetric] T(5) [symmetric]
    by (rule tree_insert_entries) (use T(2) s'(2) in \<open>auto simp: smt_rep_def\<close>)
  show ?case
    using T(1,3,4) add s'(2) ent
    by (simp add: foldJ_append kv ws claim_tree_snoc i_def)
qed

lemma take_Suc_all: "ws \<noteq> [] \<Longrightarrow> take (Suc (length ws - 1)) ws = ws"
  by (cases ws) auto

text \<open>A wrapped value is an object with two fields, and flattening takes it apart.\<close>

lemma wrapped_claim_flattened:
  "flattenObject [(''meta'', JObject [(''issuer'', claim_object (ClaimValue (Inl (JString s)) (Some True)))])] None
    = ret [(''meta.issuer.value'', JString s), (''meta.issuer.opts.hash'', JBool True)]"
  by (simp add: flattenObject_def sub_key_def obj_merge_def obj_put_def comes_before_def index_of_def is_digit_def)

section \<open>Property\<close>

text \<open>
  C10: \<open>ClaimsTree.from\<close> flattens the claims and stores every value, reduced modulo \<open>p\<close>, under its
  position; afterwards \<open>get\<close> finds each flattened name with that value, and the siblings it
  returns, up to the padding to the tree's depth, prove the value against the root.
\<close>

theorem claimsTree_from:
  assumes "smt_env_ok E" "flattenObject claims None = ret kvs" "encodes E U kvs ws" "int (length kvs) < F_p (pe_F E)" "no_collisions E ws"
  shows "\<exists>T. ClaimsTree_from E U claims depth = ret T \<and> ct_keys T = map fst kvs
    \<and> (\<forall>i < length kvs. \<exists>pr sib n. ClaimsTree_get E T (fst (kvs ! i)) = ret pr \<and> cp_found pr \<and> cp_key pr = int i
        \<and> cp_value pr = ws ! i mod F_p (pe_F E) \<and> cp_siblings pr = sib @ replicate n 0 \<and> treeDepth T \<le> length (cp_siblings pr)
        \<and> path_root E (int i) 0 sib (hash_value E [int i, ws ! i mod F_p (pe_F E), 1]) = ClaimsTree_root T)"
proof -
  let ?p = "F_p (pe_F E)"
  have d: "distinct (map fst kvs)"
    using flatten_distinct [OF assms(2) [unfolded flattenObject_def]] by simp
  have len: "length ws = length kvs" using assms(3) by (simp add: encodes_def list_all2_lengthD)
  obtain T where T: "foldJ (\<lambda>T (key, v). ClaimsTree_add E U T key (Inl v)) (ClaimsTree_new E depth) kvs = ret T"
    "smt_rep E (ct_smt T) (claim_tree ?p ws)" "ct_keys T = map fst kvs" "entries (claim_tree ?p ws) = position_map ?p ws"
    using claims_loop [OF assms(1,3) d assms(4,5)] by blast
  have "\<exists>pr sib n. ClaimsTree_get E T (fst (kvs ! i)) = ret pr \<and> cp_found pr \<and> cp_key pr = int i
        \<and> cp_value pr = ws ! i mod ?p \<and> cp_siblings pr = sib @ replicate n 0 \<and> treeDepth T \<le> length (cp_siblings pr)
        \<and> path_root E (int i) 0 sib (hash_value E [int i, ws ! i mod ?p, 1]) = ClaimsTree_root T" if i: "i < length kvs" for i
  proof -
    have "ws \<noteq> []" using len i by auto
    then have cf: "collision_free E (subs (claim_tree ?p ws))"
      using assms(5) take_Suc_all [of ws] unfolding no_collisions_def collision_free_def
      by (elim allE [of _ "length ws - 1"]) auto
    have key: "encodeKey T (fst (kvs ! i)) = int i"
      using indexOf_nth [OF d, of i] i by (simp add: encodeKey_def T(3))
    obtain r where r: "SMT_get E (ct_smt T) (int i) = ret r" "(if fr_found r then Some (fr_value r) else None) = position_map ?p ws (int i)"
      "fr_found r \<longrightarrow> fr_key r = int i \<and> \<not> fr_isOld0 r"
      "path_root E (int i) 0 (fr_siblings r) (if fr_isOld0 r then 0 else hash_value E [fr_key r, fr_value r, 1]) = smt_root (ct_smt T)"
      using SMT_get_entries [OF assms(1) T(2) cf, of "int i"] i assms(4) T(4) by auto
    have f: "fr_found r" "fr_value r = ws ! i mod ?p"
      using r(2) i len by (simp_all add: position_map_def split: if_splits)
    show ?thesis
      using r f smt_env_okD(4) [OF assms(1)]
      by (intro exI [of _ "fr_siblings r"] exI [of _ "treeDepth T - length (fr_siblings r)"] exI
          [of _ "\<lparr> cp_found = True, cp_key = int i, cp_value = ws ! i mod ?p,
             cp_siblings = fr_siblings r @ replicate (treeDepth T - length (fr_siblings r)) 0 \<rparr>"])
        (simp add: ClaimsTree_get_def key ClaimsTree_root_def)
  qed
  moreover have "ClaimsTree_from E U claims depth = ret T" using T(1) by (simp add: ClaimsTree_from_def assms(2))
  ultimately show ?thesis using T(3) by auto
qed

theorem claimsTree_from_witness:
  "\<exists>T pr. ClaimsTree_from env13 plain_codec [(''x'', JObject [(''a'', JString ''b'')]), (''y'', JString ''j'')] None = ret T
    \<and> ct_keys T = [''x.a'', ''y''] \<and> ClaimsTree_get env13 T ''x.a'' = ret pr \<and> cp_found pr \<and> cp_value pr = 7"
proof -
  let ?kvs = "[(''x.a'', JString ''b''), (''y'', JString ''j'')]"
  have f: "flattenObject [(''x'', JObject [(''a'', JString ''b'')]), (''y'', JString ''j'')] None = ret ?kvs"
    by (simp add: flattenObject_def sub_key_def obj_merge_def obj_put_def comes_before_def index_of_def is_digit_def)
  have e: "encodes env13 plain_codec ?kvs [98, 106]"
    by (simp add: encodes_def ClaimsTree_encodeValue_def encode_text_def text_bytes_def bytesToBigInt_be_val [OF plain_codec_ok] be_val_def)
  have t: "claim_tree 13 [98] = MLeaf 0 7" "claim_tree 13 [98, 106] = tree13"
    using tree13_ops(1) by (simp_all add: claim_tree_def tree_insert_def)
  have nc: "no_collisions env13 [98, 106]"
    unfolding no_collisions_def p_env13
  proof (intro allI impI)
    fix n assume "n < length [98 :: int, 106]"
    then consider "n = 0" | "n = 1" by fastforce
    then show "collision_free env13 (subs (claim_tree 13 (take n [98, 106])) @ subs (claim_tree 13 (take (Suc n) [98, 106])))"
    proof cases
      case 1
      show ?thesis using tree13(2) unfolding 1 by (simp add: t claim_tree_Nil del: subs.simps(2,3))
    next
      case 2
      have tk: "take 1 [98 :: int, 106] = [98]" "take (Suc 1) [98 :: int, 106] = [98, 106]" by simp_all
      show ?thesis unfolding 2 tk t by (rule tree13(3))
    qed
  qed
  have n: "int (length ?kvs) < F_p (pe_F env13)" by (simp add: p_env13)
  obtain T where T: "ClaimsTree_from env13 plain_codec [(''x'', JObject [(''a'', JString ''b'')]), (''y'', JString ''j'')] None = ret T"
    "ct_keys T = map fst ?kvs" "\<exists>pr. ClaimsTree_get env13 T (fst (?kvs ! 0)) = ret pr \<and> cp_found pr \<and> cp_value pr = [98, 106] ! 0 mod F_p (pe_F env13)"
    using claimsTree_from [OF smt_env13 f e n nc, of None] by (meson length_greater_0_conv list.discI)
  then show ?thesis by (auto simp: p_env13)
qed

end
