(* ===== verification/Xc20p.thy ===== *)
theory Xc20p
  imports CryptoUtils
begin

text \<open>
  Encryption to an Ed25519 key: packages/albus-core/src/crypto/xc20p.ts.  The primitives
  of the \<open>@stablelib\<close> packages and the base-10 codec are a record of functions, the
  random key pair and nonce of a call are arguments.  \<open>xc20p_ok\<close> states what the packages
  document; under it a message that was encrypted to a key is decrypted by that key.
\<close>

section \<open>The libraries\<close>

record xc20p_env =
  xe_base10 :: "string \<Rightarrow> bytes js"
  xe_hash :: "bytes \<Rightarrow> bytes"
  convertSecretKeyToX25519 :: "bytes \<Rightarrow> bytes js"
  convertPublicKeyToX25519 :: "bytes \<Rightarrow> bytes js"
  scalarMultBase :: "bytes \<Rightarrow> bytes js"
  sharedKey :: "bytes \<Rightarrow> bytes \<Rightarrow> bytes js"
  cipher_seal :: "bytes \<Rightarrow> bytes \<Rightarrow> bytes \<Rightarrow> bytes js"
  cipher_open :: "bytes \<Rightarrow> bytes \<Rightarrow> bytes \<Rightarrow> bytes option js"
  NONCE_LENGTH :: nat
  TAG_LENGTH :: nat

record KeyPair =
  kp_secretKey :: bytes
  kp_publicKey :: bytes

text \<open>\<open>subarray\<close> and \<open>slice\<close>: a negative index counts from the end; both are clamped.\<close>

definition rel_index :: "nat \<Rightarrow> int \<Rightarrow> nat" where
  "rel_index len i = (if i < 0 then nat (max (int len + i) 0) else min (nat i) len)"

definition subarray :: "'a list \<Rightarrow> int \<Rightarrow> int \<Rightarrow> 'a list" where
  "subarray xs b e = take (rel_index (length xs) e - rel_index (length xs) b) (drop (rel_index (length xs) b) xs)"

definition subarray_from :: "'a list \<Rightarrow> int \<Rightarrow> 'a list" where
  "subarray_from xs b = drop (rel_index (length xs) b) xs"

section \<open>Keys\<close>

definition XC20P_IV_LENGTH :: "xc20p_env \<Rightarrow> nat" where "XC20P_IV_LENGTH X = NONCE_LENGTH X"

definition XC20P_TAG_LENGTH :: "xc20p_env \<Rightarrow> nat" where "XC20P_TAG_LENGTH X = TAG_LENGTH X"

definition XC20P_EPK_LENGTH :: nat where "XC20P_EPK_LENGTH = 32"

definition ECDH_ES_XC20PKW_ALG :: string where "ECDH_ES_XC20PKW_ALG = ''ECDH-ES+XC20PKW''"

definition ECDH_ES_XC20PKW_KEYLEN :: int where "ECDH_ES_XC20PKW_KEYLEN = 256"

datatype private_key = Key_bytes bytes | Key_numbers "int list" | Key_string string

text \<open>Only the empty string is falsy.\<close>

definition given_key :: "private_key option \<Rightarrow> private_key option" where
  "given_key k = (if k = Some (Key_string '''') then None else k)"

definition makeKeypair :: "uint8arrays \<Rightarrow> private_key \<Rightarrow> KeyPair js" where
  "makeKeypair U privateKey =
    bindJ (case privateKey of
      Key_numbers ns \<Rightarrow> ret (map word_of_int ns)
      | Key_string s \<Rightarrow> base58ToBytes U s
      | Key_bytes b \<Rightarrow> ret b) (\<lambda>secretKey.
    if length secretKey \<noteq> 64 then throw (Error ''bad secret key size'')
    else ret \<lparr> kp_secretKey = secretKey, kp_publicKey = subarray secretKey 32 64 \<rparr>)"

definition convertSecretKeyToX25519Keypair :: "uint8arrays \<Rightarrow> xc20p_env \<Rightarrow> private_key \<Rightarrow> KeyPair js" where
  "convertSecretKeyToX25519Keypair U X privateKey =
    bindJ (makeKeypair U privateKey) (\<lambda>kp.
    bindJ (convertSecretKeyToX25519 X (kp_secretKey kp)) (\<lambda>secretKey.
    bindJ (scalarMultBase X secretKey) (\<lambda>publicKey.
    ret \<lparr> kp_secretKey = secretKey, kp_publicKey = publicKey \<rparr>)))"

section \<open>The key derivation\<close>

definition writeUint32BE :: "xc20p_env \<Rightarrow> int \<Rightarrow> bytes js" where
  "writeUint32BE X value =
    bindJ (xe_base10 X (to_radix 10 value)) (\<lambda>encoded.
    if length encoded > 4 then throw (RangeError ''offset is out of bounds'')
    else typed_set (replicate 4 0) (4 - length encoded) encoded)"

definition lengthAndInput :: "xc20p_env \<Rightarrow> bytes \<Rightarrow> bytes js" where
  "lengthAndInput X input = bindJ (writeUint32BE X (int (length input))) (\<lambda>n. ret (n @ input))"

definition concatKDF :: "uint8arrays \<Rightarrow> xc20p_env \<Rightarrow> bytes \<Rightarrow> int \<Rightarrow> string \<Rightarrow> bytes js" where
  "concatKDF U X secret keyLen alg =
    (if keyLen \<noteq> 256 then throw (Error (''Unsupported key length: '' @ to_radix 10 keyLen))
     else
       bindJ (u_fromString U Utf8 alg) (\<lambda>algBytes.
       bindJ (lengthAndInput X algBytes) (\<lambda>alg.
       bindJ (lengthAndInput X []) (\<lambda>apu.
       bindJ (lengthAndInput X []) (\<lambda>apv.
       bindJ (writeUint32BE X keyLen) (\<lambda>len.
       let value = alg @ apu @ apv @ len in
       bindJ (writeUint32BE X 1) (\<lambda>roundNumber.
       ret (xe_hash X (roundNumber @ secret @ value)))))))))"

section \<open>Encryption and decryption\<close>

record Envelope =
  en_ciphertext :: bytes
  en_tag :: bytes
  en_iv :: bytes

definition xc20pEncrypter :: "xc20p_env \<Rightarrow> bytes \<Rightarrow> bytes \<Rightarrow> bytes \<Rightarrow> Envelope js" where
  "xc20pEncrypter X key iv cleartext =
    bindJ (cipher_seal X key iv cleartext) (\<lambda>sealed.
    let n = int (length sealed) - int (XC20P_TAG_LENGTH X)
    in ret \<lparr> en_ciphertext = subarray sealed 0 n, en_tag = subarray_from sealed n, en_iv = iv \<rparr>)"

definition xc20pDecrypter :: "xc20p_env \<Rightarrow> bytes \<Rightarrow> bytes \<Rightarrow> bytes \<Rightarrow> bytes \<Rightarrow> bytes option js" where
  "xc20pDecrypter X key ciphertext tag iv = cipher_open X key iv (ciphertext @ tag)"

definition XC20P_encryptBytes :: "uint8arrays \<Rightarrow> xc20p_env \<Rightarrow> KeyPair \<Rightarrow> bytes \<Rightarrow> bytes \<Rightarrow> bytes \<Rightarrow> private_key option \<Rightarrow> bytes js" where
  "XC20P_encryptBytes U X generated iv bs pubKey esk =
    bindJ (case given_key esk of Some k \<Rightarrow> convertSecretKeyToX25519Keypair U X k | None \<Rightarrow> ret generated) (\<lambda>ekp.
    bindJ (convertPublicKeyToX25519 X pubKey) (\<lambda>pk.
    bindJ (sharedKey X (kp_secretKey ekp) pk) (\<lambda>sharedSecret.
    bindJ (concatKDF U X sharedSecret ECDH_ES_XC20PKW_KEYLEN ECDH_ES_XC20PKW_ALG) (\<lambda>kek.
    bindJ (xc20pEncrypter X kek iv bs) (\<lambda>res.
    ret (en_iv res @ en_tag res @ en_ciphertext res @ kp_publicKey ekp))))))"

definition XC20P_encrypt :: "uint8arrays \<Rightarrow> xc20p_env \<Rightarrow> KeyPair \<Rightarrow> bytes \<Rightarrow> string \<Rightarrow> bytes \<Rightarrow> private_key option \<Rightarrow> string js" where
  "XC20P_encrypt U X generated iv message pubKey esk =
    bindJ (stringToBytes U message) (\<lambda>bs.
    bindJ (XC20P_encryptBytes U X generated iv bs pubKey esk) (\<lambda>c. ret (bytesToBase64 U c)))"

definition XC20P_decryptBytes :: "uint8arrays \<Rightarrow> xc20p_env \<Rightarrow> bytes \<Rightarrow> private_key \<Rightarrow> bytes option \<Rightarrow> bytes js" where
  "XC20P_decryptBytes U X bs privateKey epk =
    (let ivn = int (XC20P_IV_LENGTH X); tagn = int (XC20P_TAG_LENGTH X); epkn = int XC20P_EPK_LENGTH;
         iv = subarray bs 0 ivn;
         tag = subarray bs ivn (ivn + tagn);
         ciphertext = subarray bs (ivn + tagn) (- epkn) in
     bindJ (case epk of Some k \<Rightarrow> convertPublicKeyToX25519 X k | None \<Rightarrow> ret (subarray_from bs (- epkn))) (\<lambda>epkPub.
     bindJ (makeKeypair U privateKey) (\<lambda>kp.
     bindJ (convertSecretKeyToX25519 X (kp_secretKey kp)) (\<lambda>curve25519Key.
     bindJ (sharedKey X curve25519Key epkPub) (\<lambda>sharedSecret.
     bindJ (concatKDF U X sharedSecret ECDH_ES_XC20PKW_KEYLEN ECDH_ES_XC20PKW_ALG) (\<lambda>kek.
     bindJ (xc20pDecrypter X kek ciphertext tag iv) (\<lambda>binMessage. case binMessage of
       None \<Rightarrow> throw (Error ''There was an error decoding the message!'')
     | Some m \<Rightarrow> ret m)))))))"

definition XC20P_decrypt :: "uint8arrays \<Rightarrow> xc20p_env \<Rightarrow> string \<Rightarrow> private_key \<Rightarrow> bytes option \<Rightarrow> string js" where
  "XC20P_decrypt U X encryptedMessage privateKey epk =
    bindJ (base64ToBytes U encryptedMessage) (\<lambda>c.
    bindJ (XC20P_decryptBytes U X c privateKey epk) (\<lambda>m. ret (bytesToString U m)))"

section \<open>What the libraries promise\<close>

text \<open>The base-10 codec writes the big-endian bytes of a number, four at most for 32 bits.\<close>

definition base10_ok :: "xc20p_env \<Rightarrow> bool" where
  "base10_ok X \<longleftrightarrow> (\<forall>n. 0 \<le> n \<and> n < 2 ^ 32 \<longrightarrow> (\<exists>b. xe_base10 X (to_radix 10 n) = ret b \<and> length b \<le> 4 \<and> be_val b = n))"

text \<open>Both parties of a key agreement get the same secret; sealed messages open.\<close>

definition agreement_ok :: "xc20p_env \<Rightarrow> bool" where
  "agreement_ok X \<longleftrightarrow> (\<forall>a b A B. length a = 32 \<and> length b = 32 \<and> scalarMultBase X a = ret A \<and> scalarMultBase X b = ret B \<longrightarrow>
     length A = 32 \<and> (\<exists>s. sharedKey X a B = ret s \<and> sharedKey X b A = ret s))"

definition cipher_ok :: "xc20p_env \<Rightarrow> bool" where
  "cipher_ok X \<longleftrightarrow> (\<forall>k iv m. length k = 32 \<and> length iv = NONCE_LENGTH X \<longrightarrow>
     (\<exists>c. cipher_seal X k iv m = ret c \<and> length c = length m + TAG_LENGTH X \<and> cipher_open X k iv c = ret (Some m)))"

definition xc20p_ok :: "uint8arrays \<Rightarrow> xc20p_env \<Rightarrow> bool" where
  "xc20p_ok U X \<longleftrightarrow> base10_ok X \<and> agreement_ok X \<and> cipher_ok X \<and> (\<forall>m. length (xe_hash X m) = 32) \<and>
     (\<exists>b. u_fromString U Utf8 ECDH_ES_XC20PKW_ALG = ret b \<and> length b < 2 ^ 32)"

text \<open>An Ed25519 secret key whose second half is its public key, as the conversions see it.\<close>

definition ed25519_pair :: "xc20p_env \<Rightarrow> bytes \<Rightarrow> bool" where
  "ed25519_pair X sk \<longleftrightarrow> length sk = 64 \<and> (\<exists>a A. convertSecretKeyToX25519 X sk = ret a \<and> length a = 32 \<and>
     scalarMultBase X a = ret A \<and> convertPublicKeyToX25519 X (drop 32 sk) = ret A)"

definition x25519_pair :: "xc20p_env \<Rightarrow> KeyPair \<Rightarrow> bool" where
  "x25519_pair X kp \<longleftrightarrow> length (kp_secretKey kp) = 32 \<and> scalarMultBase X (kp_secretKey kp) = ret (kp_publicKey kp)"

definition utf8_text :: "uint8arrays \<Rightarrow> string \<Rightarrow> bool" where
  "utf8_text U s \<longleftrightarrow> (\<exists>b. u_fromString U Utf8 s = ret b \<and> u_toString U Utf8 b = s)"

section \<open>The parts fit together\<close>

lemma writeUint32BE_bytes:
  assumes "base10_ok X" "0 \<le> n" "n < 2 ^ 32"
  shows "writeUint32BE X n = ret (be_bytes 4 n)"
proof -
  obtain b where b: "xe_base10 X (to_radix 10 n) = ret b" "length b \<le> 4" "be_val b = n"
    using assms unfolding base10_ok_def by blast
  define c where "c = replicate (4 - length b) 0 @ b"
  have "le_val (replicate j 0) = 0" for j by (induction j) simp_all
  then have "be_val (replicate j 0) = 0" for j by (simp add: be_val_def)
  then have c: "length c = 4" "be_val c = n" using b by (simp_all add: c_def be_val_append)
  have "typed_set (replicate 4 0) (4 - length b) b = ret c"
    using b(2) by (simp add: typed_set_def put_bytes_def c_def)
  moreover have "c = be_bytes 4 n" using be_bytes_be_val [of c] c by simp
  ultimately show ?thesis using b by (simp add: writeUint32BE_def)
qed

lemma concatKDF_total:
  assumes "xc20p_ok U X"
  shows "\<exists>k. concatKDF U X secret ECDH_ES_XC20PKW_KEYLEN ECDH_ES_XC20PKW_ALG = ret k \<and> length k = 32"
proof -
  obtain b where b: "u_fromString U Utf8 ECDH_ES_XC20PKW_ALG = ret b" "length b < 2 ^ 32" using assms by (auto simp: xc20p_ok_def)
  have w: "writeUint32BE X n = ret (be_bytes 4 n)" if "0 \<le> n" "n < 2 ^ 32" for n
    using assms writeUint32BE_bytes [OF _ that] by (simp add: xc20p_ok_def)
  have "int (length b) < 2 ^ 32" using b(2) by simp
  then show ?thesis
    using assms b(1) by (simp add: concatKDF_def lengthAndInput_def w ECDH_ES_XC20PKW_KEYLEN_def xc20p_ok_def)
qed

lemma encrypter_parts:
  assumes "cipher_ok X" "length k = 32" "length iv = NONCE_LENGTH X"
  shows "\<exists>en. xc20pEncrypter X k iv m = ret en \<and> en_iv en = iv \<and> length (en_tag en) = TAG_LENGTH X \<and>
    length (en_ciphertext en) = length m \<and> xc20pDecrypter X k (en_ciphertext en) (en_tag en) iv = ret (Some m)"
proof -
  obtain c where c: "cipher_seal X k iv m = ret c" "length c = length m + TAG_LENGTH X" "cipher_open X k iv c = ret (Some m)"
    using assms unfolding cipher_ok_def by blast
  then show ?thesis
    by (simp add: xc20pEncrypter_def xc20pDecrypter_def XC20P_TAG_LENGTH_def subarray_def subarray_from_def rel_index_def)
qed

text \<open>The four parts of a ciphertext are cut at the lengths they have.\<close>

lemma subarray_parts:
  assumes "length iv = i" "length tag = t" "length pk = 32"
  shows "subarray (iv @ tag @ ct @ pk) 0 (int i) = iv" "subarray (iv @ tag @ ct @ pk) (int i) (int i + int t) = tag"
    "subarray (iv @ tag @ ct @ pk) (int i + int t) (- 32) = ct" "subarray_from (iv @ tag @ ct @ pk) (- 32) = pk"
  using assms by (simp_all add: subarray_def subarray_from_def rel_index_def min_def nat_add_distrib)

lemma makeKeypair_bytes: "length sk = 64 \<Longrightarrow> makeKeypair U (Key_bytes sk) = ret \<lparr> kp_secretKey = sk, kp_publicKey = drop 32 sk \<rparr>"
  by (simp add: makeKeypair_def subarray_def rel_index_def)

text \<open>The ephemeral key of an encryption, and who can read it.\<close>

definition ephemeral :: "uint8arrays \<Rightarrow> xc20p_env \<Rightarrow> KeyPair \<Rightarrow> private_key option \<Rightarrow> bool" where
  "ephemeral U X generated esk \<longleftrightarrow> (case given_key esk of None \<Rightarrow> x25519_pair X generated
     | Some k \<Rightarrow> \<exists>kp. makeKeypair U k = ret kp \<and> ed25519_pair X (kp_secretKey kp))"

lemma ephemeral_pair:
  assumes "ephemeral U X generated esk"
  obtains ekp where "(case given_key esk of Some k \<Rightarrow> convertSecretKeyToX25519Keypair U X k | None \<Rightarrow> ret generated) = ret ekp"
    "x25519_pair X ekp"
proof (cases "given_key esk")
  case None
  then show ?thesis using assms that by (simp add: ephemeral_def)
next
  case (Some k)
  then obtain kp a A where "makeKeypair U k = ret kp" "convertSecretKeyToX25519 X (kp_secretKey kp) = ret a" "length a = 32"
    "scalarMultBase X a = ret A"
    using assms unfolding ephemeral_def ed25519_pair_def by auto
  then show ?thesis using that Some by (simp add: convertSecretKeyToX25519Keypair_def x25519_pair_def)
qed

lemma bytes_roundtrip:
  assumes ok: "xc20p_ok U X" and sk: "ed25519_pair X sk" and e: "ephemeral U X generated esk" and iv: "length iv = NONCE_LENGTH X"
  shows "\<exists>c. XC20P_encryptBytes U X generated iv m (drop 32 sk) esk = ret c \<and>
    length c = NONCE_LENGTH X + TAG_LENGTH X + length m + 32 \<and> XC20P_decryptBytes U X c (Key_bytes sk) None = ret m"
proof -
  obtain ekp where ekp: "(case given_key esk of Some k \<Rightarrow> convertSecretKeyToX25519Keypair U X k | None \<Rightarrow> ret generated) = ret ekp"
    "x25519_pair X ekp" using ephemeral_pair [OF e] .
  obtain a A where a: "convertSecretKeyToX25519 X sk = ret a" "length a = 32" "scalarMultBase X a = ret A"
    "convertPublicKeyToX25519 X (drop 32 sk) = ret A" "length sk = 64"
    using sk unfolding ed25519_pair_def by blast
  have ag: "agreement_ok X" "cipher_ok X" using ok by (simp_all add: xc20p_ok_def)
  obtain s where s: "length (kp_publicKey ekp) = 32" "sharedKey X (kp_secretKey ekp) A = ret s" "sharedKey X a (kp_publicKey ekp) = ret s"
    using ag(1) a(2,3) ekp(2) unfolding agreement_ok_def x25519_pair_def by blast
  obtain k where k: "concatKDF U X s ECDH_ES_XC20PKW_KEYLEN ECDH_ES_XC20PKW_ALG = ret k" "length k = 32"
    using concatKDF_total [OF ok] by blast
  obtain en where en: "xc20pEncrypter X k iv m = ret en" "en_iv en = iv" "length (en_tag en) = TAG_LENGTH X"
    "length (en_ciphertext en) = length m" "xc20pDecrypter X k (en_ciphertext en) (en_tag en) iv = ret (Some m)"
    using encrypter_parts [OF ag(2) k(2) iv] by blast
  let ?c = "iv @ en_tag en @ en_ciphertext en @ kp_publicKey ekp"
  have "XC20P_encryptBytes U X generated iv m (drop 32 sk) esk = ret ?c"
    unfolding XC20P_encryptBytes_def ekp(1) by (simp add: a s k en)
  moreover have "XC20P_decryptBytes U X ?c (Key_bytes sk) None = ret m"
    unfolding XC20P_decryptBytes_def Let_def XC20P_IV_LENGTH_def XC20P_TAG_LENGTH_def XC20P_EPK_LENGTH_def
    by (simp add: subarray_parts [OF iv en(3) s(1)] makeKeypair_bytes a s k en)
  ultimately show ?thesis using iv s(1) en(3,4) by simp
qed

lemma text_roundtrip:
  assumes "xc20p_ok U X" "codec_ok U" "ed25519_pair X sk" "ephemeral U X generated esk" "length iv = NONCE_LENGTH X" "utf8_text U msg"
  shows "\<exists>c. XC20P_encrypt U X generated iv msg (drop 32 sk) esk = ret (u_toString U Base64pad c) \<and>
    XC20P_decrypt U X (u_toString U Base64pad c) (Key_bytes sk) None = ret msg"
proof -
  obtain b where b: "u_fromString U Utf8 msg = ret b" "u_toString U Utf8 b = msg" using assms(6) by (auto simp: utf8_text_def)
  obtain c where "XC20P_encryptBytes U X generated iv b (drop 32 sk) esk = ret c" "XC20P_decryptBytes U X c (Key_bytes sk) None = ret b"
    using bytes_roundtrip [OF assms(1,3-5)] by blast
  then show ?thesis
    using b assms(2) by (intro exI [of _ c])
      (simp add: XC20P_encrypt_def XC20P_decrypt_def stringToBytes_def bytesToBase64_def base64ToBytes_def bytesToString_def codec_ok_def)
qed

section \<open>Witnesses\<close>

text \<open>Stand-ins that meet the contract: a base-64 text without dots, and transparent primitives.\<close>

definition text_codec :: uint8arrays where
  "text_codec = \<lparr> u_fromString = (\<lambda>e. u_fromString plain_codec (if e = Base64pad then Base16 else e)),
     u_toString = (\<lambda>e. u_toString plain_codec (if e = Base64pad then Base16 else e)) \<rparr>"

definition open_cipher :: xc20p_env where
  "open_cipher = \<lparr> xe_base10 = (\<lambda>s. case parse_digits 10 s of Some n \<Rightarrow> ret (be_bytes 4 (int n)) | None \<Rightarrow> throw (Error ''Non-base10 character'')),
     xe_hash = (\<lambda>m. be_bytes 32 (be_val m)),
     convertSecretKeyToX25519 = (\<lambda>sk. ret (take 32 sk)), convertPublicKeyToX25519 = ret,
     scalarMultBase = ret, sharedKey = (\<lambda>a B. ret (map2 (XOR) a B)),
     cipher_seal = (\<lambda>k iv m. ret (m @ replicate 16 7)),
     cipher_open = (\<lambda>k iv c. ret (if drop (length c - 16) c = replicate 16 7 then Some (take (length c - 16) c) else None)),
     NONCE_LENGTH = 24, TAG_LENGTH = 16 \<rparr>"

lemma parse_decimal: "0 \<le> n \<Longrightarrow> parse_digits 10 (to_radix 10 n) = Some (nat n)"
proof -
  assume n: "0 \<le> n"
  define ds where "ds = radix_digits 10 (nat n)"
  have ds: "d < 10" if "d \<in> set ds" for d using radix_digits_less [of 10 d "nat n"] that by (simp add: ds_def)
  then have v: "digit_val (digit_char d) = Some d" if "d \<in> set ds" for d using that by (intro digit_val_char) fastforce
  have "map (the \<circ> digit_val) (map digit_char ds) = ds" unfolding map_map by (intro map_idI) (simp add: v)
  moreover have "digits_value 10 ds = nat n" by (simp add: ds_def digits_value_radix_digits)
  ultimately show ?thesis
    using n ds v by (simp add: parse_digits_def to_radix_def ds_def [symmetric]) (simp add: ds_def)
qed

lemma text_codec_ok: "codec_ok text_codec"
  using plain_codec_ok by (simp add: codec_ok_def text_codec_def)

lemma text_codec_utf8: "utf8_text text_codec s"
proof -
  have "map (\<lambda>c. char_of (unat (word_of_nat (of_char c) :: 8 word))) s = s"
    by (intro map_idI) (simp add: unat_of_nat)
  then show ?thesis by (simp add: utf8_text_def text_codec_def plain_codec_def comp_def)
qed

lemma open_cipher_ok: "xc20p_ok text_codec open_cipher"
proof -
  have "base10_ok open_cipher"
    using parse_decimal by (simp add: base10_ok_def open_cipher_def be_val_be_bytes)
  moreover have "map2 (XOR) a b = map2 (XOR) b a" for a b :: bytes
    by (induction a b rule: list_induct2') (simp_all add: xor.commute)
  then have "agreement_ok open_cipher" by (simp add: agreement_ok_def open_cipher_def)
  moreover have "cipher_ok open_cipher" by (simp add: cipher_ok_def open_cipher_def)
  ultimately show ?thesis
    using text_codec_utf8 [of ECDH_ES_XC20PKW_ALG]
    by (simp add: xc20p_ok_def) (simp add: open_cipher_def text_codec_def plain_codec_def ECDH_ES_XC20PKW_ALG_def)
qed

section \<open>Properties\<close>

text \<open>
  C22: a message that \<open>encrypt\<close> seals for a public key, with a generated or a given ephemeral
  key, is returned by \<open>decrypt\<close> under the secret key of that public key.
\<close>

theorem xc20p_roundtrip:
  assumes "xc20p_ok U X" "codec_ok U" "ed25519_pair X sk" "ephemeral U X generated esk" "length iv = NONCE_LENGTH X" "utf8_text U msg"
  shows "\<exists>c. XC20P_encrypt U X generated iv msg (drop 32 sk) esk = ret c \<and> XC20P_decrypt U X c (Key_bytes sk) None = ret msg"
  using text_roundtrip [OF assms] by blast

theorem xc20p_roundtrip_witness:
  "\<exists>c. XC20P_encrypt text_codec open_cipher \<lparr> kp_secretKey = replicate 32 3, kp_publicKey = replicate 32 3 \<rparr> (replicate 24 9) ''hi''
      (drop 32 (replicate 64 5)) None = ret c \<and> XC20P_decrypt text_codec open_cipher c (Key_bytes (replicate 64 5)) None = ret ''hi''"
  by (rule xc20p_roundtrip [OF open_cipher_ok text_codec_ok _ _ _ text_codec_utf8])
    (simp_all add: ed25519_pair_def ephemeral_def given_key_def x25519_pair_def open_cipher_def)

end
