(* ===== verification/Did.thy ===== *)
theory Did
  imports Eddsa FFUtils Xc20p
begin

text \<open>
  Decentralized identifiers: packages/albus-core/src/utils/did.ts and the resolvers
  credential/did-resolver/key.ts and albus.ts.  A document is a record; the accounts of
  the chain, the URL of a cluster and the conversion of Edwards keys are arguments.
\<close>

section \<open>Documents\<close>

record verification_method =
  vm_id :: string
  vm_type :: string
  vm_controller :: string
  vm_publicKeyMultibase :: "string option"
  vm_publicKeyBase58 :: "string option"

record did_document =
  dd_context :: "string list option"
  dd_id :: string
  dd_assertionMethod :: "string list"
  dd_authentication :: "string list"
  dd_capabilities :: "string list"
  dd_keyAgreement :: "verification_method list"
  dd_verificationMethod :: "verification_method list option"
  dd_service :: "(string \<times> string \<times> string) list"

record did_result =
  dr_didDocument :: "did_document option"
  dr_contentType :: "string option"
  dr_error :: "string option"
  dr_message :: "string option"

definition BJJVerificationKey2021 :: string where "BJJVerificationKey2021 = ''BJJVerificationKey2021''"

definition Ed25519VerificationKey2020 :: string where "Ed25519VerificationKey2020 = ''Ed25519VerificationKey2020''"

definition DEFAULT_DID :: string where "DEFAULT_DID = ''did:web:albus.finance''"

text \<open>\<open>s.split(c)\<close> for a single character.\<close>

fun js_split :: "char \<Rightarrow> string \<Rightarrow> string list" where
  "js_split c [] = ['''']"
| "js_split c (x # xs) = (if x = c then '''' # js_split c xs
     else (case js_split c xs of [] \<Rightarrow> [[x]] | w # ws \<Rightarrow> (x # w) # ws))"

text \<open>An error as a string.\<close>

fun error_text :: "js_error \<Rightarrow> string" where
  "error_text (Error m) = ''Error: '' @ m"
| "error_text (TypeError m) = ''TypeError: '' @ m"
| "error_text (RangeError m) = ''RangeError: '' @ m"
| "error_text (SyntaxError m) = ''SyntaxError: '' @ m"
| "error_text AssertionError = ''AssertionError''"

text \<open>\<open>try \<dots> catch\<close>: a computation that does not return is not caught.\<close>

definition catchJ :: "'a js \<Rightarrow> (js_error \<Rightarrow> 'a js) \<Rightarrow> 'a js" where
  "catchJ m h = (case m of Some (Inl e) \<Rightarrow> h e | _ \<Rightarrow> m)"

lemma catchJ_simps [simp]: "catchJ (ret x) h = ret x" "catchJ (throw e) h = h e" "catchJ None h = None"
  by (simp_all add: catchJ_def ret_def throw_def)

section \<open>did.ts\<close>

definition encodeDidKey :: "uint8arrays \<Rightarrow> bytes \<Rightarrow> string" where
  "encodeDidKey U publicKey = ''did:key:'' @ MultiBase_encode U publicKey (ed25519Pub MultiBase_codec)"

definition decodeDidKey :: "uint8arrays \<Rightarrow> string \<Rightarrow> bytes js" where
  "decodeDidKey U did =
    (if take 8 did \<noteq> ''did:key:'' then throw (Error ''did:key invalid format'')
     else MultiBase_decode U (drop 8 did) (ed25519Pub MultiBase_codec))"

text \<open>The two verification methods of a controller, and the document that lists them.\<close>

definition key_methods :: "string \<Rightarrow> string \<Rightarrow> string \<Rightarrow> verification_method list" where
  "key_methods controller publicKeyMultibase publicKeyBJJ =
    [\<lparr> vm_id = controller @ ''#'' @ publicKeyMultibase, vm_type = Ed25519VerificationKey2020, vm_controller = controller,
       vm_publicKeyMultibase = Some publicKeyMultibase, vm_publicKeyBase58 = None \<rparr>,
     \<lparr> vm_id = controller @ ''#'' @ publicKeyBJJ, vm_type = BJJVerificationKey2021, vm_controller = controller,
       vm_publicKeyMultibase = None, vm_publicKeyBase58 = Some publicKeyBJJ \<rparr>]"

definition controller_document :: "string \<Rightarrow> verification_method list \<Rightarrow> did_document" where
  "controller_document controller verificationMethod =
    \<lparr> dd_context = Some [''https://www.w3.org/ns/did/v1'', ''https://w3id.org/security/suites/ed25519-2020/v1'',
        ''https://w3id.org/security/suites/x25519-2020/v1''],
      dd_id = controller,
      dd_assertionMethod = map vm_id verificationMethod,
      dd_authentication = map vm_id verificationMethod,
      dd_capabilities = [],
      dd_keyAgreement = [(hd verificationMethod)\<lparr> vm_type := ''X25519KeyAgreementKey2020'' \<rparr>],
      dd_verificationMethod = Some verificationMethod,
      dd_service = [(controller @ ''#linkeddomains'', ''LinkedDomains'', ''https://albus.finance/'')] \<rparr>"

definition generateDid :: "eddsa_env \<Rightarrow> KeyPair \<Rightarrow> string option \<Rightarrow> did_document js" where
  "generateDid E keypair controller =
    (let controller = (case controller of Some c \<Rightarrow> c | None \<Rightarrow> DEFAULT_DID);
         publicKeyMultibase = MultiBase_encode (ee_codec E) (kp_publicKey keypair) (ed25519Pub MultiBase_codec) in
     bindJ (PrivateKey_public E (kp_secretKey keypair)) (\<lambda>p.
     bindJ (PublicKey_toBase58 E p) (\<lambda>publicKeyBJJ.
     ret (controller_document controller (key_methods controller publicKeyMultibase publicKeyBJJ)))))"

section \<open>did-resolver/albus.ts\<close>

definition DEFAULT_CLUSTER :: string where "DEFAULT_CLUSTER = ''mainnet-beta''"

text \<open>
  The URL of the connection: the options may be absent, but options without \<open>rpcUrl\<close>
  are indexed all the same.
\<close>

definition albus_endpoint :: "(string \<Rightarrow> string) \<Rightarrow> (string \<rightharpoonup> string) option option \<Rightarrow> string option \<Rightarrow> string js" where
  "albus_endpoint clusterApiUrl ops clusterParam =
    (let cluster = (case clusterParam of Some c \<Rightarrow> c | None \<Rightarrow> DEFAULT_CLUSTER) in
     case ops of
       None \<Rightarrow> ret (clusterApiUrl cluster)
     | Some None \<Rightarrow> throw (TypeError ''Cannot read properties of undefined'')
     | Some (Some rpcUrl) \<Rightarrow> ret (case rpcUrl cluster of Some u \<Rightarrow> u | None \<Rightarrow> clusterApiUrl cluster))"

definition issuer_discriminator :: bytes where
  "issuer_discriminator = [216, 19, 83, 230, 108, 53, 80, 14]"

definition parseIssuer :: "bytes \<Rightarrow> (bytes \<times> bytes) js" where
  "parseIssuer account =
    (if subarray account 0 8 \<noteq> issuer_discriminator then throw (Error ''Invalid issuer discriminator'')
     else ret (subarray account 8 40, subarray account 40 104))"

definition generateDidDocument :: "eddsa_env \<Rightarrow> bytes \<Rightarrow> bytes \<Rightarrow> string \<Rightarrow> did_document js" where
  "generateDidDocument E pubkey zkPubkey controller =
    (let publicKeyMultibase = MultiBase_encode (ee_codec E) pubkey (ed25519Pub MultiBase_codec) in
     bindJ (bytesToBigInt (ee_codec E) (subarray zkPubkey 0 32)) (\<lambda>x.
     bindJ (bytesToBigInt (ee_codec E) (subarray zkPubkey 32 64)) (\<lambda>y.
     bindJ (PublicKey_toBase58 E (x, y)) (\<lambda>publicKeyBJJ.
     ret (controller_document controller (key_methods controller publicKeyMultibase publicKeyBJJ))))))"

text \<open>\<open>accounts\<close> gives the data of an account by its address, as text; a bad address throws.\<close>

definition albus_document :: "eddsa_env \<Rightarrow> (string \<Rightarrow> bytes option js) \<Rightarrow> string \<Rightarrow> string \<Rightarrow> did_document js" where
  "albus_document E accounts did parsed_id =
    (let ids = js_split (CHR '':'') parsed_id in
     if length ids < 2 then throw (Error ''Invalid DID'')
     else if ids ! 0 = ''issuer'' then
       bindJ (accounts (ids ! 1)) (\<lambda>accountInfo. case accountInfo of
         None \<Rightarrow> throw (Error ''Invalid issuer account'')
       | Some data \<Rightarrow> bindJ (parseIssuer data) (\<lambda>(pubkey, zkPubkey). generateDidDocument E pubkey zkPubkey did))
     else throw (Error (''Unsupported account type '' @ ids ! 0)))"

definition albus_resolve :: "eddsa_env \<Rightarrow> (string \<Rightarrow> bytes option js) \<Rightarrow> string js \<Rightarrow> string \<Rightarrow> string \<Rightarrow> did_result js" where
  "albus_resolve E accounts endpoint did parsed_id =
    bindJ endpoint (\<lambda>_.
    catchJ (bindJ (albus_document E accounts did parsed_id) (\<lambda>doc.
        ret \<lparr> dr_didDocument = Some doc, dr_contentType = Some (if dd_context doc \<noteq> None then ''application/did+ld+json'' else ''application/did+json''),
              dr_error = None, dr_message = None \<rparr>))
      (\<lambda>e. ret \<lparr> dr_didDocument = None, dr_contentType = None, dr_error = Some ''notFound'',
              dr_message = Some (''resolver_error: '' @ error_text e) \<rparr>))"

section \<open>did-resolver/key.ts\<close>

definition DID_LD_JSON :: string where "DID_LD_JSON = ''application/did+ld+json''"

definition DID_JSON :: string where "DID_JSON = ''application/did+json''"

definition ed25519Doc :: "uint8arrays \<Rightarrow> (bytes \<Rightarrow> bytes js) \<Rightarrow> bytes \<Rightarrow> string \<Rightarrow> did_document js" where
  "ed25519Doc U edwardsToMontgomeryPub pubKeyBytes fingerprint =
    (let did = ''did:key:'' @ fingerprint; keyId = did @ ''#'' @ fingerprint in
     bindJ (edwardsToMontgomeryPub pubKeyBytes) (\<lambda>x25519PubBytes.
     let x25519KeyId = did @ ''#'' @ MultiBase_encode U x25519PubBytes (x25519Pub MultiBase_codec) in
     ret \<lparr> dd_context = None, dd_id = did, dd_assertionMethod = [keyId], dd_authentication = [keyId],
       dd_capabilities = [keyId, keyId],
       dd_keyAgreement = [\<lparr> vm_id = x25519KeyId, vm_type = ''X25519KeyAgreementKey2019'', vm_controller = did,
         vm_publicKeyMultibase = None, vm_publicKeyBase58 = Some (u_toString U Base58btc x25519PubBytes) \<rparr>],
       dd_verificationMethod = Some
         [\<lparr> vm_id = keyId, vm_type = ''Ed25519VerificationKey2018'', vm_controller = did,
            vm_publicKeyMultibase = None, vm_publicKeyBase58 = Some (u_toString U Base58btc pubKeyBytes) \<rparr>,
          \<lparr> vm_id = keyId, vm_type = Ed25519VerificationKey2020, vm_controller = did,
            vm_publicKeyMultibase = Some (MultiBase_encode U pubKeyBytes (ed25519Pub MultiBase_codec)), vm_publicKeyBase58 = None \<rparr>],
       dd_service = [] \<rparr>))"

definition key_document :: "uint8arrays \<Rightarrow> (bytes \<Rightarrow> bytes js) \<Rightarrow> string \<Rightarrow> string \<Rightarrow> did_result js" where
  "key_document U conv parsed_id contentType =
    bindJ (MultiBase_decode U parsed_id 0) (\<lambda>multicodecPubKey.
    if multicodecPubKey \<noteq> [] \<and> multicodecPubKey ! 0 = 0xED then
      bindJ (ed25519Doc U conv (drop 2 multicodecPubKey) parsed_id) (\<lambda>doc.
      if contentType = DID_LD_JSON then
        ret \<lparr> dr_didDocument = Some (doc\<lparr> dd_context := Some [''https://www.w3.org/ns/did/v1'',
            ''https://w3id.org/security/suites/ed25519-2018/v1'', ''https://w3id.org/security/suites/ed25519-2020/v1''] \<rparr>),
          dr_contentType = Some contentType, dr_error = None, dr_message = None \<rparr>
      else if contentType = DID_JSON then
        ret \<lparr> dr_didDocument = Some doc, dr_contentType = Some contentType, dr_error = None, dr_message = None \<rparr>
      else ret \<lparr> dr_didDocument = None, dr_contentType = None, dr_error = Some ''representationNotSupported'', dr_message = None \<rparr>)
    else throw (Error ''unsupported key type''))"

definition key_resolve :: "uint8arrays \<Rightarrow> (bytes \<Rightarrow> bytes js) \<Rightarrow> string \<Rightarrow> string option \<Rightarrow> did_result js" where
  "key_resolve U conv parsed_id accept =
    (let contentType = (case accept of Some a \<Rightarrow> if a = [] then DID_JSON else a | None \<Rightarrow> DID_JSON) in
     catchJ (key_document U conv parsed_id contentType)
       (\<lambda>e. ret \<lparr> dr_didDocument = None, dr_contentType = Some contentType, dr_error = Some ''invalidDid'',
               dr_message = Some (error_text e) \<rparr>))"

end
