(* ===== verification/Credential.thy ===== *)
theory Credential
  imports ClaimsTree Did
begin

text \<open>
  Verifiable credentials: packages/albus-core/src/credential/index.ts, credential/utils.ts
  and utils/date.ts.  The libraries are a record: the Baby Jubjub and XC20P environments,
  dates, \<open>JSON\<close>, the Solana \<open>Keypair\<close>.  \<open>jsonld-signatures\<close>, the DID resolver and the
  random draws of an encryption are arguments.
\<close>

section \<open>Data\<close>

record credential_proof =
  pf_type :: string
  pf_created :: string
  pf_verificationMethod :: "string option"
  pf_proofPurpose :: "string option"
  pf_proofValue :: "string option"
  pf_challenge :: "string option"
  pf_issuerPubkey :: "string list option"
  pf_signature :: "string list option"

record verifiable_credential = w3c_credential +
  vc_expirationDate :: "string option"
  vc_proof :: "credential_proof list option"

record verifiable_presentation =
  vp_context :: "js_value list"
  vp_type :: "string list"
  vp_holder :: "string option"
  vp_verifiableCredential :: "verifiable_credential list option"
  vp_expirationDate :: "string option"
  vp_proof :: "credential_proof list option"

record credential_env =
  ce_eddsa :: eddsa_env
  ce_xc :: xc20p_env
  ce_dates :: date_parser
  ce_iso :: "int \<Rightarrow> string js"
  ce_now :: int
  ce_keypair :: "bytes \<Rightarrow> KeyPair js"
  ce_stringify :: "js_object \<Rightarrow> string js"
  ce_parse :: "string \<Rightarrow> js_object js"

abbreviation "ce_codec C \<equiv> ee_codec (ce_eddsa C)"
abbreviation "ce_pos C \<equiv> ee_pos (ce_eddsa C)"

definition DEFAULT_CONTEXT :: string where "DEFAULT_CONTEXT = ''https://www.w3.org/2018/credentials/v1''"

definition DEFAULT_VP_TYPE :: string where "DEFAULT_VP_TYPE = ''VerifiablePresentation''"

definition AlbusPresentation :: string where "AlbusPresentation = ''AlbusPresentation''"

definition BJJSignature2021 :: string where "BJJSignature2021 = ''BJJSignature2021''"

datatype date_arg = Date_ms int | Date_string string

definition w3cDate :: "credential_env \<Rightarrow> date_arg option \<Rightarrow> string js" where
  "w3cDate C date =
    bindJ (case date of
        None \<Rightarrow> ce_iso C (ce_now C)
      | Some (Date_ms n) \<Rightarrow> ce_iso C n
      | Some (Date_string s) \<Rightarrow> (case ce_dates C s of None \<Rightarrow> throw (RangeError ''Invalid time value'') | Some n \<Rightarrow> ce_iso C n))
      (\<lambda>s. ret (subarray s 0 (- 5) @ ''Z''))"

section \<open>utils.ts\<close>

text \<open>Whatever is not an object becomes a trimmed string; \<open>null\<close> and arrays count as objects.\<close>

fun normalize_value :: "js_value \<Rightarrow> js_value" where
  "normalize_value (JObject kvs) = JObject (map (\<lambda>(key, value). (key, normalize_value value)) kvs)"
| "normalize_value (JArray xs) = JObject (map (\<lambda>(i, value). (to_radix 10 (int i), value)) (zip [0..<length xs] (map normalize_value xs)))"
| "normalize_value JNull = JObject []"
| "normalize_value v = JString (trim (js_text v))"

definition normalizeClaims :: "js_object \<Rightarrow> js_object" where
  "normalizeClaims claims = map (\<lambda>(key, value). (key, normalize_value value)) claims"

definition asArray :: "js_value \<Rightarrow> js_value list" where
  "asArray arg = (case arg of JArray xs \<Rightarrow> xs | _ \<Rightarrow> [arg])"

definition validateContext :: "js_value \<Rightarrow> unit js" where
  "validateContext value = (let input = asArray value in
    if length input < 1 \<or> JString DEFAULT_CONTEXT \<notin> set input
    then throw (TypeError (''@context is missing default context \"'' @ DEFAULT_CONTEXT @ ''\"'')) else ret ())"

definition validateVcType :: "js_value \<Rightarrow> unit js" where
  "validateVcType value = (let input = asArray value in
    if length input < 1 \<or> JString DEFAULT_VC_TYPE \<notin> set input
    then throw (TypeError (''type is missing default \"'' @ DEFAULT_VC_TYPE @ ''\"'')) else ret ())"

definition validateVpType :: "js_value \<Rightarrow> unit js" where
  "validateVpType value = (let input = asArray value in
    if length input < 1 \<or> JString DEFAULT_VP_TYPE \<notin> set input
    then throw (TypeError (''type is missing default \"'' @ DEFAULT_VP_TYPE @ ''\"'')) else ret ())"

definition validateCredentialSubject :: "js_object \<Rightarrow> unit js" where
  "validateCredentialSubject value = (if length value = 0 then throw (TypeError ''credentialSubject must not be empty'') else ret ())"

text \<open>Seconds since 1970, or \<open>None\<close> for a number that is not an integer; and a date text.\<close>

definition validate_seconds :: "int option \<Rightarrow> unit js" where
  "validate_seconds value = (case value of
     Some n \<Rightarrow> if n < 100000000000 then ret () else throw (TypeError (''\"'' @ to_radix 10 n @ ''\" is not a unix timestamp in seconds''))
   | None \<Rightarrow> throw (TypeError ''\"NaN\" is not a unix timestamp in seconds''))"

definition validateTimestamp :: "date_parser \<Rightarrow> string \<Rightarrow> unit js" where
  "validateTimestamp D value = validate_seconds (map_option (\<lambda>ms. ms div 1000) (D value))"

definition validate_given :: "date_parser \<Rightarrow> string option \<Rightarrow> unit js" where
  "validate_given D date = (case present date of Some s \<Rightarrow> validateTimestamp D s | None \<Rightarrow> ret ())"

definition validateCredentialPayload :: "date_parser \<Rightarrow> verifiable_credential \<Rightarrow> unit js" where
  "validateCredentialPayload D payload =
    bindJ (validateContext (JArray (vc_context payload))) (\<lambda>_.
    bindJ (validateVcType (JArray (map JString (vc_type payload)))) (\<lambda>_.
    bindJ (validateCredentialSubject (vc_credentialSubject payload)) (\<lambda>_.
    bindJ (validate_given D (vc_issuanceDate payload)) (\<lambda>_.
    bindJ (validate_given D (vc_expirationDate payload)) (\<lambda>_.
    bindJ (validate_given D (vc_validFrom payload)) (\<lambda>_.
    validate_given D (vc_validUntil payload)))))))"

definition validatePresentationPayload :: "date_parser \<Rightarrow> verifiable_presentation \<Rightarrow> unit js" where
  "validatePresentationPayload D payload =
    bindJ (validateContext (JArray (vp_context payload))) (\<lambda>_.
    bindJ (validateVpType (JArray (map JString (vp_type payload)))) (\<lambda>_.
    bindJ (case vp_verifiableCredential payload of
        None \<Rightarrow> ret ()
      | Some vcs \<Rightarrow> foldJ (\<lambda>_ vc. validateCredentialPayload D vc) () vcs) (\<lambda>_.
    validate_given D (vp_expirationDate payload))))"

section \<open>Proofs\<close>

record proof_opts =
  po_msg :: int
  po_signerSecretKey :: bytes
  po_verificationMethod :: "string option"
  po_controller :: "string option"
  po_purpose :: "string option"
  po_date :: "date_arg option"

definition option_text :: "string option \<Rightarrow> string" where
  "option_text s = (case s of Some x \<Rightarrow> x | None \<Rightarrow> ''undefined'')"

definition createCredentialProof :: "credential_env \<Rightarrow> proof_opts \<Rightarrow> credential_proof js" where
  "createCredentialProof C opts =
    (let E = ce_eddsa C in
     bindJ (ce_keypair C (po_signerSecretKey opts)) (\<lambda>signer.
     bindJ (PrivateKey_public E (kp_secretKey signer)) (\<lambda>signerPubkey.
     bindJ (Eddsa_signPoseidon E (kp_secretKey signer) (po_msg opts)) (\<lambda>signature.
     bindJ (Eddsa_verifyPoseidon E (po_msg opts) signature (coords signerPubkey)) (\<lambda>ok.
     if \<not> ok then throw (Error ''Self check on EdDSA signature failed'')
     else
       bindJ (Signature_compress E signature) (\<lambda>sigBytes.
       bindJ (PublicKey_compress E signerPubkey) (\<lambda>keyBytes.
       let proofValue = MultiBase_encode (ee_codec E) (sigBytes @ keyBytes) 0 in
       if present (po_verificationMethod opts) = None \<and> present (po_controller opts) = None
       then throw (Error ''Either `verificationMethod` or `controller` must be provided'')
       else
         bindJ (w3cDate C (po_date opts)) (\<lambda>created.
         bindJ (case po_verificationMethod opts of
             Some m \<Rightarrow> ret m
           | None \<Rightarrow> bindJ (PublicKey_toBase58 E signerPubkey) (\<lambda>b58. ret (option_text (po_controller opts) @ ''#'' @ b58))) (\<lambda>verificationMethod.
         ret \<lparr> pf_type = BJJSignature2021, pf_created = created, pf_verificationMethod = Some verificationMethod,
           pf_proofPurpose = Some (case po_purpose opts of Some p \<Rightarrow> p | None \<Rightarrow> ''assertionMethod''),
           pf_proofValue = Some proofValue, pf_challenge = None, pf_issuerPubkey = None, pf_signature = None \<rparr>)))))))))"

definition is_base58btc :: "string \<Rightarrow> bool" where
  "is_base58btc s \<longleftrightarrow> s \<noteq> [] \<and> hd s = CHR ''z''"

definition unsupported_multibase :: "'a js" where
  "unsupported_multibase = throw (Error ''Only base58btc multibase encoding is supported.'')"

definition parseCredentialProof :: "credential_env \<Rightarrow> string \<Rightarrow> (int list \<times> int list) js" where
  "parseCredentialProof C proofValue =
    (let E = ce_eddsa C in
     if \<not> is_base58btc proofValue then unsupported_multibase
     else
       bindJ (base58ToBytes (ee_codec E) (drop 1 proofValue)) (\<lambda>bs.
       bindJ (Signature_newFromCompressed E (subarray bs 0 64)) (\<lambda>signature.
       bindJ (PublicKey_newFromCompressed E (subarray bs 64 96)) (\<lambda>issuerPubkey.
       ret (sg_R8 signature @ [sg_S signature], coords issuerPubkey)))))"

definition verifyCredentialProof :: "credential_env \<Rightarrow> int \<Rightarrow> string \<Rightarrow> bytes option \<Rightarrow> bool js" where
  "verifyCredentialProof C msg proof pubKey =
    (let E = ce_eddsa C in
     if \<not> is_base58btc proof then unsupported_multibase
     else
       bindJ (base58ToBytes (ee_codec E) (drop 1 proof)) (\<lambda>signatureBytes.
       bindJ (Signature_newFromCompressed E (subarray signatureBytes 0 64)) (\<lambda>signature.
       bindJ (PublicKey_newFromCompressed E (case pubKey of Some k \<Rightarrow> k | None \<Rightarrow> subarray signatureBytes 64 96)) (\<lambda>p.
       Eddsa_verifyPoseidon E msg signature (coords p)))))"

section \<open>Signing and encrypting credentials\<close>

record sign_opts =
  so_signerSecretKey :: bytes
  so_verificationMethod :: "string option"
  so_controller :: "string option"
  so_purpose :: "string option"
  so_date :: "date_arg option"

definition credential_tree :: "credential_env \<Rightarrow> verifiable_credential \<Rightarrow> claims_tree js" where
  "credential_tree C vc = createCredentialTree (ce_pos C) (ce_codec C) (ce_dates C) (w3c_credential.truncate vc) None"

definition signCredential :: "credential_env \<Rightarrow> verifiable_credential \<Rightarrow> sign_opts \<Rightarrow> verifiable_credential js" where
  "signCredential C vc opts =
    bindJ (credential_tree C vc) (\<lambda>claimsTree.
    bindJ (createCredentialProof C \<lparr> po_msg = ClaimsTree_root claimsTree, po_signerSecretKey = so_signerSecretKey opts,
      po_verificationMethod = so_verificationMethod opts, po_controller = so_controller opts, po_purpose = so_purpose opts,
      po_date = so_date opts \<rparr>) (\<lambda>proof.
    ret (vc\<lparr> vc_proof := Some [proof] \<rparr>)))"

definition encrypted_claim :: "verifiable_credential \<Rightarrow> js_value option" where
  "encrypted_claim vc = (case map_of (vc_credentialSubject vc) ''encrypted'' of Some JUndefined \<Rightarrow> None | r \<Rightarrow> r)"

definition encryptCredential :: "credential_env \<Rightarrow> KeyPair \<times> bytes \<Rightarrow> verifiable_credential \<Rightarrow> bytes \<Rightarrow> bytes option \<Rightarrow> verifiable_credential js" where
  "encryptCredential C random vc pubkey esk =
    (if encrypted_claim vc \<noteq> None then ret vc
     else
       bindJ (ce_stringify C (vc_credentialSubject vc)) (\<lambda>text.
       bindJ (XC20P_encrypt (ce_codec C) (ce_xc C) (fst random) (snd random) text pubkey (map_option Key_bytes esk)) (\<lambda>c.
       ret (vc\<lparr> vc_credentialSubject := [(''encrypted'', JString (c @ ''.'' @ bytesToBase58 (ce_codec C) pubkey))] \<rparr>))))"

text \<open>\<open>String(value)\<close>, with the elements of an array joined by commas.\<close>

fun js_String :: "js_value \<Rightarrow> string" where
  "js_String (JArray []) = ''''"
| "js_String (JArray [x]) = (if x = JUndefined \<or> x = JNull then '''' else js_String x)"
| "js_String (JArray (x # xs)) = (if x = JUndefined \<or> x = JNull then '''' else js_String x) @ '','' @ js_String (JArray xs)"
| "js_String v = js_text v"

definition decryptCredentialIfNeeded :: "credential_env \<Rightarrow> verifiable_credential \<Rightarrow> bytes \<Rightarrow> bytes option \<Rightarrow> verifiable_credential js" where
  "decryptCredentialIfNeeded C vc secretKey epk =
    (case encrypted_claim vc of
       Some e \<Rightarrow>
         bindJ (XC20P_decrypt (ce_codec C) (ce_xc C) (js_split (CHR ''.'') (js_String e) ! 0) (Key_bytes secretKey) epk) (\<lambda>text.
         bindJ (ce_parse C text) (\<lambda>credentialSubject. ret (vc\<lparr> vc_credentialSubject := credentialSubject \<rparr>)))
     | None \<Rightarrow> ret vc)"

section \<open>Creating credentials\<close>

record create_opts =
  co_issuerDid :: "string option"
  co_issuerSecretKey :: "bytes option"
  co_verificationMethod :: "string option"
  co_encrypt :: bool
  co_encryptionKey :: "bytes option"
  co_encryptionSecretKey :: "bytes option"
  co_validFrom :: "int option"
  co_validUntil :: "int option"
  co_timestamp :: "int option"
  co_credentialType :: "string option"
  co_context :: "js_value list"

text \<open>A number that is given and not 0, in milliseconds, as an optional date text.\<close>

definition timestamp_date :: "int option \<Rightarrow> date_arg option" where
  "timestamp_date t = (case t of Some n \<Rightarrow> if n = 0 then None else Some (Date_ms (n * 1000)) | None \<Rightarrow> None)"

definition optional_date :: "credential_env \<Rightarrow> int option \<Rightarrow> string option js" where
  "optional_date C t = (case timestamp_date t of Some d \<Rightarrow> bindJ (w3cDate C (Some d)) (\<lambda>s. ret (Some s)) | None \<Rightarrow> ret None)"

definition createVerifiableCredential :: "credential_env \<Rightarrow> KeyPair \<times> bytes \<Rightarrow> js_object \<Rightarrow> create_opts \<Rightarrow> verifiable_credential js" where
  "createVerifiableCredential C random claims opts =
    (let normalizedClaims = normalizeClaims claims in
     bindJ (w3cDate C (timestamp_date (co_timestamp opts))) (\<lambda>issuanceDate.
     bindJ (optional_date C (co_validFrom opts)) (\<lambda>validFrom.
     bindJ (optional_date C (co_validUntil opts)) (\<lambda>validUntil.
     let vc = \<lparr> vc_context = [JString DEFAULT_CONTEXT, JObject [(''@vocab'', JString ''https://schema.org/'')]] @ co_context opts,
           vc_type = [DEFAULT_VC_TYPE, AlbusCredential] @ (case present (co_credentialType opts) of Some t \<Rightarrow> [t] | None \<Rightarrow> []),
           vc_issuer = (case co_issuerDid opts of Some d \<Rightarrow> Issuer_string d | None \<Rightarrow> Issuer_undefined),
           vc_issuanceDate = Some issuanceDate, vc_validFrom = validFrom, vc_validUntil = validUntil,
           vc_credentialSubject = normalizedClaims, vc_expirationDate = None, vc_proof = None \<rparr> in
     bindJ (case co_issuerSecretKey opts of
         Some k \<Rightarrow> signCredential C vc \<lparr> so_signerSecretKey = k, so_verificationMethod = co_verificationMethod opts,
           so_controller = Some (option_text (co_issuerDid opts)), so_purpose = None, so_date = None \<rparr>
       | None \<Rightarrow> ret vc) (\<lambda>vc.
     if co_encrypt opts then
       (case co_encryptionKey opts of
         None \<Rightarrow> throw (Error ''encryption key is required'')
       | Some k \<Rightarrow> encryptCredential C random vc k (co_encryptionSecretKey opts))
     else ret vc)))))"

section \<open>Presentations\<close>

text \<open>What \<open>jsonld-signatures\<close> is given for a signature: controller, keys and challenge.\<close>

record signature_suite =
  su_controller :: string
  su_publicKeyMultibase :: string
  su_privateKeyMultibase :: string
  su_challenge :: string

type_synonym jsigs_sign = "verifiable_presentation \<Rightarrow> signature_suite \<Rightarrow> verifiable_presentation js"

definition signPresentation :: "credential_env \<Rightarrow> jsigs_sign \<Rightarrow> verifiable_presentation \<Rightarrow> string \<Rightarrow> string \<Rightarrow> bytes \<Rightarrow> verifiable_presentation js" where
  "signPresentation C jsigs vp controller challenge signerSecretKey =
    bindJ (ce_keypair C signerSecretKey) (\<lambda>signer.
    jsigs vp \<lparr> su_controller = controller,
      su_publicKeyMultibase = MultiBase_encode (ce_codec C) (kp_publicKey signer) (ed25519Pub MultiBase_codec),
      su_privateKeyMultibase = MultiBase_encode (ce_codec C) (kp_secretKey signer) (ed25519Priv MultiBase_codec),
      su_challenge = challenge \<rparr>)"

text \<open>\<open>[].concat(x)\<close> of an absent value has one absent element, whose fields cannot be read.\<close>

definition given_credentials :: "verifiable_presentation \<Rightarrow> verifiable_credential option list" where
  "given_credentials vp = (case vp_verifiableCredential vp of Some vcs \<Rightarrow> map Some vcs | None \<Rightarrow> [None])"

definition read_undefined :: "'a js" where
  "read_undefined = throw (TypeError ''Cannot read properties of undefined'')"

definition encryptPresentation :: "credential_env \<Rightarrow> (nat \<Rightarrow> KeyPair \<times> bytes) \<Rightarrow> verifiable_presentation \<Rightarrow> bytes \<Rightarrow> bytes option \<Rightarrow> verifiable_presentation js" where
  "encryptPresentation C random vp pubkey esk =
    (let vcs = given_credentials vp in
     bindJ (mapJ (\<lambda>(i, vc). case vc of
         Some vc \<Rightarrow> encryptCredential C (random i) vc pubkey esk
       | None \<Rightarrow> read_undefined) (zip [0..<length vcs] vcs)) (\<lambda>verifiableCredential.
     ret (vp\<lparr> vp_verifiableCredential := Some verifiableCredential \<rparr>)))"

text \<open>The loop pushes what it can decrypt; an error is passed on or the credential dropped.\<close>

definition decrypt_step :: "credential_env \<Rightarrow> bytes option \<Rightarrow> bool \<Rightarrow> bytes option \<Rightarrow> verifiable_credential list \<Rightarrow> verifiable_credential option \<Rightarrow> verifiable_credential list js" where
  "decrypt_step C decryptionKey throwOnError epk acc vc =
    catchJ (bindJ (case decryptionKey of None \<Rightarrow> throw (TypeError ''undefined is not iterable'') | Some k \<Rightarrow> ret k) (\<lambda>k.
        bindJ (case vc of None \<Rightarrow> read_undefined | Some c \<Rightarrow> decryptCredentialIfNeeded C c k epk) (\<lambda>d. ret (acc @ [d]))))
      (\<lambda>e. if throwOnError then throw e else ret acc)"

definition decryptPresentation :: "credential_env \<Rightarrow> verifiable_presentation \<Rightarrow> bytes option \<Rightarrow> bool \<Rightarrow> bytes option \<Rightarrow> verifiable_presentation js" where
  "decryptPresentation C vp decryptionKey throwOnError epk =
    bindJ (foldJ (decrypt_step C decryptionKey throwOnError epk) [] (given_credentials vp)) (\<lambda>verifiableCredential.
    ret (vp\<lparr> vp_verifiableCredential := Some verifiableCredential \<rparr>))"

record presentation_opts =
  pr_holderSecretKey :: bytes
  pr_credentials :: "verifiable_credential list"
  pr_holderDid :: "string option"
  pr_encrypt :: bool
  pr_encryptionKey :: "bytes option"
  pr_encryptionSecretKey :: "bytes option"
  pr_challenge :: "string option"
  pr_type :: "string list"

definition createVerifiablePresentation :: "credential_env \<Rightarrow> jsigs_sign \<Rightarrow> (nat \<Rightarrow> KeyPair \<times> bytes) \<Rightarrow> presentation_opts \<Rightarrow> verifiable_presentation js" where
  "createVerifiablePresentation C jsigs random opts =
    bindJ (ce_keypair C (pr_holderSecretKey opts)) (\<lambda>holderKeypair.
    let holderDid = (case pr_holderDid opts of Some d \<Rightarrow> d | None \<Rightarrow> encodeDidKey (ce_codec C) (kp_publicKey holderKeypair)) in
    if length (pr_credentials opts) = 0 then throw (Error ''no credentials provided'')
    else
      let vp = \<lparr> vp_context = [JString DEFAULT_CONTEXT, JObject [(''AlbusPresentation'', JString ''albus:AlbusPresentation'')]],
            vp_type = [DEFAULT_VP_TYPE, AlbusPresentation] @ pr_type opts,
            vp_holder = Some holderDid, vp_verifiableCredential = Some (pr_credentials opts),
            vp_expirationDate = None, vp_proof = None \<rparr>;
          challenge = (case pr_challenge opts of Some c \<Rightarrow> c | None \<Rightarrow> bytesToBase58 (ce_codec C) (kp_publicKey holderKeypair)) in
      bindJ (signPresentation C jsigs vp holderDid challenge (pr_holderSecretKey opts)) (\<lambda>vp.
      if pr_encrypt opts then
        (case pr_encryptionKey opts of
          None \<Rightarrow> throw (Error ''encryption key is required'')
        | Some k \<Rightarrow> encryptPresentation C random vp k (pr_encryptionSecretKey opts))
      else ret vp))"

definition verifyPresentation :: "credential_env \<Rightarrow> (verifiable_presentation \<Rightarrow> string option \<Rightarrow> 'r js) \<Rightarrow> verifiable_presentation \<Rightarrow> string option \<Rightarrow> 'r js" where
  "verifyPresentation C jsigs vp challenge =
    bindJ (validatePresentationPayload (ce_dates C) vp) (\<lambda>_.
    bindJ (case present challenge of
        Some c \<Rightarrow> ret (Some c)
      | None \<Rightarrow> (case vp_proof vp of Some (p # _) \<Rightarrow> ret (pf_challenge p) | _ \<Rightarrow> read_undefined)) (\<lambda>challenge.
    jsigs vp challenge))"

section \<open>Verifying credentials\<close>

definition issuer_did :: "vc_issuer \<Rightarrow> vc_issuer" where
  "issuer_did i = (case i of Issuer_object (Some s) \<Rightarrow> Issuer_string s | _ \<Rightarrow> i)"

text \<open>The last Baby Jubjub key among the verification methods.\<close>

definition find_issuer_key :: "uint8arrays \<Rightarrow> verification_method list \<Rightarrow> bytes option js" where
  "find_issuer_key U vms = foldJ (\<lambda>issuerPubkey vm.
     if vm_type vm = BJJVerificationKey2021
     then (case present (vm_publicKeyBase58 vm) of
         Some b58 \<Rightarrow> bindJ (base58ToBytes U b58) (\<lambda>b. ret (Some b))
       | None \<Rightarrow> ret issuerPubkey)
     else ret issuerPubkey) None vms"

definition resolved_methods :: "did_result \<Rightarrow> verification_method list js" where
  "resolved_methods result =
    (case dr_error result of
      Some e \<Rightarrow> throw (Error (e @ ''. '' @ option_text (dr_message result)))
    | None \<Rightarrow> (case Option.bind (dr_didDocument result) dd_verificationMethod of
        None \<Rightarrow> throw (Error ''Invalid issuer, no verification methods found'')
      | Some vms \<Rightarrow> ret vms))"

text \<open>The object that \<open>find\<close> returns is part of the credential and is changed in place.\<close>

fun update_first :: "('a \<Rightarrow> bool) \<Rightarrow> ('a \<Rightarrow> 'a) \<Rightarrow> 'a list \<Rightarrow> 'a list" where
  "update_first P f [] = []"
| "update_first P f (x # xs) = (if P x then f x # xs else x # update_first P f xs)"

definition is_bjj :: "credential_proof \<Rightarrow> bool" where "is_bjj p \<longleftrightarrow> pf_type p = BJJSignature2021"

definition verifyCredential :: "credential_env \<Rightarrow> (vc_issuer \<Rightarrow> did_result js) \<Rightarrow> verifiable_credential \<Rightarrow> bytes option \<Rightarrow> verifiable_credential js" where
  "verifyCredential C resolve vc decryptionKey =
    (let E = ce_eddsa C in
     bindJ (validateCredentialPayload (ce_dates C) vc) (\<lambda>_.
     bindJ (decryptCredentialIfNeeded C vc (case decryptionKey of Some k \<Rightarrow> k | None \<Rightarrow> []) None) (\<lambda>cred.
     bindJ (resolve (issuer_did (vc_issuer cred))) (\<lambda>result.
     bindJ (resolved_methods result) (\<lambda>vms.
     bindJ (find_issuer_key (ee_codec E) vms) (\<lambda>issuerPubkey. case issuerPubkey of
       None \<Rightarrow> throw (Error ''Unable to find `BJJVerificationKey2021` verification key'')
     | Some issuerPubkey \<Rightarrow>
       (case vc_proof cred of
         None \<Rightarrow> read_undefined
       | Some proofs \<Rightarrow>
         (case find is_bjj proofs of
           None \<Rightarrow> throw (Error ''Invalid credential proof, only `BJJSignature2021` is supported'')
         | Some proof \<Rightarrow>
           (case pf_proofValue proof of
             None \<Rightarrow> read_undefined
           | Some proofValue \<Rightarrow>
             if \<not> is_base58btc proofValue then unsupported_multibase
             else
               bindJ (base58ToBytes (ee_codec E) (drop 1 proofValue)) (\<lambda>signatureBytes.
               bindJ (Signature_newFromCompressed E (subarray signatureBytes 0 64)) (\<lambda>signature.
               bindJ (PublicKey_newFromCompressed E issuerPubkey) (\<lambda>pubKey.
               bindJ (credential_tree C cred) (\<lambda>claimsTree.
               bindJ (Eddsa_verifyPoseidon E (ClaimsTree_root claimsTree) signature (coords pubKey)) (\<lambda>ok.
               if \<not> ok then throw (Error ''Proof verification failed'')
               else ret (cred\<lparr> vc_proof := Some (update_first is_bjj (\<lambda>p.
                 p\<lparr> pf_issuerPubkey := Some (map (to_radix 10) (coords pubKey)),
                    pf_signature := Some (map (to_radix 10) (sg_R8 signature @ [sg_S signature])) \<rparr>) proofs) \<rparr>)))))))))))))))"

end
