(* ===== verification/CredentialCorrect.thy ===== *)
theory CredentialCorrect
  imports Credential
begin

text \<open>
  Correctness of credentials: a created proof verifies, a signed credential is accepted
  with the issuer's key, and encryption does not change that.  A compressed point with
  \<open>x = 0\<close> is rejected when it is read, so each statement gives that case its error.  A
  locale \<open>text_box\<close> states what credentials use of the encryption.
\<close>

text \<open>A bigint that is not negative is read back from the bytes it is written in.\<close>

lemma bigint_bytes:
  assumes "codec_ok U" "0 \<le> n"
  obtains bs where "bigintToBytes U n 0 = ret bs" "bytesToBigInt U bs = ret n"
proof -
  define k where "k = (length (radix_digits 16 (nat n)) + 1) div 2"
  have bs: "bigintToBytes U n 0 = ret (be_bytes k n)" using bigintToBytes_be_bytes [OF assms, of 0] by (simp add: k_def)
  have "0 < length (radix_digits 16 (nat n))" by simp
  then have "0 < k" unfolding k_def by linarith
  then have "be_bytes k n \<noteq> []" by (metis length_be_bytes length_greater_0_conv)
  moreover have "be_val (be_bytes k n) = n" using bigintToBytes_fits [OF assms(2), of 0] assms(2) by (simp add: be_val_be_bytes k_def)
  ultimately show thesis using that bs bytesToBigInt_be_val [OF assms(1)] by metis
qed

section \<open>Signatures and keys in their bytes\<close>

definition credential_ok :: "credential_env \<Rightarrow> bool" where
  "credential_ok C \<longleftrightarrow> eddsa_ok (ce_eddsa C) \<and> bj_codec_ok (ee_bj (ce_eddsa C)) \<and> codec_ok (ce_codec C) \<and>
     subOrder (ee_bj (ce_eddsa C)) \<le> 2 ^ 256"

lemma credential_okD:
  assumes "credential_ok C"
  shows "eddsa_ok (ce_eddsa C)" "bj_codec_ok (ee_bj (ce_eddsa C))" "codec_ok (ce_codec C)" "subOrder (ee_bj (ce_eddsa C)) \<le> 256 ^ 32"
    "bj_ok (ee_bj (ce_eddsa C))" "bj_pt (ee_bj (ce_eddsa C)) (Base8 (ee_bj (ce_eddsa C)))"
  using assms by (simp_all add: credential_ok_def eddsa_ok_def)

definition read_signature :: "signature \<Rightarrow> signature js" where
  "read_signature sig = (if sg_R8 sig ! 0 = 0 then throw (Error ''unpackSignature failed'') else ret sig)"

definition read_key :: "int \<times> int \<Rightarrow> (int \<times> int) js" where
  "read_key A = (if fst A = 0 then throw (Error ''unpackPoint failed'') else ret A)"

lemma compressed_signature:
  assumes B: "bj_codec_ok (ee_bj E)" and P: "bj_pt (ee_bj E) P" and S: "0 \<le> S" "S < 256 ^ 32"
  shows "\<exists>b. Signature_compress E \<lparr> sg_R8 = coords P, sg_S = S \<rparr> = ret b \<and> length b = 64 \<and>
    Signature_newFromCompressed E b = read_signature \<lparr> sg_R8 = coords P, sg_S = S \<rparr>"
proof -
  obtain p where p: "packPoint (ee_bj E) P = ret p" "length p = 32"
    "unpackPoint (ee_bj E) p = ret (if fst P = 0 then None else Some P, le_bytes 32 (snd P))"
    using unpack_pack [OF B P] packPoint_bytes [OF B P] by blast
  let ?b = "p @ le_bytes 32 S"
  have "Signature_compress E \<lparr> sg_R8 = coords P, sg_S = S \<rparr> = ret ?b"
    using p S by (simp add: Signature_compress_def packSignature_def typed_set_def toRprLE_words put_bytes_def)
  moreover have "Scalar_fromRprLE ?b 32 32 = ret S"
    using p S by (simp add: fromRprLE_words le_val_le_bytes)
  then have "Signature_newFromCompressed E ?b = read_signature \<lparr> sg_R8 = coords P, sg_S = S \<rparr>"
    using p by (simp add: Signature_newFromCompressed_def unpackSignature_def read_signature_def) (simp add: coords_def)
  ultimately show ?thesis using p by simp
qed

lemma compressed_key:
  assumes B: "bj_codec_ok (ee_bj E)" and P: "bj_pt (ee_bj E) P"
  shows "\<exists>b. PublicKey_compress E P = ret b \<and> length b = 32 \<and> PublicKey_newFromCompressed E b = read_key P"
  using unpack_pack [OF B P] packPoint_bytes [OF B P]
  by (auto simp: PublicKey_compress_def PublicKey_newFromCompressed_def read_key_def)

text \<open>A signature by a private key, its bytes, and the key's bytes.\<close>

lemma signature_parts:
  assumes C: "credential_ok C" and b: "8 * length prv < 2 ^ 128" and msg: "0 \<le> msg" "msg < 2 ^ 256"
  obtains sig A sb kb where "Eddsa_signPoseidon (ce_eddsa C) prv msg = ret sig" "prv2pub (ce_eddsa C) prv = ret A"
    "Eddsa_verifyPoseidon (ce_eddsa C) msg sig (coords A) = ret True"
    "Signature_compress (ce_eddsa C) sig = ret sb" "length sb = 64" "Signature_newFromCompressed (ce_eddsa C) sb = read_signature sig"
    "PublicKey_compress (ce_eddsa C) A = ret kb" "length kb = 32" "PublicKey_newFromCompressed (ce_eddsa C) kb = read_key A"
proof -
  let ?E = "ce_eddsa C" let ?B = "ee_bj ?E"
  note ok = credential_okD [OF C]
  have m: "msg < 256 ^ 32" using msg(2) by simp
  obtain r hm where r: "0 \<le> hm" "Eddsa_signPoseidon ?E prv msg = ret \<lparr> sg_R8 = coords (bj.times ?B (nat r) (Base8 ?B)),
      sg_S = (r + hm * secret_scalar prv) mod subOrder ?B \<rparr>"
    using sign_result [OF ok(1) b msg(1) m] by metis
  let ?R = "bj.times ?B (nat r) (Base8 ?B)" and ?S = "(r + hm * secret_scalar prv) mod subOrder ?B"
  have l: "0 < subOrder ?B" using ok(1) prime_modulus_gt_1 [of "subOrder ?B"] by (simp add: eddsa_ok_def)
  have S: "0 \<le> ?S" "?S < 256 ^ 32" using l ok(4) by (simp, meson order_less_le_trans pos_mod_bound)
  have A: "prv2pub ?E prv = ret (bj.times ?B (nat (secret_scalar prv div 8)) (Base8 ?B))" by (rule prv2pub_times [OF ok(5,6) b])
  obtain sb where "Signature_compress ?E \<lparr> sg_R8 = coords ?R, sg_S = ?S \<rparr> = ret sb" "length sb = 64"
    "Signature_newFromCompressed ?E sb = read_signature \<lparr> sg_R8 = coords ?R, sg_S = ?S \<rparr>"
    using compressed_signature [OF ok(2) bj.times_pt [OF ok(5,6)] S] by blast
  moreover obtain kb where "PublicKey_compress ?E (bj.times ?B (nat (secret_scalar prv div 8)) (Base8 ?B)) = ret kb" "length kb = 32"
    "PublicKey_newFromCompressed ?E kb = read_key (bj.times ?B (nat (secret_scalar prv div 8)) (Base8 ?B))"
    using compressed_key [OF ok(2) bj.times_pt [OF ok(5,6)]] by blast
  moreover have "Eddsa_verifyPoseidon ?E msg \<lparr> sg_R8 = coords ?R, sg_S = ?S \<rparr> (coords (bj.times ?B (nat (secret_scalar prv div 8)) (Base8 ?B))) = ret True"
    using sign_verifies [OF ok(1) b msg(1) m] r(2) A by simp
  ultimately show ?thesis using that r(2) A by blast
qed

section \<open>A created proof verifies\<close>

definition signable :: "credential_env \<Rightarrow> bytes \<Rightarrow> string option \<Rightarrow> string option \<Rightarrow> bool" where
  "signable C sk method controller \<longleftrightarrow> (\<exists>kp. ce_keypair C sk = ret kp \<and> 8 * length (kp_secretKey kp) < 2 ^ 128) \<and>
     \<not> (present method = None \<and> present controller = None)"

definition proof_value :: "credential_env \<Rightarrow> bytes \<Rightarrow> bytes \<Rightarrow> string" where
  "proof_value C sb kb = MultiBase_encode (ce_codec C) (sb @ kb) 0"

lemma proof_value_parts:
  assumes "codec_ok (ce_codec C)" "length sb = 64" "length kb = 32"
  shows "is_base58btc (proof_value C sb kb)" "base58ToBytes (ce_codec C) (drop 1 (proof_value C sb kb)) = ret (sb @ kb)"
    "subarray (sb @ kb) 0 64 = sb" "subarray (sb @ kb) 64 96 = kb"
  using assms by (simp_all add: proof_value_def is_base58btc_def MultiBase_encode_def MULTIBASE_base58btc_def base58ToBytes_def
    bytesToBase58_def codec_ok_def subarray_def rel_index_def)

lemma createCredentialProof_parts:
  assumes C: "credential_ok C" and s: "signable C (po_signerSecretKey opts) (po_verificationMethod opts) (po_controller opts)"
    and d: "w3cDate C (po_date opts) = ret date" and msg: "0 \<le> po_msg opts" "po_msg opts < 2 ^ 256"
  obtains kp sig A sb kb p where "ce_keypair C (po_signerSecretKey opts) = ret kp"
    "Eddsa_signPoseidon (ce_eddsa C) (kp_secretKey kp) (po_msg opts) = ret sig" "prv2pub (ce_eddsa C) (kp_secretKey kp) = ret A"
    "Eddsa_verifyPoseidon (ce_eddsa C) (po_msg opts) sig (coords A) = ret True"
    "length sb = 64" "Signature_newFromCompressed (ce_eddsa C) sb = read_signature sig"
    "PublicKey_compress (ce_eddsa C) A = ret kb" "length kb = 32" "PublicKey_newFromCompressed (ce_eddsa C) kb = read_key A"
    "createCredentialProof C opts = ret p" "pf_proofValue p = Some (proof_value C sb kb)" "pf_type p = BJJSignature2021"
    "pf_created p = date"
proof -
  obtain kp where kp: "ce_keypair C (po_signerSecretKey opts) = ret kp" "8 * length (kp_secretKey kp) < 2 ^ 128"
    and c: "\<not> (present (po_verificationMethod opts) = None \<and> present (po_controller opts) = None)"
    using s by (auto simp: signable_def)
  obtain sig A sb kb where p: "Eddsa_signPoseidon (ce_eddsa C) (kp_secretKey kp) (po_msg opts) = ret sig" "prv2pub (ce_eddsa C) (kp_secretKey kp) = ret A"
    "Eddsa_verifyPoseidon (ce_eddsa C) (po_msg opts) sig (coords A) = ret True"
    "Signature_compress (ce_eddsa C) sig = ret sb" "length sb = 64" "Signature_newFromCompressed (ce_eddsa C) sb = read_signature sig"
    "PublicKey_compress (ce_eddsa C) A = ret kb" "length kb = 32" "PublicKey_newFromCompressed (ce_eddsa C) kb = read_key A"
    using signature_parts [OF C kp(2) msg] by metis
  obtain m where m: "(case po_verificationMethod opts of Some m \<Rightarrow> ret m
      | None \<Rightarrow> bindJ (PublicKey_toBase58 (ce_eddsa C) A) (\<lambda>b58. ret (option_text (po_controller opts) @ ''#'' @ b58))) = ret m"
    by (cases "po_verificationMethod opts") (simp_all add: PublicKey_toBase58_def p)
  define q where "q = \<lparr> pf_type = BJJSignature2021, pf_created = date, pf_verificationMethod = Some m,
           pf_proofPurpose = Some (case po_purpose opts of Some p \<Rightarrow> p | None \<Rightarrow> ''assertionMethod''),
           pf_proofValue = Some (proof_value C sb kb), pf_challenge = None, pf_issuerPubkey = None, pf_signature = None \<rparr>"
  have "createCredentialProof C opts = ret q"
    unfolding createCredentialProof_def Let_def using c
    by (simp add: kp p m d PrivateKey_public_def q_def proof_value_def)
  moreover have "pf_proofValue q = Some (proof_value C sb kb)" "pf_type q = BJJSignature2021" "pf_created q = date"
    by (simp_all add: q_def)
  ultimately show ?thesis using that kp(1) p by blast
qed

text \<open>What verification returns once a signature and a key have been read.\<close>

definition after_reading :: "signature \<Rightarrow> int \<times> int \<Rightarrow> 'a \<Rightarrow> 'a js" where
  "after_reading sig A x = bindJ (read_signature sig) (\<lambda>_. bindJ (read_key A) (\<lambda>_. ret x))"

lemma bind_read: "(\<And>s a. s = sig \<Longrightarrow> a = A \<Longrightarrow> f s a = ret x) \<Longrightarrow>
  bindJ (read_signature sig) (\<lambda>s. bindJ (read_key A) (f s)) = after_reading sig A x"
  by (simp add: after_reading_def read_signature_def read_key_def)

section \<open>Encrypted subjects\<close>

text \<open>What credentials rely on: a text is sealed without dots, and can be opened again.\<close>

locale text_box =
  fixes ready :: "'c \<Rightarrow> string \<Rightarrow> bool" and seal :: "'c \<Rightarrow> string \<Rightarrow> string js" and unseal :: "'c \<Rightarrow> string \<Rightarrow> string js"
  assumes unseal_seal: "ready c m \<Longrightarrow> \<exists>t. seal c m = ret t \<and> CHR ''.'' \<notin> set t \<and> unseal c t = ret m"
begin

lemma split_labelled: "CHR ''.'' \<notin> set t \<Longrightarrow> js_split (CHR ''.'') (t @ ''.'' @ label) ! 0 = t"
proof (induction t)
  case (Cons x t)
  obtain w ws where "js_split (CHR ''.'') (t @ ''.'' @ label) = w # ws"
    by (cases "js_split (CHR ''.'') (t @ ''.'' @ label)") (cases t; auto split: list.splits if_splits)+
  then show ?case using Cons by auto
qed simp

lemma labelled_roundtrip:
  "ready c m \<Longrightarrow> \<exists>t. seal c m = ret t \<and> unseal c (js_split (CHR ''.'') (t @ ''.'' @ label) ! 0) = ret m"
  using unseal_seal [of c m] split_labelled by metis

end

record seal_context =
  sc_codec :: uint8arrays
  sc_xc :: xc20p_env
  sc_random :: "KeyPair \<times> bytes"
  sc_secretKey :: bytes
  sc_esk :: "bytes option"

definition dotless :: "uint8arrays \<Rightarrow> bool" where
  "dotless U \<longleftrightarrow> (\<forall>b. CHR ''.'' \<notin> set (u_toString U Base64pad b))"

definition seal_ready :: "seal_context \<Rightarrow> string \<Rightarrow> bool" where
  "seal_ready s m \<longleftrightarrow> xc20p_ok (sc_codec s) (sc_xc s) \<and> codec_ok (sc_codec s) \<and> dotless (sc_codec s) \<and>
     ed25519_pair (sc_xc s) (sc_secretKey s) \<and>
     ephemeral (sc_codec s) (sc_xc s) (fst (sc_random s)) (map_option Key_bytes (sc_esk s)) \<and>
     length (snd (sc_random s)) = NONCE_LENGTH (sc_xc s) \<and> utf8_text (sc_codec s) m"

definition seal_text :: "seal_context \<Rightarrow> string \<Rightarrow> string js" where
  "seal_text s m = XC20P_encrypt (sc_codec s) (sc_xc s) (fst (sc_random s)) (snd (sc_random s)) m (drop 32 (sc_secretKey s))
     (map_option Key_bytes (sc_esk s))"

definition unseal_text :: "seal_context \<Rightarrow> string \<Rightarrow> string js" where
  "unseal_text s t = XC20P_decrypt (sc_codec s) (sc_xc s) t (Key_bytes (sc_secretKey s)) None"

interpretation xc: text_box seal_ready seal_text unseal_text
proof
  fix s m
  assume r: "seal_ready s m"
  then obtain c where "seal_text s m = ret (u_toString (sc_codec s) Base64pad c)" "unseal_text s (u_toString (sc_codec s) Base64pad c) = ret m"
    using text_roundtrip [of "sc_codec s" "sc_xc s" "sc_secretKey s"] unfolding seal_ready_def seal_text_def unseal_text_def by blast
  then show "\<exists>t. seal_text s m = ret t \<and> CHR ''.'' \<notin> set t \<and> unseal_text s t = ret m"
    using r by (intro exI [of _ "u_toString (sc_codec s) Base64pad c"]) (simp add: seal_ready_def dotless_def)
qed

text \<open>A subject that survives \<open>JSON\<close> and that the holder of \<open>sk\<close> can decrypt.\<close>

definition json_ok :: "credential_env \<Rightarrow> js_object \<Rightarrow> string \<Rightarrow> bool" where
  "json_ok C subject text \<longleftrightarrow> ce_stringify C subject = ret text \<and> ce_parse C text = ret subject"

definition subject_context :: "credential_env \<Rightarrow> KeyPair \<times> bytes \<Rightarrow> bytes \<Rightarrow> bytes option \<Rightarrow> seal_context" where
  "subject_context C random sk esk =
    \<lparr> sc_codec = ce_codec C, sc_xc = ce_xc C, sc_random = random, sc_secretKey = sk, sc_esk = esk \<rparr>"

lemma credential_decrypts:
  assumes r: "seal_ready (subject_context C random sk esk) text" and j: "json_ok C (vc_credentialSubject vc) text"
    and e: "encrypted_claim vc = None"
  shows "\<exists>t. encryptCredential C random vc (drop 32 sk) esk = ret (vc\<lparr> vc_credentialSubject := [(''encrypted'', JString t)] \<rparr>) \<and>
    decryptCredentialIfNeeded C (vc\<lparr> vc_credentialSubject := [(''encrypted'', JString t)] \<rparr>) sk None = ret vc"
proof -
  let ?s = "subject_context C random sk esk" and ?l = "bytesToBase58 (ce_codec C) (drop 32 sk)"
  obtain t where t: "seal_text ?s text = ret t" "unseal_text ?s (js_split (CHR ''.'') (t @ ''.'' @ ?l) ! 0) = ret text"
    using xc.labelled_roundtrip [OF r] by blast
  let ?e = "t @ ''.'' @ ?l"
  have "encryptCredential C random vc (drop 32 sk) esk = ret (vc\<lparr> vc_credentialSubject := [(''encrypted'', JString ?e)] \<rparr>)"
    using t(1) j e by (simp add: encryptCredential_def json_ok_def seal_text_def subject_context_def)
  moreover have "encrypted_claim (vc\<lparr> vc_credentialSubject := [(''encrypted'', JString ?e)] \<rparr>) = Some (JString ?e)"
    by (simp add: encrypted_claim_def)
  then have "decryptCredentialIfNeeded C (vc\<lparr> vc_credentialSubject := [(''encrypted'', JString ?e)] \<rparr>) sk None = ret vc"
    using t(2) j by (simp add: decryptCredentialIfNeeded_def json_ok_def unseal_text_def subject_context_def)
  ultimately show ?thesis by blast
qed

section \<open>A signed credential is accepted\<close>

text \<open>What the issuer's DID has to give: a document whose last Baby Jubjub key is this one.\<close>

definition resolves_to :: "credential_env \<Rightarrow> (vc_issuer \<Rightarrow> did_result js) \<Rightarrow> vc_issuer \<Rightarrow> int \<times> int \<Rightarrow> bool" where
  "resolves_to C resolve issuer A \<longleftrightarrow> (\<exists>r vms kb. resolve (issuer_did issuer) = ret r \<and> resolved_methods r = ret vms \<and>
     find_issuer_key (ce_codec C) vms = ret (Some kb) \<and> PublicKey_compress (ce_eddsa C) A = ret kb)"

definition verified :: "verifiable_credential \<Rightarrow> signature \<Rightarrow> int \<times> int \<Rightarrow> verifiable_credential" where
  "verified vc sig A = vc\<lparr> vc_proof := map_option (update_first is_bjj (\<lambda>p.
     p\<lparr> pf_issuerPubkey := Some (map (to_radix 10) (coords A)),
        pf_signature := Some (map (to_radix 10) (sg_R8 sig @ [sg_S sig])) \<rparr>)) (vc_proof vc) \<rparr>"

lemma verifyCredential_decrypted:
  assumes C: "credential_ok C" and v: "validateCredentialPayload (ce_dates C) w = ret ()"
    and d: "decryptCredentialIfNeeded C w (case dk of Some k \<Rightarrow> k | None \<Rightarrow> []) None = ret (vc\<lparr> vc_proof := Some [p] \<rparr>)"
    and r: "resolves_to C resolve (vc_issuer vc) A" and T: "credential_tree C vc = ret T"
    and sig: "Eddsa_verifyPoseidon (ce_eddsa C) (ClaimsTree_root T) sig (coords A) = ret True"
    and b: "length sb = 64" "Signature_newFromCompressed (ce_eddsa C) sb = read_signature sig"
      "PublicKey_compress (ce_eddsa C) A = ret kb" "length kb = 32" "PublicKey_newFromCompressed (ce_eddsa C) kb = read_key A"
    and p: "pf_proofValue p = Some (proof_value C sb kb)" "pf_type p = BJJSignature2021"
  shows "verifyCredential C resolve w dk = after_reading sig A (verified (vc\<lparr> vc_proof := Some [p] \<rparr>) sig A)"
proof -
  let ?c = "vc\<lparr> vc_proof := Some [p] \<rparr>"
  note pv = proof_value_parts [OF credential_okD(3) [OF C] b(1,4)]
  obtain res vms where res: "resolve (issuer_did (vc_issuer vc)) = ret res" "resolved_methods res = ret vms"
    "find_issuer_key (ce_codec C) vms = ret (Some kb)"
    using r b(3) unfolding resolves_to_def by auto
  have T': "credential_tree C ?c = ret T" using T by (simp add: credential_tree_def w3c_credential.truncate_def)
  show ?thesis
    unfolding verifyCredential_def Let_def
    by (simp add: v d res p pv b is_bjj_def T' cong: if_cong del: One_nat_def)
      (rule bind_read, simp add: sig verified_def is_bjj_def p(2))
qed

section \<open>Documents give the issuer's key\<close>

lemma issuer_key_found:
  assumes "codec_ok U" "kb \<noteq> []" "\<And>bs. bs \<noteq> [] \<Longrightarrow> u_toString U Base58btc bs \<noteq> []"
  shows "find_issuer_key U (key_methods controller mb (bytesToBase58 U kb)) = ret (Some kb)"
  using assms by (simp add: find_issuer_key_def key_methods_def present_def bytesToBase58_def base58ToBytes_def codec_ok_def
    BJJVerificationKey2021_def Ed25519VerificationKey2020_def)

lemma base58_nonempty:
  assumes "codec_ok U" "bs \<noteq> []" "u_fromString U Base58btc '''' = ret []"
  shows "u_toString U Base58btc bs \<noteq> []"
proof
  assume "u_toString U Base58btc bs = []"
  moreover have "u_fromString U Base58btc (u_toString U Base58btc bs) = ret bs" using assms(1) by (simp add: codec_ok_def)
  ultimately show False using assms(2,3) by simp
qed

text \<open>The answer of a resolver that found a document.\<close>

definition found_document :: "did_document \<Rightarrow> did_result" where
  "found_document doc = \<lparr> dr_didDocument = Some doc, dr_contentType = Some ''application/did+ld+json'', dr_error = None, dr_message = None \<rparr>"

lemma document_resolves:
  assumes U: "codec_ok (ce_codec C)" "u_fromString (ce_codec C) Base58btc '''' = ret []"
    and k: "PublicKey_compress (ce_eddsa C) A = ret kb" "length kb = 32"
    and r: "resolve (issuer_did i) = ret (found_document (controller_document controller (key_methods controller mb (bytesToBase58 (ce_codec C) kb))))"
  shows "resolves_to C resolve i A"
proof -
  have "kb \<noteq> []" using k(2) by auto
  then have "find_issuer_key (ce_codec C) (key_methods controller mb (bytesToBase58 (ce_codec C) kb)) = ret (Some kb)"
    using issuer_key_found base58_nonempty [OF U(1) _ U(2)] U(1) by blast
  then show ?thesis
    unfolding resolves_to_def r using k(1)
    by (intro exI [of _ "found_document (controller_document controller (key_methods controller mb (bytesToBase58 (ce_codec C) kb)))"]
      exI [of _ "key_methods controller mb (bytesToBase58 (ce_codec C) kb)"] exI [of _ kb])
      (simp add: found_document_def resolved_methods_def controller_document_def)
qed

text \<open>An issuer's account: the discriminator, the two keys, and whatever follows.\<close>

definition issuer_account :: "bytes \<Rightarrow> int \<times> int \<Rightarrow> bytes \<Rightarrow> bytes" where
  "issuer_account pubkey A rest = issuer_discriminator @ pubkey @ be_bytes 32 (fst A) @ be_bytes 32 (snd A) @ rest"

lemma parseIssuer_account:
  assumes "length pubkey = 32"
  shows "parseIssuer (issuer_account pubkey A rest) = ret (pubkey, be_bytes 32 (fst A) @ be_bytes 32 (snd A))"
  using assms by (simp add: parseIssuer_def issuer_account_def subarray_def rel_index_def issuer_discriminator_def min_def)

lemma zkPubkey_coords:
  assumes "codec_ok U" "0 \<le> fst A" "fst A < 256 ^ 32" "0 \<le> snd A" "snd A < 256 ^ 32"
  defines "z \<equiv> be_bytes 32 (fst A) @ be_bytes 32 (snd A)"
  shows "bytesToBigInt U (subarray z 0 32) = ret (fst A)" "bytesToBigInt U (subarray z 32 64) = ret (snd A)"
proof -
  have s: "subarray z 0 32 = be_bytes 32 (fst A)" "subarray z 32 64 = be_bytes 32 (snd A)"
    by (simp_all add: z_def subarray_def rel_index_def min_def)
  have ne: "be_bytes 32 n \<noteq> []" for n using length_be_bytes [of 32 n] by (metis length_0_conv zero_neq_numeral)
  show "bytesToBigInt U (subarray z 0 32) = ret (fst A)" "bytesToBigInt U (subarray z 32 64) = ret (snd A)"
    using assms(2-5) unfolding s by (simp_all add: bytesToBigInt_be_val [OF assms(1) ne] be_val_be_bytes)
qed

lemma albus_resolve_account:
  assumes U: "codec_ok (ee_codec E)" and A: "0 \<le> fst A" "fst A < 256 ^ 32" "0 \<le> snd A" "snd A < 256 ^ 32"
    and k: "PublicKey_compress E A = ret kb" and pk: "length pubkey = 32" and e: "endpoint = ret url"
    and id: "js_split (CHR '':'') parsed = [''issuer'', address]" and acc: "accounts address = ret (Some (issuer_account pubkey A rest))"
  shows "albus_resolve E accounts endpoint did parsed = ret (found_document (controller_document did
    (key_methods did (MultiBase_encode (ee_codec E) pubkey (ed25519Pub MultiBase_codec)) (bytesToBase58 (ee_codec E) kb))))"
  using parseIssuer_account [OF pk, of A rest] zkPubkey_coords [OF U A] k
  by (simp add: albus_resolve_def albus_document_def id acc e generateDidDocument_def Let_def PublicKey_toBase58_def found_document_def
    controller_document_def)

lemma generateDid_document:
  assumes "PrivateKey_public E (kp_secretKey kp) = ret A" "PublicKey_compress E A = ret kb"
  shows "generateDid E kp (Some did) = ret (controller_document did
    (key_methods did (MultiBase_encode (ee_codec E) (kp_publicKey kp) (ed25519Pub MultiBase_codec)) (bytesToBase58 (ee_codec E) kb)))"
  using assms by (simp add: generateDid_def PublicKey_toBase58_def)

section \<open>Signing and then verifying\<close>

lemma payload_encrypted:
  "validateCredentialPayload D vc = ret () \<Longrightarrow>
   validateCredentialPayload D (vc\<lparr> vc_proof := p, vc_credentialSubject := [x] \<rparr>) = ret ()"
  by (auto simp: validateCredentialPayload_def bindJ_eq_ret validateCredentialSubject_def split: if_splits)

lemma payload_signed:
  "validateCredentialPayload D (vc\<lparr> vc_proof := p \<rparr>) = validateCredentialPayload D vc"
  by (simp add: validateCredentialPayload_def)

lemma signed_then_verified:
  assumes C: "credential_ok C" and s: "signable C (so_signerSecretKey opts) (so_verificationMethod opts) (so_controller opts)"
    and d: "w3cDate C (so_date opts) = ret date" and T: "credential_tree C vc = ret T" "0 \<le> ClaimsTree_root T" "ClaimsTree_root T < 2 ^ 256"
    and v: "validateCredentialPayload (ce_dates C) vc = ret ()" and e: "encrypted_claim vc = None"
    and k: "ce_keypair C (so_signerSecretKey opts) = ret kp" "prv2pub (ce_eddsa C) (kp_secretKey kp) = ret A"
    and r: "resolves_to C resolve (vc_issuer vc) A"
  obtains vc' p sig where "signCredential C vc opts = ret vc'" "vc' = vc\<lparr> vc_proof := Some [p] \<rparr>" "pf_type p = BJJSignature2021"
    "Eddsa_signPoseidon (ce_eddsa C) (kp_secretKey kp) (ClaimsTree_root T) = ret sig"
    "\<And>dk. verifyCredential C resolve vc' dk = after_reading sig A (verified vc' sig A)"
    "\<And>random hk esk msg. seal_ready (subject_context C random hk esk) msg \<Longrightarrow> json_ok C (vc_credentialSubject vc) msg \<Longrightarrow>
      \<exists>ve. encryptCredential C random vc' (drop 32 hk) esk = ret ve \<and> encrypted_claim ve \<noteq> None \<and>
        verifyCredential C resolve ve (Some hk) = after_reading sig A (verified vc' sig A)"
proof -
  define po where "po = \<lparr> po_msg = ClaimsTree_root T, po_signerSecretKey = so_signerSecretKey opts,
      po_verificationMethod = so_verificationMethod opts, po_controller = so_controller opts, po_purpose = so_purpose opts,
      po_date = so_date opts \<rparr>"
  have po: "po_msg po = ClaimsTree_root T" "signable C (po_signerSecretKey po) (po_verificationMethod po) (po_controller po)"
    "w3cDate C (po_date po) = ret date" "po_signerSecretKey po = so_signerSecretKey opts"
    using s d by (simp_all add: po_def)
  obtain sig sb kb p where p: "Eddsa_signPoseidon (ce_eddsa C) (kp_secretKey kp) (ClaimsTree_root T) = ret sig"
    "Eddsa_verifyPoseidon (ce_eddsa C) (ClaimsTree_root T) sig (coords A) = ret True"
    "length sb = 64" "Signature_newFromCompressed (ce_eddsa C) sb = read_signature sig"
    "PublicKey_compress (ce_eddsa C) A = ret kb" "length kb = 32" "PublicKey_newFromCompressed (ce_eddsa C) kb = read_key A"
    "createCredentialProof C po = ret p" "pf_proofValue p = Some (proof_value C sb kb)" "pf_type p = BJJSignature2021"
    using createCredentialProof_parts [OF C po(2,3)] T(2,3) k unfolding po(1,4) by (metis ret_inject)
  define vc' where "vc' = vc\<lparr> vc_proof := Some [p] \<rparr>"
  have sign: "signCredential C vc opts = ret vc'"
    using p(8) unfolding po_def by (simp add: signCredential_def T(1) vc'_def)
  have e': "encrypted_claim vc' = None" using e by (simp add: encrypted_claim_def vc'_def)
  have v': "validateCredentialPayload (ce_dates C) vc' = ret ()" using v by (simp add: vc'_def payload_signed)
  note verify = verifyCredential_decrypted [OF C _ _ r T(1) p(2-7,9,10), folded vc'_def]
  have plain: "verifyCredential C resolve vc' dk = after_reading sig A (verified vc' sig A)" for dk
    by (rule verify [OF v']) (simp add: decryptCredentialIfNeeded_def e')
  have "\<exists>ve. encryptCredential C random vc' (drop 32 hk) esk = ret ve \<and> encrypted_claim ve \<noteq> None \<and>
        verifyCredential C resolve ve (Some hk) = after_reading sig A (verified vc' sig A)"
    if sr: "seal_ready (subject_context C random hk esk) msg" and j: "json_ok C (vc_credentialSubject vc) msg" for random hk esk msg
  proof -
    have j': "json_ok C (vc_credentialSubject vc') msg" using j by (simp add: vc'_def)
    obtain t where t: "encryptCredential C random vc' (drop 32 hk) esk = ret (vc'\<lparr> vc_credentialSubject := [(''encrypted'', JString t)] \<rparr>)"
      "decryptCredentialIfNeeded C (vc'\<lparr> vc_credentialSubject := [(''encrypted'', JString t)] \<rparr>) hk None = ret vc'"
      using credential_decrypts [OF sr j' e'] by blast
    have "verifyCredential C resolve (vc'\<lparr> vc_credentialSubject := [(''encrypted'', JString t)] \<rparr>) (Some hk) = after_reading sig A (verified vc' sig A)"
      by (rule verify) (use payload_encrypted [OF v] t(2) in \<open>simp_all add: vc'_def\<close>)
    then show ?thesis using t(1) by (auto simp: encrypted_claim_def)
  qed
  then show ?thesis using that [OF sign vc'_def p(10,1) plain] by blast
qed

section \<open>Witnesses\<close>

text \<open>The field of 17 elements as constructed, its curve, and libraries that meet the contracts.\<close>

definition F17 :: F1Field where
  "F17 = \<lparr>F_type = ''F1'', F_one = 1, F_zero = 0, F_p = 17, F_m = 1, F_negone = 16, F_two = 2, F_half = 8,
     F_bitLength = 5, F_mask = 31, F_n64 = 1, F_n32 = 2, F_n8 = 8, F_R = 1, F_s = 4, F_shift = 9, F_Ri = 1,
     F_nqr = 3, F_t = 1, F_nqr_to_t = 3, F_k = 1, sqrt_q = 17, sqrt_s = 4, sqrt_t = 1, sqrt_z = 3, sqrt_tm1d2 = 0\<rparr>"

lemma F17_new: "F1Field_new 17 (\<lambda>_. [3]) = ret F17"
proof -
  have bl: "Scalar_bitLength 17 = Some 5" by code_simp
  have draw: "take n [3 :: 8 word] = (if n = 0 then [] else [3])" for n by (cases n) simp_all
  show ?thesis
    unfolding F1Field_new_def bl option.case
    by (simp add: F1Field_init_def Let_def F1_e_def smod_nonneg bigint_shl_def bigint_shr_def F1_inv_def inv_loop.simps
      sdiv_nonneg F1_pow_def F1_exp_correct F1_wf_def in_field_def nqr_loop.simps F1_eq_def odd_part.simps and_one_mod2
      tonelliShanks_def sqrt_odd_part.simps Scalar_one_def Scalar_zero_def Scalar_pow_def bigint_pow_def Scalar_isOdd_def Scalar_sub_def
      Scalar_div_def bigint_div_def sqrt_z_loop.simps F1_random_def random_count_def draw F1_square_def F17_def)
qed

definition curve17 :: babyjub where "curve17 = BJ17\<lparr> bj_F := F17 \<rparr>"

definition cred17 :: credential_env where
  "cred17 = \<lparr> ce_eddsa = E17\<lparr> ee_bj := curve17, ee_codec := text_codec \<rparr>, ce_xc = open_cipher,
     ce_dates = (\<lambda>s. map_option (\<lambda>n. int n * 1000) (parse_digits 10 (takeWhile (\<lambda>c. c \<noteq> CHR ''Z'') s))),
     ce_iso = (\<lambda>ms. ret (to_radix 10 (ms div 1000) @ ''.000Z'')), ce_now = 1000,
     ce_keypair = (\<lambda>sk. ret \<lparr> kp_secretKey = sk, kp_publicKey = drop 32 sk \<rparr>),
     ce_stringify = (\<lambda>obj. ret ''{}''), ce_parse = (\<lambda>s. ret [(''a'', JString ''c'')]) \<rparr>"

lemma curve17_sel [simp]:
  "F_p (bj_F curve17) = 17" "bj_A curve17 = 1" "bj_D curve17 = 3" "Base8 curve17 = (3, 13)" "subOrder curve17 = 3" "bj_F curve17 = F17"
  by (simp_all add: curve17_def F17_def)

lemma curve17_pt: "bj_pt curve17 P = bj_pt BJ17 P"
  by (simp add: bj_pt_def in_field_def F17_def)

lemma curve17_ok: "bj_ok curve17" "bj_codec_ok curve17"
proof -
  have pr: "prime_modulus 17" by code_simp
  have F: "F1_sqrt_wf F17" "F1_wf F17" using F1Field_new_wf [OF F17_new pr] by (simp_all add: F17_def)
  show "bj_ok curve17" using BJ17_ok F(2) by (simp add: bj_ok_def in_field_def) (simp add: F17_def)
  then show "bj_codec_ok curve17" using F(1) by (simp add: bj_codec_ok_def) (simp add: curve17_def BJ17_def F17_def)
qed

lemma curve17_order: "pt_times (bj_add curve17) (0, 1) 3 (3, 13) = (0, 1)"
proof -
  note pt = BJ17_pt [folded curve17_pt]
  have "bj_add curve17 (3, 13) (0, 1) = (3, 13)"
    by (rule ed_sum_unique [OF curve17_ok(1) pt(2,1,2)]) (simp add: ed_sum_def frac_of_def F17_def)
  moreover have "bj_add curve17 (3, 13) (3, 13) = (14, 13)"
    by (rule ed_sum_unique [OF curve17_ok(1) pt(2,2,3)]) (simp add: ed_sum_def frac_of_def F17_def)
  moreover have "bj_add curve17 (3, 13) (14, 13) = (0, 1)"
    by (rule ed_sum_unique [OF curve17_ok(1) pt(2,3,1)]) (simp add: ed_sum_def frac_of_def F17_def)
  ultimately show ?thesis by (simp add: numeral_3_eq_3)
qed

lemma cred17_sel [simp]: "ee_bj (ce_eddsa cred17) = curve17" "ce_codec cred17 = text_codec" "ce_pos cred17 = env13" "ce_xc cred17 = open_cipher"
  by (simp_all add: cred17_def E17_def)

lemma cred17_ok: "credential_ok cred17"
proof -
  have "ee_draws (ce_eddsa cred17) = draws2" by (simp add: cred17_def E17_def)
  then have "eddsa_ok (ce_eddsa cred17)"
    using E17_ok curve17_ok(1) curve17_order BJ17_pt(2) by (simp add: eddsa_ok_def curve17_pt) (simp add: E17_def)
  then show ?thesis using text_codec_ok curve17_ok(2) by (simp add: credential_ok_def)
qed

text \<open>A credential whose claims tree has three leaves.\<close>

definition vc17 :: verifiable_credential where
  "vc17 = \<lparr> vc_context = [JString DEFAULT_CONTEXT, JObject [(''@vocab'', JString ''https://schema.org/'')]],
     vc_type = [DEFAULT_VC_TYPE, AlbusCredential], vc_issuer = Issuer_string '''', vc_issuanceDate = Some ''1Z'',
     vc_validFrom = Some ''2Z'', vc_validUntil = Some ''3Z'', vc_credentialSubject = [(''a'', JString ''c'')],
     vc_expirationDate = None, vc_proof = None \<rparr>"

definition opts17 :: create_opts where
  "opts17 = \<lparr> co_issuerDid = Some '''', co_issuerSecretKey = Some [1, 2, 3], co_verificationMethod = Some ''key'', co_encrypt = True,
     co_encryptionKey = Some (replicate 32 5), co_encryptionSecretKey = None, co_validFrom = Some 2, co_validUntil = Some 3,
     co_timestamp = None, co_credentialType = None, co_context = [] \<rparr>"

abbreviation "tree3 \<equiv> MNode (MNode (MLeaf 0 8) (MLeaf 2 11)) (MLeaf 1 12)"

lemma f13_hashes3:
  "f13_hash 56 [1, 12, 1] = 10" "f13_hash 56 [2, 11, 1] = 12" "f13_hash 57 [1, 10] = 4" "f13_hash 57 [1, 12] = 9" "f13_hash 57 [9, 10] = 5"
  by (simp_all add: f13_hash_def numeral_eq_Suc f13_simps)

lemma digests3:
  "digest env13 (MLeaf 0 8) = 1" "digest env13 (MLeaf 1 12) = 10" "digest env13 (MLeaf 2 11) = 12"
  "digest env13 (MNode (MLeaf 0 8) (MLeaf 1 12)) = 4" "digest env13 (MNode (MLeaf 0 8) (MLeaf 2 11)) = 9" "digest env13 tree3 = 5"
proof -
  show d: "digest env13 (MLeaf 0 8) = 1" "digest env13 (MLeaf 1 12) = 10" "digest env13 (MLeaf 2 11) = 12"
    by (simp_all add: hash_value_13 f13_hashes f13_hashes3 f13_normalize)
  show n: "digest env13 (MNode (MLeaf 0 8) (MLeaf 1 12)) = 4" "digest env13 (MNode (MLeaf 0 8) (MLeaf 2 11)) = 9"
    unfolding digest.simps(3) d by (simp_all add: hash_value_13 f13_hashes3 f13_normalize)
  show "digest env13 tree3 = 5"
    unfolding digest.simps(3) [of _ "MNode (MLeaf 0 8) (MLeaf 2 11)"] n d by (simp add: hash_value_13 f13_hashes3 f13_normalize)
qed

lemma tree3_steps:
  "claim_tree 13 [99] = MLeaf 0 8" "claim_tree 13 [99, 51] = MNode (MLeaf 0 8) (MLeaf 1 12)" "claim_tree 13 [99, 51, 50] = tree3"
proof -
  have "bit (2 :: int) 1" "\<not> bit (2 :: int) 0" by (simp_all add: bit_iff_odd)
  then have "tree_insert 0 8 MEmpty = MLeaf 0 8" "tree_insert 1 12 (MLeaf 0 8) = MNode (MLeaf 0 8) (MLeaf 1 12)"
    "tree_insert 2 11 (MNode (MLeaf 0 8) (MLeaf 1 12)) = tree3"
    by (simp_all add: tree_insert_def common_bits_def upt_rec)
  then show "claim_tree 13 [99] = MLeaf 0 8" "claim_tree 13 [99, 51] = MNode (MLeaf 0 8) (MLeaf 1 12)" "claim_tree 13 [99, 51, 50] = tree3"
    by (simp_all add: claim_tree_def upt_rec)
qed

lemma tree3_free: "no_collisions env13 [99, 51, 50]"
  unfolding no_collisions_def p_env13
proof (intro allI impI)
  fix n assume "n < length [99 :: int, 51, 50]"
  then consider "n = 0" | "n = 1" | "n = 2" by fastforce
  then show "collision_free env13 (subs (claim_tree 13 (take n [99, 51, 50])) @ subs (claim_tree 13 (take (Suc n) [99, 51, 50])))"
    by cases (simp_all add: collision_free_def tree3_steps claim_tree_Nil digests3 numeral_2_eq_2 del: digest.simps)
qed

lemma cred17_tree_rep: "\<exists>T. credential_tree cred17 vc17 = ret T \<and> smt_rep env13 (ct_smt T) tree3 \<and>
  ct_keys T = [''a'', ''meta.validUntil'', ''meta.validFrom''] \<and> ct_depth T = None"
proof -
  let ?kvs = "[(''a'', JString ''c''), (''meta.validUntil'', JNumber 3), (''meta.validFrom'', JNumber 2)]"
  have ts: "w3cDateToUnixTs (ce_dates cred17) ''3Z'' = Some 3" "w3cDateToUnixTs (ce_dates cred17) ''2Z'' = Some 2"
    by (simp_all add: w3cDateToUnixTs_def cred17_def parse_digits_def digit_val_def)
  have o: "obj_put [(''a'', JString ''c'')] ''meta'' v = [(''a'', JString ''c''), (''meta'', v)]" for v
    by (simp add: obj_put_def comes_before_def index_of_def is_digit_def)
  have m: "credential_meta (ce_dates cred17) (w3c_credential.truncate vc17) = [(''validUntil'', JNumber 3), (''validFrom'', JNumber 2)]"
    by (simp add: credential_meta_def vc17_def w3c_credential.truncate_def issuer_of_def present_def ts number_value_def)
  have f: "flattenObject [(''a'', JString ''c''), (''meta'', JObject [(''validUntil'', JNumber 3), (''validFrom'', JNumber 2)])] None = ret ?kvs"
    by (simp add: flattenObject_def sub_key_def obj_merge_def obj_put_def comes_before_def index_of_def is_digit_def)
  have dec: "to_radix 10 3 = ''3''" "to_radix 10 2 = ''2''" by code_simp+
  have e: "encodes env13 text_codec ?kvs [99, 51, 50]"
    by (simp add: encodes_def ClaimsTree_encodeValue_def encode_text_def text_bytes_def bytesToBigInt_be_val [OF text_codec_ok] be_val_def dec)
  have n: "int (length ?kvs) < F_p (pe_F env13)" by (simp add: p_env13)
  have d: "distinct (map fst ?kvs)" by simp
  obtain T where T: "foldJ (\<lambda>T (key, v). ClaimsTree_add env13 text_codec T key (Inl v)) (ClaimsTree_new env13 None) ?kvs = ret T"
    "smt_rep env13 (ct_smt T) (claim_tree (F_p (pe_F env13)) [99, 51, 50])" "ct_keys T = map fst ?kvs" "ct_depth T = None"
    using claims_loop [OF smt_env13 e d n tree3_free, of None] by blast
  have s: "vc_credentialSubject (w3c_credential.truncate vc17) = [(''a'', JString ''c'')]" by (simp add: vc17_def w3c_credential.truncate_def)
  show ?thesis
    using T by (simp add: credential_tree_def createCredentialTree_def ClaimsTree_from_def s m o f p_env13 tree3_steps)
qed

lemma cred17_tree: "\<exists>T. credential_tree cred17 vc17 = ret T \<and> ClaimsTree_root T = 5"
proof -
  obtain T where "credential_tree cred17 vc17 = ret T" "smt_rep env13 (ct_smt T) tree3" using cred17_tree_rep by blast
  then show ?thesis by (simp add: smt_rep_def ClaimsTree_root_def digests3 del: digest.simps)
qed

lemma cred17_dates:
  "validateCredentialPayload (ce_dates cred17) vc17 = ret ()"
  "createVerifiableCredential cred17 r [(''a'', JString ''c'')] (opts17\<lparr> co_issuerSecretKey := None, co_encrypt := False \<rparr>) = ret vc17"
proof -
  have "ce_dates cred17 [d, CHR ''Z''] = Some (int k * 1000)" if "digit_val d = Some k" "k < 10" "d \<noteq> CHR ''Z''" for d k
    using that by (simp add: cred17_def parse_digits_def)
  then have "ce_dates cred17 ''1Z'' = Some 1000" "ce_dates cred17 ''2Z'' = Some 2000" "ce_dates cred17 ''3Z'' = Some 3000"
    by (simp_all add: digit_val_def)
  then show "validateCredentialPayload (ce_dates cred17) vc17 = ret ()"
    by (simp add: validateCredentialPayload_def validateContext_def validateVcType_def validateCredentialSubject_def asArray_def
      validate_given_def present_def validateTimestamp_def validate_seconds_def vc17_def)
  have dec: "to_radix 10 1 = ''1''" "to_radix 10 2 = ''2''" "to_radix 10 3 = ''3''" by code_simp+
  have "w3cDate cred17 None = ret ''1Z''" "w3cDate cred17 (Some (Date_ms 2000)) = ret ''2Z''" "w3cDate cred17 (Some (Date_ms 3000)) = ret ''3Z''"
    by (simp_all add: w3cDate_def cred17_def dec subarray_def rel_index_def)
  moreover have "normalizeClaims [(''a'', JString ''c'')] = [(''a'', JString ''c'')]"
    by (simp add: normalizeClaims_def trim_def is_space_def)
  ultimately show "createVerifiableCredential cred17 r [(''a'', JString ''c'')] (opts17\<lparr> co_issuerSecretKey := None, co_encrypt := False \<rparr>) = ret vc17"
    by (simp add: createVerifiableCredential_def opts17_def timestamp_date_def optional_date_def present_def vc17_def)
qed

lemma cred17_seal: "seal_ready (subject_context cred17 (\<lparr> kp_secretKey = replicate 32 3, kp_publicKey = replicate 32 3 \<rparr>, replicate 24 9) (replicate 64 5) None) ''{}''"
proof -
  have "CHR ''.'' \<notin> set (hex_of b)" for b
  proof
    assume "CHR ''.'' \<in> set (hex_of b)"
    then obtain d where "d < 16" "CHR ''.'' = digit_char d" using nibbles_less by (auto simp: hex_of_def)
    then have "digit_val (CHR ''.'') = Some d" by simp
    moreover have "digit_val (CHR ''.'') = None" by code_simp
    ultimately show False by simp
  qed
  then have "dotless text_codec" by (simp add: dotless_def text_codec_def plain_codec_def)
  then show ?thesis
    using open_cipher_ok text_codec_ok text_codec_utf8
    by (simp add: seal_ready_def subject_context_def ephemeral_def given_key_def)
      (simp add: ed25519_pair_def x25519_pair_def open_cipher_def)
qed

text \<open>The issuer's own resolver: the document that \<open>generateDid\<close> makes of the issuer's key pair.\<close>

definition issuer17 :: KeyPair where "issuer17 = \<lparr> kp_secretKey = [1, 2, 3], kp_publicKey = [] \<rparr>"

definition resolve17 :: "vc_issuer \<Rightarrow> did_result js" where
  "resolve17 i = bindJ (generateDid (ce_eddsa cred17) issuer17 (Some ''did:x'')) (\<lambda>doc. ret (found_document doc))"

lemma resolve17: "\<exists>A. prv2pub (ce_eddsa cred17) [1, 2, 3] = ret A \<and> resolves_to cred17 resolve17 i A"
proof -
  have l: "8 * length [1 :: 8 word, 2, 3] < 2 ^ 128" by simp
  obtain A kb where A: "prv2pub (ce_eddsa cred17) [1, 2, 3] = ret A" "PublicKey_compress (ce_eddsa cred17) A = ret kb" "length kb = 32"
    using signature_parts [OF cred17_ok l, of 0] by (metis order_refl zero_less_numeral zero_less_power)
  have U: "codec_ok (ce_codec cred17)" "u_fromString (ce_codec cred17) Base58btc '''' = ret []"
    using text_codec_ok by simp_all (simp add: text_codec_def plain_codec_def)
  have "PrivateKey_public (ce_eddsa cred17) (kp_secretKey issuer17) = ret A" using A(1) by (simp add: issuer17_def PrivateKey_public_def)
  note doc = generateDid_document [OF this A(2), of "''did:x''"]
  have "resolves_to cred17 resolve17 i A"
    by (rule document_resolves [OF U A(2,3)]) (simp add: resolve17_def doc)
  then show ?thesis using A(1) by blast
qed

section \<open>Properties\<close>

text \<open>
  C14: \<open>createCredentialProof\<close> returns a proof that \<open>verifyCredentialProof\<close> accepts for the same
  message and from which \<open>parseCredentialProof\<close> reads the signature and the signer's key;
  both throw when the nonce point or the key has \<open>x = 0\<close>, which unpacking rejects.
\<close>

theorem credential_proof_roundtrip:
  assumes "credential_ok C" "signable C (po_signerSecretKey opts) (po_verificationMethod opts) (po_controller opts)"
    "w3cDate C (po_date opts) = ret date" "0 \<le> po_msg opts" "po_msg opts < 2 ^ 256"
  shows "\<exists>p pv kp sig A. createCredentialProof C opts = ret p \<and> pf_proofValue p = Some pv \<and>
    ce_keypair C (po_signerSecretKey opts) = ret kp \<and> PrivateKey_public (ce_eddsa C) (kp_secretKey kp) = ret A \<and>
    Eddsa_signPoseidon (ce_eddsa C) (kp_secretKey kp) (po_msg opts) = ret sig \<and>
    verifyCredentialProof C (po_msg opts) pv None =
      (if sg_R8 sig ! 0 = 0 then throw (Error ''unpackSignature failed'') else if fst A = 0 then throw (Error ''unpackPoint failed'') else ret True) \<and>
    parseCredentialProof C pv =
      (if sg_R8 sig ! 0 = 0 then throw (Error ''unpackSignature failed'') else if fst A = 0 then throw (Error ''unpackPoint failed'')
       else ret (sg_R8 sig @ [sg_S sig], coords A))"
proof -
  obtain kp sig A sb kb p where p: "ce_keypair C (po_signerSecretKey opts) = ret kp"
    "Eddsa_signPoseidon (ce_eddsa C) (kp_secretKey kp) (po_msg opts) = ret sig" "prv2pub (ce_eddsa C) (kp_secretKey kp) = ret A"
    "Eddsa_verifyPoseidon (ce_eddsa C) (po_msg opts) sig (coords A) = ret True"
    "length sb = 64" "Signature_newFromCompressed (ce_eddsa C) sb = read_signature sig"
    "length kb = 32" "PublicKey_newFromCompressed (ce_eddsa C) kb = read_key A"
    "createCredentialProof C opts = ret p" "pf_proofValue p = Some (proof_value C sb kb)"
    using createCredentialProof_parts [OF assms] by metis
  note pv = proof_value_parts [OF credential_okD(3) [OF assms(1)] p(5,7)]
  have "verifyCredentialProof C (po_msg opts) (proof_value C sb kb) None = bindJ (read_signature sig) (\<lambda>s. bindJ (read_key A) (\<lambda>a.
      Eddsa_verifyPoseidon (ce_eddsa C) (po_msg opts) s (coords a)))"
    by (simp add: verifyCredentialProof_def Let_def pv p(6,8) del: One_nat_def)
  moreover have "parseCredentialProof C (proof_value C sb kb) = bindJ (read_signature sig) (\<lambda>s. bindJ (read_key A) (\<lambda>a.
      ret (sg_R8 s @ [sg_S s], coords a)))"
    by (simp add: parseCredentialProof_def Let_def pv p(6,8) del: One_nat_def)
  ultimately show ?thesis
    using p by (intro exI [of _ p] exI [of _ "proof_value C sb kb"] exI [of _ kp] exI [of _ sig] exI [of _ A])
      (simp add: read_signature_def read_key_def PrivateKey_public_def)
qed

theorem credential_proof_roundtrip_witness:
  "\<exists>p pv sig A. createCredentialProof cred17 \<lparr> po_msg = 42, po_signerSecretKey = [1, 2, 3], po_verificationMethod = None,
       po_controller = Some ''did:x'', po_purpose = None, po_date = None \<rparr> = ret p \<and> pf_proofValue p = Some pv \<and>
     PrivateKey_public (ce_eddsa cred17) [1, 2, 3] = ret A \<and> Eddsa_signPoseidon (ce_eddsa cred17) [1, 2, 3] 42 = ret sig \<and>
     verifyCredentialProof cred17 42 pv None =
      (if sg_R8 sig ! 0 = 0 then throw (Error ''unpackSignature failed'') else if fst A = 0 then throw (Error ''unpackPoint failed'') else ret True)"
proof -
  let ?o = "\<lparr> po_msg = 42, po_signerSecretKey = [1, 2, 3], po_verificationMethod = None,
       po_controller = Some ''did:x'', po_purpose = None, po_date = None \<rparr>"
  have d: "w3cDate cred17 (po_date ?o) = ret (subarray (to_radix 10 1 @ ''.000Z'') 0 (- 5) @ ''Z'')"
    by (simp add: w3cDate_def cred17_def)
  have s: "signable cred17 (po_signerSecretKey ?o) (po_verificationMethod ?o) (po_controller ?o)"
    by (simp add: signable_def present_def) (simp add: cred17_def)
  have m: "0 \<le> po_msg ?o" "po_msg ?o < 2 ^ 256" by simp_all
  obtain p pv kp sig A where r: "createCredentialProof cred17 ?o = ret p" "pf_proofValue p = Some pv"
    "ce_keypair cred17 (po_signerSecretKey ?o) = ret kp" "PrivateKey_public (ce_eddsa cred17) (kp_secretKey kp) = ret A"
    "Eddsa_signPoseidon (ce_eddsa cred17) (kp_secretKey kp) (po_msg ?o) = ret sig" "verifyCredentialProof cred17 (po_msg ?o) pv None =
      (if sg_R8 sig ! 0 = 0 then throw (Error ''unpackSignature failed'') else if fst A = 0 then throw (Error ''unpackPoint failed'') else ret True)"
    using credential_proof_roundtrip [OF cred17_ok s d m] by blast
  have "kp_secretKey kp = [1, 2, 3]" using r(3) by (auto simp: cred17_def)
  then show ?thesis
    using r by (intro exI [of _ p] exI [of _ pv] exI [of _ sig] exI [of _ A]) simp
qed



text \<open>
  \<open>decodeDidKey\<close> reads the key that \<open>encodeDidKey\<close> wrote, and refuses what does not start
  with \<open>did:key:\<close>; the key resolver answers for the identifier with a document whose
  Ed25519 methods encode the same key, whenever the key converts.
\<close>

theorem did_key_roundtrip:
  assumes "codec_ok U" "conv pk = ret x"
  shows "decodeDidKey U (encodeDidKey U pk) = ret pk \<and>
    (\<exists>r doc ed bj. key_resolve U conv (drop 8 (encodeDidKey U pk)) (Some DID_JSON) = ret r \<and> dr_didDocument r = Some doc \<and> dr_error r = None \<and>
      dd_id doc = encodeDidKey U pk \<and> dd_verificationMethod doc = Some [ed, bj] \<and>
      (\<forall>s. vm_publicKeyBase58 ed = Some s \<longrightarrow> base58ToBytes U s = ret pk) \<and>
      (\<forall>s. vm_publicKeyMultibase bj = Some s \<longrightarrow> MultiBase_decode U s (ed25519Pub MultiBase_codec) = ret pk) \<and>
      vm_publicKeyBase58 ed \<noteq> None \<and> vm_publicKeyMultibase bj \<noteq> None)"
proof -
  have dec: "u_fromString U Base58btc (u_toString U Base58btc bs) = ret bs" for bs using assms(1) by (simp add: codec_ok_def)
  have hi: "codec_hi 0xED01 = 0xED" by code_simp
  define m where "m = MultiBase_encode U pk (ed25519Pub MultiBase_codec)"
  have m: "MultiBase_decode U m (ed25519Pub MultiBase_codec) = ret pk" "MultiBase_decode U m 0 = ret (0xED # codec_lo 0xED01 # pk)"
    by (simp_all add: m_def MultiBase_decode_def MultiBase_encode_def MultiBase_codec_def base58ToBytes_def bytesToBase58_def dec hi)
  have e: "encodeDidKey U pk = ''did:key:'' @ m" by (simp add: encodeDidKey_def m_def)
  have "decodeDidKey U (encodeDidKey U pk) = ret pk" using m(1) by (simp add: decodeDidKey_def e)
  then show ?thesis
    using m assms(2) by (simp add: key_resolve_def key_document_def ed25519Doc_def Let_def e DID_JSON_def DID_LD_JSON_def m_def [symmetric])
      (simp add: base58ToBytes_def dec)
qed

theorem did_key_roundtrip_witness:
  "decodeDidKey plain_codec (encodeDidKey plain_codec [1, 2, 3]) = ret [1, 2, 3] \<and>
   (\<exists>r doc. key_resolve plain_codec ret (drop 8 (encodeDidKey plain_codec [1, 2, 3])) (Some DID_JSON) = ret r \<and> dr_didDocument r = Some doc)"
  using did_key_roundtrip [OF plain_codec_ok, of ret "[1, 2, 3]"] by auto

end
