(* ===== verification/KeySuites.thy ===== *)
theory KeySuites
  imports Credential
begin

text \<open>
  The keys and suites of linked-data signatures: packages/albus-core/src/credential/crypto.
  The curve library for Ed25519, the parts of \<open>jsonld-signatures\<close> and of the JSON and
  base64url packages that the classes call are arguments.  A key is what its constructor
  leaves; \<open>revoked\<close> is a field of the class and starts undefined, whatever the base class
  was given.
\<close>

section \<open>utils.ts\<close>

record ed25519_lib =
  el_getPublicKey :: "bytes \<Rightarrow> bytes js"
  el_randomPrivateKey :: bytes
  el_sign :: "bytes \<Rightarrow> bytes \<Rightarrow> bytes js"
  el_verify :: "bytes \<Rightarrow> bytes \<Rightarrow> bytes \<Rightarrow> bool js"
  el_sha256 :: "bytes \<Rightarrow> bytes"

definition Ed25519_generateKeyPairFromSeed :: "ed25519_lib \<Rightarrow> bytes \<Rightarrow> KeyPair js" where
  "Ed25519_generateKeyPairFromSeed L seed =
    bindJ (el_getPublicKey L seed) (\<lambda>publicKey.
    bindJ (typed_set (replicate 64 0) 0 seed) (\<lambda>secretKey.
    bindJ (typed_set secretKey 32 publicKey) (\<lambda>secretKey.
    ret \<lparr> kp_secretKey = secretKey, kp_publicKey = publicKey \<rparr>)))"

definition Ed25519_generateKeyPair :: "ed25519_lib \<Rightarrow> KeyPair js" where
  "Ed25519_generateKeyPair L = Ed25519_generateKeyPairFromSeed L (el_randomPrivateKey L)"

definition Ed25519_sign :: "ed25519_lib \<Rightarrow> bytes \<Rightarrow> bytes \<Rightarrow> bytes js" where
  "Ed25519_sign L message secretKey = el_sign L message (subarray secretKey 0 32)"

definition createJws :: "string \<Rightarrow> bytes \<Rightarrow> bytes" where
  "createJws encodedHeader verifyData = text_bytes (encodedHeader @ ''.'') @ verifyData"

definition assertKeyBytes :: "bytes option \<Rightarrow> nat \<Rightarrow> unit js" where
  "assertKeyBytes bs expectedLength = (case bs of
     None \<Rightarrow> throw (TypeError ''\"bytes\" must be a Uint8Array.'')
   | Some b \<Rightarrow> if length b \<noteq> expectedLength
       then throw (Error (''\"bytes\" must be a '' @ to_radix 10 (int expectedLength) @ ''-byte Uint8Array.'')) else ret ())"

section \<open>Ed25519VerificationKey2020\<close>

definition ED25519_PUB_HEADER :: bytes where "ED25519_PUB_HEADER = [0xED, 0x01]"

definition ED25519_PRIV_HEADER :: bytes where "ED25519_PRIV_HEADER = [0x80, 0x26]"

definition ED_SUITE_CONTEXT :: string where "ED_SUITE_CONTEXT = ''https://w3id.org/security/suites/ed25519-2020/v1''"

record ed_key =
  ek_id :: "string option"
  ek_controller :: "string option"
  ek_revoked :: "string option"
  ek_type :: string
  ek_publicKeyMultibase :: string
  ek_privateKeyMultibase :: "string option"

record ed_opts =
  eo_publicKeyMultibase :: "string option"
  eo_privateKeyMultibase :: "string option"
  eo_type :: "string option"
  eo_controller :: "string option"
  eo_id :: "string option"

definition no_ed_opts :: ed_opts where
  "no_ed_opts = \<lparr> eo_publicKeyMultibase = None, eo_privateKeyMultibase = None, eo_type = None, eo_controller = None, eo_id = None \<rparr>"

definition isValidKeyHeader :: "uint8arrays \<Rightarrow> string \<Rightarrow> bytes \<Rightarrow> bool js" where
  "isValidKeyHeader U multibaseKey expectedHeader =
    (if \<not> is_base58btc multibaseKey then ret False
     else bindJ (base58ToBytes U (drop 1 multibaseKey)) (\<lambda>keyBytes.
       ret (list_all (\<lambda>i. i < length keyBytes \<and> keyBytes ! i = expectedHeader ! i) [0..<length expectedHeader])))"

text \<open>The bytes behind the multibase and multicodec headers; an absent or empty text has none.\<close>

definition key_buffer :: "uint8arrays \<Rightarrow> string option \<Rightarrow> bytes option js" where
  "key_buffer U multibase = (case present multibase of
     None \<Rightarrow> ret None
   | Some s \<Rightarrow> bindJ (base58ToBytes U (drop 1 s)) (\<lambda>b. ret (Some (subarray_from b 2))))"

definition Ed_publicKeyBuffer :: "uint8arrays \<Rightarrow> ed_key \<Rightarrow> bytes option js" where
  "Ed_publicKeyBuffer U key = key_buffer U (Some (ek_publicKeyMultibase key))"

definition Ed_privateKeyBuffer :: "uint8arrays \<Rightarrow> ed_key \<Rightarrow> bytes option js" where
  "Ed_privateKeyBuffer U key = key_buffer U (ek_privateKeyMultibase key)"

definition Ed_fingerprint :: "ed_key \<Rightarrow> string" where
  "Ed_fingerprint key = ek_publicKeyMultibase key"

definition Ed_new :: "uint8arrays \<Rightarrow> ed_opts \<Rightarrow> ed_key js" where
  "Ed_new U opts = (case present (eo_publicKeyMultibase opts) of
     None \<Rightarrow> throw (TypeError ''The \"publicKeyMultibase\" property is required.'')
   | Some pub \<Rightarrow>
     bindJ (isValidKeyHeader U pub ED25519_PUB_HEADER) (\<lambda>ok.
     if \<not> ok then throw (Error (''\"publicKeyMultibase\" has invalid header bytes: \"'' @ pub @ ''\".''))
     else bindJ (case present (eo_privateKeyMultibase opts) of Some priv \<Rightarrow> isValidKeyHeader U priv ED25519_PRIV_HEADER | None \<Rightarrow> ret True) (\<lambda>ok.
     if \<not> ok then throw (Error ''\"privateKeyMultibase\" has invalid header bytes.'')
     else
       let key = \<lparr> ek_id = eo_id opts, ek_controller = eo_controller opts, ek_revoked = None,
             ek_type = (case eo_type opts of Some t \<Rightarrow> t | None \<Rightarrow> Ed25519VerificationKey2020),
             ek_publicKeyMultibase = pub, ek_privateKeyMultibase = eo_privateKeyMultibase opts \<rparr>;
           key = (case present (ek_controller key) of
               Some controller \<Rightarrow> if present (ek_id key) = None then key\<lparr> ek_id := Some (controller @ ''#'' @ Ed_fingerprint key) \<rparr> else key
             | None \<Rightarrow> key)
       in bindJ (Ed_publicKeyBuffer U key) (\<lambda>b. bindJ (assertKeyBytes b 32) (\<lambda>_. ret key)))))"

text \<open>Key pairs of other suites, as objects with optional fields.\<close>

record key2018 =
  k18_id :: "string option"
  k18_controller :: "string option"
  k18_publicKeyBase58 :: "string option"
  k18_privateKeyBase58 :: "string option"

record jwk =
  jwk_kty :: string
  jwk_crv :: string
  jwk_x :: "string option"
  jwk_d :: "string option"

definition given :: "'a option \<Rightarrow> 'a js" where
  "given x = (case x of Some y \<Rightarrow> ret y | None \<Rightarrow> read_undefined)"

definition Ed_from2018 :: "uint8arrays \<Rightarrow> key2018 option \<Rightarrow> ed_key js" where
  "Ed_from2018 U keyPair =
    bindJ (given keyPair) (\<lambda>keyPair.
    bindJ (given (k18_publicKeyBase58 keyPair)) (\<lambda>pub58.
    bindJ (base58ToBytes U pub58) (\<lambda>pub.
    bindJ (Ed_new U (no_ed_opts\<lparr> eo_id := k18_id keyPair, eo_controller := k18_controller keyPair,
      eo_publicKeyMultibase := Some (MultiBase_encode U pub (ed25519Pub MultiBase_codec)) \<rparr>)) (\<lambda>key.
    case present (k18_privateKeyBase58 keyPair) of
      None \<Rightarrow> ret key
    | Some priv58 \<Rightarrow> bindJ (base58ToBytes U priv58) (\<lambda>priv.
        ret (key\<lparr> ek_privateKeyMultibase := Some (MultiBase_encode U priv (ed25519Priv MultiBase_codec)) \<rparr>))))))"

definition JSON_WEB_KEY :: string where "JSON_WEB_KEY = ''JsonWebKey2020''"

definition Ed_fromJsonWebKey2020 :: "uint8arrays \<Rightarrow> string option \<Rightarrow> string \<Rightarrow> string option \<Rightarrow> jwk option \<Rightarrow> ed_key js" where
  "Ed_fromJsonWebKey2020 U ident type controller publicKeyJwk =
    (if type \<noteq> JSON_WEB_KEY then throw (TypeError (''Invalid key type: \"'' @ type @ ''\".''))
     else case publicKeyJwk of
       None \<Rightarrow> throw (TypeError ''\"publicKeyJwk\" property is required.'')
     | Some k \<Rightarrow>
       if jwk_kty k \<noteq> ''OKP'' then throw (TypeError ''\"kty\" is required to be \"OKP\".'')
       else if jwk_crv k \<noteq> ''Ed25519'' then throw (TypeError ''\"crv\" is required to be \"Ed25519\".'')
       else bindJ (given (jwk_x k)) (\<lambda>x.
         bindJ (base64ToBytes U x) (\<lambda>pub.
         Ed_new U (no_ed_opts\<lparr> eo_id := ident, eo_controller := controller,
           eo_publicKeyMultibase := Some (MultiBase_encode U pub (ed25519Pub MultiBase_codec)) \<rparr>))))"

text \<open>\<open>from\<close> dispatches on the type of its options and hands them on as they are.\<close>

record from_options =
  fo_opts :: ed_opts
  fo_keyPair :: "key2018 option"
  fo_publicKeyJwk :: "jwk option"

definition Ed_from :: "uint8arrays \<Rightarrow> from_options \<Rightarrow> ed_key js" where
  "Ed_from U options =
    (if eo_type (fo_opts options) = Some ''Ed25519VerificationKey2018'' then Ed_from2018 U (fo_keyPair options)
     else if eo_type (fo_opts options) = Some JSON_WEB_KEY
       then Ed_fromJsonWebKey2020 U (eo_id (fo_opts options)) JSON_WEB_KEY (eo_controller (fo_opts options)) (fo_publicKeyJwk options)
     else Ed_new U (fo_opts options))"

text \<open>Given options take the place of the generated keys.\<close>

definition Ed_generate :: "ed25519_lib \<Rightarrow> uint8arrays \<Rightarrow> bytes option \<Rightarrow> ed_opts \<Rightarrow> ed_key js" where
  "Ed_generate L U seed opts =
    bindJ (case seed of Some s \<Rightarrow> Ed25519_generateKeyPairFromSeed L s | None \<Rightarrow> Ed25519_generateKeyPair L) (\<lambda>keypair.
    Ed_new U (opts\<lparr>
      eo_publicKeyMultibase := (case eo_publicKeyMultibase opts of Some p \<Rightarrow> Some p
        | None \<Rightarrow> Some (MultiBase_encode U (kp_publicKey keypair) (ed25519Pub MultiBase_codec))),
      eo_privateKeyMultibase := (case eo_privateKeyMultibase opts of Some p \<Rightarrow> Some p
        | None \<Rightarrow> Some (MultiBase_encode U (kp_secretKey keypair) (ed25519Priv MultiBase_codec))) \<rparr>))"

definition Ed_fromFingerprint :: "uint8arrays \<Rightarrow> string \<Rightarrow> ed_key js" where
  "Ed_fromFingerprint U fingerprint = Ed_new U (no_ed_opts\<lparr> eo_publicKeyMultibase := Some fingerprint \<rparr>)"

definition opt_value :: "string option \<Rightarrow> js_value" where
  "opt_value s = (case s of Some x \<Rightarrow> JString x | None \<Rightarrow> JUndefined)"

definition export_flags :: "'a js \<Rightarrow> bool \<Rightarrow> bool \<Rightarrow> 'a js" where
  "export_flags m publicKey privateKey =
    (if \<not> (publicKey \<or> privateKey) then throw (TypeError ''Export requires specifying either \"publicKey\" or \"privateKey\".'') else m)"

definition Ed_export :: "ed_key \<Rightarrow> bool \<Rightarrow> bool \<Rightarrow> bool \<Rightarrow> js_object js" where
  "Ed_export key publicKey privateKey includeContext =
    export_flags (ret ([(''id'', opt_value (ek_id key)), (''type'', JString (ek_type key))]
      @ (if includeContext then [(''@context'', JString ED_SUITE_CONTEXT)] else [])
      @ (case present (ek_controller key) of Some c \<Rightarrow> [(''controller'', JString c)] | None \<Rightarrow> [])
      @ (if publicKey then [(''publicKeyMultibase'', JString (ek_publicKeyMultibase key))] else [])
      @ (if privateKey then [(''privateKeyMultibase'', opt_value (ek_privateKeyMultibase key))] else [])
      @ (case present (ek_revoked key) of Some r \<Rightarrow> [(''revoked'', JString r)] | None \<Rightarrow> []))) publicKey privateKey"

definition buffer_base64url :: "uint8arrays \<Rightarrow> bytes option \<Rightarrow> string js" where
  "buffer_base64url U b = (case b of Some x \<Rightarrow> ret (bytesToBase64url U x) | None \<Rightarrow> throw (TypeError ''undefined is not iterable''))"

definition Ed_toJwk :: "uint8arrays \<Rightarrow> ed_key \<Rightarrow> bool \<Rightarrow> bool \<Rightarrow> jwk js" where
  "Ed_toJwk U key publicKey privateKey =
    (if \<not> (publicKey \<or> privateKey) then throw (TypeError ''Either a \"publicKey\" or a \"privateKey\" is required.'')
     else
       bindJ (if publicKey then bindJ (Ed_publicKeyBuffer U key) (\<lambda>b. bindJ (buffer_base64url U b) (\<lambda>x. ret (Some x))) else ret None) (\<lambda>x.
       bindJ (if privateKey then bindJ (Ed_privateKeyBuffer U key) (\<lambda>b. bindJ (buffer_base64url U b) (\<lambda>d. ret (Some d))) else ret None) (\<lambda>d.
       ret \<lparr> jwk_kty = ''OKP'', jwk_crv = ''Ed25519'', jwk_x = x, jwk_d = d \<rparr>)))"

definition Ed_jwkThumbprint :: "ed25519_lib \<Rightarrow> uint8arrays \<Rightarrow> ed_key \<Rightarrow> string js" where
  "Ed_jwkThumbprint L U key =
    bindJ (Ed_publicKeyBuffer U key) (\<lambda>b.
    bindJ (buffer_base64url U b) (\<lambda>publicKey.
    ret (bytesToBase64url U (el_sha256 L (text_bytes (''{\"crv\":\"Ed25519\",\"kty\":\"OKP\",\"x\":\"'' @ publicKey @ ''\"}''))))))"

record json_web_key =
  jw_id :: string
  jw_type :: string
  jw_controller :: "string option"
  jw_publicKeyJwk :: jwk

definition Ed_toJsonWebKey2020 :: "ed25519_lib \<Rightarrow> uint8arrays \<Rightarrow> ed_key \<Rightarrow> json_web_key js" where
  "Ed_toJsonWebKey2020 L U key =
    bindJ (Ed_jwkThumbprint L U key) (\<lambda>thumbprint.
    bindJ (Ed_toJwk U key True False) (\<lambda>j.
    ret \<lparr> jw_id = option_text (ek_controller key) @ ''#'' @ thumbprint, jw_type = JSON_WEB_KEY, jw_controller = ek_controller key, jw_publicKeyJwk = j \<rparr>))"

text \<open>\<open>_isEqualBuffer\<close>, by its loop; and the answer of \<open>verifyFingerprint\<close>, verified or with an error.\<close>

definition isEqualBuffer :: "bytes \<Rightarrow> bytes \<Rightarrow> bool" where
  "isEqualBuffer buf1 buf2 \<longleftrightarrow> (if length buf1 \<noteq> length buf2 then False else list_all (\<lambda>i. buf1 ! i = buf2 ! i) [0..<length buf1])"

definition Ed_verifyFingerprint :: "uint8arrays \<Rightarrow> ed_key \<Rightarrow> string \<Rightarrow> js_error option js" where
  "Ed_verifyFingerprint U key fingerprint =
    (if \<not> is_base58btc fingerprint then ret (Some (Error ''\"fingerprint\" must be a multibase encoded string.''))
     else (case base58ToBytes U (drop 1 fingerprint) of
         None \<Rightarrow> None
       | Some (Inl e) \<Rightarrow> ret (Some e)
       | Some (Inr buffer) \<Rightarrow>
         bindJ (Ed_publicKeyBuffer U key) (\<lambda>own.
         bindJ (given own) (\<lambda>own.
         if 0 < length buffer \<and> buffer ! 0 = ED25519_PUB_HEADER ! 0 \<and> 1 < length buffer \<and> buffer ! 1 = ED25519_PUB_HEADER ! 1 \<and>
            isEqualBuffer own (subarray_from buffer 2)
         then ret None else ret (Some (Error ''The fingerprint does not match the public key.''))))))"

text \<open>A signer and a verifier hold the buffer that was read when they were made.\<close>

definition Ed_signer :: "ed25519_lib \<Rightarrow> uint8arrays \<Rightarrow> ed_key \<Rightarrow> (bytes \<Rightarrow> bytes js) js" where
  "Ed_signer L U key = bindJ (Ed_privateKeyBuffer U key) (\<lambda>buffer.
    ret (\<lambda>dat. case buffer of None \<Rightarrow> throw (Error ''A private key is not available for signing.'') | Some k \<Rightarrow> Ed25519_sign L dat k))"

definition Ed_verifier :: "ed25519_lib \<Rightarrow> uint8arrays \<Rightarrow> ed_key \<Rightarrow> (bytes \<Rightarrow> bytes \<Rightarrow> bool js) js" where
  "Ed_verifier L U key = bindJ (Ed_publicKeyBuffer U key) (\<lambda>buffer.
    ret (\<lambda>dat signature. case buffer of None \<Rightarrow> throw (Error ''A public key is not available for verifying.'') | Some k \<Rightarrow> el_verify L signature dat k))"

section \<open>BJJVerificationKey2021\<close>

record bjj_key =
  bk_id :: "string option"
  bk_type :: string
  bk_revoked :: "string option"
  bk_controller :: "string option"
  bk_publicKeyBase58 :: "string option"
  bk_privateKeyBase58 :: "string option"

record bjj_opts =
  bo_id :: "string option"
  bo_controller :: "string option"
  bo_publicKeyBase58 :: "string option"
  bo_privateKeyBase58 :: "string option"

definition BJJ_fingerprint :: "bjj_key \<Rightarrow> string" where
  "BJJ_fingerprint key = (case bk_publicKeyBase58 key of Some p \<Rightarrow> p | None \<Rightarrow> '''')"

definition BJJ_new :: "eddsa_env \<Rightarrow> bjj_opts \<Rightarrow> bjj_key js" where
  "BJJ_new E opts =
    bindJ (case bo_publicKeyBase58 opts of
        Some p \<Rightarrow> ret p
      | None \<Rightarrow> (case present (bo_privateKeyBase58 opts) of
          Some priv \<Rightarrow> bindJ (PrivateKey_newFromBase58 E priv) (\<lambda>privateKey. bindJ (PrivateKey_public E privateKey) (PublicKey_toBase58 E))
        | None \<Rightarrow> throw (TypeError ''The \"publicKeyBase58\" property is required.''))) (\<lambda>publicKeyBase58.
    let key = \<lparr> bk_id = bo_id opts, bk_type = BJJVerificationKey2021, bk_revoked = None, bk_controller = bo_controller opts,
          bk_publicKeyBase58 = Some publicKeyBase58, bk_privateKeyBase58 = bo_privateKeyBase58 opts \<rparr>
    in ret (case present (bk_controller key) of
        Some controller \<Rightarrow> if present (bk_id key) = None then key\<lparr> bk_id := Some (controller @ ''#'' @ BJJ_fingerprint key) \<rparr> else key
      | None \<Rightarrow> key))"

text \<open>\<open>generate\<close> makes an Ed25519 pair; given options take the place of its keys.\<close>

definition BJJ_generate :: "ed25519_lib \<Rightarrow> eddsa_env \<Rightarrow> bytes option \<Rightarrow> bjj_opts \<Rightarrow> bjj_key js" where
  "BJJ_generate L E seed opts =
    bindJ (case seed of Some s \<Rightarrow> Ed25519_generateKeyPairFromSeed L s | None \<Rightarrow> Ed25519_generateKeyPair L) (\<lambda>keypair.
    BJJ_new E (opts\<lparr>
      bo_publicKeyBase58 := (case bo_publicKeyBase58 opts of Some p \<Rightarrow> Some p | None \<Rightarrow> Some (bytesToBase58 (ee_codec E) (kp_publicKey keypair))),
      bo_privateKeyBase58 := (case bo_privateKeyBase58 opts of Some p \<Rightarrow> Some p | None \<Rightarrow> Some (bytesToBase58 (ee_codec E) (kp_secretKey keypair))) \<rparr>))"

definition BJJ_verifyFingerprint :: "bjj_key \<Rightarrow> string \<Rightarrow> bool" where
  "BJJ_verifyFingerprint key fingerprint \<longleftrightarrow> bk_publicKeyBase58 key = Some fingerprint"

definition BJJ_publicKeyBuffer :: "eddsa_env \<Rightarrow> bjj_key \<Rightarrow> bytes option js" where
  "BJJ_publicKeyBuffer E key = (case present (bk_publicKeyBase58 key) of
     None \<Rightarrow> ret None
   | Some p \<Rightarrow> bindJ (base58ToBytes (ee_codec E) p) (\<lambda>b. ret (Some b)))"

text \<open>The private buffer is never undefined: without a private key it is that of the empty text.\<close>

definition BJJ_privateKeyBuffer :: "eddsa_env \<Rightarrow> bjj_key \<Rightarrow> bytes js" where
  "BJJ_privateKeyBuffer E key = base58ToBytes (ee_codec E) (case bk_privateKeyBase58 key of Some p \<Rightarrow> p | None \<Rightarrow> '''')"

definition BJJ_signer :: "eddsa_env \<Rightarrow> bjj_key \<Rightarrow> (bytes \<Rightarrow> bytes js) js" where
  "BJJ_signer E key =
    bindJ (BJJ_privateKeyBuffer E key) (\<lambda>privateKeyBuffer.
    ret (\<lambda>dat.
      bindJ (bytesToBigInt (ee_codec E) dat) (\<lambda>msg.
      bindJ (Eddsa_signPoseidon E privateKeyBuffer msg) (\<lambda>sig.
      Signature_compress E \<lparr> sg_R8 = sg_R8 sig, sg_S = sg_S sig \<rparr>))))"

text \<open>
  \<open>verify\<close> unpacks the buffer that the verifier holds, and unpacking writes to it: the
  second component is the buffer that the next call finds.
\<close>

definition BJJ_verify :: "eddsa_env \<Rightarrow> bytes option \<Rightarrow> bytes \<Rightarrow> bytes \<Rightarrow> (bool \<times> bytes option) js" where
  "BJJ_verify E publicKeyBuffer dat signature = (case publicKeyBuffer of
     None \<Rightarrow> throw (Error ''A public key is not available for verifying.'')
   | Some buffer \<Rightarrow>
     bindJ (bytesToBigInt (ee_codec E) dat) (\<lambda>msg.
     bindJ (Signature_newFromCompressed E (subarray signature 0 64)) (\<lambda>sig.
     bindJ (unpackPoint (ee_bj E) buffer) (\<lambda>(A, buffer').
     case A of
       None \<Rightarrow> ret (False, Some buffer')
     | Some P \<Rightarrow> bindJ (Eddsa_verifyPoseidon E msg sig (coords P)) (\<lambda>ok. ret (ok, Some buffer'))))))"

definition BJJ_export :: "bjj_key \<Rightarrow> bool \<Rightarrow> bool \<Rightarrow> bool \<Rightarrow> js_object js" where
  "BJJ_export key publicKey privateKey includeContext =
    export_flags (ret ([(''id'', opt_value (bk_id key)), (''type'', JString (bk_type key))]
      @ (if includeContext then [(''@context'', JString ''#'')] else [])
      @ (case bk_controller key of Some c \<Rightarrow> [(''controller'', JString c)] | None \<Rightarrow> [])
      @ (if publicKey then [(''publicKeyBase58'', opt_value (bk_publicKeyBase58 key))] else [])
      @ (if privateKey then [(''privateKeyBase58'', opt_value (bk_privateKeyBase58 key))] else [])
      @ (case bk_revoked key of Some r \<Rightarrow> [(''revoked'', JString r)] | None \<Rightarrow> []))) publicKey privateKey"

section \<open>Verification methods of a proof\<close>

text \<open>A field of an object, \<open>undefined\<close> when it has none; and what counts as true.\<close>

definition field :: "js_object \<Rightarrow> string \<Rightarrow> js_value" where
  "field obj name = (case map_of obj name of Some v \<Rightarrow> v | None \<Rightarrow> JUndefined)"

definition is_true :: "js_value \<Rightarrow> bool" where
  "is_true v \<longleftrightarrow> v \<notin> {JUndefined, JNull, JBool False, JNumber 0, JBigint 0, JString ''''}"

text \<open>The reference is a value, or an object with an \<open>id\<close>; arrays have none.\<close>

definition method_reference :: "js_object \<Rightarrow> js_value js" where
  "method_reference proof = (case field proof ''verificationMethod'' of
     JObject o' \<Rightarrow> ret (field o' ''id'')
   | JArray xs \<Rightarrow> ret JUndefined
   | JNull \<Rightarrow> read_undefined
   | v \<Rightarrow> ret v)"

definition load_method :: "(string \<Rightarrow> js_object js) \<Rightarrow> (js_value \<Rightarrow> (string + js_object) js) \<Rightarrow> js_object \<Rightarrow> js_object js" where
  "load_method parse documentLoader proof =
    bindJ (method_reference proof) (\<lambda>verificationMethod.
    if \<not> is_true verificationMethod then throw (Error ''No \"verificationMethod\" found in proof.'')
    else bindJ (documentLoader verificationMethod) (\<lambda>document. case document of Inl text \<Rightarrow> parse text | Inr obj \<Rightarrow> ret obj))"

section \<open>BJJSignature2021\<close>

text \<open>
  A suite as the base class leaves it: the key, a signer and a verifier, which are those of
  the key when a key was given.  A verifier of a key is its buffer.
\<close>

datatype bjj_verifier = Key_verifier "bytes option" | Given_verifier "bytes \<Rightarrow> bytes \<Rightarrow> bool js"

record bjj_suite =
  bs_key :: "bjj_key option"
  bs_signer :: "(bytes \<Rightarrow> bytes js) option"
  bs_verifier :: "bjj_verifier option"
  bs_method :: bjj_opts

definition BJJ_createVerifyData :: "credential_env \<Rightarrow> js_object \<Rightarrow> bytes js" where
  "BJJ_createVerifyData C document =
    bindJ (ClaimsTree_from (ce_pos C) (ce_codec C) document None) (\<lambda>merklized. bigintToBytes (ce_codec C) (ClaimsTree_root merklized) 0)"

definition BJJ_encodeProofValue :: "credential_env \<Rightarrow> bytes \<Rightarrow> string" where
  "BJJ_encodeProofValue C signatureBytes = MultiBase_encode (ce_codec C) signatureBytes 0"

definition BJJ_sign :: "credential_env \<Rightarrow> bjj_suite \<Rightarrow> bytes \<Rightarrow> js_object \<Rightarrow> js_object js" where
  "BJJ_sign C suite verifyData proof = (case bs_signer suite of
     None \<Rightarrow> throw (Error ''A signer API has not been specified.'')
   | Some sign \<Rightarrow> bindJ (sign verifyData) (\<lambda>signatureBytes.
       ret (obj_put proof ''proofValue'' (JString (BJJ_encodeProofValue C signatureBytes)))))"

definition BJJ_createProof :: "credential_env \<Rightarrow> bjj_suite \<Rightarrow> (js_object \<Rightarrow> js_object js) \<Rightarrow> js_object \<Rightarrow> date_arg option \<Rightarrow> js_object js" where
  "BJJ_createProof C suite purpose_update document date =
    bindJ (w3cDate C date) (\<lambda>created.
    bindJ (given (bs_key suite)) (\<lambda>key.
    bindJ (purpose_update [(''type'', JString BJJSignature2021), (''created'', JString created), (''verificationMethod'', opt_value (bk_id key))]) (\<lambda>proof.
    bindJ (BJJ_createVerifyData C document) (\<lambda>verifyData.
    BJJ_sign C suite verifyData proof))))"

definition BJJ_getVerificationMethod :: "credential_env \<Rightarrow> bjj_suite \<Rightarrow> (js_value \<Rightarrow> (string + js_object) js) \<Rightarrow> js_object \<Rightarrow> js_object js" where
  "BJJ_getVerificationMethod C suite documentLoader proof = (case bs_key suite of
     Some key \<Rightarrow> BJJ_export key True False False
   | None \<Rightarrow> load_method (ce_parse C) documentLoader proof)"

definition BJJ_verifySignature :: "credential_env \<Rightarrow> bjj_suite \<Rightarrow> bytes \<Rightarrow> bytes \<Rightarrow> (bool \<times> bjj_suite) js" where
  "BJJ_verifySignature C suite verifyData signature = (case bs_verifier suite of
     Some (Given_verifier verify) \<Rightarrow> bindJ (verify verifyData signature) (\<lambda>ok. ret (ok, suite))
   | Some (Key_verifier buffer) \<Rightarrow> bindJ (BJJ_verify (ce_eddsa C) buffer verifyData signature) (\<lambda>(ok, buffer').
       ret (ok, suite\<lparr> bs_verifier := Some (Key_verifier buffer') \<rparr>))
   | None \<Rightarrow> bindJ (BJJ_new (ce_eddsa C) (bs_method suite)) (\<lambda>key.
       bindJ (BJJ_publicKeyBuffer (ce_eddsa C) key) (\<lambda>buffer.
       bindJ (BJJ_verify (ce_eddsa C) buffer verifyData signature) (\<lambda>(ok, _). ret (ok, suite)))))"

record verify_result =
  vr_error :: "js_error option"
  vr_method :: js_object

definition verify_failed :: "js_error \<Rightarrow> verify_result" where
  "verify_failed e = \<lparr> vr_error = Some e, vr_method = [] \<rparr>"

definition suite_proof_value :: "js_object \<Rightarrow> string js" where
  "suite_proof_value proof = (case field proof ''proofValue'' of
     JString s \<Rightarrow> if is_base58btc s then ret s else unsupported_multibase
   | JUndefined \<Rightarrow> read_undefined
   | JNull \<Rightarrow> read_undefined
   | _ \<Rightarrow> unsupported_multibase)"

text \<open>
  Everything is inside one \<open>try\<close>: the result says whether the proof was verified.  A check
  that answers leaves its buffer in the verifier; one that throws (a text that does not
  decode, a signature that does not unpack) has not come to the key.
\<close>

definition BJJ_checkProof :: "credential_env \<Rightarrow> bjj_suite \<Rightarrow> js_object \<Rightarrow> js_object \<Rightarrow> (bool \<times> bjj_suite) js" where
  "BJJ_checkProof C suite document proof =
    bindJ (suite_proof_value proof) (\<lambda>proofValue.
    bindJ (BJJ_createVerifyData C document) (\<lambda>verifyData.
    bindJ (base58ToBytes (ce_codec C) (drop 1 proofValue)) (\<lambda>signature.
    BJJ_verifySignature C suite verifyData signature)))"

definition BJJ_verifyProof :: "credential_env \<Rightarrow> bjj_suite \<Rightarrow> js_object \<Rightarrow> js_object \<Rightarrow> (verify_result \<times> bjj_suite) js" where
  "BJJ_verifyProof C suite document proof =
    catchJ (bindJ (BJJ_checkProof C suite document proof) (\<lambda>(verified, suite').
        if \<not> verified then ret (verify_failed (Error ''Invalid signature.''), suite')
        else case bs_key suite of
          None \<Rightarrow> ret (verify_failed (TypeError ''Cannot read properties of undefined''), suite')
        | Some key \<Rightarrow> ret (\<lparr> vr_error = None, vr_method = [(''id'', field proof ''verificationMethod''), (''controller'', opt_value (bk_controller key)),
            (''publicKeyBase58'', opt_value (bk_publicKeyBase58 key)), (''type'', JString (bk_type key))] \<rparr>, suite')))
      (\<lambda>e. ret (verify_failed e, suite))"

section \<open>Ed25519Signature2020\<close>

definition ED_SUITE_CONTEXT_2018 :: string where "ED_SUITE_CONTEXT_2018 = ''https://w3id.org/security/suites/ed25519-2018/v1''"

record ed_suite =
  es_key :: "ed_key option"
  es_signer :: "(bytes \<Rightarrow> bytes js) option"
  es_verifier :: "(bytes \<Rightarrow> bytes \<Rightarrow> bool js) option"

definition EdSig_sign :: "uint8arrays \<Rightarrow> ed_suite \<Rightarrow> bytes \<Rightarrow> js_object \<Rightarrow> js_object js" where
  "EdSig_sign U suite verifyData proof = (case es_signer suite of
     None \<Rightarrow> throw (Error ''A signer API has not been specified.'')
   | Some sign \<Rightarrow> bindJ (sign verifyData) (\<lambda>signatureBytes. ret (obj_put proof ''proofValue'' (JString (MultiBase_encode U signatureBytes 0)))))"

definition EdSig_verifySignature :: "ed25519_lib \<Rightarrow> uint8arrays \<Rightarrow> ed_suite \<Rightarrow> bytes \<Rightarrow> from_options \<Rightarrow> js_object \<Rightarrow> bool js" where
  "EdSig_verifySignature L U suite verifyData verificationMethod proof = (case field proof ''proofValue'' of
     JString proofValue \<Rightarrow>
       if proofValue = '''' then throw (TypeError ''The proof does not include a valid \"proofValue\" property.'')
       else
         bindJ (MultiBase_decode U proofValue 0) (\<lambda>signatureBytes.
         bindJ (case es_verifier suite of Some v \<Rightarrow> ret v | None \<Rightarrow> bindJ (Ed_from U verificationMethod) (Ed_verifier L U)) (\<lambda>verify.
         verify verifyData signatureBytes))
   | _ \<Rightarrow> throw (TypeError ''The proof does not include a valid \"proofValue\" property.''))"

definition includesContext :: "js_object \<Rightarrow> string \<Rightarrow> bool" where
  "includesContext document contextUrl \<longleftrightarrow> (case field document ''@context'' of
     JString s \<Rightarrow> s = contextUrl
   | JArray xs \<Rightarrow> JString contextUrl \<in> set xs
   | _ \<Rightarrow> False)"

definition EdSig_assertVerificationMethod :: "js_object \<Rightarrow> unit js" where
  "EdSig_assertVerificationMethod verificationMethod =
    (let type = field verificationMethod ''type'' in
     bindJ (if type = JString Ed25519VerificationKey2020 then ret ED_SUITE_CONTEXT
         else if type = JString ''Ed25519VerificationKey2018'' then ret ED_SUITE_CONTEXT_2018
         else throw (Error (''Unsupported key type \"'' @ js_String type @ ''\".''))) (\<lambda>contextUrl.
     if \<not> includesContext verificationMethod contextUrl
     then throw (TypeError (''The verification method (key) must contain \"'' @ contextUrl @ ''\" context.''))
     else if field verificationMethod ''revoked'' \<noteq> JUndefined then throw (Error ''The verification method has been revoked.'')
     else ret ()))"

definition string_field :: "js_object \<Rightarrow> string \<Rightarrow> string option" where
  "string_field obj name = (case field obj name of JString s \<Rightarrow> Some s | _ \<Rightarrow> None)"

definition key2018_of :: "js_object \<Rightarrow> key2018" where
  "key2018_of obj = \<lparr> k18_id = string_field obj ''id'', k18_controller = string_field obj ''controller'',
     k18_publicKeyBase58 = string_field obj ''publicKeyBase58'', k18_privateKeyBase58 = string_field obj ''privateKeyBase58'' \<rparr>"

definition EdSig_getVerificationMethod :: "credential_env \<Rightarrow> ed_suite \<Rightarrow> (js_value \<Rightarrow> (string + js_object) js) \<Rightarrow> js_object \<Rightarrow> js_object js" where
  "EdSig_getVerificationMethod C suite documentLoader proof = (case es_key suite of
     Some key \<Rightarrow> Ed_export key True False False
   | None \<Rightarrow>
     bindJ (load_method (ce_parse C) documentLoader proof) (\<lambda>verificationMethod.
     bindJ (EdSig_assertVerificationMethod verificationMethod) (\<lambda>_.
     if field verificationMethod ''type'' = JString ''Ed25519VerificationKey2018''
     then bindJ (Ed_from2018 (ce_codec C) (Some (key2018_of verificationMethod))) (\<lambda>key. Ed_export key True False True)
     else ret verificationMethod)))"

text \<open>\<open>matchProof\<close>, with the answer of the base class.\<close>

definition EdSig_matchProof :: "ed_suite \<Rightarrow> (js_object \<Rightarrow> js_object \<Rightarrow> bool js) \<Rightarrow> js_object \<Rightarrow> js_object \<Rightarrow> bool js" where
  "EdSig_matchProof suite base_matchProof proof document =
    (if \<not> includesContext document ED_SUITE_CONTEXT then ret False
     else bindJ (base_matchProof proof document) (\<lambda>matches.
       if \<not> matches then ret False
       else case es_key suite of
         None \<Rightarrow> ret True
       | Some key \<Rightarrow> (case field proof ''verificationMethod'' of
           JObject o' \<Rightarrow> ret (field o' ''id'' = opt_value (ek_id key))
         | JArray xs \<Rightarrow> ret (opt_value (ek_id key) = JUndefined)
         | JNull \<Rightarrow> read_undefined
         | v \<Rightarrow> ret (v = opt_value (ek_id key)))))"

end
