(* ===== verification/Signals.thy ===== *)
theory Signals
  imports ClaimsTree
begin

text \<open>
  Circuit signals: packages/albus-sdk/src/utils/circuit.ts.  A signal text such as
  \<open>name[2][3]\<close> is parsed into its name and sizes, and the flat list of public inputs is
  distributed over the signals.  A value is \<open>undefined\<close>, a bigint or an array.
\<close>

section \<open>Parsing\<close>

datatype parsed_signal = Signal (sig_name: string) (sig_size: int) (sig_next: "parsed_signal option")

text \<open>\<open>Number.parseInt(s, 10)\<close>: white space, a sign, then the longest prefix of digits; \<open>None\<close> is NaN.\<close>

definition parse_nat_prefix :: "string \<Rightarrow> int option" where
  "parse_nat_prefix s = (let ds = takeWhile is_digit s in
     if ds = [] then None else Some (int (digits_value 10 (map (\<lambda>c. of_char c - 48) ds))))"

definition parseInt10 :: "string \<Rightarrow> int option" where
  "parseInt10 s0 = (let s = dropWhile is_space s0 in
     if s \<noteq> [] \<and> hd s = CHR ''-'' then map_option uminus (parse_nat_prefix (tl s))
     else if s \<noteq> [] \<and> hd s = CHR ''+'' then parse_nat_prefix (tl s)
     else parse_nat_prefix s)"

text \<open>\<open>s.indexOf(c)\<close> is \<open>js_indexOf\<close>; \<open>slice\<close> with indices in range is \<open>take\<close> and \<open>drop\<close>.\<close>

function parseSignal :: "string \<Rightarrow> parsed_signal" where
  "parseSignal signal =
    (let obracket = js_indexOf signal (CHR ''[''); cbracket = js_indexOf signal (CHR '']'') in
     if obracket \<noteq> - 1 \<and> cbracket \<noteq> - 1 \<and> obracket < cbracket then
       (let name = take (nat obracket) signal;
            numberStr = take (nat cbracket - nat obracket - 1) (drop (nat obracket + 1) signal) in
        case parseInt10 numberStr of
          Some sz \<Rightarrow> Signal name sz (Some (parseSignal (drop (nat cbracket + 1) signal)))
        | None \<Rightarrow> Signal name 0 None)
     else Signal signal 0 None)"
  by pat_completeness auto

lemma js_indexOf_range: "js_indexOf xs x = - 1 \<or> 0 \<le> js_indexOf xs x \<and> js_indexOf xs x < int (length xs)"
  by (induction xs) (auto simp: Let_def)

termination parseSignal
proof (relation "measure length")
  fix signal :: string and obracket cbracket :: int
  assume "cbracket = js_indexOf signal (CHR '']'')" "obracket \<noteq> - 1 \<and> cbracket \<noteq> - 1 \<and> obracket < cbracket"
  then have "0 < length signal" using js_indexOf_range [of signal "CHR '']''"] by auto
  then show "(drop (nat cbracket + 1) signal, signal) \<in> measure length" by simp
qed simp

declare parseSignal.simps [simp del]

section \<open>Distributing the inputs\<close>

datatype signal_value = Undefined | Big int | Arr "signal_value list"

definition truthy :: "signal_value \<Rightarrow> bool" where
  "truthy v = (case v of Undefined \<Rightarrow> False | Big n \<Rightarrow> n \<noteq> 0 | Arr _ \<Rightarrow> True)"

text \<open>\<open>inputs[idx++]\<close>: past the end it is \<open>undefined\<close>.\<close>

definition next_input :: "int list \<Rightarrow> nat \<Rightarrow> signal_value \<times> nat" where
  "next_input inputs idx = (if idx < length inputs then Big (inputs ! idx) else Undefined, idx + 1)"

definition first_value :: "signal_value list \<Rightarrow> signal_value" where
  "first_value vs = (case vs of [] \<Rightarrow> Undefined | v # _ \<Rightarrow> v)"

text \<open>\<open>Array(n).fill(null).map(f)\<close> with a state; a length that no array can have is a \<open>RangeError\<close>.\<close>

primrec repeat_state :: "nat \<Rightarrow> ('s \<Rightarrow> ('a \<times> 's) js) \<Rightarrow> 's \<Rightarrow> ('a list \<times> 's) js" where
  "repeat_state 0 f s = ret ([], s)"
| "repeat_state (Suc n) f s = bindJ (f s) (\<lambda>(x, s'). bindJ (repeat_state n f s') (\<lambda>(xs, s''). ret (x # xs, s'')))"

definition array_of :: "int \<Rightarrow> ('s \<Rightarrow> ('a \<times> 's) js) \<Rightarrow> 's \<Rightarrow> ('a list \<times> 's) js" where
  "array_of n f s = (if 0 \<le> n \<and> n < 2 ^ 32 then repeat_state (nat n) f s else throw (RangeError ''Invalid array length''))"

fun assignValue :: "int list \<Rightarrow> parsed_signal \<Rightarrow> nat \<Rightarrow> (signal_value \<times> nat) js" where
  "assignValue inputs (Signal name sz (Some nxt)) idx =
     bindJ (array_of sz (assignValue inputs nxt) idx) (\<lambda>(result, idx').
     ret (if sz \<le> 1 then first_value result else Arr result, idx'))"
| "assignValue inputs (Signal name sz None) idx =
     (if sz \<le> 1 then ret (next_input inputs idx)
      else bindJ (array_of sz (\<lambda>i. ret (next_input inputs i)) idx) (\<lambda>(result, idx'). ret (Arr result, idx')))"

text \<open>What an empty object already answers to.\<close>

definition inherited_names :: "string list" where
  "inherited_names = [''constructor'', ''__proto__'', ''hasOwnProperty'', ''isPrototypeOf'', ''propertyIsEnumerable'',
     ''toLocaleString'', ''toString'', ''valueOf'', ''__defineGetter__'', ''__defineSetter__'', ''__lookupGetter__'', ''__lookupSetter__'']"

type_synonym signal_map = "(string \<times> signal_value) list"

definition holds_truthy :: "signal_map \<Rightarrow> string \<Rightarrow> bool" where
  "holds_truthy m name \<longleftrightarrow> (case map_of m name of Some v \<Rightarrow> truthy v | None \<Rightarrow> name \<in> set inherited_names)"

definition signal_step :: "int list \<Rightarrow> signal_map \<times> nat \<Rightarrow> string \<Rightarrow> (signal_map \<times> nat) js" where
  "signal_step inputs st symbol =
    (let sig = parseSignal symbol; (m, idx) = st in
     if holds_truthy m (sig_name sig) then ret (m, idx)
     else bindJ (assignValue inputs sig idx) (\<lambda>(v, idx'). ret (obj_put m (sig_name sig) v, idx')))"

definition getSignals :: "string list \<Rightarrow> int list \<Rightarrow> signal_map js" where
  "getSignals symbols inputs = bindJ (foldJ (signal_step inputs) ([], 0) symbols) (\<lambda>(m, _). ret m)"

text \<open>\<open>YYYYMMDD\<close> from the year, the month counted from 0 and the day in UTC.\<close>

definition formatCircuitDate :: "int \<Rightarrow> int \<Rightarrow> int \<Rightarrow> string" where
  "formatCircuitDate year month day =
    to_radix 10 year @ padStart 2 (CHR ''0'') (to_radix 10 (month + 1)) @ padStart 2 (CHR ''0'') (to_radix 10 day)"

section \<open>Specification\<close>

text \<open>A declared signal: a name and its sizes; its text and its parsed form.\<close>

fun size_text :: "nat list \<Rightarrow> string" where
  "size_text [] = ''''"
| "size_text (n # ns) = ''['' @ to_radix 10 (int n) @ '']'' @ size_text ns"

fun sized :: "string \<Rightarrow> nat list \<Rightarrow> parsed_signal" where
  "sized name [] = Signal name 0 None"
| "sized name (n # ns) = Signal name (int n) (Some (sized '''' ns))"

definition plain_name :: "string \<Rightarrow> bool" where
  "plain_name s \<longleftrightarrow> CHR ''['' \<notin> set s \<and> CHR '']'' \<notin> set s"

text \<open>The inputs in a value, and the value that a shape makes of a list of inputs.\<close>

fun flat :: "signal_value \<Rightarrow> int list" where
  "flat Undefined = []"
| "flat (Big n) = [n]"
| "flat (Arr vs) = concat (map flat vs)"

fun cut :: "nat \<Rightarrow> nat \<Rightarrow> 'a list \<Rightarrow> 'a list list" where
  "cut 0 w xs = []"
| "cut (Suc n) w xs = take w xs # cut n w (drop w xs)"

fun shaped :: "nat list \<Rightarrow> int list \<Rightarrow> signal_value" where
  "shaped [] xs = Big (hd xs)"
| "shaped (n # ns) xs = (if n = 1 then shaped ns xs else Arr (map (shaped ns) (cut n (prod_list ns) xs)))"

lemma js_indexOf_notin: "x \<notin> set xs \<Longrightarrow> js_indexOf xs x = - 1"
  by (induction xs) auto

lemma js_indexOf_append: "x \<notin> set xs \<Longrightarrow> js_indexOf (xs @ x # ys) x = int (length xs)"
  by (induction xs) (auto simp: Let_def)

definition decimal_char :: "char \<Rightarrow> nat \<Rightarrow> bool" where
  "decimal_char c d \<longleftrightarrow> is_digit c \<and> of_char c = 48 + d \<and> c \<noteq> CHR ''['' \<and> c \<noteq> CHR '']'' \<and> \<not> is_space c \<and> c \<noteq> CHR ''-'' \<and> c \<noteq> CHR ''+''"

lemma digit_char_digit: "d < 10 \<Longrightarrow> decimal_char (digit_char d) d"
proof -
  assume d: "d < 10"
  have n: "(of_char (digit_char d) :: nat) = 48 + d" using d by (simp add: digit_char_def Let_def)
  have ne: "digit_char d \<noteq> c" if "(of_char c :: nat) < 48 \<or> 57 < (of_char c :: nat)" for c
  proof
    assume "digit_char d = c"
    then have "(of_char c :: nat) = 48 + d" using n by simp
    then show False using that d by linarith
  qed
  show ?thesis using d by (simp add: decimal_char_def is_digit_def is_space_def n ne)
qed

lemmas decimal_chars = digit_char_digit [unfolded decimal_char_def]

lemma parseInt10_decimal: "parseInt10 (to_radix 10 (int n)) = Some (int n)"
proof -
  define ds where "ds = radix_digits 10 n"
  have ds: "d < 10" if "d \<in> set ds" for d using radix_digits_less [of 10 d n] that by (simp add: ds_def)
  have "ds \<noteq> []" by (simp add: ds_def)
  then obtain e es where e: "ds = e # es" by (cases ds) auto
  have w: "takeWhile is_digit (map digit_char ds) = map digit_char ds"
    using ds decimal_chars by (auto simp: takeWhile_eq_all_conv)
  have "map (\<lambda>c. of_char c - 48) (map digit_char ds) = ds"
    unfolding map_map using ds decimal_chars by (intro map_idI) auto
  then have "parse_nat_prefix (map digit_char ds) = Some (int n)"
    unfolding parse_nat_prefix_def w Let_def using \<open>ds \<noteq> []\<close> digits_value_radix_digits [of 10 n]
    by (simp add: ds_def [symmetric] del: map_map)
  then show ?thesis
    using decimal_chars [OF ds [of e]] by (simp add: parseInt10_def to_radix_def ds_def [symmetric] e)
qed

lemma parse_sized: "plain_name name \<Longrightarrow> parseSignal (name @ size_text ns) = sized name ns"
proof (induction ns arbitrary: name)
  case Nil
  then show ?case by (subst parseSignal.simps) (simp add: plain_name_def js_indexOf_notin)
next
  case (Cons n ns)
  define w where "w = to_radix 10 (int n)"
  have digits: "d < 10" if "d \<in> set (radix_digits 10 n)" for d using radix_digits_less [of 10 d n] that by simp
  have w: "CHR ''['' \<notin> set w" "CHR '']'' \<notin> set w"
    using digits decimal_chars by (fastforce simp: w_def to_radix_def)+
  define s where "s = name @ CHR ''['' # w @ CHR '']'' # size_text ns"
  have o: "js_indexOf s (CHR ''['') = int (length name)"
    using Cons.prems by (simp add: s_def plain_name_def js_indexOf_append)
  have c: "js_indexOf s (CHR '']'') = int (length name + 1 + length w)"
    using Cons.prems w js_indexOf_append [of "CHR '']''" "name @ CHR ''['' # w" "size_text ns"] by (simp add: s_def plain_name_def)
  have parts: "take (length name) s = name" "take (length name + 1 + length w - length name - 1) (drop (length name + 1) s) = w"
    "drop (length name + 1 + length w + 1) s = size_text ns"
    by (simp_all add: s_def)
  have "parseSignal s = Signal name (int n) (Some (parseSignal (size_text ns)))"
    unfolding parseSignal.simps [of s] Let_def o c nat_int parts
    using parseInt10_decimal [of n] by (simp add: w_def [symmetric])
  moreover have "parseSignal (size_text ns) = sized '''' ns"
    using Cons.IH [of "''''"] by (simp add: plain_name_def)
  ultimately show ?case by (simp add: s_def w_def)
qed

section \<open>The inputs are distributed\<close>

lemma map_of_insert_new: "k \<notin> fst ` set m \<Longrightarrow> map_of (insert_new k v m) = (map_of m)(k \<mapsto> v)"
  by (induction m) (auto simp: fun_eq_iff)

lemma map_of_replaced:
  "map_of (map (\<lambda>(k', v'). if k' = k then (k, v) else (k', v')) m) x = (if x = k then map_option (\<lambda>_. v) (map_of m k) else map_of m x)"
proof (induction m)
  case (Cons e m)
  obtain k' v' where "e = (k', v')" by (cases e)
  then show ?case using Cons by (cases "x = k") simp_all
qed simp

lemma map_of_obj_put: "map_of (obj_put m k v) = (map_of m)(k \<mapsto> v)"
proof (cases "k \<in> fst ` set m")
  case True
  then obtain v' where "map_of m k = Some v'" by (metis map_of_eq_None_iff not_None_eq)
  then show ?thesis unfolding obj_put_def if_P [OF True] by (simp add: fun_eq_iff map_of_replaced)
qed (simp add: obj_put_def map_of_insert_new)

lemma repeat_state_steps:
  "(\<And>k. k < n \<Longrightarrow> f (i + k * w) = ret (g k, i + k * w + w)) \<Longrightarrow> repeat_state n f i = ret (map g [0..<n], i + n * w)"
proof (induction n arbitrary: i g)
  case (Suc n)
  have "f i = ret (g 0, i + w)" using Suc.prems [of 0] by simp
  moreover have "repeat_state n f (i + w) = ret (map (\<lambda>k. g (Suc k)) [0..<n], (i + w) + n * w)"
    by (rule Suc.IH) (use Suc.prems [of "Suc k" for k] in \<open>simp add: ac_simps\<close>)
  moreover have "map g [0..<Suc n] = g 0 # map (\<lambda>k. g (Suc k)) [0..<n]"
    by (simp add: map_upt_Suc del: upt_Suc)
  ultimately show ?case by simp
qed simp

lemma cut_map: "cut n w xs = map (\<lambda>k. take w (drop (k * w) xs)) [0..<n]"
proof (induction n arbitrary: xs)
  case (Suc n)
  then show ?case by (simp add: map_upt_Suc ac_simps del: upt_Suc)
qed simp

lemma shaped_take: "0 < prod_list ns \<Longrightarrow> prod_list ns \<le> length xs \<Longrightarrow> shaped ns (take (prod_list ns) xs) = shaped ns xs"
proof (induction ns arbitrary: xs)
  case Nil
  then show ?case by (cases xs) simp_all
next
  case (Cons n ns)
  have "cut n (prod_list ns) (take (n * prod_list ns) xs) = cut n (prod_list ns) xs"
  proof -
    have "take (prod_list ns) (drop (k * prod_list ns) (take (n * prod_list ns) xs)) = take (prod_list ns) (drop (k * prod_list ns) xs)" if "k < n" for k
    proof -
      have "Suc k * prod_list ns \<le> n * prod_list ns" using that by (intro mult_le_mono1) simp
      then have "prod_list ns \<le> n * prod_list ns - k * prod_list ns" by simp
      then show ?thesis by (simp only: drop_take take_take min.absorb1)
    qed
    then show ?thesis by (simp add: cut_map)
  qed
  then show ?case using Cons by (cases "n = 1") simp_all
qed

lemma concat_cut: "n * w \<le> length xs \<Longrightarrow> concat (cut n w xs) = take (n * w) xs"
proof (induction n arbitrary: xs)
  case (Suc n)
  then show ?case by (simp add: take_add)
qed simp

lemma flat_shaped: "0 < prod_list ns \<Longrightarrow> prod_list ns \<le> length xs \<Longrightarrow> flat (shaped ns xs) = take (prod_list ns) xs"
proof (induction ns arbitrary: xs)
  case Nil
  then show ?case by (cases xs) simp_all
next
  case (Cons n ns)
  have "flat (shaped ns ys) = ys" if y: "ys \<in> set (cut n (prod_list ns) xs)" for ys
  proof -
    obtain k where k: "k < n" "ys = take (prod_list ns) (drop (k * prod_list ns) xs)" using y by (auto simp: cut_map)
    have "Suc k * prod_list ns \<le> n * prod_list ns" using k(1) by (intro mult_le_mono1) simp
    then have "length ys = prod_list ns" using k(2) Cons.prems(2) by simp
    then show ?thesis using Cons.IH [of ys] Cons.prems(1) by simp
  qed
  then have "map (flat \<circ> shaped ns) (cut n (prod_list ns) xs) = cut n (prod_list ns) xs" by (intro map_idI) simp
  then show ?case using Cons concat_cut [of n "prod_list ns" xs] by auto
qed

definition good_sizes :: "nat list \<Rightarrow> bool" where
  "good_sizes ns \<longleftrightarrow> (\<forall>n \<in> set ns. 0 < n \<and> n < 2 ^ 32)"

lemma good_sizes_pos: "good_sizes ns \<Longrightarrow> 0 < prod_list ns"
  by (induction ns) (auto simp: good_sizes_def)

lemma assign_sized:
  "good_sizes ns \<Longrightarrow> idx + prod_list ns \<le> length inputs \<Longrightarrow>
   assignValue inputs (sized name ns) idx = ret (shaped ns (drop idx inputs), idx + prod_list ns)"
proof (induction ns arbitrary: idx name)
  case Nil
  then show ?case by (simp add: next_input_def hd_drop_conv_nth)
next
  case (Cons n ns)
  let ?w = "prod_list ns"
  have g: "good_sizes ns" "0 < n" "int n < 2 ^ 32" using Cons.prems(1) by (auto simp: good_sizes_def)
  have step: "assignValue inputs (sized '''' ns) (idx + k * ?w) = ret (shaped ns (take ?w (drop (k * ?w) (drop idx inputs))), idx + k * ?w + ?w)"
    if "k < n" for k
  proof -
    have "Suc k * ?w \<le> n * ?w" using that by (intro mult_le_mono1) simp
    then have l: "idx + k * ?w + ?w \<le> length inputs" using Cons.prems(2) by simp
    then have "assignValue inputs (sized '''' ns) (idx + k * ?w) = ret (shaped ns (drop (idx + k * ?w) inputs), idx + k * ?w + ?w)"
      using Cons.IH [OF g(1)] by simp
    moreover have "shaped ns (take ?w (drop (idx + k * ?w) inputs)) = shaped ns (drop (idx + k * ?w) inputs)"
      using shaped_take [OF good_sizes_pos [OF g(1)]] l by simp
    ultimately show ?thesis by (simp add: ac_simps)
  qed
  have rep: "array_of (int n) (assignValue inputs (sized '''' ns)) idx = ret (map (shaped ns) (cut n ?w (drop idx inputs)), idx + n * ?w)"
    using repeat_state_steps [of n "assignValue inputs (sized '''' ns)" idx ?w, OF step] g(2,3)
    by (simp add: array_of_def cut_map comp_def)
  show ?case
  proof (cases "n = 1")
    case True
    have "shaped ns (take ?w (drop idx inputs)) = shaped ns (drop idx inputs)"
      using shaped_take [OF good_sizes_pos [OF g(1)]] Cons.prems(2) True by simp
    then show ?thesis using rep True by (simp add: first_value_def)
  next
    case False
    then show ?thesis using rep g(2) by simp
  qed
qed

text \<open>Declared signals with their sizes, and where each one's inputs begin.\<close>

type_synonym signal_decl = "string \<times> nat list"

definition decl_text :: "signal_decl \<Rightarrow> string" where "decl_text d = fst d @ size_text (snd d)"

definition decl_width :: "signal_decl \<Rightarrow> nat" where "decl_width d = prod_list (snd d)"

definition decls_ok :: "signal_decl list \<Rightarrow> bool" where
  "decls_ok ds \<longleftrightarrow> distinct (map fst ds) \<and> (\<forall>d \<in> set ds. plain_name (fst d) \<and> fst d \<notin> set inherited_names \<and> good_sizes (snd d))"

definition start_of :: "signal_decl list \<Rightarrow> nat \<Rightarrow> nat" where
  "start_of ds i = sum_list (map decl_width (take i ds))"

lemma signals_loop:
  assumes "decls_ok ds" "sum_list (map decl_width ds) \<le> length inputs"
  shows "\<exists>m. foldJ (signal_step inputs) ([], 0) (map decl_text ds) = ret (m, sum_list (map decl_width ds)) \<and>
    map_of m = map_of (map (\<lambda>i. (fst (ds ! i), shaped (snd (ds ! i)) (drop (start_of ds i) inputs))) [0..<length ds])"
  using assms
proof (induction ds rule: rev_induct)
  case (snoc d ds)
  define w where "w = sum_list (map decl_width ds)"
  have ok: "decls_ok ds" "plain_name (fst d)" "fst d \<notin> set inherited_names" "good_sizes (snd d)" "fst d \<notin> fst ` set ds"
    using snoc.prems(1) by (auto simp: decls_ok_def)
  let ?e = "\<lambda>ds i. (fst (ds ! i), shaped (snd (ds ! i)) (drop (start_of ds i) inputs))"
  obtain m where m: "foldJ (signal_step inputs) ([], 0) (map decl_text ds) = ret (m, w)"
    "map_of m = map_of (map (?e ds) [0..<length ds])"
    using snoc.IH [OF ok(1)] snoc.prems(2) by (auto simp: w_def)
  have "map (?e (ds @ [d])) [0..<length ds] = map (?e ds) [0..<length ds]"
    by (intro map_cong) (auto simp: nth_append start_of_def)
  moreover have "?e (ds @ [d]) (length ds) = (fst d, shaped (snd d) (drop w inputs))" by (simp add: start_of_def w_def)
  ultimately have e: "map (?e (ds @ [d])) [0..<length (ds @ [d])] = map (?e ds) [0..<length ds] @ [(fst d, shaped (snd d) (drop w inputs))]"
    by simp
  have none: "map_of m (fst d) = None"
    unfolding m(2) map_of_eq_None_iff using ok(5) by (auto simp: image_iff)
  have "signal_step inputs (m, w) (decl_text d) = ret (obj_put m (fst d) (shaped (snd d) (drop w inputs)), w + decl_width d)"
  proof -
    have n: "sig_name (sized (fst d) (snd d)) = fst d" by (cases "snd d") simp_all
    have "decl_width d = prod_list (snd d)" by (simp add: decl_width_def)
    then have "w + prod_list (snd d) \<le> length inputs" using snoc.prems(2) by (simp add: w_def)
    then show ?thesis
      using ok none assign_sized [OF ok(4)] by (simp add: signal_step_def decl_text_def parse_sized n holds_truthy_def decl_width_def)
  qed
  moreover have "map_of (obj_put m (fst d) v) = map_of (map (?e ds) [0..<length ds] @ [(fst d, v)])" for v
    using none unfolding map_of_obj_put m(2) by (auto simp: fun_eq_iff map_add_def split: option.splits)
  ultimately have "foldJ (signal_step inputs) ([], 0) (map decl_text (ds @ [d])) = ret (obj_put m (fst d) (shaped (snd d) (drop w inputs)), w + decl_width d)"
    "map_of (obj_put m (fst d) (shaped (snd d) (drop w inputs))) = map_of (map (?e (ds @ [d])) [0..<length (ds @ [d])])"
    unfolding e using m(1) by (simp_all add: foldJ_append)
  moreover have "w + decl_width d = sum_list (map decl_width (ds @ [d]))" by (simp add: w_def)
  ultimately show ?case
    by (intro exI [of _ "obj_put m (fst d) (shaped (snd d) (drop w inputs))"] conjI) (simp_all only:)
qed simp

section \<open>Properties\<close>

text \<open>
  C23: for declared signals with distinct names that no object inherits and sizes from 1,
  \<open>getSignals\<close> of their texts assigns each signal the value of its shape from its own
  stretch of the inputs; together the values hold the inputs in order, each of them once.
\<close>

theorem getSignals_distributes:
  assumes "decls_ok ds" "sum_list (map decl_width ds) \<le> length inputs"
  shows "\<exists>m. getSignals (map decl_text ds) inputs = ret m \<and>
    (\<forall>i < length ds. map_of m (fst (ds ! i)) = Some (shaped (snd (ds ! i)) (drop (start_of ds i) inputs))) \<and>
    concat (map (\<lambda>d. case map_of m (fst d) of Some v \<Rightarrow> flat v | None \<Rightarrow> []) ds) = take (sum_list (map decl_width ds)) inputs"
proof -
  let ?e = "\<lambda>i. (fst (ds ! i), shaped (snd (ds ! i)) (drop (start_of ds i) inputs))"
  obtain m where m: "foldJ (signal_step inputs) ([], 0) (map decl_text ds) = ret (m, sum_list (map decl_width ds))"
    "map_of m = map_of (map ?e [0..<length ds])"
    using signals_loop [OF assms] by blast
  have "map fst (map ?e [0..<length ds]) = map fst ds" by (rule nth_equalityI) simp_all
  then have d: "distinct (map fst (map ?e [0..<length ds]))" using assms(1) by (simp add: decls_ok_def del: map_map)
  have at: "map_of m (fst (ds ! i)) = Some (shaped (snd (ds ! i)) (drop (start_of ds i) inputs))" if "i < length ds" for i
    unfolding m(2) by (rule map_of_is_SomeI [OF d]) (use that in auto)
  have "concat (map (\<lambda>d. case map_of m (fst d) of Some v \<Rightarrow> flat v | None \<Rightarrow> []) (take n ds)) = take (start_of ds n) inputs" if "n \<le> length ds" for n
    using that
  proof (induction n)
    case (Suc n)
    have "start_of ds (Suc n) = start_of ds n + decl_width (ds ! n)"
      using Suc.prems by (simp add: start_of_def take_Suc_conv_app_nth)
    moreover have "start_of ds (Suc n) \<le> length inputs"
    proof -
      have "sum_list (map decl_width ds) = start_of ds (Suc n) + sum_list (map decl_width (drop (Suc n) ds))"
        unfolding start_of_def by (metis append_take_drop_id map_append sum_list_append)
      then show ?thesis using assms(2) by simp
    qed
    moreover have "0 < prod_list (snd (ds ! n))"
      using assms(1) Suc.prems by (intro good_sizes_pos) (simp add: decls_ok_def)
    ultimately have "flat (shaped (snd (ds ! n)) (drop (start_of ds n) inputs)) = take (decl_width (ds ! n)) (drop (start_of ds n) inputs)"
      by (simp add: flat_shaped decl_width_def)
    then show ?case
      using Suc at [of n] by (simp add: take_Suc_conv_app_nth take_add \<open>start_of ds (Suc n) = _\<close>)
  qed (simp add: start_of_def)
  from this [of "length ds"] show ?thesis
    using m(1) at by (intro exI [of _ m]) (simp add: getSignals_def start_of_def)
qed

theorem getSignals_distributes_witness:
  "\<exists>m. getSignals [''root'', ''proof[3]'', ''keys[2][2]''] [10, 0, 12, 13, 14, 15, 16, 17] = ret m \<and>
    map_of m ''root'' = Some (Big 10) \<and> map_of m ''proof'' = Some (Arr [Big 0, Big 12, Big 13]) \<and>
    map_of m ''keys'' = Some (Arr [Arr [Big 14, Big 15], Arr [Big 16, Big 17]])"
proof -
  let ?ds = "[(''root'', []), (''proof'', [3]), (''keys'', [2, 2 :: nat])]" and ?in = "[10, 0, 12, 13, 14, 15, 16, 17 :: int]"
  have dec: "to_radix 10 3 = ''3''" "to_radix 10 2 = ''2''" by code_simp+
  have t: "map decl_text ?ds = [''root'', ''proof[3]'', ''keys[2][2]'']" by (simp add: decl_text_def dec)
  have ok: "decls_ok ?ds" by (simp add: decls_ok_def plain_name_def inherited_names_def good_sizes_def)
  have le: "sum_list (map decl_width ?ds) \<le> length ?in" by (simp add: decl_width_def)
  obtain m where m: "getSignals (map decl_text ?ds) ?in = ret m"
    "\<forall>i < length ?ds. map_of m (fst (?ds ! i)) = Some (shaped (snd (?ds ! i)) (drop (start_of ?ds i) ?in))"
    using getSignals_distributes [OF ok le] by blast
  have "map_of m ''root'' = Some (shaped [] (drop (start_of ?ds 0) ?in))" "map_of m ''proof'' = Some (shaped [3] (drop (start_of ?ds 1) ?in))"
    "map_of m ''keys'' = Some (shaped [2, 2] (drop (start_of ?ds 2) ?in))"
    using m(2) [rule_format, of 0] m(2) [rule_format, of 1] m(2) [rule_format, of 2] by simp_all
  then show ?thesis
    using m(1) unfolding t by (simp add: start_of_def decl_width_def numeral_2_eq_2 numeral_3_eq_3)
qed

end
