(* ===== verification/KeySuitesCorrect.thy ===== *)
theory KeySuitesCorrect
  imports KeySuites CredentialCorrect Signals
begin

text \<open>
  Correctness of the linked-data keys and suites: what a suite signs it verifies, on each
  branch that its reading of signatures and keys has; what a verifier holds after its first
  use; and the forms in which an Ed25519 key is written.
\<close>

section \<open>Baby Jubjub keys\<close>

text \<open>A point as the buffer that a verifier holds: before, and after the first unpacking.\<close>

definition low_half :: "babyjub \<Rightarrow> int \<times> int \<Rightarrow> int \<times> int" where
  "low_half B P = (if fst P > pm1d2 B then (F_p (bj_F B) - fst P, snd P) else P)"

lemma low_half:
  assumes B: "bj_codec_ok B" and P: "bj_pt B P"
  shows "bj_pt B (low_half B P)" "packPoint B (low_half B P) = ret (le_bytes 32 (snd P))"
    "unpackPoint B (le_bytes 32 (snd P)) = ret (if fst P = 0 then None else Some (low_half B P), le_bytes 32 (snd P))"
proof -
  let ?p = "F_p (bj_F B)"
  have r: "0 \<le> fst P" "fst P < ?p" using P by (simp_all add: bj_pt_def in_field_def)
  have h: "pm1d2 B = (?p - 1) div 2" using B by (simp add: bj_codec_ok_def)
  have p1: "1 < ?p" using B bj_okD [of B] by (simp add: bj_codec_ok_def)
  have "bj_A B * (?p - fst P)\<^sup>2 + (snd P)\<^sup>2 - 1 - bj_D B * (?p - fst P)\<^sup>2 * (snd P)\<^sup>2 =
      (bj_A B * (fst P)\<^sup>2 + (snd P)\<^sup>2 - 1 - bj_D B * (fst P)\<^sup>2 * (snd P)\<^sup>2) + ?p * ((?p - 2 * fst P) * (bj_A B - bj_D B * (snd P)\<^sup>2))"
    by (simp add: power2_eq_square algebra_simps)
  then have "ed_curve ?p (bj_A B) (bj_D B) (fst P) (snd P) \<Longrightarrow> ed_curve ?p (bj_A B) (bj_D B) (?p - fst P) (snd P)"
    unfolding ed_curve_def by (metis dvd_add dvd_triv_left)
  then show pt: "bj_pt B (low_half B P)"
    using P r h p1 by (auto simp: bj_pt_def low_half_def in_field_def)
  have "odd ?p" using bj_odd B by (simp add: bj_codec_ok_def)
  then have "?p - (?p - 1) div 2 - 1 = (?p - 1) div 2" by presburger
  then have small: "\<not> fst (low_half B P) > pm1d2 B" using r h by (auto simp: low_half_def)
  have s: "snd (low_half B P) = snd P" by (simp add: low_half_def)
  show pk: "packPoint B (low_half B P) = ret (le_bytes 32 (snd P))"
    using packPoint_bytes [OF B pt] small s by simp
  have "fst (low_half B P) = 0 \<longleftrightarrow> fst P = 0" using r h p1 by (auto simp: low_half_def)
  then show "unpackPoint B (le_bytes 32 (snd P)) = ret (if fst P = 0 then None else Some (low_half B P), le_bytes 32 (snd P))"
    using unpack_pack(1) [OF B pt pk] s by simp
qed

text \<open>A key that was made from a private key alone; and the suite that a caller builds from it.\<close>

definition bjj_ready :: "credential_env \<Rightarrow> bjj_opts \<Rightarrow> bytes \<Rightarrow> bool" where
  "bjj_ready C opts prv \<longleftrightarrow> credential_ok C \<and> u_fromString (ce_codec C) Base58btc '''' = ret [] \<and> bo_publicKeyBase58 opts = None \<and>
     (\<exists>priv. bo_privateKeyBase58 opts = Some priv \<and> priv \<noteq> '''' \<and> base58ToBytes (ce_codec C) priv = ret prv) \<and> 8 * length prv < 2 ^ 128"

definition suite_of :: "bjj_key \<Rightarrow> (bytes \<Rightarrow> bytes js) \<Rightarrow> bytes \<Rightarrow> bjj_opts \<Rightarrow> bjj_suite" where
  "suite_of key sign buffer vm = \<lparr> bs_key = Some key, bs_signer = Some sign, bs_verifier = Some (Key_verifier (Some buffer)), bs_method = vm \<rparr>"

lemma suite_of_sel [simp]:
  "bs_key (suite_of key sign buffer vm) = Some key" "bs_signer (suite_of key sign buffer vm) = Some sign"
  "bs_verifier (suite_of key sign buffer vm) = Some (Key_verifier (Some buffer))"
  "suite_of key sign buffer vm\<lparr> bs_verifier := Some (Key_verifier (Some buffer')) \<rparr> = suite_of key sign buffer' vm"
  by (simp_all add: suite_of_def)

lemma bjj_key_parts:
  assumes "bjj_ready C opts prv"
  obtains key A kb where "BJJ_new (ce_eddsa C) opts = ret key" "prv2pub (ce_eddsa C) prv = ret A" "bj_pt (ee_bj (ce_eddsa C)) A"
    "PublicKey_compress (ce_eddsa C) A = ret kb" "BJJ_publicKeyBuffer (ce_eddsa C) key = ret (Some kb)" "BJJ_privateKeyBuffer (ce_eddsa C) key = ret prv"
    "bk_controller key = bo_controller opts" "bk_publicKeyBase58 key = Some (bytesToBase58 (ce_codec C) kb)" "bk_type key = BJJVerificationKey2021"
proof -
  let ?E = "ce_eddsa C" let ?U = "ce_codec C"
  have C: "credential_ok C" and e: "u_fromString ?U Base58btc '''' = ret []" and b: "8 * length prv < 2 ^ 128"
    using assms by (simp_all add: bjj_ready_def)
  note ok = credential_okD [OF C]
  obtain priv where priv: "bo_privateKeyBase58 opts = Some priv" "priv \<noteq> ''''" "base58ToBytes ?U priv = ret prv" "bo_publicKeyBase58 opts = None"
    using assms by (auto simp: bjj_ready_def)
  obtain A where A: "prv2pub ?E prv = ret A" "bj_pt (ee_bj ?E) A"
    using prv2pub_times [OF ok(5,6) b] bj.times_pt [OF ok(5,6)] by metis
  obtain kb where kb: "PublicKey_compress ?E A = ret kb" "length kb = 32" using compressed_key [OF ok(2) A(2)] by blast
  have pub: "PublicKey_toBase58 ?E A = ret (bytesToBase58 ?U kb)" by (simp add: PublicKey_toBase58_def kb)
  have ne: "kb \<noteq> []" using kb(2) by auto
  have dec: "base58ToBytes ?U (bytesToBase58 ?U kb) = ret kb" "bytesToBase58 ?U kb \<noteq> ''''"
    using ok(3) base58_nonempty [OF ok(3) ne e] by (simp_all add: base58ToBytes_def bytesToBase58_def codec_ok_def)
  define key0 where "key0 = \<lparr> bk_id = bo_id opts, bk_type = BJJVerificationKey2021, bk_revoked = None, bk_controller = bo_controller opts,
          bk_publicKeyBase58 = Some (bytesToBase58 ?U kb), bk_privateKeyBase58 = Some priv \<rparr>"
  define key where "key = (case present (bo_controller opts) of
        Some controller \<Rightarrow> if present (bo_id opts) = None then key0\<lparr> bk_id := Some (controller @ ''#'' @ bytesToBase58 ?U kb) \<rparr> else key0
      | None \<Rightarrow> key0)"
  have "BJJ_new ?E opts = ret key"
    using priv A(1) pub
    by (simp add: BJJ_new_def present_def PrivateKey_newFromBase58_def PrivateKey_public_def key0_def key_def BJJ_fingerprint_def Let_def split: option.splits)
  moreover have "bk_publicKeyBase58 key = Some (bytesToBase58 ?U kb)" "bk_privateKeyBase58 key = Some priv" "bk_controller key = bo_controller opts"
    "bk_type key = BJJVerificationKey2021"
    by (simp_all add: key_def key0_def split: option.splits)
  ultimately show ?thesis
    using that [of key A kb] A kb(1) dec priv(3) by (simp add: BJJ_publicKeyBuffer_def BJJ_privateKeyBuffer_def present_def)
qed

section \<open>Baby Jubjub suites\<close>

text \<open>What a suite answers for a signature that it reads, when it tried it on a point or on none.\<close>

definition suite_answer :: "eddsa_env \<Rightarrow> bjj_suite \<Rightarrow> bjj_suite \<Rightarrow> js_object \<Rightarrow> int \<Rightarrow> signature \<Rightarrow> (int \<times> int) option \<Rightarrow> (verify_result \<times> bjj_suite) js" where
  "suite_answer E suite suite' proof msg sig A =
    (if sg_R8 sig ! 0 = 0 then ret (verify_failed (Error ''unpackSignature failed''), suite)
     else case A of
       None \<Rightarrow> ret (verify_failed (Error ''Invalid signature.''), suite')
     | Some P \<Rightarrow> (case bs_key suite of
         None \<Rightarrow> None
       | Some key \<Rightarrow> if Eddsa_verifyPoseidon E msg sig (coords P) = ret True
           then ret (\<lparr> vr_error = None, vr_method = [(''id'', field proof ''verificationMethod''), (''controller'', opt_value (bk_controller key)),
              (''publicKeyBase58'', opt_value (bk_publicKeyBase58 key)), (''type'', JString (bk_type key))] \<rparr>, suite')
           else ret (verify_failed (Error ''Invalid signature.''), suite')))"

lemma suite_verifies:
  assumes U: "codec_ok (ce_codec C)" and l: "length sb = 64"
    and data: "BJJ_createVerifyData C document = ret vd" "bytesToBigInt (ce_codec C) vd = ret msg"
    and sig: "Signature_newFromCompressed (ce_eddsa C) sb = read_signature sig"
    and buffer: "unpackPoint (ee_bj (ce_eddsa C)) buffer = ret (A, buffer')"
    and answers: "\<And>P. A = Some P \<Longrightarrow> \<exists>ok. Eddsa_verifyPoseidon (ce_eddsa C) msg sig (coords P) = ret ok"
    and p: "field p ''proofValue'' = JString (MultiBase_encode (ce_codec C) sb 0)"
  shows "BJJ_verifyProof C (suite_of key sign buffer vm) document p =
    suite_answer (ce_eddsa C) (suite_of key sign buffer vm) (suite_of key sign buffer' vm) p msg sig A"
proof -
  have tx: "suite_proof_value p = ret (MultiBase_encode (ce_codec C) sb 0)"
      "base58ToBytes (ce_codec C) (drop 1 (MultiBase_encode (ce_codec C) sb 0)) = ret sb" "subarray sb 0 64 = sb"
    using U l by (simp_all add: suite_proof_value_def p is_base58btc_def MultiBase_encode_def MULTIBASE_base58btc_def base58ToBytes_def
      bytesToBase58_def codec_ok_def subarray_def rel_index_def)
  have v: "BJJ_verify (ce_eddsa C) (Some buffer) vd sb = bindJ (read_signature sig) (\<lambda>s. case A of
      None \<Rightarrow> ret (False, Some buffer') | Some P \<Rightarrow> bindJ (Eddsa_verifyPoseidon (ce_eddsa C) msg s (coords P)) (\<lambda>ok. ret (ok, Some buffer')))"
    by (simp add: BJJ_verify_def data tx(3) sig buffer)
  have c: "BJJ_checkProof C (suite_of key sign buffer vm) document p = bindJ (BJJ_verify (ce_eddsa C) (Some buffer) vd sb) (\<lambda>(ok, b).
      ret (ok, suite_of key sign buffer vm\<lparr> bs_verifier := Some (Key_verifier b) \<rparr>))"
    unfolding BJJ_checkProof_def tx data bindJ_ret by (simp add: BJJ_verifySignature_def)
  show ?thesis
  proof (cases A)
    case None
    then show ?thesis by (simp add: BJJ_verifyProof_def c v read_signature_def suite_answer_def)
  next
    case (Some P)
    then obtain ok where "Eddsa_verifyPoseidon (ce_eddsa C) msg sig (coords P) = ret ok" using answers by blast
    then show ?thesis
      by (cases ok) (simp_all add: BJJ_verifyProof_def c v read_signature_def suite_answer_def Some)
  qed
qed

lemma verifyPoseidon_answers:
  assumes E: "eddsa_ok E" and sig: "sg_R8 sig = coords R" "bj_pt (ee_bj E) R" "0 \<le> sg_S sig" and P: "bj_pt (ee_bj E) P"
  shows "\<exists>ok. Eddsa_verifyPoseidon E msg sig (coords P) = ret ok"
proof -
  let ?B = "ee_bj E"
  have B: "bj_ok ?B" "bj_pt ?B (Base8 ?B)" and pe: "env_ok (ee_pos E)" using E by (simp_all add: eddsa_ok_def)
  obtain hm where h: "Poseidon_hash (ee_pos E) [fst R, snd R, fst P, snd P, msg] = ret hm" "in_field (pe_F (ee_pos E)) hm"
    using Poseidon_hash_total [OF pe, of "[fst R, snd R, fst P, snd P, msg]"] by auto
  have "0 \<le> hm * 8" using h(2) by (simp add: in_field_def)
  then have "mulPointEscalar ?B P (Scalar_mul hm 8) = ret (bj.times ?B (nat (hm * 8)) P)"
    using mulPointEscalar_times [OF B(1) P] by (simp add: Scalar_mul_def)
  moreover obtain Q where "addPoint ?B R (bj.times ?B (nat (hm * 8)) P) = ret Q"
    using bj_add_sum(1) [OF B(1) sig(2) bj.times_pt [OF B(1) P]] by blast
  moreover have "length (sg_R8 sig) = 2" "sg_R8 sig ! 0 = fst R" "sg_R8 sig ! 1 = snd R" "coords P ! 0 = fst P" "coords P ! 1 = snd P"
    by (simp_all add: sig(1) coords_def)
  moreover have "inCurve ?B R" "inCurve ?B P" using sig(2) P bj_pt_inCurve [OF B(1)] by blast+
  ultimately show ?thesis
    using h(1) mulPointEscalar_times [OF B sig(3)] by (auto simp: Eddsa_verifyPoseidon_def Let_def sig(1) simp del: not_le not_less)
qed

text \<open>The proof that a suite makes, and the buffers before and after its first verification.\<close>

lemma bjj_suite_parts:
  assumes r: "bjj_ready C opts prv" and T: "ClaimsTree_from (ce_pos C) (ce_codec C) document None = ret T" "0 \<le> ClaimsTree_root T" "ClaimsTree_root T < 2 ^ 256"
    and d: "w3cDate C date = ret created"
  obtains key sign buffer sig A signed where "BJJ_new (ce_eddsa C) opts = ret key" "BJJ_signer (ce_eddsa C) key = ret sign"
    "BJJ_publicKeyBuffer (ce_eddsa C) key = ret (Some buffer)" "PublicKey_compress (ce_eddsa C) A = ret buffer"
    "Eddsa_signPoseidon (ce_eddsa C) prv (ClaimsTree_root T) = ret sig" "prv2pub (ce_eddsa C) prv = ret A" "bj_pt (ee_bj (ce_eddsa C)) A"
    "Eddsa_verifyPoseidon (ce_eddsa C) (ClaimsTree_root T) sig (coords A) = ret True"
    "\<And>b vm. BJJ_createProof C (suite_of key sign b vm) (\<lambda>proof. ret (f proof)) document date = ret signed"
    "\<And>b b' vm A'. unpackPoint (ee_bj (ce_eddsa C)) b = ret (A', b') \<Longrightarrow> (\<And>P. A' = Some P \<Longrightarrow> bj_pt (ee_bj (ce_eddsa C)) P) \<Longrightarrow>
       BJJ_verifyProof C (suite_of key sign b vm) document signed =
         suite_answer (ce_eddsa C) (suite_of key sign b vm) (suite_of key sign b' vm) signed (ClaimsTree_root T) sig A'"
proof -
  let ?E = "ce_eddsa C" let ?U = "ce_codec C" let ?B = "ee_bj (ce_eddsa C)"
  have C: "credential_ok C" and l: "8 * length prv < 2 ^ 128" using r by (simp_all add: bjj_ready_def)
  note ok = credential_okD [OF C]
  obtain key A kb where k: "BJJ_new ?E opts = ret key" "prv2pub ?E prv = ret A" "bj_pt ?B A"
    "PublicKey_compress ?E A = ret kb" "BJJ_publicKeyBuffer ?E key = ret (Some kb)" "BJJ_privateKeyBuffer ?E key = ret prv"
    using bjj_key_parts [OF r] by metis
  obtain sig A' sb where s: "Eddsa_signPoseidon ?E prv (ClaimsTree_root T) = ret sig" "prv2pub ?E prv = ret A'"
    "Eddsa_verifyPoseidon ?E (ClaimsTree_root T) sig (coords A') = ret True"
    "Signature_compress ?E sig = ret sb" "length sb = 64" "Signature_newFromCompressed ?E sb = read_signature sig"
    using signature_parts [OF C l T(2,3)] by metis
  have A': "A' = A" using s(2) k(2) by simp
  have m: "ClaimsTree_root T < 256 ^ 32" using T(3) by simp
  obtain rr hm where "Eddsa_signPoseidon ?E prv (ClaimsTree_root T) = ret \<lparr> sg_R8 = coords (bj.times ?B (nat rr) (Base8 ?B)),
      sg_S = (rr + hm * secret_scalar prv) mod subOrder ?B \<rparr>"
    using sign_result [OF ok(1) l T(2) m] by metis
  then have sg: "sg_R8 sig = coords (bj.times ?B (nat rr) (Base8 ?B))" "0 \<le> sg_S sig"
    using s(1) ok(1) prime_modulus_gt_1 [of "subOrder ?B"] by (auto simp: eddsa_ok_def)
  obtain vd where vd: "bigintToBytes ?U (ClaimsTree_root T) 0 = ret vd" "bytesToBigInt ?U vd = ret (ClaimsTree_root T)"
    using bigint_bytes [OF ok(3) T(2)] by metis
  have data: "BJJ_createVerifyData C document = ret vd" by (simp add: BJJ_createVerifyData_def T(1) vd(1))
  define sign where "sign = (\<lambda>dat. bindJ (bytesToBigInt ?U dat) (\<lambda>msg. bindJ (Eddsa_signPoseidon ?E prv msg) (\<lambda>sig.
      Signature_compress ?E \<lparr> sg_R8 = sg_R8 sig, sg_S = sg_S sig \<rparr>)))"
  have "Signature_compress ?E \<lparr> sg_R8 = sg_R8 sig, sg_S = sg_S sig \<rparr> = ret sb" using s(4) by (cases sig) simp
  then have sign: "BJJ_signer ?E key = ret sign" "sign vd = ret sb"
    using k(6) vd(2) s(1) by (simp_all add: BJJ_signer_def sign_def)
  define proof0 where "proof0 = f [(''type'', JString BJJSignature2021), (''created'', JString created), (''verificationMethod'', opt_value (bk_id key))]"
  define signed where "signed = obj_put proof0 ''proofValue'' (JString (MultiBase_encode ?U sb 0))"
  have create: "BJJ_createProof C (suite_of key sign b vm) (\<lambda>proof. ret (f proof)) document date = ret signed" for b vm
    by (simp add: BJJ_createProof_def d given_def data BJJ_sign_def sign(2) BJJ_encodeProofValue_def signed_def proof0_def)
  have pv: "field signed ''proofValue'' = JString (MultiBase_encode ?U sb 0)"
    by (simp add: field_def signed_def map_of_obj_put)
  have verify: "BJJ_verifyProof C (suite_of key sign b vm) document signed =
      suite_answer ?E (suite_of key sign b vm) (suite_of key sign b' vm) signed (ClaimsTree_root T) sig A'"
    if "unpackPoint ?B b = ret (A', b')" "\<And>P. A' = Some P \<Longrightarrow> bj_pt ?B P" for b b' vm A'
    by (rule suite_verifies [OF ok(3) s(5) data vd(2) s(6) that(1) _ pv])
      (rule verifyPoseidon_answers [OF ok(1) sg(1) bj.times_pt [OF ok(5,6)] sg(2) that(2)])
  show ?thesis
    by (rule that [OF k(1) sign(1) k(5,4) s(1) k(2,3) s(3) [unfolded A'] create verify])
qed

section \<open>Ed25519 keys\<close>

text \<open>What a client relies on: the verifier of a key accepts what its signer signs.\<close>

locale key_scheme =
  fixes ready :: "'k \<Rightarrow> bool" and signer :: "'k \<Rightarrow> (bytes \<Rightarrow> bytes js) js" and verifier :: "'k \<Rightarrow> (bytes \<Rightarrow> bytes \<Rightarrow> bool js) js"
  assumes accepts: "ready k \<Longrightarrow> \<exists>sign verify. signer k = ret sign \<and> verifier k = ret verify \<and> (\<forall>m. \<exists>s. sign m = ret s \<and> verify m s = ret True)"
begin

text \<open>And so it accepts the signature that it reads from the text of a proof.\<close>

lemma accepts_text:
  assumes "ready k" "codec_ok U"
  obtains sign verify where "signer k = ret sign" "verifier k = ret verify"
    "\<And>m. \<exists>s. sign m = ret s \<and> verify m s = ret True \<and> MultiBase_encode U s 0 \<noteq> '''' \<and> bindJ (MultiBase_decode U (MultiBase_encode U s 0) 0) (verify m) = ret True"
proof -
  obtain sign verify where v: "signer k = ret sign" "verifier k = ret verify" "\<And>m. \<exists>s. sign m = ret s \<and> verify m s = ret True"
    using accepts [OF assms(1)] by blast
  have "MultiBase_encode U s 0 \<noteq> ''''" "MultiBase_decode U (MultiBase_encode U s 0) 0 = ret s" for s
    using assms(2) by (simp_all add: MultiBase_encode_def MultiBase_decode_def codec_ok_def base58ToBytes_def bytesToBase58_def)
  then show ?thesis using that v by (metis bindJ_ret)
qed

end

text \<open>The curve library: a 32-byte seed has a public key, which verifies what the seed signs.\<close>

definition ed25519_ok :: "ed25519_lib \<Rightarrow> bool" where
  "ed25519_ok L \<longleftrightarrow> (\<forall>seed. length seed = 32 \<longrightarrow> (\<exists>pk. el_getPublicKey L seed = ret pk \<and> length pk = 32 \<and>
     (\<forall>m. \<exists>s. el_sign L m seed = ret s \<and> el_verify L s m pk = ret True)))"

definition holds_pair :: "ed25519_lib \<times> uint8arrays \<times> ed_key \<Rightarrow> bool" where
  "holds_pair k \<longleftrightarrow> (case k of (L, U, key) \<Rightarrow> ed25519_ok L \<and> (\<exists>seed pk. length seed = 32 \<and> el_getPublicKey L seed = ret pk \<and>
     Ed_publicKeyBuffer U key = ret (Some pk) \<and> Ed_privateKeyBuffer U key = ret (Some (seed @ pk))))"

interpretation ed: key_scheme holds_pair "\<lambda>(L, U, key). Ed_signer L U key" "\<lambda>(L, U, key). Ed_verifier L U key"
proof
  fix k assume k: "holds_pair k"
  obtain L U key where e: "k = (L, U, key)" by (cases k)
  obtain seed pk where p: "ed25519_ok L" "length seed = 32" "el_getPublicKey L seed = ret pk" "Ed_publicKeyBuffer U key = ret (Some pk)"
    "Ed_privateKeyBuffer U key = ret (Some (seed @ pk))"
    using k by (auto simp: holds_pair_def e)
  have "subarray (seed @ pk) 0 32 = seed" using p(2) by (simp add: subarray_def rel_index_def)
  then show "\<exists>sign verify. (case k of (L, U, key) \<Rightarrow> Ed_signer L U key) = ret sign \<and> (case k of (L, U, key) \<Rightarrow> Ed_verifier L U key) = ret verify \<and>
      (\<forall>m. \<exists>s. sign m = ret s \<and> verify m s = ret True)"
    using p by (auto simp: e Ed_signer_def Ed_verifier_def Ed25519_sign_def ed25519_ok_def)
qed

lemma codec_bytes: "codec_hi 0xED01 = 0xED" "codec_lo 0xED01 = 0x01" "codec_hi 0x8026 = 0x80" "codec_lo 0x8026 = 0x26"
  by code_simp+

text \<open>A multibase text that \<open>MultiBase.encode\<close> wrote has its header and its bytes.\<close>

lemma multibase_parts:
  assumes "codec_ok U"
  shows "isValidKeyHeader U (MultiBase_encode U b (ed25519Pub MultiBase_codec)) ED25519_PUB_HEADER = ret True"
    "isValidKeyHeader U (MultiBase_encode U b (ed25519Priv MultiBase_codec)) ED25519_PRIV_HEADER = ret True"
    "key_buffer U (Some (MultiBase_encode U b (ed25519Pub MultiBase_codec))) = ret (Some b)"
    "key_buffer U (Some (MultiBase_encode U b (ed25519Priv MultiBase_codec))) = ret (Some b)"
    "present (Some (MultiBase_encode U b c)) = Some (MultiBase_encode U b c)" "is_base58btc (MultiBase_encode U b c)"
    "base58ToBytes U (drop 1 (MultiBase_encode U b (ed25519Pub MultiBase_codec))) = ret (0xED # 0x01 # b)"
  using assms by (simp_all add: isValidKeyHeader_def MultiBase_encode_def is_base58btc_def MULTIBASE_base58btc_def MultiBase_codec_def codec_ok_def
    base58ToBytes_def bytesToBase58_def codec_bytes ED25519_PUB_HEADER_def ED25519_PRIV_HEADER_def key_buffer_def present_def
    subarray_from_def rel_index_def upt_rec)

text \<open>The key that the constructor leaves for a valid public text.\<close>

definition new_key :: "ed_opts \<Rightarrow> string \<Rightarrow> ed_key" where
  "new_key opts pub = \<lparr> ek_id = (case present (eo_controller opts) of
        Some c \<Rightarrow> if present (eo_id opts) = None then Some (c @ ''#'' @ pub) else eo_id opts | None \<Rightarrow> eo_id opts),
     ek_controller = eo_controller opts, ek_revoked = None,
     ek_type = (case eo_type opts of Some t \<Rightarrow> t | None \<Rightarrow> Ed25519VerificationKey2020), ek_publicKeyMultibase = pub, ek_privateKeyMultibase = eo_privateKeyMultibase opts \<rparr>"

lemma Ed_new_checks:
  assumes "present (eo_publicKeyMultibase opts) = Some pub"
  shows "Ed_new U opts = bindJ (isValidKeyHeader U pub ED25519_PUB_HEADER) (\<lambda>ok.
     if \<not> ok then throw (Error (''\"publicKeyMultibase\" has invalid header bytes: \"'' @ pub @ ''\".''))
     else bindJ (case present (eo_privateKeyMultibase opts) of Some priv \<Rightarrow> isValidKeyHeader U priv ED25519_PRIV_HEADER | None \<Rightarrow> ret True) (\<lambda>ok.
     if \<not> ok then throw (Error ''\"privateKeyMultibase\" has invalid header bytes.'')
     else bindJ (key_buffer U (Some pub)) (\<lambda>b. bindJ (assertKeyBytes b 32) (\<lambda>_. ret (new_key opts pub)))))"
  unfolding Ed_new_def assms option.case
  by (cases "present (eo_controller opts)"; cases "present (eo_id opts)"; cases "eo_type opts")
    (simp_all add: Let_def Ed_publicKeyBuffer_def new_key_def Ed_fingerprint_def cong: if_cong)

lemma Ed_new_encoded:
  assumes "codec_ok U" "length pk = 32" "eo_publicKeyMultibase opts = Some (MultiBase_encode U pk (ed25519Pub MultiBase_codec))"
    "eo_privateKeyMultibase opts = None \<or> (\<exists>b. eo_privateKeyMultibase opts = Some (MultiBase_encode U b (ed25519Priv MultiBase_codec)))"
  shows "Ed_new U opts = ret (new_key opts (MultiBase_encode U pk (ed25519Pub MultiBase_codec)))"
proof -
  note m = multibase_parts [OF assms(1)]
  have none: "present None = None" by (simp add: present_def)
  have priv: "(case present (eo_privateKeyMultibase opts) of Some priv \<Rightarrow> isValidKeyHeader U priv ED25519_PRIV_HEADER | None \<Rightarrow> ret True) = ret True"
    using assms(4) m(2,5) none by auto
  show ?thesis
    unfolding Ed_new_checks [of opts, unfolded assms(3), OF m(5)] m(1) bindJ_ret priv
    by (simp add: m(3) assertKeyBytes_def assms(2))
qed

text \<open>A key and its public part, as the options that the suite hands to \<open>from\<close>.\<close>

definition exported_options :: "ed_key \<Rightarrow> from_options" where
  "exported_options key = \<lparr> fo_opts = \<lparr> eo_publicKeyMultibase = Some (ek_publicKeyMultibase key), eo_privateKeyMultibase = None,
     eo_type = Some (ek_type key), eo_controller = ek_controller key, eo_id = ek_id key \<rparr>, fo_keyPair = None, fo_publicKeyJwk = None \<rparr>"

lemma exported_key:
  assumes "codec_ok U" "length pk = 32" "ek_publicKeyMultibase key = MultiBase_encode U pk (ed25519Pub MultiBase_codec)" "ek_type key = Ed25519VerificationKey2020"
  shows "bindJ (Ed_from U (exported_options key)) (Ed_verifier L U) = Ed_verifier L U key"
proof -
  let ?e = "fo_opts (exported_options key)"
  have "Ed_new U ?e = ret (new_key ?e (ek_publicKeyMultibase key))" unfolding assms(3)
    by (rule Ed_new_encoded [OF assms(1,2)]) (simp_all add: exported_options_def assms(3))
  moreover have "Ed_verifier L U (new_key ?e (ek_publicKeyMultibase key)) = Ed_verifier L U key"
    by (simp add: Ed_verifier_def Ed_publicKeyBuffer_def new_key_def)
  ultimately show ?thesis
    using assms(4) by (simp add: Ed_from_def exported_options_def Ed25519VerificationKey2020_def JSON_WEB_KEY_def)
qed

text \<open>What the suite of a key signs, a suite that is handed a method of the same key accepts.\<close>

lemma ed_suite_verifies:
  assumes "codec_ok U" "holds_pair (L, U, key)" "bindJ (Ed_from U vm) (Ed_verifier L U) = Ed_verifier L U key"
  obtains sign where "Ed_signer L U key = ret sign"
    "\<And>d p. \<exists>signed. EdSig_sign U \<lparr> es_key = Some key, es_signer = Some sign, es_verifier = None \<rparr> d p = ret signed \<and>
       EdSig_verifySignature L U \<lparr> es_key = None, es_signer = None, es_verifier = None \<rparr> d vm signed = ret True"
proof -
  obtain sign verify where v: "Ed_signer L U key = ret sign" "Ed_verifier L U key = ret verify"
    "\<And>d. \<exists>s. sign d = ret s \<and> verify d s = ret True \<and> MultiBase_encode U s 0 \<noteq> '''' \<and> bindJ (MultiBase_decode U (MultiBase_encode U s 0) 0) (verify d) = ret True"
    using ed.accepts_text [OF assms(2,1)] by auto
  have read: "bindJ (Ed_from U vm) (Ed_verifier L U) = ret verify" using assms(3) v(2) by simp
  have "\<exists>signed. EdSig_sign U \<lparr> es_key = Some key, es_signer = Some sign, es_verifier = None \<rparr> d p = ret signed \<and>
       EdSig_verifySignature L U \<lparr> es_key = None, es_signer = None, es_verifier = None \<rparr> d vm signed = ret True" for d p
  proof -
    obtain s where s: "sign d = ret s" "MultiBase_encode U s 0 \<noteq> ''''" "bindJ (MultiBase_decode U (MultiBase_encode U s 0) 0) (verify d) = ret True"
      using v(3) by blast
    have f: "field (obj_put p ''proofValue'' (JString (MultiBase_encode U s 0))) ''proofValue'' = JString (MultiBase_encode U s 0)"
      by (simp add: field_def map_of_obj_put)
    show ?thesis
      by (simp add: EdSig_sign_def s(1) EdSig_verifySignature_def f s(2) read) (rule s(3))
  qed
  then show ?thesis using that v(1) by blast
qed

lemma generated_key:
  assumes U: "codec_ok U" and L: "ed25519_ok L" and seed: "length seed = 32"
    and opts: "eo_publicKeyMultibase opts = None" "eo_privateKeyMultibase opts = None"
  obtains pk where "el_getPublicKey L seed = ret pk" "length pk = 32"
    "Ed_generate L U (Some seed) opts = ret (new_key (opts\<lparr> eo_publicKeyMultibase := Some (MultiBase_encode U pk (ed25519Pub MultiBase_codec)),
       eo_privateKeyMultibase := Some (MultiBase_encode U (seed @ pk) (ed25519Priv MultiBase_codec)) \<rparr>) (MultiBase_encode U pk (ed25519Pub MultiBase_codec)))"
proof -
  obtain pk where pk: "el_getPublicKey L seed = ret pk" "length pk = 32" using L seed by (auto simp: ed25519_ok_def)
  have "Ed25519_generateKeyPairFromSeed L seed = ret \<lparr> kp_secretKey = seed @ pk, kp_publicKey = pk \<rparr>"
    using seed pk by (simp add: Ed25519_generateKeyPairFromSeed_def typed_set_def put_bytes_def)
  note gen = this
  have "Ed_generate L U (Some seed) opts = ret (new_key (opts\<lparr> eo_publicKeyMultibase := Some (MultiBase_encode U pk (ed25519Pub MultiBase_codec)),
       eo_privateKeyMultibase := Some (MultiBase_encode U (seed @ pk) (ed25519Priv MultiBase_codec)) \<rparr>) (MultiBase_encode U pk (ed25519Pub MultiBase_codec)))"
    unfolding Ed_generate_def option.case opts gen bindJ_ret KeyPair.select_convs
    by (rule Ed_new_encoded [OF U pk(2)]) (simp_all, blast)
  then show ?thesis using that [OF pk] by blast
qed

lemma isEqualBuffer_eq: "isEqualBuffer b c \<longleftrightarrow> b = c"
  by (auto simp: isEqualBuffer_def list_all_iff intro: nth_equalityI)

text \<open>A fingerprint of a key verifies for the keys with the same bytes.\<close>

lemma verifyFingerprint_bytes:
  assumes "is_base58btc fingerprint" "base58ToBytes U (drop 1 fingerprint) = ret (0xED # 0x01 # pk)" "Ed_publicKeyBuffer U key = ret (Some own)"
  shows "Ed_verifyFingerprint U key fingerprint = ret (if own = pk then None else Some (Error ''The fingerprint does not match the public key.''))"
proof -
  have read: "(case ret b of None \<Rightarrow> None | Some (Inl e) \<Rightarrow> f e | Some (Inr x) \<Rightarrow> g x) = g b" for b :: bytes and f and g :: "bytes \<Rightarrow> 'z js"
    by (simp add: ret_def)
  show ?thesis
    unfolding Ed_verifyFingerprint_def assms(2) read
    by (simp add: assms(1,3) given_def ED25519_PUB_HEADER_def isEqualBuffer_eq subarray_from_def rel_index_def)
qed

text \<open>What the constructor has checked.\<close>

lemma constructed_key:
  assumes "Ed_new U opts = ret key"
  obtains pk where "is_base58btc (ek_publicKeyMultibase key)" "base58ToBytes U (drop 1 (ek_publicKeyMultibase key)) = ret (0xED # 0x01 # pk)" "length pk = 32"
    "Ed_publicKeyBuffer U key = ret (Some pk)" "present (ek_controller key) \<noteq> None \<longrightarrow> present (ek_id key) \<noteq> None"
proof -
  obtain pub where pub: "present (eo_publicKeyMultibase opts) = Some pub" using assms by (auto simp: Ed_new_def split: option.splits)
  have r: "isValidKeyHeader U pub ED25519_PUB_HEADER = ret True"
    "bindJ (key_buffer U (Some pub)) (\<lambda>b. bindJ (assertKeyBytes b 32) (\<lambda>_. ret (new_key opts pub))) = ret key"
    using assms unfolding Ed_new_checks [OF pub] by (auto simp: bindJ_eq_ret split: if_splits)
  obtain b where b: "key_buffer U (Some pub) = ret b" "assertKeyBytes b 32 = ret ()" "key = new_key opts pub"
    using r(2) by (auto simp: bindJ_eq_ret)
  obtain pk where pk: "b = Some pk" "length pk = 32" using b(2) by (auto simp: assertKeyBytes_def split: option.splits if_splits)
  have sel: "ek_publicKeyMultibase key = pub" by (simp add: b(3) new_key_def)
  have ident: "present (ek_controller key) \<noteq> None \<longrightarrow> present (ek_id key) \<noteq> None"
    by (auto simp: b(3) new_key_def present_def split: option.splits)
  have ne: "present (Some pub) = Some pub" using pub by (auto simp: present_def split: option.splits if_splits)
  obtain bs where bs: "base58ToBytes U (drop 1 pub) = ret bs" "subarray_from bs 2 = pk"
    using b(1) by (auto simp: key_buffer_def ne pk(1) bindJ_eq_ret)
  have h: "is_base58btc pub" "0 < length bs \<and> bs ! 0 = 0xED \<and> 1 < length bs \<and> bs ! 1 = 0x01"
    using r(1) bs(1) by (auto simp: isValidKeyHeader_def ED25519_PUB_HEADER_def upt_rec split: if_splits)
  then obtain x y rest where "bs = x # y # rest" by (cases bs; cases "tl bs") auto
  then have "bs = 0xED # 0x01 # pk" using h(2) bs(2) by (simp add: subarray_from_def rel_index_def)
  then show ?thesis using that [of pk] h(1) bs(1) pk b(1) sel ident by (simp add: Ed_publicKeyBuffer_def)
qed

text \<open>Stand-ins that meet the contracts.\<close>

definition ed_open :: ed25519_lib where
  "ed_open = \<lparr> el_getPublicKey = ret, el_randomPrivateKey = replicate 32 0, el_sign = (\<lambda>m k. ret (k @ m)),
     el_verify = (\<lambda>s m k. ret (s = k @ m)), el_sha256 = (\<lambda>m. m) \<rparr>"

definition opts_ab :: bjj_opts where
  "opts_ab = \<lparr> bo_id = None, bo_controller = None, bo_publicKeyBase58 = None, bo_privateKeyBase58 = Some ''ab'' \<rparr>"

section \<open>Properties\<close>

text \<open>
  C20: a suite whose key was made from a private key, with the key's own signer and verifier,
  accepts the proof that it made for a document: the answer carries the key's public part.
  A signature or a key with \<open>x = 0\<close> cannot be unpacked, and the answer is the error of that
  case.  The same suite's second answer is that of the point in the lower half, because the
  verifier's buffer has lost its sign bit.
\<close>

theorem bjj_suite_roundtrip:
  assumes "bjj_ready C opts prv" "ClaimsTree_from (ce_pos C) (ce_codec C) document None = ret T"
    "0 \<le> ClaimsTree_root T" "ClaimsTree_root T < 2 ^ 256" "w3cDate C date = ret created"
  shows "\<exists>key sign buffer sig A signed. BJJ_new (ce_eddsa C) opts = ret key \<and> BJJ_signer (ce_eddsa C) key = ret sign \<and>
    BJJ_publicKeyBuffer (ce_eddsa C) key = ret (Some buffer) \<and> prv2pub (ce_eddsa C) prv = ret A \<and>
    Eddsa_signPoseidon (ce_eddsa C) prv (ClaimsTree_root T) = ret sig \<and>
    (let suite = suite_of key sign buffer vm; later = suite_of key sign (le_bytes 32 (snd A)) vm;
         refused = (\<lambda>text. verify_failed (Error text));
         accepted = \<lparr> vr_error = None, vr_method = [(''id'', field signed ''verificationMethod''), (''controller'', opt_value (bk_controller key)),
           (''publicKeyBase58'', opt_value (bk_publicKeyBase58 key)), (''type'', JString (bk_type key))] \<rparr>;
         answer = (\<lambda>good. if sg_R8 sig ! 0 = 0 then refused ''unpackSignature failed'' else if fst A = 0 \<or> \<not> good then refused ''Invalid signature.'' else accepted)
     in BJJ_createProof C suite (\<lambda>proof. ret (f proof)) document date = ret signed \<and>
        BJJ_verifyProof C suite document signed = ret (answer True, if sg_R8 sig ! 0 = 0 then suite else later) \<and>
        BJJ_verifyProof C later document signed =
          ret (answer (fst A > pm1d2 (ee_bj (ce_eddsa C)) \<longrightarrow> Eddsa_verifyPoseidon (ce_eddsa C) (ClaimsTree_root T) sig
            [F_p (bj_F (ee_bj (ce_eddsa C))) - fst A, snd A] = ret True), later))"
proof -
  let ?E = "ce_eddsa C" and ?B = "ee_bj (ce_eddsa C)"
  obtain key sign buffer sig A signed where p: "BJJ_new ?E opts = ret key" "BJJ_signer ?E key = ret sign"
    "BJJ_publicKeyBuffer ?E key = ret (Some buffer)" "PublicKey_compress ?E A = ret buffer"
    "Eddsa_signPoseidon ?E prv (ClaimsTree_root T) = ret sig" "prv2pub ?E prv = ret A" "bj_pt ?B A"
    "Eddsa_verifyPoseidon ?E (ClaimsTree_root T) sig (coords A) = ret True"
    "\<And>b vm. BJJ_createProof C (suite_of key sign b vm) (\<lambda>proof. ret (f proof)) document date = ret signed"
    "\<And>b b' vm A'. unpackPoint ?B b = ret (A', b') \<Longrightarrow> (\<And>P. A' = Some P \<Longrightarrow> bj_pt ?B P) \<Longrightarrow>
       BJJ_verifyProof C (suite_of key sign b vm) document signed =
         suite_answer ?E (suite_of key sign b vm) (suite_of key sign b' vm) signed (ClaimsTree_root T) sig A'"
    by (rule bjj_suite_parts [OF assms, where f = f]) blast
  have B: "bj_codec_ok ?B" using assms(1) by (simp add: bjj_ready_def credential_ok_def)
  note low = low_half [OF B p(7)]
  have first: "unpackPoint ?B buffer = ret (if fst A = 0 then None else Some A, le_bytes 32 (snd A))"
    using unpack_pack(1) [OF B p(7)] p(4) by (simp add: PublicKey_compress_def)
  have half: "coords (low_half ?B A) = (if fst A > pm1d2 ?B then [F_p (bj_F ?B) - fst A, snd A] else coords A)"
    by (simp add: low_half_def coords_def)
  note once = p(10) [OF first, of vm] and twice = p(10) [OF low(3), of vm]
  have a: "BJJ_verifyProof C (suite_of key sign buffer vm) document signed = suite_answer ?E (suite_of key sign buffer vm)
      (suite_of key sign (le_bytes 32 (snd A)) vm) signed (ClaimsTree_root T) sig (if fst A = 0 then None else Some A)"
    by (rule once) (use p(7) in \<open>simp split: if_splits\<close>)
  have b: "BJJ_verifyProof C (suite_of key sign (le_bytes 32 (snd A)) vm) document signed = suite_answer ?E (suite_of key sign (le_bytes 32 (snd A)) vm)
      (suite_of key sign (le_bytes 32 (snd A)) vm) signed (ClaimsTree_root T) sig (if fst A = 0 then None else Some (low_half ?B A))"
    by (rule twice) (use low(1) in \<open>simp split: if_splits\<close>)
  show ?thesis
    by (rule exI [of _ key], rule exI [of _ sign], rule exI [of _ buffer], rule exI [of _ sig], rule exI [of _ A], rule exI [of _ signed])
      (simp add: Let_def p(1-3,5,6,8,9) a b suite_answer_def half)
qed

theorem bjj_suite_roundtrip_witness:
  "\<exists>document T key sign buffer sig A signed. ClaimsTree_from (ce_pos cred17) (ce_codec cred17) document None = ret T \<and>
     BJJ_new (ce_eddsa cred17) opts_ab = ret key \<and>
     BJJ_signer (ce_eddsa cred17) key = ret sign \<and> BJJ_publicKeyBuffer (ce_eddsa cred17) key = ret (Some buffer) \<and> prv2pub (ce_eddsa cred17) [97, 98] = ret A \<and>
     Eddsa_signPoseidon (ce_eddsa cred17) [97, 98] (ClaimsTree_root T) = ret sig \<and>
     BJJ_createProof cred17 (suite_of key sign buffer opts_ab) ret document None = ret signed \<and>
     (sg_R8 sig ! 0 \<noteq> 0 \<longrightarrow> fst A \<noteq> 0 \<longrightarrow> (\<exists>v. BJJ_verifyProof cred17 (suite_of key sign buffer opts_ab) document signed = ret v \<and> vr_error (fst v) = None))"
proof -
  have "base58ToBytes text_codec ''ab'' = ret [97, 98]" "u_fromString text_codec Base58btc '''' = ret []"
    by (simp_all add: base58ToBytes_def text_codec_def plain_codec_def)
  then have r: "bjj_ready cred17 opts_ab [97, 98]" using cred17_ok by (simp add: bjj_ready_def opts_ab_def)
  obtain T where T: "credential_tree cred17 vc17 = ret T" "ClaimsTree_root T = 5" using cred17_tree by blast
  then obtain document where doc: "ClaimsTree_from (ce_pos cred17) (ce_codec cred17) document None = ret T"
    unfolding credential_tree_def createCredentialTree_def by blast
  have root: "0 \<le> ClaimsTree_root T" "ClaimsTree_root T < 2 ^ 256" by (simp_all add: T(2))
  have d: "w3cDate cred17 None = ret (subarray (to_radix 10 1 @ ''.000Z'') 0 (- 5) @ ''Z'')" by (simp add: w3cDate_def cred17_def)
  obtain key sign buffer sig A signed where v: "BJJ_new (ce_eddsa cred17) opts_ab = ret key" "BJJ_signer (ce_eddsa cred17) key = ret sign"
    "BJJ_publicKeyBuffer (ce_eddsa cred17) key = ret (Some buffer)" "prv2pub (ce_eddsa cred17) [97, 98] = ret A"
    "Eddsa_signPoseidon (ce_eddsa cred17) [97, 98] (ClaimsTree_root T) = ret sig"
    "BJJ_createProof cred17 (suite_of key sign buffer opts_ab) ret document None = ret signed"
    "sg_R8 sig ! 0 \<noteq> 0 \<longrightarrow> fst A \<noteq> 0 \<longrightarrow> (\<exists>v. BJJ_verifyProof cred17 (suite_of key sign buffer opts_ab) document signed = ret v \<and> vr_error (fst v) = None)"
    using bjj_suite_roundtrip [OF r doc root d, where f = "\<lambda>p. p" and vm = opts_ab] unfolding Let_def by fastforce
  show ?thesis
    by (rule exI [of _ document], rule exI [of _ T], rule exI [of _ key], rule exI [of _ sign], rule exI [of _ buffer],
        rule exI [of _ sig], rule exI [of _ A], rule exI [of _ signed]) (use doc v in blast)
qed

text \<open>
  C21: a generated Ed25519 key holds its 64-byte secret and 32-byte public key behind their
  headers; its own fingerprint verifies and gives the same public key; the 2018 form of the
  pair is read back as the same key; and what its suite signs is accepted by a suite that
  has only the exported public part.
\<close>

theorem ed_key_lifecycle:
  assumes "codec_ok U" "ed25519_ok L" "length seed = 32" "u_fromString U Base58btc '''' = ret []"
  shows "\<exists>key pk sign. Ed_generate L U (Some seed) (no_ed_opts\<lparr> eo_id := ident, eo_controller := controller \<rparr>) = ret key \<and> el_getPublicKey L seed = ret pk \<and>
    Ed_publicKeyBuffer U key = ret (Some pk) \<and> Ed_privateKeyBuffer U key = ret (Some (seed @ pk)) \<and>
    Ed_verifyFingerprint U key (Ed_fingerprint key) = ret None \<and>
    bindJ (Ed_fromFingerprint U (Ed_fingerprint key)) (Ed_publicKeyBuffer U) = ret (Some pk) \<and>
    Ed_from2018 U (Some \<lparr> k18_id = ident, k18_controller = controller, k18_publicKeyBase58 = Some (bytesToBase58 U pk),
      k18_privateKeyBase58 = Some (bytesToBase58 U (seed @ pk)) \<rparr>) = ret key \<and>
    Ed_signer L U key = ret sign \<and>
    (\<forall>m p. \<exists>signed. EdSig_sign U \<lparr> es_key = Some key, es_signer = Some sign, es_verifier = None \<rparr> m p = ret signed \<and>
       EdSig_verifySignature L U \<lparr> es_key = None, es_signer = None, es_verifier = None \<rparr> m (exported_options key) signed = ret True)"
proof -
  let ?o = "no_ed_opts\<lparr> eo_id := ident, eo_controller := controller \<rparr>"
  have o: "eo_publicKeyMultibase ?o = None" "eo_privateKeyMultibase ?o = None" by (simp_all add: no_ed_opts_def)
  note m = multibase_parts [OF assms(1)]
  obtain pk where pk: "el_getPublicKey L seed = ret pk" "length pk = 32"
    "Ed_generate L U (Some seed) ?o = ret (new_key (?o\<lparr> eo_publicKeyMultibase := Some (MultiBase_encode U pk (ed25519Pub MultiBase_codec)),
       eo_privateKeyMultibase := Some (MultiBase_encode U (seed @ pk) (ed25519Priv MultiBase_codec)) \<rparr>) (MultiBase_encode U pk (ed25519Pub MultiBase_codec)))"
    using generated_key [OF assms(1-3) o] by blast
  define pub where "pub = MultiBase_encode U pk (ed25519Pub MultiBase_codec)"
  define priv where "priv = MultiBase_encode U (seed @ pk) (ed25519Priv MultiBase_codec)"
  define key where "key = new_key (?o\<lparr> eo_publicKeyMultibase := Some pub, eo_privateKeyMultibase := Some priv \<rparr>) pub"
  have sel: "ek_publicKeyMultibase key = pub" "ek_privateKeyMultibase key = Some priv" "ek_type key = Ed25519VerificationKey2020"
    "ek_controller key = controller"
    by (simp_all add: key_def new_key_def no_ed_opts_def)
  have buffers: "Ed_publicKeyBuffer U key = ret (Some pk)" "Ed_privateKeyBuffer U key = ret (Some (seed @ pk))"
    by (simp_all add: Ed_publicKeyBuffer_def Ed_privateKeyBuffer_def sel pub_def priv_def m)
  have fp: "Ed_verifyFingerprint U key (Ed_fingerprint key) = ret None"
    using verifyFingerprint_bytes [OF m(6) m(7) buffers(1)] by (simp add: Ed_fingerprint_def sel pub_def)
  have make: "Ed_new U (no_ed_opts\<lparr> eo_id := i, eo_controller := c, eo_publicKeyMultibase := Some pub \<rparr>)
      = ret (new_key (no_ed_opts\<lparr> eo_id := i, eo_controller := c, eo_publicKeyMultibase := Some pub \<rparr>) pub)" for i c
    unfolding pub_def by (rule Ed_new_encoded [OF assms(1) pk(2)]) (simp_all add: no_ed_opts_def)
  have other: "bindJ (Ed_fromFingerprint U (Ed_fingerprint key)) (Ed_publicKeyBuffer U) = ret (Some pk)"
    using make [of None None] m(3) [of pk]
    by (simp add: Ed_fromFingerprint_def Ed_fingerprint_def sel no_ed_opts_def Ed_publicKeyBuffer_def new_key_def) (simp add: pub_def)
  have ne: "bytesToBase58 U (seed @ pk) \<noteq> ''''"
    unfolding bytesToBase58_def by (rule base58_nonempty [OF assms(1) _ assms(4)]) (use assms(3) in auto)
  have dec: "base58ToBytes U (bytesToBase58 U b) = ret b" for b using assms(1) by (simp add: base58ToBytes_def bytesToBase58_def codec_ok_def)
  have key': "(new_key (no_ed_opts\<lparr> eo_id := ident, eo_controller := controller, eo_publicKeyMultibase := Some pub \<rparr>) pub)\<lparr> ek_privateKeyMultibase := Some priv \<rparr> = key"
    by (cases "present controller"; cases "present ident") (simp_all add: key_def new_key_def no_ed_opts_def)
  have old: "Ed_from2018 U (Some \<lparr> k18_id = ident, k18_controller = controller, k18_publicKeyBase58 = Some (bytesToBase58 U pk),
      k18_privateKeyBase58 = Some (bytesToBase58 U (seed @ pk)) \<rparr>) = ret key"
    unfolding Ed_from2018_def given_def option.case key2018.select_convs bindJ_ret dec pub_def [symmetric] make
    using ne key' by (simp add: present_def dec priv_def [symmetric])
  have r: "holds_pair (L, U, key)" using assms(2,3) pk(1) buffers by (auto simp: holds_pair_def)
  obtain sign where v: "Ed_signer L U key = ret sign"
    "\<And>d p. \<exists>signed. EdSig_sign U \<lparr> es_key = Some key, es_signer = Some sign, es_verifier = None \<rparr> d p = ret signed \<and>
       EdSig_verifySignature L U \<lparr> es_key = None, es_signer = None, es_verifier = None \<rparr> d (exported_options key) signed = ret True"
    using ed_suite_verifies [OF assms(1) r exported_key [OF assms(1) pk(2) sel(1) [unfolded pub_def] sel(3)]] by blast
  have "Ed_generate L U (Some seed) ?o = ret key" using pk(3) by (simp add: key_def pub_def priv_def)
  then show ?thesis
    by (intro exI [of _ key] exI [of _ pk] exI [of _ sign]) (use pk(1) buffers fp other old v in simp)
qed

theorem ed_key_lifecycle_witness:
  "\<exists>key pk. Ed_generate ed_open plain_codec (Some (replicate 32 7)) (no_ed_opts\<lparr> eo_id := None, eo_controller := Some ''did:x'' \<rparr>) = ret key \<and>
     el_getPublicKey ed_open (replicate 32 7) = ret pk \<and> Ed_publicKeyBuffer plain_codec key = ret (Some pk) \<and>
     Ed_verifyFingerprint plain_codec key (Ed_fingerprint key) = ret None \<and>
     (\<exists>sign signed. EdSig_sign plain_codec \<lparr> es_key = Some key, es_signer = Some sign, es_verifier = None \<rparr> [1, 2] [] = ret signed \<and>
       EdSig_verifySignature ed_open plain_codec \<lparr> es_key = None, es_signer = None, es_verifier = None \<rparr> [1, 2] (exported_options key) signed = ret True)"
proof -
  have "ed25519_ok ed_open" by (simp add: ed25519_ok_def ed_open_def)
  moreover have "u_fromString plain_codec Base58btc '''' = ret []" by (simp add: plain_codec_def)
  moreover have "length (replicate 32 (7 :: 8 word)) = 32" by simp
  ultimately show ?thesis
    using ed_key_lifecycle [OF plain_codec_ok, where L = ed_open and seed = "replicate 32 7" and ident = None and controller = "Some ''did:x''"] by blast
qed

text \<open>
  every key that the constructor returns has a public text of 34 bytes that start with
  the Ed25519 header, an identifier when it has a controller, and a fingerprint that
  verifies for this key and, of two keys, only for those with the same 32 bytes.
\<close>

theorem ed_key_valid:
  assumes "Ed_new U opts = ret key"
  shows "\<exists>pk. base58ToBytes U (drop 1 (ek_publicKeyMultibase key)) = ret (0xED # 0x01 # pk) \<and> length pk = 32 \<and>
    Ed_publicKeyBuffer U key = ret (Some pk) \<and> (present (ek_controller key) \<noteq> None \<longrightarrow> present (ek_id key) \<noteq> None) \<and>
    Ed_verifyFingerprint U key (Ed_fingerprint key) = ret None \<and>
    (\<forall>opts' key' pk'. Ed_new U opts' = ret key' \<longrightarrow> Ed_publicKeyBuffer U key' = ret (Some pk') \<longrightarrow>
       (Ed_verifyFingerprint U key' (Ed_fingerprint key) = ret None \<longleftrightarrow> pk' = pk))"
proof -
  obtain pk where p: "is_base58btc (ek_publicKeyMultibase key)" "base58ToBytes U (drop 1 (ek_publicKeyMultibase key)) = ret (0xED # 0x01 # pk)" "length pk = 32"
    "Ed_publicKeyBuffer U key = ret (Some pk)" "present (ek_controller key) \<noteq> None \<longrightarrow> present (ek_id key) \<noteq> None"
    using constructed_key [OF assms] by blast
  have v: "Ed_verifyFingerprint U k (Ed_fingerprint key) = ret (if own = pk then None else Some (Error ''The fingerprint does not match the public key.''))"
    if "Ed_publicKeyBuffer U k = ret (Some own)" for k own
    using verifyFingerprint_bytes [OF p(1,2) that] by (simp add: Ed_fingerprint_def)
  show ?thesis
    by (intro exI [of _ pk] conjI p(2-5) allI impI) (simp_all add: v p(4) split: if_splits)
qed

theorem ed_key_valid_witness:
  "\<exists>key pk. Ed_new plain_codec (no_ed_opts\<lparr> eo_controller := Some ''did:x'',
       eo_publicKeyMultibase := Some (MultiBase_encode plain_codec (replicate 32 7) (ed25519Pub MultiBase_codec)) \<rparr>) = ret key \<and>
     Ed_publicKeyBuffer plain_codec key = ret (Some pk) \<and> length pk = 32 \<and> present (ek_id key) \<noteq> None \<and> Ed_verifyFingerprint plain_codec key (Ed_fingerprint key) = ret None"
proof -
  let ?o = "no_ed_opts\<lparr> eo_controller := Some ''did:x'', eo_publicKeyMultibase := Some (MultiBase_encode plain_codec (replicate 32 7) (ed25519Pub MultiBase_codec)) \<rparr>"
  have l: "length (replicate 32 (7 :: 8 word)) = 32" by simp
  have "Ed_new plain_codec ?o = ret (new_key ?o (MultiBase_encode plain_codec (replicate 32 7) (ed25519Pub MultiBase_codec)))"
    by (rule Ed_new_encoded [OF plain_codec_ok l]) (simp_all add: no_ed_opts_def)
  then obtain key where key: "Ed_new plain_codec ?o = ret key" "ek_controller key = Some ''did:x''" by (auto simp: new_key_def)
  then show ?thesis using ed_key_valid [OF key(1)] by (auto simp: present_def)
qed

end
