(* ===== verification/ProofInput.thy ===== *)
theory ProofInput
  imports Signals Credential Zkp
begin

text \<open>
  The inputs of a proof: packages/albus-sdk/src/utils/proofInputBuilder.ts.  The builder
  is a record; \<open>Promise.all\<close> runs the private and the public signals as two threads that
  take turns at every \<open>await\<close>, so a thread is a list of signals and the point at which the
  first of them waits.  Loaders are given by what their promises settle to.
\<close>

section \<open>The builder\<close>

datatype input_value = In_undefined | In_int int | In_list "input_value list"

record ProofInputBuilder =
  pb_credential :: verifiable_credential
  pb_claimsTree :: "claims_tree option"
  pb_claimsTreeDepth :: "nat option"
  pb_userPrivateKey :: "int option"
  pb_trusteePublicKey :: "(int \<times> int) list option"
  pb_circuit :: "(string list \<times> string list) option"
  pb_policy :: "(string \<times> bytes) list option"
  pb_timestamp :: "int option"
  pb_trusteeLoader :: "(int \<times> int) list js option"
  pb_timestampLoader :: "int js option"
  pb_data :: "(string \<times> input_value) list"

definition ProofInputBuilder_new :: "verifiable_credential \<Rightarrow> ProofInputBuilder" where
  "ProofInputBuilder_new credential =
    \<lparr> pb_credential = credential, pb_claimsTree = None, pb_claimsTreeDepth = None, pb_userPrivateKey = None,
      pb_trusteePublicKey = None, pb_circuit = None, pb_policy = None, pb_timestamp = None, pb_trusteeLoader = None,
      pb_timestampLoader = None, pb_data = [] \<rparr>"

definition withTimestamp :: "int \<Rightarrow> ProofInputBuilder \<Rightarrow> ProofInputBuilder" where
  "withTimestamp v b = b\<lparr> pb_timestamp := Some v \<rparr>"

definition withTimestampLoader :: "int js option \<Rightarrow> ProofInputBuilder \<Rightarrow> ProofInputBuilder" where
  "withTimestampLoader v b = b\<lparr> pb_timestampLoader := v \<rparr>"

definition withPolicy :: "(string \<times> bytes) list \<Rightarrow> ProofInputBuilder \<Rightarrow> ProofInputBuilder" where
  "withPolicy v b = b\<lparr> pb_policy := Some v \<rparr>"

text \<open>A circuit is its public and its private signals.\<close>

definition withCircuit :: "string list \<times> string list \<Rightarrow> ProofInputBuilder \<Rightarrow> ProofInputBuilder" where
  "withCircuit v b = b\<lparr> pb_circuit := Some v \<rparr>"

definition withUserPrivateKey :: "bytes option \<Rightarrow> ProofInputBuilder \<Rightarrow> ProofInputBuilder js" where
  "withUserPrivateKey v b = (case v of
     Some k \<Rightarrow> bindJ (formatPrivKeyForBabyJub k) (\<lambda>n. ret (b\<lparr> pb_userPrivateKey := Some n \<rparr>))
   | None \<Rightarrow> ret b)"

definition withTrusteePublicKey :: "(int \<times> int) list option \<Rightarrow> ProofInputBuilder \<Rightarrow> ProofInputBuilder" where
  "withTrusteePublicKey v b = b\<lparr> pb_trusteePublicKey := v \<rparr>"

definition withTrusteeLoader :: "(int \<times> int) list js option \<Rightarrow> ProofInputBuilder \<Rightarrow> ProofInputBuilder" where
  "withTrusteeLoader v b = b\<lparr> pb_trusteeLoader := v \<rparr>"

definition withClaimsTreeDepth :: "nat option \<Rightarrow> ProofInputBuilder \<Rightarrow> ProofInputBuilder" where
  "withClaimsTreeDepth v b = b\<lparr> pb_claimsTreeDepth := v \<rparr>"

definition publicSignals :: "ProofInputBuilder \<Rightarrow> parsed_signal list" where
  "publicSignals b = map parseSignal (case pb_circuit b of Some (pub, priv) \<Rightarrow> pub | None \<Rightarrow> [])"

definition privateSignals :: "ProofInputBuilder \<Rightarrow> parsed_signal list" where
  "privateSignals b = map parseSignal (case pb_circuit b of Some (pub, priv) \<Rightarrow> priv | None \<Rightarrow> [])"

definition ends_with :: "string \<Rightarrow> string \<Rightarrow> bool" where
  "ends_with s e \<longleftrightarrow> length e \<le> length s \<and> drop (length s - length e) s = e"

definition tree_depth :: "ProofInputBuilder \<Rightarrow> nat option" where
  "tree_depth b = (case pb_claimsTreeDepth b of
     Some d \<Rightarrow> Some d
   | None \<Rightarrow> map_option (nat \<circ> sig_size) (find (\<lambda>s. ends_with (sig_name s) ''Proof'' \<and> sig_size s > 1) (publicSignals b)))"

definition initClaimsTree :: "credential_env \<Rightarrow> ProofInputBuilder \<Rightarrow> ProofInputBuilder js" where
  "initClaimsTree C b =
    bindJ (createCredentialTree (ce_pos C) (ce_codec C) (ce_dates C) (w3c_credential.truncate (pb_credential b)) (tree_depth b)) (\<lambda>T.
    ret (b\<lparr> pb_claimsTree := Some T \<rparr>))"

definition normalizeClaimKey :: "string \<Rightarrow> string" where
  "normalizeClaimKey s = map (\<lambda>c. if c = CHR ''_'' then CHR ''.'' else c) (trim s)"

section \<open>Known signals\<close>

definition Timestamp :: string where "Timestamp = ''timestamp''"
definition CredentialRoot :: string where "CredentialRoot = ''credentialRoot''"
definition IssuerPublicKey :: string where "IssuerPublicKey = ''issuerPk''"
definition IssuerSignature :: string where "IssuerSignature = ''issuerSignature''"
definition UserPrivateKey :: string where "UserPrivateKey = ''userPrivateKey''"
definition TrusteePublicKey :: string where "TrusteePublicKey = ''trusteePublicKey''"

definition set_data :: "ProofInputBuilder \<Rightarrow> string \<Rightarrow> input_value \<Rightarrow> ProofInputBuilder" where
  "set_data b name v = b\<lparr> pb_data := obj_put (pb_data b) name v \<rparr>"

definition credentialProof :: "credential_env \<Rightarrow> ProofInputBuilder \<Rightarrow> (int list \<times> int list) js" where
  "credentialProof C b =
    (case vc_proof (pb_credential b) of
      None \<Rightarrow> read_undefined
    | Some proofs \<Rightarrow> (case Option.bind (find is_bjj proofs) (present \<circ> pf_proofValue) of
        None \<Rightarrow> throw (Error ''Invalid credential, expected BJJSignature2021 proof'')
      | Some v \<Rightarrow> parseCredentialProof C v))"

definition int_values :: "int list \<Rightarrow> input_value" where "int_values ns = In_list (map In_int ns)"

definition key_values :: "(int \<times> int) list \<Rightarrow> input_value" where
  "key_values ks = In_list (map (\<lambda>(x, y). int_values [x, y]) ks)"

text \<open>Where a thread waits in its first signal: before it, for a loader, after
  \<open>applySignal\<close> has answered \<open>false\<close>, and for the proof of a claim.\<close>

datatype waiting = Start | Loading_trustee | Loading_timestamp | Unknown | Found claim_proof

definition set_trustee :: "ProofInputBuilder \<Rightarrow> parsed_signal \<Rightarrow> (ProofInputBuilder \<times> waiting option) js" where
  "set_trustee b sig =
    (case pb_trusteePublicKey b of
      None \<Rightarrow> throw (Error ''The trustee public keys are not defined.'')
    | Some keys \<Rightarrow>
      if int (length keys) < sig_size sig
      then throw (Error (''The size of the trustee public keys is incorrect. It must be '' @ to_radix 10 (sig_size sig) @ ''.''))
      else ret (set_data b (sig_name sig) (key_values keys), None))"

definition applySignal :: "credential_env \<Rightarrow> ProofInputBuilder \<Rightarrow> parsed_signal \<Rightarrow> (ProofInputBuilder \<times> waiting option) js" where
  "applySignal C b sig =
    (let name = sig_name sig in
     if name = TrusteePublicKey then
       (if pb_trusteePublicKey b = None \<and> pb_trusteeLoader b \<noteq> None then ret (b, Some Loading_trustee) else set_trustee b sig)
     else if name = UserPrivateKey then
       (case pb_userPrivateKey b of
         None \<Rightarrow> throw (Error ''The user private key is not defined.'')
       | Some k \<Rightarrow> ret (set_data b name (In_int k), None))
     else if name = Timestamp then
       (if pb_timestampLoader b \<noteq> None then ret (b, Some Loading_timestamp)
        else ret (set_data b name (case pb_timestamp b of Some t \<Rightarrow> In_int t | None \<Rightarrow> In_undefined), None))
     else if name = CredentialRoot then
       ret (set_data b name (case pb_claimsTree b of Some T \<Rightarrow> In_int (ClaimsTree_root T) | None \<Rightarrow> In_undefined), None)
     else if name = IssuerPublicKey then
       bindJ (credentialProof C b) (\<lambda>(sg, pk). ret (set_data b name (int_values pk), None))
     else if name = IssuerSignature then
       bindJ (credentialProof C b) (\<lambda>(sg, pk). ret (set_data b name (int_values sg), None))
     else ret (b, Some Unknown))"

section \<open>Policy and credential signals\<close>

definition policy_values :: "ProofInputBuilder \<Rightarrow> parsed_signal \<Rightarrow> int list" where
  "policy_values b sig = (case pb_policy b of None \<Rightarrow> [] | Some rules \<Rightarrow> map (beBuff2int \<circ> snd) (filter (\<lambda>r. fst r = sig_name sig) rules))"

text \<open>\<open>Object.assign\<close> overwrites the first elements of the zeros; a negative length is 0.\<close>

definition applyPolicySignal :: "ProofInputBuilder \<Rightarrow> parsed_signal \<Rightarrow> ProofInputBuilder js" where
  "applyPolicySignal b sig =
    (let rules = policy_values b sig in
     if rules = [] then ret b
     else if sig_size sig \<ge> 2 ^ 32 then throw (RangeError ''Invalid array length'')
     else
       let value = rules @ drop (length rules) (replicate (nat (sig_size sig)) 0)
       in ret (set_data b (sig_name sig) (if sig_size sig = 0 then In_int (value ! 0) else int_values value)))"

definition set_claim :: "ProofInputBuilder \<Rightarrow> parsed_signal \<Rightarrow> claim_proof \<Rightarrow> ProofInputBuilder js" where
  "set_claim b sig proof =
    (if \<not> cp_found proof then throw (Error (''claim \"'' @ normalizeClaimKey (sig_name sig) @ ''\" is not found in the credential''))
     else ret (set_data (set_data (set_data b (sig_name sig) (In_int (cp_value proof)))
       (sig_name sig @ ''Key'') (In_int (cp_key proof))) (sig_name sig @ ''Proof'') (int_values (cp_siblings proof))))"

text \<open>What a thread does from one \<open>await\<close> to the next: its new builder, and where it waits
  next within the signal, if it is not done with it.\<close>

definition signal_phase :: "credential_env \<Rightarrow> bool \<Rightarrow> ProofInputBuilder \<Rightarrow> parsed_signal \<Rightarrow> waiting \<Rightarrow> (ProofInputBuilder \<times> waiting option) js" where
  "signal_phase C private b sig w = (case w of
      Start \<Rightarrow> applySignal C b sig
    | Loading_trustee \<Rightarrow> (case pb_trusteeLoader b of
        Some l \<Rightarrow> bindJ l (\<lambda>keys. set_trustee (b\<lparr> pb_trusteePublicKey := Some keys \<rparr>) sig)
      | None \<Rightarrow> set_trustee b sig)
    | Loading_timestamp \<Rightarrow> (case pb_timestampLoader b of
        Some l \<Rightarrow> bindJ l (\<lambda>t. ret (set_data b (sig_name sig) (In_int t), None))
      | None \<Rightarrow> ret (b, None))
    | Unknown \<Rightarrow>
        if private then (case pb_claimsTree b of
            None \<Rightarrow> throw (Error ''claims tree is not initialized'')
          | Some T \<Rightarrow> bindJ (ClaimsTree_get (ce_pos C) T (normalizeClaimKey (sig_name sig))) (\<lambda>proof. ret (b, Some (Found proof))))
        else bindJ (applyPolicySignal b sig) (\<lambda>b'. ret (b', None))
    | Found proof \<Rightarrow> bindJ (set_claim b sig proof) (\<lambda>b'. ret (b', None)))"

section \<open>Two threads\<close>

type_synonym thread = "waiting \<times> parsed_signal list"

record build_state =
  bs_builder :: ProofInputBuilder
  bs_private :: thread
  bs_public :: thread

definition thread_step :: "credential_env \<Rightarrow> bool \<Rightarrow> ProofInputBuilder \<Rightarrow> thread \<Rightarrow> (ProofInputBuilder \<times> thread) js" where
  "thread_step C private b t = (case snd t of
      [] \<Rightarrow> ret (b, t)
    | sig # rest \<Rightarrow> bindJ (signal_phase C private b sig (fst t)) (\<lambda>(b', next).
        ret (b', case next of Some w \<Rightarrow> (w, sig # rest) | None \<Rightarrow> (Start, rest))))"

definition build_turn :: "credential_env \<Rightarrow> build_state \<Rightarrow> bool \<Rightarrow> build_state js" where
  "build_turn C st private =
    (if private
     then bindJ (thread_step C True (bs_builder st) (bs_private st)) (\<lambda>(b, t). ret (st\<lparr> bs_builder := b, bs_private := t \<rparr>))
     else bindJ (thread_step C False (bs_builder st) (bs_public st)) (\<lambda>(b, t). ret (st\<lparr> bs_builder := b, bs_public := t \<rparr>)))"

text \<open>\<open>build\<close> under a schedule of turns.\<close>

definition start_build :: "ProofInputBuilder \<Rightarrow> build_state" where
  "start_build b = \<lparr> bs_builder = b, bs_private = (Start, privateSignals b), bs_public = (Start, publicSignals b) \<rparr>"

definition build_under :: "credential_env \<Rightarrow> ProofInputBuilder \<Rightarrow> bool list \<Rightarrow> build_state js" where
  "build_under C b schedule = bindJ (initClaimsTree C b) (\<lambda>b. foldJ (build_turn C) (start_build b) schedule)"

definition build_done :: "build_state \<Rightarrow> bool" where
  "build_done st \<longleftrightarrow> snd (bs_private st) = [] \<and> snd (bs_public st) = []"

end
