(* ===== verification/ProofInputCorrect.thy ===== *)
theory ProofInputCorrect
  imports ProofInput CredentialCorrect
begin

text \<open>
  What a proof-input build computes: each signal of the circuit has its writes, given by
  \<open>writes_of\<close>; every turn of a thread either waits or performs the writes of its signal, so
  the data of a finished build do not depend on the schedule.
\<close>

section \<open>Specification: what each signal writes\<close>

definition known_names :: "string list" where
  "known_names = [TrusteePublicKey, UserPrivateKey, Timestamp, CredentialRoot, IssuerPublicKey, IssuerSignature]"

text \<open>The trustee keys a build uses: those that are set, or else the loader's.\<close>

definition trustee_keys :: "ProofInputBuilder \<Rightarrow> (int \<times> int) list js" where
  "trustee_keys b = (case pb_trusteePublicKey b of Some ks \<Rightarrow> ret ks
     | None \<Rightarrow> (case pb_trusteeLoader b of Some l \<Rightarrow> l | None \<Rightarrow> throw (Error ''The trustee public keys are not defined.'')))"

definition known_write :: "credential_env \<Rightarrow> ProofInputBuilder \<Rightarrow> parsed_signal \<Rightarrow> input_value js" where
  "known_write C b sig =
    (let name = sig_name sig in
     if name = TrusteePublicKey then bindJ (trustee_keys b) (\<lambda>ks.
       if int (length ks) < sig_size sig then throw (Error ''size'') else ret (key_values ks))
     else if name = UserPrivateKey then (case pb_userPrivateKey b of Some k \<Rightarrow> ret (In_int k) | None \<Rightarrow> throw (Error ''key''))
     else if name = Timestamp then (case pb_timestampLoader b of Some l \<Rightarrow> bindJ l (\<lambda>t. ret (In_int t))
       | None \<Rightarrow> ret (case pb_timestamp b of Some t \<Rightarrow> In_int t | None \<Rightarrow> In_undefined))
     else if name = CredentialRoot then ret (case pb_claimsTree b of Some T \<Rightarrow> In_int (ClaimsTree_root T) | None \<Rightarrow> In_undefined)
     else bindJ (credentialProof C b) (\<lambda>(sg, pk). ret (int_values (if name = IssuerPublicKey then pk else sg))))"

definition claim_writes :: "credential_env \<Rightarrow> ProofInputBuilder \<Rightarrow> parsed_signal \<Rightarrow> (string \<times> input_value) list js" where
  "claim_writes C b sig = (case pb_claimsTree b of
     None \<Rightarrow> throw (Error ''claims tree is not initialized'')
   | Some T \<Rightarrow> bindJ (ClaimsTree_get (ce_pos C) T (normalizeClaimKey (sig_name sig))) (\<lambda>p.
       if cp_found p then ret [(sig_name sig, In_int (cp_value p)), (sig_name sig @ ''Key'', In_int (cp_key p)),
           (sig_name sig @ ''Proof'', int_values (cp_siblings p))]
       else throw (Error ''not found'')))"

definition policy_writes :: "ProofInputBuilder \<Rightarrow> parsed_signal \<Rightarrow> (string \<times> input_value) list js" where
  "policy_writes b sig = (let vs = policy_values b sig; pad = vs @ replicate (nat (sig_size sig) - length vs) 0 in
     if vs = [] then ret [] else if sig_size sig \<ge> 2 ^ 32 then throw (Error ''length'')
     else ret [(sig_name sig, if sig_size sig = 0 then In_int (hd vs) else int_values pad)])"

definition writes_of :: "credential_env \<Rightarrow> bool \<Rightarrow> ProofInputBuilder \<Rightarrow> parsed_signal \<Rightarrow> (string \<times> input_value) list js" where
  "writes_of C private b sig =
    (if sig_name sig \<in> set known_names then bindJ (known_write C b sig) (\<lambda>v. ret [(sig_name sig, v)])
     else if private then claim_writes C b sig else policy_writes b sig)"

section \<open>Every turn agrees with the specification\<close>

text \<open>During a build only the data changes, and the trustee keys when they are loaded.\<close>

definition same_inputs :: "ProofInputBuilder \<Rightarrow> ProofInputBuilder \<Rightarrow> bool" where
  "same_inputs b0 b \<longleftrightarrow> b0\<lparr> pb_trusteePublicKey := pb_trusteePublicKey b, pb_data := pb_data b \<rparr> = b \<and>
     (pb_trusteePublicKey b = pb_trusteePublicKey b0 \<or>
      (\<exists>k. pb_trusteePublicKey b0 = None \<and> pb_trusteeLoader b0 = Some (ret k) \<and> pb_trusteePublicKey b = Some k))"

definition put_all :: "(string \<times> input_value) list \<Rightarrow> (string \<times> input_value) list \<Rightarrow> (string \<times> input_value) list" where
  "put_all d ws = foldl (\<lambda>d (n, v). obj_put d n v) d ws"

fun waits_for :: "credential_env \<Rightarrow> bool \<Rightarrow> ProofInputBuilder \<Rightarrow> parsed_signal \<Rightarrow> waiting \<Rightarrow> bool" where
  "waits_for C private b sig Start = True"
| "waits_for C private b sig Loading_trustee = (sig_name sig = TrusteePublicKey \<and> pb_trusteePublicKey b = None \<and> pb_trusteeLoader b \<noteq> None)"
| "waits_for C private b sig Loading_timestamp = (sig_name sig = Timestamp \<and> pb_timestampLoader b \<noteq> None)"
| "waits_for C private b sig Unknown = (sig_name sig \<notin> set known_names)"
| "waits_for C private b sig (Found p) = (sig_name sig \<notin> set known_names \<and> private \<and>
     (\<exists>T. pb_claimsTree b = Some T \<and> ClaimsTree_get (ce_pos C) T (normalizeClaimKey (sig_name sig)) = ret p))"

fun turns_left :: "waiting \<Rightarrow> nat" where
  "turns_left Start = 3"
| "turns_left Unknown = 2"
| "turns_left _ = 1"

lemma same_inputs_sel:
  assumes "same_inputs b0 b"
  shows "pb_credential b = pb_credential b0" "pb_claimsTree b = pb_claimsTree b0" "pb_userPrivateKey b = pb_userPrivateKey b0"
    "pb_policy b = pb_policy b0" "pb_timestamp b = pb_timestamp b0" "pb_trusteeLoader b = pb_trusteeLoader b0"
    "pb_timestampLoader b = pb_timestampLoader b0" "policy_values b sig = policy_values b0 sig" "credentialProof C b = credentialProof C b0"
proof -
  have b: "b = b0\<lparr> pb_trusteePublicKey := pb_trusteePublicKey b, pb_data := pb_data b \<rparr>" using assms by (simp add: same_inputs_def)
  show "pb_credential b = pb_credential b0" "pb_claimsTree b = pb_claimsTree b0" "pb_userPrivateKey b = pb_userPrivateKey b0"
    "pb_policy b = pb_policy b0" "pb_timestamp b = pb_timestamp b0" "pb_trusteeLoader b = pb_trusteeLoader b0"
    "pb_timestampLoader b = pb_timestampLoader b0" "policy_values b sig = policy_values b0 sig" "credentialProof C b = credentialProof C b0"
    by (subst b, simp add: policy_values_def credentialProof_def)+
qed

lemma same_inputs_data: "same_inputs b0 b \<Longrightarrow> same_inputs b0 (b\<lparr> pb_data := d \<rparr>)"
  by (cases b0; cases b) (auto simp: same_inputs_def)

lemma same_inputs_set_data: "same_inputs b0 b \<Longrightarrow> same_inputs b0 (set_data b n v)"
  by (simp add: set_data_def same_inputs_data)

lemma same_inputs_loaded:
  "same_inputs b0 b \<Longrightarrow> pb_trusteePublicKey b0 = None \<Longrightarrow> pb_trusteeLoader b0 = Some (ret k) \<Longrightarrow>
    same_inputs b0 (b\<lparr> pb_trusteePublicKey := Some k \<rparr>)"
  by (cases b0; cases b) (auto simp: same_inputs_def)

lemmas signal_names = TrusteePublicKey_def UserPrivateKey_def Timestamp_def CredentialRoot_def IssuerPublicKey_def IssuerSignature_def

text \<open>What a turn of a thread on a signal leads to.\<close>

definition turn_ok :: "credential_env \<Rightarrow> bool \<Rightarrow> ProofInputBuilder \<Rightarrow> ProofInputBuilder \<Rightarrow> parsed_signal \<Rightarrow> waiting \<Rightarrow> (string \<times> input_value) list \<Rightarrow>
    (ProofInputBuilder \<times> waiting option) js \<Rightarrow> bool" where
  "turn_ok C private b0 b sig w ws r \<longleftrightarrow> (\<exists>b' next. r = ret (b', next) \<and> same_inputs b0 b' \<and>
     (case next of Some w' \<Rightarrow> pb_data b' = pb_data b \<and> waits_for C private b0 sig w' \<and> turns_left w' < turns_left w
      | None \<Rightarrow> pb_data b' = put_all (pb_data b) ws))"

lemma turn_done:
  "same_inputs b0 b' \<Longrightarrow> pb_data b' = put_all (pb_data b) ws \<Longrightarrow> turn_ok C private b0 b sig w ws (ret (b', None))"
  by (simp add: turn_ok_def)

lemma turn_waits:
  "same_inputs b0 b \<Longrightarrow> waits_for C private b0 sig w' \<Longrightarrow> turns_left w' < turns_left w \<Longrightarrow> turn_ok C private b0 b sig w ws (ret (b, Some w'))"
  by (simp add: turn_ok_def)

lemma turn_set:
  "same_inputs b0 b \<Longrightarrow> turn_ok C private b0 b sig w [(n, v)] (ret (set_data b n v, None))"
  by (rule turn_done) (simp_all add: same_inputs_data set_data_def put_all_def)

lemma set_trustee_ok:
  assumes "same_inputs b0 b" "pb_trusteePublicKey b = Some ks" "\<not> int (length ks) < sig_size sig"
  shows "turn_ok C private b0 b sig w [(sig_name sig, key_values ks)] (set_trustee b sig)"
  using turn_set [OF assms(1)] assms by (simp add: set_trustee_def)

lemma trustee_turn:
  assumes s: "same_inputs b0 b" and n: "sig_name sig = TrusteePublicKey" and ws: "writes_of C private b0 sig = ret ws"
    and w: "w = Start \<or> w = Loading_trustee" "waits_for C private b0 sig w"
  shows "turn_ok C private b0 b sig w ws (signal_phase C private b sig w)"
proof -
  obtain ks where ks: "trustee_keys b0 = ret ks" "\<not> int (length ks) < sig_size sig" "ws = [(sig_name sig, key_values ks)]"
    using ws n by (auto simp: writes_of_def known_names_def known_write_def bindJ_eq_ret split: if_splits)
  have set: "turn_ok C private b0 b sig w ws (set_trustee b sig)" if "pb_trusteePublicKey b = Some ks"
    using set_trustee_ok [OF s that ks(2)] ks(3) by simp
  show ?thesis
  proof (cases "pb_trusteePublicKey b0")
    case (Some k)
    then have "k = ks" "pb_trusteePublicKey b = Some ks" using ks(1) s by (auto simp: trustee_keys_def same_inputs_def)
    then show ?thesis using set w n Some by (auto simp: signal_phase_def applySignal_def)
  next
    case None
    then have l: "pb_trusteeLoader b0 = Some (ret ks)" using ks(1) by (auto simp: trustee_keys_def split: option.splits)
    then have lb: "pb_trusteeLoader b = Some (ret ks)" using same_inputs_sel(6) [OF s] by simp
    have cases: "pb_trusteePublicKey b = None \<or> pb_trusteePublicKey b = Some ks"
      using s None l by (auto simp: same_inputs_def)
    show ?thesis
    proof (cases "w = Start")
      case True
      have "turn_ok C private b0 b sig w ws (ret (b, Some Loading_trustee))"
        by (rule turn_waits [OF s]) (simp_all add: n None l True)
      then show ?thesis
        using cases set True n lb by (auto simp: signal_phase_def applySignal_def)
    next
      case False
      let ?b = "b\<lparr> pb_trusteePublicKey := Some ks \<rparr>"
      have "same_inputs b0 ?b" by (rule same_inputs_loaded [OF s None l])
      then have "turn_ok C private b0 ?b sig w ws (set_trustee ?b sig)"
        using set_trustee_ok [of b0 ?b ks sig] ks(2,3) by simp
      moreover have "w = Loading_trustee" using False w(1) by simp
      ultimately show ?thesis using lb by (simp add: signal_phase_def turn_ok_def cong: option.case_cong)
    qed
  qed
qed

lemma known_turn:
  assumes s: "same_inputs b0 b" and n: "sig_name sig \<in> set known_names" "sig_name sig \<noteq> TrusteePublicKey" and ws: "writes_of C private b0 sig = ret ws"
    and w: "waits_for C private b0 sig w"
  shows "turn_ok C private b0 b sig w ws (signal_phase C private b sig w)"
proof -
  note sel = same_inputs_sel [OF s]
  obtain v where v: "known_write C b0 sig = ret v" "ws = [(sig_name sig, v)]" using ws n by (auto simp: writes_of_def bindJ_eq_ret)
  have set: "turn_ok C private b0 b sig w' ws (ret (set_data b (sig_name sig) v, None))" for w' using turn_set [OF s] v(2) by simp
  have names: "sig_name sig = UserPrivateKey \<or> sig_name sig = Timestamp \<or> sig_name sig = CredentialRoot \<or>
      sig_name sig = IssuerPublicKey \<or> sig_name sig = IssuerSignature" using n by (auto simp: known_names_def)
  show ?thesis
  proof (cases "w = Loading_timestamp")
    case True
    then have t: "sig_name sig = Timestamp" "pb_timestampLoader b0 \<noteq> None" using w by auto
    from t have "signal_phase C private b sig w = ret (set_data b (sig_name sig) v, None)"
      using v(1) sel True by (auto simp: signal_names signal_phase_def known_write_def bindJ_eq_ret)
    then show ?thesis using set by simp
  next
    case False
    then have st: "w = Start" using w n by (cases w) auto
    show ?thesis
    proof (cases "sig_name sig = Timestamp \<and> pb_timestampLoader b0 \<noteq> None")
      case True
      then show ?thesis
        using turn_waits [OF s, of C "private" sig "Loading_timestamp" w ws] st sel by (simp add: signal_names signal_phase_def applySignal_def)
    next
      case False
      have "signal_phase C private b sig w = ret (set_data b (sig_name sig) v, None)"
        using names False v(1) sel st
        by (auto simp: signal_names signal_phase_def applySignal_def known_write_def bindJ_eq_ret split: option.splits)
      then show ?thesis using set by simp
    qed
  qed
qed


lemma claim_turn:
  assumes s: "same_inputs b0 b" and n: "sig_name sig \<notin> set known_names" and ws: "claim_writes C b0 sig = ret ws"
    and w: "waits_for C True b0 sig w" "w \<noteq> Start"
  shows "turn_ok C True b0 b sig w ws (signal_phase C True b sig w)"
proof -
  note sel = same_inputs_sel [OF s]
  obtain T p where p: "pb_claimsTree b0 = Some T" "ClaimsTree_get (ce_pos C) T (normalizeClaimKey (sig_name sig)) = ret p" "cp_found p"
    and wsd: "ws = [(sig_name sig, In_int (cp_value p)), (sig_name sig @ ''Key'', In_int (cp_key p)), (sig_name sig @ ''Proof'', int_values (cp_siblings p))]"
    using ws by (auto simp: claim_writes_def bindJ_eq_ret split: option.splits if_splits)
  have "w = Unknown \<or> w = Found p" using w n p(1,2) by (cases w) (auto simp: known_names_def)
  then show ?thesis
  proof
    assume u: "w = Unknown"
    have "turn_ok C True b0 b sig w ws (ret (b, Some (Found p)))" by (rule turn_waits [OF s]) (simp_all add: n p u)
    then show ?thesis using u p sel by (simp add: signal_phase_def)
  next
    assume f: "w = Found p"
    let ?b = "set_data (set_data (set_data b (sig_name sig) (In_int (cp_value p))) (sig_name sig @ ''Key'') (In_int (cp_key p)))
      (sig_name sig @ ''Proof'') (int_values (cp_siblings p))"
    have "turn_ok C True b0 b sig w ws (ret (?b, None))"
      by (rule turn_done) (simp_all add: same_inputs_set_data [OF same_inputs_set_data [OF same_inputs_set_data [OF s]]], simp add: wsd put_all_def set_data_def)
    then show ?thesis using f p(3) by (simp add: signal_phase_def set_claim_def)
  qed
qed

lemma policy_turn:
  assumes s: "same_inputs b0 b" and n: "sig_name sig \<notin> set known_names" and ws: "policy_writes b0 sig = ret ws"
    and w: "waits_for C False b0 sig w" "w \<noteq> Start"
  shows "turn_ok C False b0 b sig w ws (signal_phase C False b sig w)"
proof -
  have u: "w = Unknown" using w n by (cases w) (auto simp: known_names_def)
  have pv: "policy_values b sig = policy_values b0 sig" using same_inputs_sel [OF s] by simp
  show ?thesis
  proof (cases "policy_values b0 sig")
    case Nil
    then have "turn_ok C False b0 b sig w ws (ret (b, None))" using ws by (intro turn_done [OF s]) (simp add: policy_writes_def put_all_def)
    then show ?thesis using u pv Nil by (simp add: signal_phase_def applyPolicySignal_def)
  next
    case (Cons v vs)
    have dr: "drop (length xs) (replicate m 0) = replicate (m - length xs) 0" for xs :: "int list" and m by simp
    from Cons show ?thesis using ws u pv turn_set [OF s]
      by (auto simp: signal_phase_def applyPolicySignal_def policy_writes_def Let_def split: if_splits)
  qed
qed

lemma phase_turn:
  assumes s: "same_inputs b0 b" and ws: "writes_of C private b0 sig = ret ws" and w: "waits_for C private b0 sig w"
  shows "turn_ok C private b0 b sig w ws (signal_phase C private b sig w)"
proof (cases "sig_name sig \<in> set known_names")
  case True
  show ?thesis
  proof (cases "sig_name sig = TrusteePublicKey")
    case t: True
    have "w = Start \<or> w = Loading_trustee" using w True t by (cases w) (auto simp: signal_names)
    then show ?thesis using trustee_turn [OF s t ws _ w] by simp
  next
    case False
    then show ?thesis using known_turn [OF s True _ ws w] by simp
  qed
next
  case False
  show ?thesis
  proof (cases "w = Start")
    case True
    have "turn_ok C private b0 b sig w ws (ret (b, Some Unknown))" by (rule turn_waits [OF s]) (simp_all add: False True)
    then show ?thesis using False True by (simp add: signal_phase_def applySignal_def known_names_def)
  next
    case st: False
    then show ?thesis
      using claim_turn [OF s False _ _ st, of C ws] policy_turn [OF s False _ _ st, of ws C] ws w False
      by (cases "private") (simp_all add: writes_of_def)
  qed
qed

section \<open>Threads\<close>

definition thread_ok :: "credential_env \<Rightarrow> bool \<Rightarrow> ProofInputBuilder \<Rightarrow> (parsed_signal \<Rightarrow> (string \<times> input_value) list) \<Rightarrow> thread \<Rightarrow> bool" where
  "thread_ok C private b0 W t \<longleftrightarrow> (\<forall>sig \<in> set (snd t). writes_of C private b0 sig = ret (W sig)) \<and>
     (snd t \<noteq> [] \<longrightarrow> waits_for C private b0 (hd (snd t)) (fst t))"

definition pending :: "(parsed_signal \<Rightarrow> (string \<times> input_value) list) \<Rightarrow> thread \<Rightarrow> (string \<times> input_value) set" where
  "pending W t = (\<Union>sig \<in> set (snd t). set (W sig))"

definition thread_turns :: "thread \<Rightarrow> nat" where
  "thread_turns t = (case snd t of [] \<Rightarrow> 0 | sig # rest \<Rightarrow> turns_left (fst t) + 3 * length rest)"

lemma thread_turns_0: "thread_turns t = 0 \<longleftrightarrow> snd t = []"
proof (cases "snd t")
  case (Cons sig rest)
  have "turns_left (fst t) \<noteq> 0" by (cases "fst t") simp_all
  then show ?thesis using Cons by (simp add: thread_turns_def)
qed (simp add: thread_turns_def)

lemma thread_turn:
  assumes s: "same_inputs b0 b" and t: "thread_ok C private b0 W t"
  shows "\<exists>b' t' ws. thread_step C private b t = ret (b', t') \<and> same_inputs b0 b' \<and> thread_ok C private b0 W t' \<and>
    pb_data b' = put_all (pb_data b) ws \<and> set ws \<union> pending W t' = pending W t \<and> thread_turns t' \<le> thread_turns t - 1"
proof (cases "snd t")
  case Nil
  then show ?thesis using s t by (intro exI [of _ "[]"] exI [of _ t] exI [of _ b]) (simp add: thread_step_def put_all_def thread_turns_def)
next
  case (Cons sig rest)
  have "turn_ok C private b0 b sig (fst t) (W sig) (signal_phase C private b sig (fst t))"
    using phase_turn [OF s, of C "private" sig "W sig" "fst t"] t Cons by (simp add: thread_ok_def)
  then obtain b' w where r: "signal_phase C private b sig (fst t) = ret (b', w)" "same_inputs b0 b'"
    and next_w: "case w of Some w' \<Rightarrow> pb_data b' = pb_data b \<and> waits_for C private b0 sig w' \<and> turns_left w' < turns_left (fst t)
      | None \<Rightarrow> pb_data b' = put_all (pb_data b) (W sig)"
    by (auto simp: turn_ok_def)
  show ?thesis
  proof (cases w)
    case None
    have "1 \<le> turns_left (fst t)" by (cases "fst t") simp_all
    then have "thread_turns (Start, rest) \<le> thread_turns t - 1" by (cases rest) (simp_all add: thread_turns_def Cons)
    then show ?thesis
      using r next_w None t Cons
      by (intro exI [of _ b'] exI [of _ "(Start, rest)"] exI [of _ "W sig"])
        (auto simp: thread_step_def thread_ok_def pending_def)
  next
    case (Some w')
    then have "turns_left w' < turns_left (fst t)" using next_w by simp
    then have "thread_turns (w', sig # rest) \<le> thread_turns t - 1" unfolding thread_turns_def using Cons by simp
    then show ?thesis
      using r next_w Some t Cons
      by (intro exI [of _ b'] exI [of _ "(w', sig # rest)"] exI [of _ "[]"])
        (simp add: thread_step_def thread_ok_def pending_def put_all_def)
  qed
qed


section \<open>The build\<close>

definition all_writes :: "(bool \<Rightarrow> parsed_signal \<Rightarrow> (string \<times> input_value) list) \<Rightarrow> ProofInputBuilder \<Rightarrow> (string \<times> input_value) list" where
  "all_writes W b = concat (map (W True) (privateSignals b)) @ concat (map (W False) (publicSignals b))"

definition consistent :: "('k \<times> 'v) list \<Rightarrow> bool" where
  "consistent ws \<longleftrightarrow> (\<forall>(k, v) \<in> set ws. map_of ws k = Some v)"

lemma put_all_append: "put_all d (xs @ ys) = put_all (put_all d xs) ys"
  by (simp add: put_all_def)

lemma consistent_subset: "consistent ws \<Longrightarrow> (k, v) \<in> set ws \<Longrightarrow> (k, v') \<in> set ws \<Longrightarrow> v = v'"
proof -
  assume "consistent ws" "(k, v) \<in> set ws" "(k, v') \<in> set ws"
  then have "map_of ws k = Some v" "map_of ws k = Some v'" by (auto simp: consistent_def)
  then show "v = v'" by simp
qed

lemma map_of_put_all:
  "(\<And>k v v'. (k, v) \<in> set ws \<Longrightarrow> (k, v') \<in> set ws \<Longrightarrow> v = v') \<Longrightarrow> map_of (put_all [] ws) k = Some v \<longleftrightarrow> (k, v) \<in> set ws"
proof (induction ws arbitrary: k v rule: rev_induct)
  case (snoc w ws)
  obtain n u where w: "w = (n, u)" by (cases w)
  have IH: "map_of (put_all [] ws) k = Some v \<longleftrightarrow> (k, v) \<in> set ws" for k v
    by (rule snoc.IH) (use snoc.prems in auto)
  have "map_of (put_all [] (ws @ [w])) k = (if k = n then Some u else map_of (put_all [] ws) k)"
    by (simp add: put_all_append w) (simp add: put_all_def map_of_obj_put)
  then show ?case using IH [of k v] snoc.prems [of n u v] by (auto simp: w)
qed (simp add: put_all_def)

definition build_ok where
  "build_ok C b0 W st \<longleftrightarrow> same_inputs b0 (bs_builder st) \<and> thread_ok C True b0 (W True) (bs_private st) \<and> thread_ok C False b0 (W False) (bs_public st)
     \<and> (\<exists>ws. pb_data (bs_builder st) = put_all [] ws \<and>
          set ws \<union> pending (W True) (bs_private st) \<union> pending (W False) (bs_public st) = set (all_writes W b0))"

lemma build_turn_ok:
  assumes "build_ok C b0 W st"
  shows "\<exists>st'. build_turn C st x = ret st' \<and> build_ok C b0 W st' \<and>
    thread_turns (bs_private st') \<le> thread_turns (bs_private st) - of_bool x \<and>
    thread_turns (bs_public st') \<le> thread_turns (bs_public st) - of_bool (\<not> x)"
proof -
  obtain ws where ws: "pb_data (bs_builder st) = put_all [] ws"
      "set ws \<union> pending (W True) (bs_private st) \<union> pending (W False) (bs_public st) = set (all_writes W b0)"
    and s: "same_inputs b0 (bs_builder st)" and t: "thread_ok C True b0 (W True) (bs_private st)" "thread_ok C False b0 (W False) (bs_public st)"
    using assms by (auto simp: build_ok_def)
  show ?thesis
  proof (cases x)
    case True
    obtain b' t' us where r: "thread_step C True (bs_builder st) (bs_private st) = ret (b', t')" "same_inputs b0 b'" "thread_ok C True b0 (W True) t'"
      "pb_data b' = put_all (pb_data (bs_builder st)) us" "set us \<union> pending (W True) t' = pending (W True) (bs_private st)"
      "thread_turns t' \<le> thread_turns (bs_private st) - 1"
      using thread_turn [OF s t(1)] by blast
    let ?st = "st\<lparr> bs_builder := b', bs_private := t' \<rparr>"
    have "build_ok C b0 W ?st"
      unfolding build_ok_def using r ws t(2)
      by (simp, intro exI [of _ "ws @ us"]) (auto simp: put_all_append)
    then show ?thesis using r True by (intro exI [of _ ?st]) (simp add: build_turn_def)
  next
    case False
    obtain b' t' us where r: "thread_step C False (bs_builder st) (bs_public st) = ret (b', t')" "same_inputs b0 b'" "thread_ok C False b0 (W False) t'"
      "pb_data b' = put_all (pb_data (bs_builder st)) us" "set us \<union> pending (W False) t' = pending (W False) (bs_public st)"
      "thread_turns t' \<le> thread_turns (bs_public st) - 1"
      using thread_turn [OF s t(2)] by blast
    let ?st = "st\<lparr> bs_builder := b', bs_public := t' \<rparr>"
    have "build_ok C b0 W ?st"
      unfolding build_ok_def using r ws t(1)
      by (simp, intro exI [of _ "ws @ us"]) (auto simp: put_all_append)
    then show ?thesis using r False by (intro exI [of _ ?st]) (simp add: build_turn_def)
  qed
qed

lemma build_turns_ok:
  "build_ok C b0 W st \<Longrightarrow> \<exists>st'. foldJ (build_turn C) st schedule = ret st' \<and> build_ok C b0 W st' \<and>
    thread_turns (bs_private st') \<le> thread_turns (bs_private st) - count_list schedule True \<and>
    thread_turns (bs_public st') \<le> thread_turns (bs_public st) - count_list schedule False"
proof (induction schedule arbitrary: st)
  case (Cons x schedule)
  obtain st1 where st1: "build_turn C st x = ret st1" "build_ok C b0 W st1"
    "thread_turns (bs_private st1) \<le> thread_turns (bs_private st) - of_bool x"
    "thread_turns (bs_public st1) \<le> thread_turns (bs_public st) - of_bool (\<not> x)"
    using build_turn_ok [OF Cons.prems] by blast
  obtain st' where "foldJ (build_turn C) st1 schedule = ret st'" "build_ok C b0 W st'"
    "thread_turns (bs_private st') \<le> thread_turns (bs_private st1) - count_list schedule True"
    "thread_turns (bs_public st') \<le> thread_turns (bs_public st1) - count_list schedule False"
    using Cons.IH [OF st1(2)] by blast
  moreover have "thread_turns (bs_private st') \<le> thread_turns (bs_private st) - count_list (x # schedule) True"
    "thread_turns (bs_public st') \<le> thread_turns (bs_public st) - count_list (x # schedule) False"
    using st1(3,4) calculation(3,4) by (cases x; simp; linarith)+
  ultimately show ?case using st1(1) by (intro exI [of _ st']) simp
qed simp

text \<open>
  C5: the inputs of a proof do not depend on how the private and the public signals are
  interleaved.  Let every signal of the circuit have its value: a known signal the builder's
  field, the loader's answer, the root of the claims tree or a part of the issuer's proof;
  another private signal the claim with its key and siblings, another public one the policy
  rules of its name (the lists \<open>W\<close>, given by \<open>writes_of\<close>); and let no name get two values.
  Then \<open>build\<close> throws under no schedule, three turns for every signal complete it, and when
  it is done the data are exactly those values.
\<close>

theorem build_schedule_independent:
  assumes "initClaimsTree C b = ret b0" "pb_data b = []"
    and "\<forall>sig \<in> set (privateSignals b). writes_of C True b0 sig = ret (W True sig)"
    and "\<forall>sig \<in> set (publicSignals b). writes_of C False b0 sig = ret (W False sig)"
    and "consistent (all_writes W b)"
  shows "\<exists>st. build_under C b schedule = ret st
    \<and> (3 * length (privateSignals b) \<le> count_list schedule True \<and> 3 * length (publicSignals b) \<le> count_list schedule False \<longrightarrow> build_done st)
    \<and> (build_done st \<longrightarrow> map_of (pb_data (bs_builder st)) = map_of (all_writes W b))"
proof -
  have b0: "privateSignals b0 = privateSignals b" "publicSignals b0 = publicSignals b" "pb_data b0 = []"
    using assms(1,2) by (auto simp: initClaimsTree_def bindJ_eq_ret privateSignals_def publicSignals_def)
  then have all: "all_writes W b0 = all_writes W b" by (simp add: all_writes_def)
  have "build_ok C b0 W (start_build b0)"
    using assms(3,4) b0
    by (auto simp: build_ok_def start_build_def same_inputs_def thread_ok_def put_all_def pending_def all_writes_def intro!: exI [of _ "[]"])
  then obtain st where st: "foldJ (build_turn C) (start_build b0) schedule = ret st" "build_ok C b0 W st"
    "thread_turns (bs_private st) \<le> thread_turns (bs_private (start_build b0)) - count_list schedule True"
    "thread_turns (bs_public st) \<le> thread_turns (bs_public (start_build b0)) - count_list schedule False"
    using build_turns_ok by blast
  have turns: "thread_turns (Start, sigs) = 3 * length sigs" for sigs by (cases sigs) (simp_all add: thread_turns_def)
  have "build_done st" if "3 * length (privateSignals b) \<le> count_list schedule True" "3 * length (publicSignals b) \<le> count_list schedule False"
    using st(3,4) that turns thread_turns_0 [of "bs_private st"] thread_turns_0 [of "bs_public st"]
    by (simp add: start_build_def b0 build_done_def)
  moreover have "map_of (pb_data (bs_builder st)) = map_of (all_writes W b)" if fin: "build_done st"
  proof -
    obtain ws where ws: "pb_data (bs_builder st) = put_all [] ws" "set ws = set (all_writes W b)"
      using st(2) fin all by (auto simp: build_ok_def build_done_def pending_def)
    have c: "v = v'" if "(k, v) \<in> set (all_writes W b)" "(k, v') \<in> set (all_writes W b)" for k v v'
      using consistent_subset [OF assms(5) that] .
    have "map_of (put_all [] ws) k = Some v \<longleftrightarrow> map_of (all_writes W b) k = Some v" for k v
      using map_of_put_all [of ws k v] c ws(2) assms(5) map_of_SomeD [of "all_writes W b" k v] by (auto simp: consistent_def)
    then show ?thesis unfolding ws(1) by (intro ext) (metis not_None_eq)
  qed
  ultimately show ?thesis using st(1) assms(1) by (intro exI [of _ st]) (simp add: build_under_def)
qed

section \<open>A small build\<close>

definition builder17 :: ProofInputBuilder where
  "builder17 = withCircuit ([''timestamp'', ''m[2]''], [''a'', ''userPrivateKey'']) (withPolicy [(''m'', [3])]
     (withTimestampLoader (Some (ret 9)) ((ProofInputBuilder_new vc17)\<lparr> pb_userPrivateKey := Some 7 \<rparr>)))"

fun writes17 :: "bool \<Rightarrow> parsed_signal \<Rightarrow> (string \<times> input_value) list" where
  "writes17 True sig = (if sig_name sig = ''a''
     then [(''a'', In_int 8), (''aKey'', In_int 0), (''aProof'', int_values [10, 12, 0, 0, 0])] else [(''userPrivateKey'', In_int 7)])"
| "writes17 False sig = (if sig_name sig = ''timestamp'' then [(''timestamp'', In_int 9)] else [(''m'', int_values [3, 0])])"

lemma builder17_sel:
  "pb_credential builder17 = vc17" "pb_claimsTreeDepth builder17 = None" "pb_userPrivateKey builder17 = Some 7"
  "pb_policy builder17 = Some [(''m'', [3])]" "pb_timestampLoader builder17 = Some (ret 9)" "pb_data builder17 = []"
  by (simp_all add: builder17_def withCircuit_def withPolicy_def withTimestampLoader_def ProofInputBuilder_new_def)

lemma builder17_signals:
  "privateSignals builder17 = [Signal ''a'' 0 None, Signal ''userPrivateKey'' 0 None]"
  "publicSignals builder17 = [Signal ''timestamp'' 0 None, Signal ''m'' 2 (Some (Signal '''' 0 None))]"
proof -
  have "parseInt10 ''2'' = Some 2" by code_simp
  then show "privateSignals builder17 = [Signal ''a'' 0 None, Signal ''userPrivateKey'' 0 None]"
    "publicSignals builder17 = [Signal ''timestamp'' 0 None, Signal ''m'' 2 (Some (Signal '''' 0 None))]"
    by (simp_all add: builder17_def withCircuit_def withPolicy_def privateSignals_def publicSignals_def parseSignal.simps)
qed

lemma claim17: 
  assumes "smt_rep env13 (ct_smt T) tree3" "ct_keys T = [''a'', ''meta.validUntil'', ''meta.validFrom'']" "ct_depth T = None"
  shows "ClaimsTree_get env13 T ''a'' = ret \<lparr> cp_found = True, cp_key = 0, cp_value = 8, cp_siblings = [10, 12, 0, 0, 0] \<rparr>"
proof -
  have "collision_free env13 (subs tree3)"
    using tree3_free by (auto simp: no_collisions_def tree3_steps p_env13 collision_free_def dest!: spec [of _ 2])
  then have "SMT_get env13 (ct_smt T) 0 = ret (found_at 0 (MLeaf 0 8) [10, 12])"
    using smt_get_located [OF smt_env13 assms(1), of "[]" 0 "[MLeaf 1 12, MLeaf 2 11]" "MLeaf 0 8"]
    by (simp add: p_env13 digests3 del: digest.simps)
  moreover have "F_zero (pe_F env13) = 0" using F13_wf by (simp add: env13_def F1_wf_def)
  ultimately show ?thesis
    by (simp add: ClaimsTree_get_def encodeKey_def found_at_def treeDepth_def assms(2,3) DEFAULT_TREE_DEPTH_def numeral_eq_Suc)
qed

theorem build_schedule_independent_witness:
  "\<exists>st. build_under cred17 builder17 (concat (replicate 6 [True, False])) = ret st \<and> build_done st \<and>
    map_of (pb_data (bs_builder st)) ''aKey'' = Some (In_int 0) \<and> map_of (pb_data (bs_builder st)) ''m'' = Some (int_values [3, 0]) \<and>
    map_of (pb_data (bs_builder st)) ''b'' = None"
proof -
  obtain T where T: "credential_tree cred17 vc17 = ret T" "smt_rep env13 (ct_smt T) tree3"
    "ct_keys T = [''a'', ''meta.validUntil'', ''meta.validFrom'']" "ct_depth T = None"
    using cred17_tree_rep by blast
  have d: "tree_depth builder17 = None" by (simp add: tree_depth_def builder17_signals builder17_sel ends_with_def)
  let ?b = "builder17\<lparr> pb_claimsTree := Some T \<rparr>"
  have i: "initClaimsTree cred17 builder17 = ret ?b"
    using T(1) d by (simp add: initClaimsTree_def credential_tree_def builder17_sel)
  have k: "normalizeClaimKey ''a'' = ''a''" by (simp add: normalizeClaimKey_def trim_def is_space_def)
  have n: "''a'' \<notin> set known_names" "''m'' \<notin> set known_names" by (simp_all add: known_names_def signal_names)
  have "\<forall>sig \<in> set (privateSignals builder17). writes_of cred17 True ?b sig = ret (writes17 True sig)"
    using n(1) claim17 [OF T(2-4)]
    by (simp add: builder17_signals writes_of_def claim_writes_def k)
      (simp add: known_names_def signal_names known_write_def builder17_sel)
  moreover have "\<forall>sig \<in> set (publicSignals builder17). writes_of cred17 False ?b sig = ret (writes17 False sig)"
    using n(2)
    by (simp add: builder17_signals writes_of_def policy_writes_def)
      (simp add: known_names_def signal_names known_write_def builder17_sel policy_values_def beBuff2int_eq be_val_def)
  moreover have "pb_data builder17 = []" by (simp add: builder17_sel)
  moreover have "consistent (all_writes writes17 builder17)"
    by (simp add: consistent_def all_writes_def builder17_signals)
  ultimately obtain st where "build_under cred17 builder17 (concat (replicate 6 [True, False])) = ret st"
    "3 * length (privateSignals builder17) \<le> count_list (concat (replicate 6 [True, False])) True \<and>
     3 * length (publicSignals builder17) \<le> count_list (concat (replicate 6 [True, False])) False \<longrightarrow> build_done st"
    "build_done st \<longrightarrow> map_of (pb_data (bs_builder st)) = map_of (all_writes writes17 builder17)"
    using build_schedule_independent [OF i, of writes17 "concat (replicate 6 [True, False])"] by blast
  then show ?thesis by (simp add: builder17_signals all_writes_def numeral_eq_Suc)
qed

end
