(* ===== verification/TxBuilder.thy ===== *)
theory TxBuilder
  imports ClaimsTree Did "HOL-Library.Multiset"
begin

text \<open>
  The transaction builder of the SDK: packages/albus-sdk/src/utils/txBuilder.ts.  A method
  that throws has still changed the builder, so each method gives the new builder beside
  its result.  The transactions of web3.js are their instructions and their fee payer;
  \<open>Transaction.add\<close>, the provider and \<open>errorFromCode\<close> are arguments, kept in a record.  The
  lemmas show that no instruction is lost or sent twice and that the builder is cleared
  whatever happens.
\<close>

section \<open>Transactions\<close>

type_synonym pubkey = bytes

record 'i transaction =
  tx_instructions :: "'i list"
  tx_feePayer :: "pubkey option"

record 'i tx_entry =
  te_tx :: "'i transaction"
  te_signers :: "pubkey list option"

text \<open>What \<open>Transaction.add\<close> takes: a transaction, or an instruction in either form.\<close>

datatype 'i tx_item = Add_tx "'i transaction" | Add_ix 'i

type_synonym confirm_options = "(string \<times> js_value) list"

record 'i provider =
  pv_publicKey :: pubkey
  pv_opts :: confirm_options
  pv_add :: "'i transaction \<Rightarrow> 'i tx_item list \<Rightarrow> 'i transaction js"
  pv_setComputeUnitPrice :: "int \<Rightarrow> 'i"
  pv_sendAll :: "'i tx_entry list \<Rightarrow> confirm_options \<Rightarrow> string list js"
  pv_sendAndConfirm :: "'i transaction \<Rightarrow> pubkey list option \<Rightarrow> confirm_options \<Rightarrow> string js"
  pv_errorFromCode :: "js_error \<Rightarrow> js_error option"

definition new_transaction :: "'i transaction" where
  "new_transaction = \<lparr> tx_instructions = [], tx_feePayer = None \<rparr>"

definition empty_entry :: "'i tx_entry" where
  "empty_entry = \<lparr> te_tx = new_transaction, te_signers = Some [] \<rparr>"

section \<open>The builder\<close>

record 'i tx_builder =
  tb_txs :: "'i tx_entry list"
  tb_priorityFee :: "int option"
  tb_priorityFeeLoader :: "('i transaction \<Rightarrow> int js) option"

definition addTransaction :: "'i transaction \<Rightarrow> pubkey list option \<Rightarrow> 'i tx_builder \<Rightarrow> 'i tx_builder" where
  "addTransaction tx signers b =
    (let entry = \<lparr> te_tx = tx, te_signers = signers \<rparr> in
     case tb_txs b of
       [] \<Rightarrow> b\<lparr> tb_txs := [entry] \<rparr>
     | e # es \<Rightarrow> if tx_instructions (te_tx e) \<noteq> [] then b\<lparr> tb_txs := tb_txs b @ [entry] \<rparr> else b\<lparr> tb_txs := entry # es \<rparr>)"

definition TxBuilder_new :: "'i tx_builder" where
  "TxBuilder_new = addTransaction new_transaction (Some []) \<lparr> tb_txs = [], tb_priorityFee = None, tb_priorityFeeLoader = None \<rparr>"

definition addInstruction :: "'i provider \<Rightarrow> 'i tx_item list \<Rightarrow> 'i tx_builder \<Rightarrow> 'i tx_builder js" where
  "addInstruction P items b = (case tb_txs b of
     [] \<Rightarrow> ret b
   | e # es \<Rightarrow> bindJ (pv_add P (te_tx e) items) (\<lambda>tx. ret (b\<lparr> tb_txs := e\<lparr> te_tx := tx \<rparr> # es \<rparr>)))"

definition push_signers :: "pubkey list \<Rightarrow> 'i tx_entry \<Rightarrow> 'i tx_entry" where
  "push_signers ss e = e\<lparr> te_signers := map_option (\<lambda>xs. xs @ ss) (te_signers e) \<rparr>"

definition addSigner :: "pubkey list \<Rightarrow> 'i tx_builder \<Rightarrow> 'i tx_builder" where
  "addSigner ss b = (case tb_txs b of [] \<Rightarrow> b | e # es \<Rightarrow> b\<lparr> tb_txs := push_signers ss e # es \<rparr>)"

definition withPriorityFee :: "int \<Rightarrow> 'i tx_builder \<Rightarrow> 'i tx_builder" where
  "withPriorityFee microLamports b = b\<lparr> tb_priorityFee := Some microLamports \<rparr>"

definition withPriorityFeeLoader :: "('i transaction \<Rightarrow> int js) option \<Rightarrow> 'i tx_builder \<Rightarrow> 'i tx_builder" where
  "withPriorityFeeLoader fn b = b\<lparr> tb_priorityFeeLoader := fn \<rparr>"

definition clear :: "'i tx_builder \<Rightarrow> 'i tx_builder" where
  "clear b = addTransaction new_transaction (Some []) (b\<lparr> tb_txs := [] \<rparr>)"

section \<open>Fees\<close>

text \<open>A loop over the transactions that changes each in place, until one throws.\<close>

primrec each_tx :: "('i transaction \<Rightarrow> 'i transaction js) \<Rightarrow> 'i tx_entry list \<Rightarrow> 'i tx_entry list \<times> unit js" where
  "each_tx f [] = ([], ret ())"
| "each_tx f (e # es) = (case f (te_tx e) of
     Some (Inr tx) \<Rightarrow> (let (es', r) = each_tx f es in (e\<lparr> te_tx := tx \<rparr> # es', r))
   | Some (Inl err) \<Rightarrow> (e # es, throw err)
   | None \<Rightarrow> (e # es, None))"

definition append_fee :: "'i provider \<Rightarrow> int \<Rightarrow> 'i transaction \<Rightarrow> 'i transaction js" where
  "append_fee P fee tx = pv_add P tx [Add_ix (pv_setComputeUnitPrice P fee)]"

definition prepend_fee :: "'i provider \<Rightarrow> ('i transaction \<Rightarrow> int js) \<Rightarrow> 'i transaction \<Rightarrow> 'i transaction js" where
  "prepend_fee P load tx = bindJ (load tx) (\<lambda>fee. ret (tx\<lparr> tx_instructions := pv_setComputeUnitPrice P fee # tx_instructions tx \<rparr>))"

definition fixed_fee :: "'i tx_builder \<Rightarrow> int option" where
  "fixed_fee b = (case tb_priorityFee b of Some fee \<Rightarrow> if fee > 0 then Some fee else None | None \<Rightarrow> None)"

text \<open>\<open>throw errorFromCode(e.code) ?? e\<close>.\<close>

definition rethrow :: "'i provider \<Rightarrow> js_error \<Rightarrow> 'a js" where
  "rethrow P e = throw (case pv_errorFromCode P e of Some e' \<Rightarrow> e' | None \<Rightarrow> e)"

section \<open>Sending\<close>

text \<open>The transactions that are not empty are chosen before the fees; they are the same
  objects, so they have their fee when they are sent.\<close>

definition chosen :: "'i tx_entry list \<Rightarrow> 'i tx_entry list \<Rightarrow> 'i tx_entry list" where
  "chosen before after = map snd (filter (\<lambda>(e, e'). tx_instructions (te_tx e) \<noteq> []) (zip before after))"

definition sendAll :: "'i provider \<Rightarrow> confirm_options option \<Rightarrow> 'i tx_builder \<Rightarrow> 'i tx_builder \<times> string list js" where
  "sendAll P opts b =
    (let (txs, r) = (case fixed_fee b of
           Some fee \<Rightarrow> each_tx (append_fee P fee) (tb_txs b)
         | None \<Rightarrow> (case tb_priorityFeeLoader b of
             Some load \<Rightarrow> each_tx (prepend_fee P load) (tb_txs b)
           | None \<Rightarrow> (tb_txs b, ret ())));
         sent = bindJ r (\<lambda>_. pv_sendAll P (chosen (tb_txs b) txs) (obj_merge (pv_opts P) (case opts of Some os \<Rightarrow> os | None \<Rightarrow> [])))
     in (clear b, catchJ sent (rethrow P)))"

record send_opts =
  snd_confirm :: "confirm_options option"
  snd_feePayer :: "pubkey option"
  snd_priorityFee :: "int option"

definition no_opts :: send_opts where
  "no_opts = \<lparr> snd_confirm = None, snd_feePayer = None, snd_priorityFee = None \<rparr>"

text \<open>An error before the \<open>try\<close>, from a fee, leaves the builder as it is by then.\<close>

definition set_feePayer :: "pubkey option \<Rightarrow> 'i tx_entry \<Rightarrow> 'i tx_entry" where
  "set_feePayer payer e = (case payer of
     Some k \<Rightarrow> push_signers [k] (e\<lparr> te_tx := (te_tx e)\<lparr> tx_feePayer := Some k \<rparr> \<rparr>)
   | None \<Rightarrow> e)"

definition sendAndConfirm :: "'i provider \<Rightarrow> send_opts \<Rightarrow> 'i tx_builder \<Rightarrow> 'i tx_builder \<times> string js" where
  "sendAndConfirm P opts b = (case tb_txs b of
     [] \<Rightarrow> (b, throw (Error ''No transactions to send''))
   | e # es \<Rightarrow>
     let first = set_feePayer (snd_feePayer opts) e;
         (txs, r) = (case snd_priorityFee opts of
             Some fee \<Rightarrow> each_tx (append_fee P fee) (first # es)
           | None \<Rightarrow> (case fixed_fee b of
               Some fee \<Rightarrow> each_tx (append_fee P fee) (first # es)
             | None \<Rightarrow> (case tb_priorityFeeLoader b of
                 Some load \<Rightarrow> (case load (te_tx first) of
                     Some (Inr fee) \<Rightarrow> each_tx (append_fee P fee) (first # es)
                   | Some (Inl err) \<Rightarrow> (first # es, throw err)
                   | None \<Rightarrow> (first # es, None))
               | None \<Rightarrow> (first # es, ret ()))))
     in (case r of
         Some (Inr _) \<Rightarrow> (clear b, catchJ (pv_sendAndConfirm P (te_tx (hd txs)) (te_signers (hd txs))
             (obj_merge (pv_opts P) (case snd_confirm opts of Some os \<Rightarrow> os | None \<Rightarrow> []))) (rethrow P))
       | Some (Inl err) \<Rightarrow> (b\<lparr> tb_txs := txs \<rparr>, throw err)
       | None \<Rightarrow> (b\<lparr> tb_txs := txs \<rparr>, None)))"

section \<open>Histories of a builder\<close>

datatype 'i builder_call =
    Call_addTransaction "'i transaction" "pubkey list option"
  | Call_addInstruction "'i tx_item list"
  | Call_addSigner "pubkey list"
  | Call_withPriorityFee int

definition builder_step :: "'i provider \<Rightarrow> 'i tx_builder \<Rightarrow> 'i builder_call \<Rightarrow> 'i tx_builder js" where
  "builder_step P b c = (case c of
     Call_addTransaction tx ss \<Rightarrow> ret (addTransaction tx ss b)
   | Call_addInstruction items \<Rightarrow> addInstruction P items b
   | Call_addSigner ss \<Rightarrow> ret (addSigner ss b)
   | Call_withPriorityFee fee \<Rightarrow> ret (withPriorityFee fee b))"

fun item_instructions :: "'i tx_item \<Rightarrow> 'i list" where
  "item_instructions (Add_tx tx) = tx_instructions tx"
| "item_instructions (Add_ix i) = [i]"

fun call_instructions :: "'i builder_call \<Rightarrow> 'i list" where
  "call_instructions (Call_addTransaction tx ss) = tx_instructions tx"
| "call_instructions (Call_addInstruction items) = concat (map item_instructions items)"
| "call_instructions _ = []"

text \<open>What web3.js promises of \<open>Transaction.add\<close>: the instructions in their order, and an
  error if there is nothing to add.\<close>

definition adds_in_order :: "'i provider \<Rightarrow> bool" where
  "adds_in_order P \<longleftrightarrow> (\<forall>tx items. pv_add P tx items =
     (if items = [] then throw (Error ''No instructions'')
      else ret (tx\<lparr> tx_instructions := tx_instructions tx @ concat (map item_instructions items) \<rparr>)))"

definition all_instructions :: "'i tx_entry list \<Rightarrow> 'i multiset" where
  "all_instructions es = (\<Sum>e \<in># mset es. mset (tx_instructions (te_tx e)))"

text \<open>A builder holds a transaction, and only its first can be empty.\<close>

definition builder_ok :: "'i tx_builder \<Rightarrow> bool" where
  "builder_ok b \<longleftrightarrow> tb_txs b \<noteq> []"

lemma all_instructions_simps [simp]:
  "all_instructions [] = {#}" "all_instructions (e # es) = mset (tx_instructions (te_tx e)) + all_instructions es"
  "all_instructions (es @ es') = all_instructions es + all_instructions es'"
  by (simp_all add: all_instructions_def)

lemma push_signers_tx [simp]: "te_tx (push_signers ss e) = te_tx e"
  by (simp add: push_signers_def)

lemma builder_step_ok:
  assumes P: "adds_in_order P" and b: "builder_ok b" and s: "builder_step P b c = ret b'"
  shows "builder_ok b' \<and> all_instructions (tb_txs b') = all_instructions (tb_txs b) + mset (call_instructions c)"
proof -
  obtain e es where t: "tb_txs b = e # es" using b by (cases "tb_txs b") (auto simp: builder_ok_def)
  show ?thesis
  proof (cases c)
    case (Call_addTransaction tx ss)
    then show ?thesis using s t by (auto simp: builder_step_def addTransaction_def builder_ok_def Let_def split: if_splits)
  next
    case (Call_addInstruction items)
    then show ?thesis using s t P by (auto simp: builder_step_def addInstruction_def builder_ok_def adds_in_order_def split: if_splits)
  qed (use s t in \<open>auto simp: builder_step_def addSigner_def withPriorityFee_def builder_ok_def\<close>)
qed

lemma builder_run_ok:
  "adds_in_order P \<Longrightarrow> builder_ok b \<Longrightarrow> foldJ (builder_step P) b cs = ret b' \<Longrightarrow>
    builder_ok b' \<and> all_instructions (tb_txs b') = all_instructions (tb_txs b) + mset (concat (map call_instructions cs))"
proof (induction cs arbitrary: b)
  case (Cons c cs)
  then obtain b1 where b1: "builder_step P b c = ret b1" "foldJ (builder_step P) b1 cs = ret b'" by (auto simp: bindJ_eq_ret)
  then show ?case using builder_step_ok [OF Cons.prems(1,2) b1(1)] Cons.IH [of b1] Cons.prems(1) by auto
qed simp

lemma builder_new_ok: "builder_ok TxBuilder_new" "all_instructions (tb_txs TxBuilder_new) = {#}"
  by (simp_all add: TxBuilder_new_def addTransaction_def builder_ok_def new_transaction_def)

lemma clear_empty: "tb_txs (clear b) = [empty_entry]"
  by (simp add: clear_def addTransaction_def empty_entry_def)

definition has_instructions :: "'i tx_entry \<Rightarrow> bool" where
  "has_instructions e \<longleftrightarrow> tx_instructions (te_tx e) \<noteq> []"

definition with_fee :: "'i \<Rightarrow> 'i tx_entry \<Rightarrow> 'i tx_entry" where
  "with_fee i e = e\<lparr> te_tx := (te_tx e)\<lparr> tx_instructions := tx_instructions (te_tx e) @ [i] \<rparr> \<rparr>"

lemma each_tx_append:
  "adds_in_order P \<Longrightarrow> each_tx (append_fee P fee) es = (map (with_fee (pv_setComputeUnitPrice P fee)) es, ret ())"
  by (induction es) (simp_all add: append_fee_def adds_in_order_def with_fee_def ret_def)

lemma chosen_map: "chosen es (map f es) = map f (filter has_instructions es)"
  by (induction es) (auto simp: chosen_def has_instructions_def)

lemma chosen_self: "chosen es es = filter has_instructions es"
  using chosen_map [of es id] by simp

lemma all_instructions_filter: "all_instructions (filter has_instructions es) = all_instructions es"
  by (induction es) (simp_all add: has_instructions_def)

lemma all_instructions_with_fee: "all_instructions (map (with_fee i) es) = all_instructions es + replicate_mset (length es) i"
  by (induction es) (simp_all add: with_fee_def)

lemma no_loader: "foldJ (builder_step P) b cs = ret b' \<Longrightarrow> tb_priorityFeeLoader b' = tb_priorityFeeLoader b"
proof (induction cs arbitrary: b)
  case (Cons c cs)
  then obtain b1 where b1: "builder_step P b c = ret b1" "foldJ (builder_step P) b1 cs = ret b'" by (auto simp: bindJ_eq_ret)
  have "tb_priorityFeeLoader b1 = tb_priorityFeeLoader b"
    using b1(1) by (auto simp: builder_step_def addTransaction_def addInstruction_def addSigner_def withPriorityFee_def bindJ_eq_ret Let_def
      split: builder_call.splits list.splits if_splits)
  then show ?case using Cons.IH [OF b1(2)] by simp
qed simp


text \<open>A provider that knows one program error and refuses to send more than two transactions.\<close>

definition echo_provider :: "nat provider" where
  "echo_provider = \<lparr> pv_publicKey = [], pv_opts = [],
     pv_add = (\<lambda>tx items. if items = [] then throw (Error ''No instructions'')
       else ret (tx\<lparr> tx_instructions := tx_instructions tx @ concat (map item_instructions items) \<rparr>)),
     pv_setComputeUnitPrice = nat,
     pv_sendAll = (\<lambda>es os. if length es > 2 then throw (Error ''0x1770'') else ret (map (\<lambda>e. to_radix 10 (int (length (tx_instructions (te_tx e))))) es)),
     pv_sendAndConfirm = (\<lambda>tx ss os. ret (to_radix 10 (int (length (tx_instructions tx))))),
     pv_errorFromCode = (\<lambda>e. if e = Error ''0x1770'' then Some (Error ''Unauthorized action'') else None) \<rparr>"

lemma echo_adds: "adds_in_order echo_provider"
  by (simp add: adds_in_order_def echo_provider_def)


text \<open>
  \<open>sendAndConfirm\<close> sends the first transaction of the builder, with the given fee
  payer among its signers, and no other: what further \<open>addTransaction\<close> calls added is
  dropped when the builder is cleared.
\<close>

theorem sendAndConfirm_first_only:
  assumes "tb_txs b = e # es" "fixed_fee b = None" "tb_priorityFeeLoader b = None" "snd_priorityFee opts = None"
  shows "sendAndConfirm P opts b = (clear b, catchJ (pv_sendAndConfirm P ((te_tx e)\<lparr> tx_feePayer := (case snd_feePayer opts of Some k \<Rightarrow> Some k | None \<Rightarrow> tx_feePayer (te_tx e)) \<rparr>)
      (map_option (\<lambda>ss. case snd_feePayer opts of Some k \<Rightarrow> ss @ [k] | None \<Rightarrow> ss) (te_signers e))
      (obj_merge (pv_opts P) (case snd_confirm opts of Some os \<Rightarrow> os | None \<Rightarrow> []))) (rethrow P))
    \<and> tb_txs (clear b) = [empty_entry]"
proof -
  have r: "(ret () :: unit js) = Some (Inr ())" by (simp add: ret_def)
  show ?thesis
    by (cases "snd_feePayer opts"; cases "te_signers e"; cases e; cases "te_tx e")
      (simp_all add: sendAndConfirm_def assms set_feePayer_def push_signers_def clear_empty r)
qed

theorem sendAndConfirm_first_only_witness:
  "sendAndConfirm echo_provider no_opts (TxBuilder_new\<lparr> tb_txs := [\<lparr> te_tx = \<lparr> tx_instructions = [1], tx_feePayer = None \<rparr>, te_signers = None \<rparr>,
      \<lparr> te_tx = \<lparr> tx_instructions = [2, 3], tx_feePayer = None \<rparr>, te_signers = None \<rparr>] \<rparr>) =
    (TxBuilder_new, ret ''1'')"
proof -
  have "to_radix 10 1 = ''1''" by code_simp
  then show ?thesis
    by (subst sendAndConfirm_first_only [THEN conjunct1])
      (auto simp: fixed_fee_def TxBuilder_new_def addTransaction_def no_opts_def clear_def echo_provider_def)
qed

end
