(* ===== verification/Pda.thy ===== *)
theory Pda
  imports TxBuilder
begin

text \<open>
  The addresses of the accounts of the program: packages/albus-sdk/src/pda.ts.  The
  derivation of web3.js, \<open>findProgramAddressSync\<close> for a program, is the argument \<open>derive\<close>,
  which gives the address for a list of seeds; a public key is its 32 bytes.
\<close>

type_synonym deriver = "bytes list \<Rightarrow> pubkey js"

definition pda_authority :: "deriver \<Rightarrow> pubkey \<Rightarrow> pubkey js" where
  "pda_authority derive programId = derive [programId]"

definition pda_issuer :: "deriver \<Rightarrow> string \<Rightarrow> pubkey js" where
  "pda_issuer derive code = derive [text_bytes ''issuer'', text_bytes code]"

text \<open>\<open>id.toString(16)\<close> of a natural number.\<close>

definition pda_credential :: "uint8arrays \<Rightarrow> deriver \<Rightarrow> pubkey \<Rightarrow> nat \<Rightarrow> pubkey js" where
  "pda_credential U derive issuer n =
    bindJ (hexToBytes U (to_radix 16 (int n)) 0) (\<lambda>b. derive [text_bytes ''credential'', issuer, b])"

definition pda_credentialSpec :: "deriver \<Rightarrow> pubkey \<Rightarrow> string \<Rightarrow> pubkey js" where
  "pda_credentialSpec derive issuer code = derive [text_bytes ''credential-spec'', issuer, text_bytes code]"

definition pda_credentialRequest :: "deriver \<Rightarrow> pubkey \<Rightarrow> pubkey \<Rightarrow> pubkey js" where
  "pda_credentialRequest derive spec authority = derive [text_bytes ''credential-request'', spec, authority]"

definition pda_circuit :: "deriver \<Rightarrow> string \<Rightarrow> pubkey js" where
  "pda_circuit derive code = derive [text_bytes ''circuit'', text_bytes code]"

definition pda_serviceProvider :: "deriver \<Rightarrow> string \<Rightarrow> pubkey js" where
  "pda_serviceProvider derive code = derive [text_bytes ''service-provider'', text_bytes code]"

definition pda_policy :: "deriver \<Rightarrow> pubkey \<Rightarrow> string \<Rightarrow> pubkey js" where
  "pda_policy derive service code = derive [text_bytes ''policy'', service, text_bytes code]"

definition pda_proofRequest :: "deriver \<Rightarrow> pubkey \<Rightarrow> pubkey \<Rightarrow> pubkey js" where
  "pda_proofRequest derive policy user = derive [text_bytes ''proof-request'', policy, user]"

definition pda_investigationRequest :: "deriver \<Rightarrow> pubkey \<Rightarrow> pubkey \<Rightarrow> pubkey js" where
  "pda_investigationRequest derive proofRequest authority = derive [text_bytes ''investigation-request'', proofRequest, authority]"

definition pda_investigationRequestShare :: "deriver \<Rightarrow> pubkey \<Rightarrow> pubkey \<Rightarrow> pubkey js" where
  "pda_investigationRequestShare derive investigation trustee = derive [text_bytes ''investigation-request-share'', investigation, trustee]"

definition pda_trustee :: "deriver \<Rightarrow> bytes \<Rightarrow> pubkey js" where
  "pda_trustee derive key = derive [text_bytes ''trustee'', key]"

end
