(* ===== verification/Accounts.thy ===== *)
theory Accounts
  imports Pda Zkp
begin

text \<open>
  What the account managers of the SDK share: the instructions of packages/albus-sdk/src/generated
  that they build, as constructors with their accounts and data; searches, which are a list
  of filters that the RPC runs; and the reading of several accounts.  How instructions and
  accounts are written in bytes is generated code.
\<close>

section \<open>Data of the instructions\<close>

record account_meta =
  am_pubkey :: pubkey
  am_isSigner :: bool
  am_isWritable :: bool

record circuit_data =
  cd_code :: string
  cd_name :: string
  cd_description :: string
  cd_wasmUri :: string
  cd_zkeyUri :: string
  cd_outputs :: "string list"
  cd_privateSignals :: "string list"
  cd_publicSignals :: "string list"

record vk_update =
  vu_alpha :: "bytes option"
  vu_beta :: "bytes option"
  vu_gamma :: "bytes option"
  vu_delta :: "bytes option"
  vu_ic :: "bytes list option"
  vu_extendIc :: bool

record policy_rule =
  rl_key :: string
  rl_label :: string
  rl_value :: bytes

record policy_data =
  yd_code :: string
  yd_name :: string
  yd_description :: string
  yd_expirationPeriod :: int
  yd_retentionPeriod :: int
  yd_rules :: "policy_rule list"

record policy_changes =
  yc_name :: "string option"
  yc_description :: "string option"
  yc_expirationPeriod :: "int option"
  yc_retentionPeriod :: "int option"
  yc_rules :: "policy_rule list option"

record contact_info =
  co_kind :: int
  co_value :: string

record service_data =
  sd_code :: string
  sd_name :: string
  sd_website :: string
  sd_contactInfo :: "contact_info option"
  sd_secretShareThreshold :: "int option"
  sd_trustees :: "pubkey list option"
  sd_authority :: "pubkey option"

record service_changes =
  sc_name :: "string option"
  sc_website :: "string option"
  sc_contactInfo :: "contact_info option"
  sc_secretShareThreshold :: "int option"
  sc_newAuthority :: "pubkey option"
  sc_clearTrustees :: bool

record trustee_data =
  td_key :: bytes
  td_name :: string
  td_email :: string
  td_website :: string
  td_authority :: "pubkey option"

record trustee_changes =
  tc_name :: "string option"
  tc_email :: "string option"
  tc_website :: "string option"
  tc_newAuthority :: "pubkey option"

record issuer_data =
  id_code :: string
  id_name :: string
  id_description :: string
  id_authority :: pubkey
  id_pubkey :: pubkey
  id_zkPubkey :: bytes

record credential_accounts =
  xa_albusAuthority :: pubkey
  xa_mint :: pubkey
  xa_tokenAccount :: pubkey
  xa_metadataAccount :: pubkey
  xa_editionAccount :: pubkey
  xa_authority :: pubkey

record credential_request_accounts =
  qa_credentialRequest :: pubkey
  qa_credentialSpec :: pubkey
  qa_credentialMint :: pubkey
  qa_credentialMetadata :: pubkey
  qa_credentialToken :: pubkey
  qa_credentialOwner :: pubkey
  qa_issuer :: pubkey
  qa_authority :: pubkey
  qa_albusAuthority :: pubkey

record update_accounts =
  ua_albusAuthority :: pubkey
  ua_credentialRequest :: "pubkey option"
  ua_credentialRequestIssuer :: "pubkey option"
  ua_mint :: pubkey
  ua_metadataAccount :: pubkey
  ua_authority :: pubkey

text \<open>The accounts come before the data; the programs of Solana that are always the same are left out.\<close>

datatype account_instruction =
    CreateCircuit pubkey pubkey circuit_data
  | UpdateCircuitVk pubkey pubkey vk_update
  | DeleteCircuit pubkey pubkey
  | CreatePolicy pubkey pubkey pubkey pubkey policy_data
  | UpdatePolicy pubkey pubkey pubkey policy_changes
  | DeletePolicy pubkey pubkey pubkey
  | CreateServiceProvider pubkey pubkey service_data
  | UpdateServiceProvider pubkey pubkey "account_meta list option" service_changes
  | DeleteServiceProvider pubkey pubkey
  | CreateTrustee pubkey pubkey trustee_data
  | UpdateTrustee pubkey pubkey trustee_changes
  | VerifyTrustee pubkey pubkey
  | DeleteTrustee pubkey pubkey
  | CreateIssuer pubkey pubkey issuer_data
  | DeleteIssuer pubkey pubkey
  | CreateCredentialSpec pubkey pubkey pubkey string string string
  | DeleteCredentialSpec pubkey pubkey pubkey
  | RequestCredential credential_request_accounts string
  | UpdateCredentialRequest pubkey pubkey pubkey int string
  | DeleteCredentialRequest pubkey pubkey
  | CreateCredential credential_accounts pubkey
  | UpdateCredential update_accounts string string
  | DeleteCredential credential_accounts

section \<open>Searches and readings\<close>

datatype filter_value = By_discriminator | By_key pubkey | By_text string | By_bytes bytes | By_bool bool | By_number int

record gpa =
  gp_filters :: "(string \<times> filter_value) list"
  gp_noData :: bool

definition gpaBuilder :: "bool \<Rightarrow> gpa" where
  "gpaBuilder noData = \<lparr> gp_filters = [(''accountDiscriminator'', By_discriminator)], gp_noData = noData \<rparr>"

definition addFilter :: "string \<Rightarrow> filter_value option \<Rightarrow> gpa \<Rightarrow> gpa" where
  "addFilter name value g = (case value of Some v \<Rightarrow> g\<lparr> gp_filters := gp_filters g @ [(name, v)] \<rparr> | None \<Rightarrow> g)"

text \<open>The accounts that the RPC finds, with what the reader makes of them unless only the addresses are asked for.\<close>

definition find_accounts :: "(gpa \<Rightarrow> (pubkey \<times> 'acc) list js) \<Rightarrow> ('acc \<Rightarrow> 'd js) \<Rightarrow> gpa \<Rightarrow> (pubkey \<times> 'd option) list js" where
  "find_accounts run reader g = bindJ (run g) (mapJ (\<lambda>(k, acc).
     if gp_noData g then ret (k, None) else bindJ (reader acc) (\<lambda>d. ret (k, Some d))))"

text \<open>A map from the found addresses, in the order in which they were first found.\<close>

definition by_address :: "(pubkey \<times> 'd) list \<Rightarrow> (pubkey \<times> 'd) list" where
  "by_address found = foldl (\<lambda>m (k, d). if k \<in> fst ` set m then map (\<lambda>(k', d'). if k' = k then (k, d) else (k', d')) m else m @ [(k, d)]) [] found"

text \<open>The accounts that exist among several addresses.\<close>

definition load_existing :: "(pubkey list \<Rightarrow> 'acc option list js) \<Rightarrow> ('acc \<Rightarrow> 'd js) \<Rightarrow> pubkey list \<Rightarrow> 'd list js" where
  "load_existing infos reader addrs = bindJ (infos addrs) (\<lambda>accs. mapJ reader (List.map_filter (\<lambda>a. a) accs))"

text \<open>An account that is given by its address, or was loaded before.\<close>

definition load_account :: "(pubkey \<Rightarrow> 'd js) \<Rightarrow> pubkey + 'd \<Rightarrow> 'd js" where
  "load_account reader addr = (case addr of Inr acc \<Rightarrow> ret acc | Inl k \<Rightarrow> reader k)"

end
