(* ===== verification/ProofRequest.thy ===== *)
theory ProofRequest
  imports Accounts ProofInput
begin

text \<open>
  Proof requests: packages/albus-sdk/src/proofRequestManager.ts.  The accounts are what the
  generated readers give for the bytes of an address, both arguments in the record
  \<open>sdk_env\<close> with the provider, the address derivation, lodash's \<open>chunk\<close> and the proof
  system.  An instruction is a constructor with its accounts and its data; how it is
  written in bytes is generated code.
\<close>

section \<open>Accounts and instructions\<close>

record prove_accounts =
  pa_proofRequest :: pubkey
  pa_circuit :: pubkey
  pa_policy :: pubkey
  pa_issuer :: "pubkey option"
  pa_authority :: pubkey

datatype instruction =
    SetComputeUnitLimit nat
  | SetComputeUnitPrice int
  | CreateProofRequest (ix_serviceProvider: pubkey) (ix_proofRequest: pubkey) (ix_policy: pubkey) (ix_authority: pubkey) int int
  | DeleteProofRequest (ix_proofRequest: pubkey) (ix_authority: pubkey)
  | UpdateProofRequest (ix_proofRequest: pubkey) (ix_authority: pubkey) nat
  | ProveProofRequest prove_accounts bool "bytes list" "proof_bytes option"
  | VerifyProofRequest (ix_proofRequest: pubkey) (ix_circuit: pubkey) (ix_authority: pubkey)
  | CreateInvestigationRequest pubkey pubkey pubkey pubkey "account_meta list option" pubkey "pubkey list"
  | DeleteInvestigationRequest pubkey "account_meta list" pubkey
  | RevealSecretShare pubkey pubkey pubkey pubkey bytes nat
  | Account_ix account_instruction

record circuit_account =
  ca_code :: string
  ca_vk :: vk_bytes
  ca_outputs :: "string list"
  ca_publicSignals :: "string list"
  ca_privateSignals :: "string list"
  ca_wasmUri :: string
  ca_zkeyUri :: string

record proof_request =
  pq_serviceProvider :: pubkey
  pq_policy :: pubkey
  pq_circuit :: pubkey
  pq_proof :: "proof_bytes option"
  pq_publicInputs :: "bytes list"
  pq_expiredAt :: int
  pq_verifiedAt :: int

record sdk_env =
  se_core :: credential_env
  se_provider :: "instruction provider"
  se_programId :: pubkey
  se_derive :: deriver
  se_chunk :: "bytes list \<Rightarrow> nat \<Rightarrow> bytes list list"
  se_proofRequest :: "pubkey \<Rightarrow> proof_request js"
  se_circuits :: "pubkey \<Rightarrow> circuit_account option js"
  se_loadCircuit :: "pubkey \<Rightarrow> circuit_account js"
  se_verifyProof :: "vk_data \<Rightarrow> int list \<Rightarrow> proof_data \<Rightarrow> bool js"
  se_blockTime :: "int option js"
  se_fee :: int
  se_feeLoader :: "(instruction transaction \<Rightarrow> int js) option"

abbreviation "se_key S \<equiv> pv_publicKey (se_provider S)"

text \<open>\<open>BaseManager.txBuilder\<close> without a builder of its own.\<close>

definition base_txBuilder :: "sdk_env \<Rightarrow> instruction tx_builder" where
  "base_txBuilder S = withPriorityFee (se_fee S) (withPriorityFeeLoader (se_feeLoader S) TxBuilder_new)"

text \<open>A manager's call: add the instructions to its builder and send it.\<close>

definition send_instructions :: "sdk_env \<Rightarrow> instruction list \<Rightarrow> send_opts \<Rightarrow> string js" where
  "send_instructions S ixs opts =
    bindJ (addInstruction (se_provider S) (map Add_ix ixs) (base_txBuilder S)) (\<lambda>b.
    snd (sendAndConfirm (se_provider S) opts b))"

section \<open>Requests\<close>

record create_request =
  cq_serviceCode :: string
  cq_policyCode :: string
  cq_expiresIn :: "int option"
  cq_maxPublicInputs :: "int option"
  cq_txBuilder :: "instruction tx_builder option"

text \<open>The address, the signature if the request was sent, and the caller's builder if it gave one.\<close>

definition ProofRequest_create :: "sdk_env \<Rightarrow> create_request \<Rightarrow> send_opts \<Rightarrow> (pubkey \<times> string option \<times> instruction tx_builder option) js" where
  "ProofRequest_create S props opts =
    bindJ (pda_serviceProvider (se_derive S) (cq_serviceCode props)) (\<lambda>serviceProvider.
    bindJ (pda_policy (se_derive S) serviceProvider (cq_policyCode props)) (\<lambda>policy.
    bindJ (pda_proofRequest (se_derive S) policy (se_key S)) (\<lambda>proofRequest.
    let ix = CreateProofRequest serviceProvider proofRequest policy (se_key S)
          (case cq_expiresIn props of Some e \<Rightarrow> e | None \<Rightarrow> 0) (case cq_maxPublicInputs props of Some n \<Rightarrow> n | None \<Rightarrow> 50) in
    case cq_txBuilder props of
      Some b \<Rightarrow> bindJ (addInstruction (se_provider S) [Add_ix ix] b) (\<lambda>b. ret (proofRequest, None, Some b))
    | None \<Rightarrow> bindJ (send_instructions S [ix] opts) (\<lambda>signature. ret (proofRequest, Some signature, None)))))"

definition ProofRequest_delete :: "sdk_env \<Rightarrow> pubkey \<Rightarrow> send_opts \<Rightarrow> string js" where
  "ProofRequest_delete S proofRequest opts = send_instructions S [DeleteProofRequest proofRequest (se_key S)] opts"

definition ProofRequest_changeStatus :: "sdk_env \<Rightarrow> pubkey \<Rightarrow> nat \<Rightarrow> send_opts \<Rightarrow> string js" where
  "ProofRequest_changeStatus S proofRequest status opts = send_instructions S [UpdateProofRequest proofRequest (se_key S) status] opts"

text \<open>The request is an address, or an account that was loaded before.  Decoding the signals
  reverses the arrays of that account in place: the second component.\<close>

definition ProofRequest_load :: "sdk_env \<Rightarrow> pubkey + proof_request \<Rightarrow> proof_request js" where
  "ProofRequest_load S addr = (case addr of Inr acc \<Rightarrow> ret acc | Inl k \<Rightarrow> se_proofRequest S k)"

definition ProofRequest_verify :: "sdk_env \<Rightarrow> pubkey + proof_request \<Rightarrow> (bool \<times> proof_request) js" where
  "ProofRequest_verify S addr =
    bindJ (ProofRequest_load S addr) (\<lambda>req. case pq_proof req of
      None \<Rightarrow> throw (Error ''Unable to verify the request, probably it's not proved'')
    | Some pr \<Rightarrow>
      bindJ (se_loadCircuit S (pq_circuit req)) (\<lambda>circuit.
      bindJ (decodeVerifyingKey (ca_vk circuit) None None) (\<lambda>vk.
      bindJ (decodeProof (ce_codec (se_core S)) (ee_draws (ce_eddsa (se_core S))) pr) (\<lambda>proof.
      let (publicInput, reversed) = decodePublicSignals (pq_publicInputs req) in
      bindJ (se_verifyProof S vk publicInput proof) (\<lambda>ok.
      ret (ok, req\<lparr> pq_publicInputs := reversed \<rparr>))))))"

definition ProofRequest_validate :: "sdk_env \<Rightarrow> proof_request \<Rightarrow> unit js" where
  "ProofRequest_validate S req =
    bindJ (se_blockTime S) (\<lambda>timestamp. case timestamp of
      None \<Rightarrow> throw (Error ''Failed to get solana block time'')
    | Some t \<Rightarrow>
      if t = 0 then throw (Error ''Failed to get solana block time'')
      else if pq_expiredAt req > 0 \<and> pq_expiredAt req < t then throw (Error ''Proof request is expired'')
      else if pq_verifiedAt req \<le> 0 then throw (Error ''Proof request is not verified'')
      else ret ())"

section \<open>Decryption\<close>

definition sig_get :: "signal_map \<Rightarrow> string \<Rightarrow> signal_value" where
  "sig_get m name = (case map_of m name of Some v \<Rightarrow> v | None \<Rightarrow> Undefined)"

text \<open>A signal that is not of the shape its use expects ends as a \<open>TypeError\<close> here.\<close>

fun as_bigint :: "signal_value \<Rightarrow> int js" where
  "as_bigint (Big n) = ret n"
| "as_bigint _ = throw (TypeError ''not a bigint'')"

fun as_bigints :: "signal_value \<Rightarrow> int list js" where
  "as_bigints (Arr vs) = mapJ as_bigint vs"
| "as_bigints _ = throw (TypeError ''not an array of bigints'')"

definition nonce_of :: "signal_value \<Rightarrow> int js" where
  "nonce_of v = (if v = Undefined then ret 0 else as_bigint v)"

text \<open>\<open>length - 1 - (length - 1 % 3)\<close>: \<open>%\<close> binds tighter than \<open>-\<close>.\<close>

definition decrypt_length :: "int \<Rightarrow> int" where
  "decrypt_length len = len - 1 - (len - 1 smod 3)"

record decrypted_data =
  de_birthDate_proof :: signal_value
  de_birthDate_key :: signal_value
  de_birthDate_value :: signal_value
  de_credentialRoot :: signal_value
  de_issuerPk :: signal_value
  de_issuerSignature :: signal_value
  de_userPublicKey :: signal_value

definition ProofRequest_decryptData :: "sdk_env \<Rightarrow> int \<Rightarrow> signal_map \<Rightarrow> decrypted_data js" where
  "ProofRequest_decryptData S secret signals =
    bindJ (nonce_of (sig_get signals ''timestamp'')) (\<lambda>nonce.
    bindJ (let v = sig_get signals ''encryptedData'' in if v = Undefined then ret [] else as_bigints v) (\<lambda>encryptedData.
    bindJ (poseidonDecrypt (ce_pos (se_core S)) encryptedData [secret, secret] (nat (decrypt_length (int (length encryptedData)))) nonce) (\<lambda>dat.
    ret \<lparr> de_birthDate_proof = sig_get signals ''birthDateProof'', de_birthDate_key = sig_get signals ''birthDateKey'',
      de_birthDate_value = (case dat of [] \<Rightarrow> Undefined | d # _ \<Rightarrow> Big d),
      de_credentialRoot = sig_get signals ''credentialRoot'', de_issuerPk = sig_get signals ''issuerPk'',
      de_issuerSignature = sig_get signals ''issuerSignature'', de_userPublicKey = sig_get signals ''userPublicKey'' \<rparr>)))"

section \<open>Proving\<close>

definition withProof :: nat where "withProof = 18"
definition withoutProof :: nat where "withoutProof = 26"

record prove_props =
  pp_proofRequest :: pubkey
  pp_circuit :: pubkey
  pp_policy :: pubkey
  pp_issuer :: "pubkey option"
  pp_proof :: proof_data
  pp_publicSignals :: "bigint_arg list"
  pp_verify :: bool
  pp_txBuilder :: "instruction tx_builder option"

definition add_tx_of :: "sdk_env \<Rightarrow> instruction list \<Rightarrow> instruction tx_builder \<Rightarrow> instruction tx_builder js" where
  "add_tx_of S ixs b = bindJ (foldJ (\<lambda>tx ix. pv_add (se_provider S) tx [Add_ix ix]) new_transaction ixs) (\<lambda>tx. ret (addTransaction tx None b))"

definition request_accounts :: "sdk_env \<Rightarrow> prove_props \<Rightarrow> pubkey option \<Rightarrow> prove_accounts" where
  "request_accounts S props issuer = \<lparr> pa_proofRequest = pp_proofRequest props, pa_circuit = pp_circuit props, pa_policy = pp_policy props,
     pa_issuer = issuer, pa_authority = se_key S \<rparr>"

definition input_chunks :: "sdk_env \<Rightarrow> bytes list \<Rightarrow> bytes list list" where
  "input_chunks S publicInputs =
    (if length publicInputs > withProof then se_chunk S (subarray publicInputs 0 (- int withProof)) withoutProof else [])"

text \<open>The builder with the transactions of a proof: the chunks of inputs without it, the
  proof with the last inputs, and the verification.\<close>

definition prove_transactions :: "sdk_env \<Rightarrow> prove_props \<Rightarrow> bytes list \<Rightarrow> proof_bytes \<Rightarrow> instruction tx_builder \<Rightarrow> instruction tx_builder js" where
  "prove_transactions S props publicInputs proof txBuilder =
    (let chunks = input_chunks S publicInputs in
     bindJ (foldJ (\<lambda>b i. add_tx_of S [ProveProofRequest (request_accounts S props None) (i = 0) (chunks ! i) None] b)
       txBuilder [0..<length chunks]) (\<lambda>b.
     bindJ (add_tx_of S [ProveProofRequest (request_accounts S props (pp_issuer props)) (length publicInputs \<le> withProof)
       (subarray_from publicInputs (- int withProof)) (Some proof)] b) (\<lambda>b.
     if pp_verify props
     then add_tx_of S [SetComputeUnitLimit 600000, VerifyProofRequest (pp_proofRequest props) (pp_circuit props) (se_key S)] b
     else ret b)))"

definition ProofRequest_prove :: "sdk_env \<Rightarrow> prove_props \<Rightarrow> confirm_options option \<Rightarrow> (string list \<times> instruction tx_builder option) js" where
  "ProofRequest_prove S props opts =
    bindJ (encodeProof (ce_codec (se_core S)) (ee_draws (ce_eddsa (se_core S))) (pp_proof props)) (\<lambda>proof.
    bindJ (encodePublicSignals (pp_publicSignals props)) (\<lambda>publicInputs.
    case pp_txBuilder props of
      Some b \<Rightarrow> bindJ (prove_transactions S props publicInputs proof b) (\<lambda>b. ret ([], Some b))
    | None \<Rightarrow> bindJ (prove_transactions S props publicInputs proof (base_txBuilder S)) (\<lambda>b.
        bindJ (snd (sendAll (se_provider S) opts b)) (\<lambda>signatures. ret (signatures, None)))))"

text \<open>\<open>verifyOnChain\<close>, with 400000 compute units unless others are given.\<close>

definition ProofRequest_verifyOnChain :: "sdk_env \<Rightarrow> pubkey \<Rightarrow> pubkey \<Rightarrow> nat option \<Rightarrow> instruction tx_builder option \<Rightarrow> send_opts \<Rightarrow>
    (string option \<times> instruction tx_builder option) js" where
  "ProofRequest_verifyOnChain S proofRequest circuit computeUnits txBuilder opts =
    (let ixs = [SetComputeUnitLimit (case computeUnits of Some n \<Rightarrow> n | None \<Rightarrow> 400000), VerifyProofRequest proofRequest circuit (se_key S)] in
     case txBuilder of
       Some b \<Rightarrow> bindJ (add_tx_of S ixs b) (\<lambda>b. ret (None, Some b))
     | None \<Rightarrow> bindJ (add_tx_of S ixs (base_txBuilder S)) (\<lambda>b.
         bindJ (snd (sendAndConfirm (se_provider S) opts b)) (\<lambda>signature. ret (Some signature, None))))"

text \<open>What the program does with the inputs of a prove instruction.\<close>

definition program_inputs :: "bytes list \<Rightarrow> instruction \<Rightarrow> bytes list" where
  "program_inputs stored ix = (case ix of
     ProveProofRequest accounts reset publicInputs proof \<Rightarrow> (if reset then [] else stored) @ publicInputs
   | _ \<Rightarrow> stored)"

end
