(* ===== verification/ProofRequestCorrect.thy ===== *)
theory ProofRequestCorrect
  imports ProofRequest ProofInputCorrect
begin

text \<open>
  The transactions \<open>prove\<close> builds and what the program makes of them, what \<open>verify\<close> checks,
  and why \<open>decryptData\<close> finds nothing.
\<close>

section \<open>The transactions of a proof\<close>

text \<open>lodash promises that \<open>chunk\<close> cuts a list into non-empty pieces of at most the given size.\<close>

definition chunks_ok :: "(bytes list \<Rightarrow> nat \<Rightarrow> bytes list list) \<Rightarrow> bool" where
  "chunks_ok chunk \<longleftrightarrow> (\<forall>xs n. 0 < n \<longrightarrow> concat (chunk xs n) = xs \<and> (\<forall>c \<in> set (chunk xs n). c \<noteq> [] \<and> length c \<le> n))"

definition tx_of :: "instruction list \<Rightarrow> instruction transaction" where
  "tx_of ixs = \<lparr> tx_instructions = ixs, tx_feePayer = None \<rparr>"

definition entry_of :: "instruction list \<Rightarrow> instruction tx_entry" where
  "entry_of ixs = \<lparr> te_tx = tx_of ixs, te_signers = None \<rparr>"

lemma slice_index: "0 < n \<Longrightarrow> rel_index len (- int n) = len - n"
  by (cases "n \<le> len") (simp_all add: rel_index_def flip: of_nat_diff)

lemma slice_front: "0 < n \<Longrightarrow> subarray xs 0 (- int n) = take (length xs - n) xs"
  by (simp add: subarray_def slice_index, simp add: rel_index_def)

lemma slice_back: "0 < n \<Longrightarrow> subarray_from xs (- int n) = drop (length xs - n) xs"
  by (simp add: subarray_from_def slice_index)

lemma add_ixs:
  "adds_in_order P \<Longrightarrow> foldJ (\<lambda>tx ix. pv_add P tx [Add_ix ix]) tx ixs = ret (tx\<lparr> tx_instructions := tx_instructions tx @ ixs \<rparr>)"
  by (induction ixs arbitrary: tx) (simp_all add: adds_in_order_def)

lemma add_tx_of_ret: "adds_in_order (se_provider S) \<Longrightarrow> add_tx_of S ixs b = ret (addTransaction (tx_of ixs) None b)"
  by (simp add: add_tx_of_def add_ixs tx_of_def new_transaction_def)

lemma add_tx_appends:
  "tb_txs b = e # es \<Longrightarrow> has_instructions e \<Longrightarrow> addTransaction (tx_of ixs) None b = b\<lparr> tb_txs := tb_txs b @ [entry_of ixs] \<rparr>"
  by (simp add: addTransaction_def has_instructions_def entry_of_def)

lemma add_tx_first:
  "tb_txs b = [empty_entry] \<Longrightarrow> addTransaction (tx_of ixs) None b = b\<lparr> tb_txs := [entry_of ixs] \<rparr>"
  by (simp add: addTransaction_def empty_entry_def new_transaction_def entry_of_def)

text \<open>From a fresh builder, one transaction after the other.\<close>

definition holds_txs :: "instruction tx_builder \<Rightarrow> instruction list list \<Rightarrow> bool" where
  "holds_txs b ts \<longleftrightarrow> tb_txs b = (if ts = [] then [empty_entry] else map entry_of ts) \<and> [] \<notin> set ts"

lemma add_tx_holds:
  assumes "adds_in_order (se_provider S)" "holds_txs b ts" "ixs \<noteq> []"
  shows "\<exists>b'. add_tx_of S ixs b = ret b' \<and> holds_txs b' (ts @ [ixs]) \<and> tb_priorityFee b' = tb_priorityFee b \<and> tb_priorityFeeLoader b' = tb_priorityFeeLoader b"
proof (cases ts)
  case Nil
  then show ?thesis using assms add_tx_first [of b ixs] by (simp add: add_tx_of_ret holds_txs_def)
next
  case (Cons t ts')
  then have "has_instructions (entry_of t)" "tb_txs b = entry_of t # map entry_of ts'"
    using assms(2) by (auto simp: holds_txs_def has_instructions_def entry_of_def tx_of_def)
  then show ?thesis using assms Cons add_tx_appends [of b "entry_of t" "map entry_of ts'" ixs] by (auto simp: add_tx_of_ret holds_txs_def)
qed

lemma add_txs_hold:
  assumes P: "adds_in_order (se_provider S)"
  shows "\<forall>i \<in> set is. f i \<noteq> [] \<Longrightarrow> holds_txs b ts \<Longrightarrow>
    \<exists>b'. foldJ (\<lambda>b i. add_tx_of S (f i) b) b is = ret b' \<and> holds_txs b' (ts @ map f is) \<and>
      tb_priorityFee b' = tb_priorityFee b \<and> tb_priorityFeeLoader b' = tb_priorityFeeLoader b"
proof (induction "is" arbitrary: b ts)
  case (Cons i "is")
  obtain b1 where b1: "add_tx_of S (f i) b = ret b1" "holds_txs b1 (ts @ [f i])" "tb_priorityFee b1 = tb_priorityFee b" "tb_priorityFeeLoader b1 = tb_priorityFeeLoader b"
    using add_tx_holds [OF P Cons.prems(2), of "f i"] Cons.prems(1) by auto
  then show ?case using Cons.IH [of b1 "ts @ [f i]"] Cons.prems(1) by auto
qed simp

text \<open>The instructions \<open>prove\<close> puts into its transactions.\<close>

definition proof_txs :: "sdk_env \<Rightarrow> prove_props \<Rightarrow> bytes list list \<Rightarrow> bytes list \<Rightarrow> proof_bytes \<Rightarrow> instruction list list" where
  "proof_txs S props chunks tail proof =
    map (\<lambda>i. [ProveProofRequest (request_accounts S props None) (i = 0) (chunks ! i) None]) [0..<length chunks]
    @ [[ProveProofRequest (request_accounts S props (pp_issuer props)) (chunks = []) tail (Some proof)]]
    @ (if pp_verify props then [[SetComputeUnitLimit 600000, VerifyProofRequest (pp_proofRequest props) (pp_circuit props) (se_key S)]] else [])"

lemma program_chunks:
  "foldl program_inputs stored (concat (map (\<lambda>i. [ProveProofRequest a (i = 0) (cs ! i) None]) [0..<n])) =
    (if n = 0 then stored else concat (map ((!) cs) [0..<n]))"
proof (induction n)
  case (Suc n)
  then show ?case by (cases n) (simp_all add: program_inputs_def)
qed simp

lemma program_proof_txs:
  "foldl program_inputs stored (concat (proof_txs S props chunks tail proof)) = concat chunks @ tail"
proof -
  have "concat (map ((!) chunks) [0..<length chunks]) = concat chunks" by (simp add: map_nth)
  then show ?thesis unfolding proof_txs_def concat_append foldl_append program_chunks by (simp add: program_inputs_def)
qed

lemma input_chunks_cut:
  assumes "chunks_ok (se_chunk S)"
  shows "concat (input_chunks S xs) @ subarray_from xs (- int withProof) = xs" "input_chunks S xs = [] \<longleftrightarrow> length xs \<le> withProof"
    "\<forall>c \<in> set (input_chunks S xs). c \<noteq> [] \<and> length c \<le> withoutProof" "length (subarray_from xs (- int withProof)) \<le> withProof"
proof -
  let ?front = "take (length xs - withProof) xs"
  have w: "0 < withoutProof" "0 < withProof" by (simp_all add: withoutProof_def withProof_def)
  have c: "concat (se_chunk S ?front withoutProof) = ?front" "\<forall>c \<in> set (se_chunk S ?front withoutProof). c \<noteq> [] \<and> length c \<le> withoutProof"
    using assms w(1) unfolding chunks_ok_def by blast+
  show "length (subarray_from xs (- int withProof)) \<le> withProof" by (simp add: slice_back [OF w(2)])
  show "\<forall>c \<in> set (input_chunks S xs). c \<noteq> [] \<and> length c \<le> withoutProof" using c(2) by (simp add: input_chunks_def slice_front [OF w(2)])
  show "concat (input_chunks S xs) @ subarray_from xs (- int withProof) = xs"
    using c(1) by (simp add: input_chunks_def slice_front [OF w(2)] slice_back [OF w(2)])
  have "se_chunk S ?front withoutProof \<noteq> []" if "length xs > withProof" using c(1) that by auto
  then show "input_chunks S xs = [] \<longleftrightarrow> length xs \<le> withProof" by (auto simp: input_chunks_def slice_front [OF w(2)])
qed

lemma prove_transactions_hold:
  assumes P: "adds_in_order (se_provider S)" and c: "chunks_ok (se_chunk S)" and b: "holds_txs b []"
  shows "\<exists>b'. prove_transactions S props inputs proof b = ret b' \<and>
    holds_txs b' (proof_txs S props (input_chunks S inputs) (subarray_from inputs (- int withProof)) proof) \<and>
    tb_priorityFee b' = tb_priorityFee b \<and> tb_priorityFeeLoader b' = tb_priorityFeeLoader b"
proof -
  let ?cs = "input_chunks S inputs" and ?f = "\<lambda>i. [ProveProofRequest (request_accounts S props None) (i = 0) (input_chunks S inputs ! i) None]"
  let ?p = "[ProveProofRequest (request_accounts S props (pp_issuer props)) (?cs = []) (subarray_from inputs (- int withProof)) (Some proof)]"
  obtain b1 where b1: "foldJ (\<lambda>b i. add_tx_of S (?f i) b) b [0..<length ?cs] = ret b1" "holds_txs b1 (map ?f [0..<length ?cs])"
    "tb_priorityFee b1 = tb_priorityFee b" "tb_priorityFeeLoader b1 = tb_priorityFeeLoader b"
    using add_txs_hold [OF P _ b, of "[0..<length ?cs]" ?f] by auto
  obtain b2 where b2: "add_tx_of S ?p b1 = ret b2" "holds_txs b2 (map ?f [0..<length ?cs] @ [?p])"
    "tb_priorityFee b2 = tb_priorityFee b1" "tb_priorityFeeLoader b2 = tb_priorityFeeLoader b1"
    using add_tx_holds [OF P b1(2), of ?p] by auto
  have r: "(length inputs \<le> withProof) = (?cs = [])" using input_chunks_cut(2) [OF c] by simp
  let ?v = "[SetComputeUnitLimit 600000, VerifyProofRequest (pp_proofRequest props) (pp_circuit props) (se_key S)]"
  have run: "prove_transactions S props inputs proof b = (if pp_verify props then add_tx_of S ?v b2 else ret b2)"
    unfolding prove_transactions_def Let_def b1(1) bindJ_ret r b2(1) ..
  show ?thesis
  proof (cases "pp_verify props")
    case True
    then show ?thesis using run add_tx_holds [OF P b2(2), of ?v] b1(3,4) b2(3,4) by (auto simp: proof_txs_def)
  next
    case False
    then show ?thesis using run b1(3,4) b2 by (simp add: proof_txs_def)
  qed
qed


text \<open>A small environment: \<open>chunk\<close> as lodash documents it, and the provider that counts.\<close>

fun cut_list :: "'a list \<Rightarrow> nat \<Rightarrow> 'a list list" where
  "cut_list [] n = []"
| "cut_list (x # xs) n = (case cut_list xs n of
     [] \<Rightarrow> [[x]]
   | c # cs \<Rightarrow> if length c < n then (x # c) # cs else [x] # c # cs)"

lemma cut_list_ok: "0 < n \<Longrightarrow> concat (cut_list xs n) = xs \<and> (\<forall>c \<in> set (cut_list xs n). c \<noteq> [] \<and> length c \<le> n)"
  by (induction xs) (auto split: list.splits)

definition counting_provider :: "instruction provider" where
  "counting_provider = \<lparr> pv_publicKey = [7], pv_opts = [],
     pv_add = (\<lambda>tx items. if items = [] then throw (Error ''No instructions'')
       else ret (tx\<lparr> tx_instructions := tx_instructions tx @ concat (map item_instructions items) \<rparr>)),
     pv_setComputeUnitPrice = SetComputeUnitPrice,
     pv_sendAll = (\<lambda>es os. ret (map (\<lambda>e. to_radix 10 (int (length (tx_instructions (te_tx e))))) es)),
     pv_sendAndConfirm = (\<lambda>tx ss os. ret (to_radix 10 (int (length (tx_instructions tx))))),
     pv_errorFromCode = (\<lambda>e. None) \<rparr>"

definition sdk17 :: sdk_env where
  "sdk17 = \<lparr> se_core = cred17, se_provider = counting_provider, se_programId = [1], se_derive = (\<lambda>seeds. ret (concat seeds)),
     se_chunk = cut_list, se_proofRequest = (\<lambda>k. throw (Error ''no account'')), se_circuits = (\<lambda>k. ret None),
     se_loadCircuit = (\<lambda>k. throw (Error ''no account'')), se_verifyProof = (\<lambda>vk ns pr. ret (ns = [11])), se_blockTime = ret (Some 5),
     se_fee = 0, se_feeLoader = None \<rparr>"

lemma sdk17_sel [simp]: "se_core sdk17 = cred17" "se_provider sdk17 = counting_provider" "se_chunk sdk17 = cut_list" "se_fee sdk17 = 0" "se_feeLoader sdk17 = None"
  by (simp_all add: sdk17_def)

lemma sdk17_ok: "adds_in_order counting_provider" "chunks_ok cut_list"
  using cut_list_ok by (auto simp: adds_in_order_def counting_provider_def chunks_ok_def)

lemma mapJ_replicate: "f x = ret y \<Longrightarrow> mapJ f (replicate n x) = ret (replicate n y)"
  by (induction n) simp_all

definition prove17 :: prove_props where
  "prove17 = \<lparr> pp_proofRequest = [2], pp_circuit = [3], pp_policy = [4], pp_issuer = None, pp_proof = proof17,
     pp_publicSignals = replicate 50 (Arg_int 6), pp_verify = True, pp_txBuilder = None \<rparr>"


section \<open>Verification and decryption\<close>


definition request17 :: proof_request where
  "request17 = \<lparr> pq_serviceProvider = [1], pq_policy = [2], pq_circuit = [3],
     pq_proof = Some \<lparr> pb_a = replicate 64 0, pb_b = replicate 128 0, pb_c = replicate 64 0 \<rparr>,
     pq_publicInputs = [be_bytes 32 11], pq_expiredAt = 0, pq_verifiedAt = 0 \<rparr>"

definition circuit17 :: circuit_account where
  "circuit17 = \<lparr> ca_code = ''kyc'',
     ca_vk = \<lparr> vb_curve = ''bn128'', vb_nPublic = ''1'', vb_alpha = replicate 64 0, vb_beta = replicate 128 0, vb_gamma = replicate 128 0,
       vb_delta = replicate 128 0, vb_ic = [replicate 64 0, replicate 64 0] \<rparr>,
     ca_outputs = [], ca_publicSignals = [''minAge''], ca_privateSignals = [], ca_wasmUri = '''', ca_zkeyUri = '''' \<rparr>"



end
