(* ===== verification/Investigation.thy ===== *)
theory Investigation
  imports ProofRequest Shamir
begin

text \<open>
  Investigations: packages/albus-sdk/src/investigationManager.ts, with the three handlers of
  the program (programs/albus/src/instructions/investigation) that keep the shares.  A
  trustee reveals its share of the secret under which the data of a proof were encrypted;
  the investigator collects the shares and reconstructs the secret.  The accounts of the
  program and the fresh ephemeral key are arguments.
\<close>

section \<open>Accounts\<close>

record investigation_request =
  ir_encryptionKey :: pubkey
  ir_requiredShareCount :: nat
  ir_trustees :: "pubkey list"
  ir_proofRequest :: pubkey

record share_account =
  sa_index :: nat
  sa_share :: bytes

record investigation_env = sdk_env +
  ie_request :: "pubkey \<Rightarrow> investigation_request js"
  ie_shares :: "pubkey \<Rightarrow> (pubkey \<times> share_account option) list js"
  ie_hasService :: "pubkey \<Rightarrow> bool js"

section \<open>The signals of a request\<close>

definition request_signals :: "'a sdk_env_scheme \<Rightarrow> circuit_account option \<Rightarrow> proof_request \<Rightarrow> signal_map js" where
  "request_signals S circuit req =
    bindJ (mapJ (bytesToBigInt (ce_codec (se_core S))) (pq_publicInputs req)) (\<lambda>inputs.
    getSignals (case circuit of Some c \<Rightarrow> ca_outputs c @ ca_publicSignals c | None \<Rightarrow> []) inputs)"

fun as_point :: "signal_value \<Rightarrow> (int \<times> int) js" where
  "as_point (Arr (Big x # Big y # _)) = ret (x, y)"
| "as_point _ = throw (TypeError ''not a point'')"

text \<open>\<open>signals.trusteePublicKey ?? []\<close>, on which an array method is called.\<close>

definition array_or_empty :: "signal_value \<Rightarrow> signal_value list js" where
  "array_or_empty v = (case v of Undefined \<Rightarrow> ret [] | Arr vs \<Rightarrow> ret vs | Big _ \<Rightarrow> throw (TypeError ''not a function''))"

text \<open>\<open>String(v)\<close>.\<close>

fun join_comma :: "string list \<Rightarrow> string" where
  "join_comma [] = []"
| "join_comma [s] = s"
| "join_comma (s # t # ss) = s @ '','' @ join_comma (t # ss)"

fun sig_String :: "signal_value \<Rightarrow> string" where
  "sig_String Undefined = ''undefined''"
| "sig_String (Big n) = to_radix 10 n"
| "sig_String (Arr vs) = join_comma (map (\<lambda>v. if v = Undefined then [] else sig_String v) vs)"

definition point_String :: "int \<times> int \<Rightarrow> string" where
  "point_String p = to_radix 10 (fst p) @ '','' @ to_radix 10 (snd p)"

text \<open>\<open>v?.[index]\<close>.\<close>

definition sig_at :: "signal_value \<Rightarrow> nat \<Rightarrow> signal_value" where
  "sig_at v i = (case v of Arr vs \<Rightarrow> if i < length vs then vs ! i else Undefined | _ \<Rightarrow> Undefined)"

text \<open>Addresses and a missing circuit in the text of an error.\<close>

definition key_text :: "'a sdk_env_scheme \<Rightarrow> pubkey \<Rightarrow> string" where
  "key_text S k = bytesToBase58 (ce_codec (se_core S)) k"

definition code_text :: "circuit_account option \<Rightarrow> string" where
  "code_text circuit = (case circuit of Some c \<Rightarrow> ca_code c | None \<Rightarrow> ''undefined'')"

section \<open>Creation and deletion\<close>

record created_investigation =
  ci_address :: pubkey
  ci_selectedTrustees :: "pubkey list"
  ci_instruction :: instruction

definition writable :: "pubkey \<Rightarrow> account_meta" where
  "writable k = \<lparr> am_pubkey = k, am_isSigner = False, am_isWritable = True \<rparr>"

definition Investigation_createIx :: "'a investigation_env_scheme \<Rightarrow> pubkey \<Rightarrow> pubkey option \<Rightarrow> created_investigation js" where
  "Investigation_createIx S addr encryptionKey =
    bindJ (se_proofRequest S addr) (\<lambda>req.
    if pq_proof req = None then throw (Error ''Proof request is not proved yet'')
    else bindJ (ie_hasService S (pq_serviceProvider req)) (\<lambda>found.
    bindJ (se_circuits S (pq_circuit req)) (\<lambda>circuit.
    if \<not> found then throw (Error (''Unable to find Service account at '' @ key_text S (pq_serviceProvider req)))
    else bindJ (request_signals S circuit req) (\<lambda>signals.
    if sig_get signals ''encryptedShare'' = Undefined then throw (Error (''The circuit '' @ code_text circuit @ '' does not support data encryption...''))
    else bindJ (array_or_empty (sig_get signals ''trusteePublicKey'')) (\<lambda>keys.
    bindJ (mapJ (\<lambda>v. bindJ (as_point v) (\<lambda>p. bindJ (packPubkey (ce_eddsa (se_core S)) p) (pda_trustee (se_derive S)))) keys) (\<lambda>selectedTrustees.
    bindJ (pda_investigationRequest (se_derive S) addr (se_key S)) (\<lambda>address.
    bindJ (mapJ (\<lambda>t. pda_investigationRequestShare (se_derive S) address t) selectedTrustees) (\<lambda>accounts.
    ret \<lparr> ci_address = address, ci_selectedTrustees = selectedTrustees,
      ci_instruction = CreateInvestigationRequest address addr (pq_serviceProvider req) (se_key S)
        (if selectedTrustees = [] then None else Some (map writable accounts))
        (case encryptionKey of Some k \<Rightarrow> k | None \<Rightarrow> se_key S) selectedTrustees \<rparr>))))))))"

text \<open>\<open>throw errorFromCode(e.code) ?? e\<close> around the sending.\<close>

definition send_guarded :: "'a sdk_env_scheme \<Rightarrow> instruction list \<Rightarrow> send_opts \<Rightarrow> string js" where
  "send_guarded S ixs opts = catchJ (send_instructions (sdk_env.truncate S) ixs opts) (rethrow (se_provider S))"

definition Investigation_create :: "'a investigation_env_scheme \<Rightarrow> pubkey \<Rightarrow> pubkey option \<Rightarrow> send_opts \<Rightarrow> (created_investigation \<times> string) js" where
  "Investigation_create S addr encryptionKey opts =
    bindJ (Investigation_createIx S addr encryptionKey) (\<lambda>ci.
    bindJ (send_guarded S [ci_instruction ci] opts) (\<lambda>signature. ret (ci, signature)))"

definition Investigation_deleteIx :: "'a investigation_env_scheme \<Rightarrow> pubkey \<Rightarrow> instruction js" where
  "Investigation_deleteIx S addr =
    bindJ (ie_request S addr) (\<lambda>req.
    bindJ (mapJ (\<lambda>t. pda_investigationRequestShare (se_derive S) addr t) (ir_trustees req)) (\<lambda>accounts.
    ret (DeleteInvestigationRequest addr (map writable accounts) (se_key S))))"

definition Investigation_delete :: "'a investigation_env_scheme \<Rightarrow> pubkey \<Rightarrow> send_opts \<Rightarrow> string js" where
  "Investigation_delete S addr opts =
    bindJ (Investigation_deleteIx S addr) (\<lambda>ix. send_guarded S [ix] opts)"

section \<open>Revealing a share\<close>

record revealed_share =
  rv_share :: pubkey
  rv_userPublicKey :: "int \<times> int"
  rv_secretShare :: "int list"
  rv_instruction :: instruction

definition key_index :: "signal_value list \<Rightarrow> int \<times> int \<Rightarrow> nat option" where
  "key_index keys pk = (case filter (\<lambda>i. sig_String (keys ! i) = point_String pk) [0..<length keys] of [] \<Rightarrow> None | i # _ \<Rightarrow> Some i)"

definition first_share :: "int list \<Rightarrow> int js" where
  "first_share ns = (case ns of n # _ \<Rightarrow> ret n | [] \<Rightarrow> throw (TypeError ''Cannot read properties of undefined''))"

definition Investigation_revealShareIx :: "'a investigation_env_scheme \<Rightarrow> KeyPair \<times> bytes \<Rightarrow> pubkey \<Rightarrow> bytes \<Rightarrow> revealed_share js" where
  "Investigation_revealShareIx S drawn addr encryptionKey =
    (let C = se_core S; E = ce_eddsa C in
     bindJ (ie_request S addr) (\<lambda>req.
     bindJ (se_proofRequest S (ir_proofRequest req)) (\<lambda>proofRequest.
     bindJ (se_circuits S (pq_circuit proofRequest)) (\<lambda>circuit.
     if circuit = None then throw (Error (''Unable to find Circuit account at '' @ key_text S (pq_circuit proofRequest)))
     else bindJ (request_signals S circuit proofRequest) (\<lambda>signals.
     if sig_get signals ''encryptedShare'' = Undefined then throw (Error (''The circuit \"'' @ code_text circuit @ ''\" does not support data encryption...''))
     else bindJ (ce_keypair C encryptionKey) (\<lambda>keypair.
     bindJ (PrivateKey_public E (kp_secretKey keypair)) (\<lambda>ePk.
     bindJ (array_or_empty (sig_get signals ''trusteePublicKey'')) (\<lambda>keys.
     case key_index keys ePk of
       None \<Rightarrow> throw (Error ''Unable to find a trustee pubkey...'')
     | Some index \<Rightarrow>
       bindJ (bindJ (PublicKey_compress E ePk) (pda_trustee (se_derive S))) (\<lambda>trustee.
       bindJ (pda_investigationRequestShare (se_derive S) addr trustee) (\<lambda>shareAddress.
       let encryptedShare = sig_at (sig_get signals ''encryptedShare'') index in
       if \<not> truthy encryptedShare then throw (Error (''Unable to find an encrypted share with index #'' @ to_radix 10 (int index)))
       else bindJ (as_point (sig_get signals ''userPublicKey'')) (\<lambda>userPublicKey.
       bindJ (generateEcdhSharedKey E encryptionKey userPublicKey) (\<lambda>sharedKey.
       bindJ (as_bigints encryptedShare) (\<lambda>ciphertext.
       bindJ (nonce_of (sig_get signals ''timestamp'')) (\<lambda>nonce.
       bindJ (poseidonDecrypt (ce_pos C) ciphertext [fst sharedKey, snd sharedKey] 1 nonce) (\<lambda>secretShare.
       bindJ (bindJ (first_share secretShare) (\<lambda>n. bigintToBytes (ce_codec C) n 0)) (\<lambda>shareBytes.
       bindJ (XC20P_encryptBytes (ce_codec C) (ce_xc C) (fst drawn) (snd drawn) shareBytes (ir_encryptionKey req) None) (\<lambda>newEncryptedShare.
       ret \<lparr> rv_share = shareAddress, rv_userPublicKey = userPublicKey, rv_secretShare = secretShare,
         rv_instruction = RevealSecretShare shareAddress addr trustee (se_key S) newEncryptedShare (index + 1) \<rparr>)))))))))))))))))"

definition Investigation_revealShare :: "'a investigation_env_scheme \<Rightarrow> KeyPair \<times> bytes \<Rightarrow> pubkey \<Rightarrow> bytes \<Rightarrow> send_opts \<Rightarrow> (revealed_share \<times> string) js" where
  "Investigation_revealShare S drawn addr encryptionKey opts =
    bindJ (Investigation_revealShareIx S drawn addr encryptionKey) (\<lambda>rv.
    bindJ (send_guarded S [rv_instruction rv] opts) (\<lambda>signature. ret (rv, signature)))"

section \<open>Decrypting the data\<close>

text \<open>The map of decrypted shares, in the order of their insertion.\<close>

definition collect_share :: "credential_env \<Rightarrow> bytes \<Rightarrow> share list \<Rightarrow> pubkey \<times> share_account option \<Rightarrow> share list js" where
  "collect_share C secretKey m entry = (case snd entry of
     None \<Rightarrow> ret m
   | Some acc \<Rightarrow>
     if int (sa_index acc) \<in> fst ` set m then ret m
     else if sa_share acc = [] then ret m
     else bindJ (XC20P_decryptBytes (ce_codec C) (ce_xc C) (sa_share acc) (Key_bytes secretKey) None) (\<lambda>shareBytes.
       bindJ (bytesToBigInt (ce_codec C) shareBytes) (\<lambda>share. ret (m @ [(int (sa_index acc), Arg_int share)]))))"

definition Investigation_secret :: "'a investigation_env_scheme \<Rightarrow> pubkey \<Rightarrow> bytes \<Rightarrow> int js" where
  "Investigation_secret S addr encryptionKey =
    (let C = se_core S in
     bindJ (ie_request S addr) (\<lambda>req.
     bindJ (ie_shares S addr) (\<lambda>shares.
     if length shares < ir_requiredShareCount req then throw (Error ''Invalid shares count'')
     else bindJ (ce_keypair C encryptionKey) (\<lambda>encKeypair.
     if kp_publicKey encKeypair \<noteq> ir_encryptionKey req then throw (Error ''Invalid encryption key'')
     else bindJ (foldJ (collect_share C (kp_secretKey encKeypair)) [] shares) (\<lambda>decryptedShares.
     reconstructShamirSecret (bj_F (ee_bj (ce_eddsa C))) (ir_requiredShareCount req) decryptedShares)))))"

definition Investigation_decryptData :: "'a investigation_env_scheme \<Rightarrow> pubkey \<Rightarrow> bytes \<Rightarrow> decrypted_data js" where
  "Investigation_decryptData S addr encryptionKey =
    bindJ (Investigation_secret S addr encryptionKey) (\<lambda>secret.
    bindJ (ie_request S addr) (\<lambda>req.
    bindJ (se_proofRequest S (ir_proofRequest req)) (\<lambda>proofRequest.
    bindJ (se_circuits S (pq_circuit proofRequest)) (\<lambda>circuit.
    if circuit = None then throw (Error (''Unable to find Circuit account at '' @ key_text S (pq_circuit proofRequest)))
    else bindJ (request_signals S circuit proofRequest) (\<lambda>signals.
    ProofRequest_decryptData (sdk_env.truncate S) secret signals)))))"

section \<open>The program\<close>

text \<open>The accounts of the program (programs/albus/src/state.rs) without their bumps.\<close>

datatype revelation_status = Pending | RevealedByUser | RevealedByTrustee

datatype investigation_status = PendingInvestigation | InProgress | UnderReview | Resolved

record stored_share =
  ss_investigation_request :: pubkey
  ss_proof_request_owner :: pubkey
  ss_trustee :: pubkey
  ss_index :: nat
  ss_created_at :: int
  ss_revealed_at :: int
  ss_status :: revelation_status
  ss_share :: bytes

record stored_investigation =
  si_request :: investigation_request
  si_authority :: pubkey
  si_owner :: pubkey
  si_service_provider :: pubkey
  si_status :: investigation_status
  si_created_at :: int
  si_revealed :: nat
  si_shares :: "(pubkey \<times> stored_share) list"

datatype program_error = InvalidData | Unauthorized | Unproved | ConstraintSeeds

text \<open>An account that was just initialized.\<close>

definition blank_share :: stored_share where
  "blank_share = \<lparr> ss_investigation_request = [], ss_proof_request_owner = [], ss_trustee = [], ss_index = 0,
     ss_created_at = 0, ss_revealed_at = 0, ss_status = Pending, ss_share = [] \<rparr>"

text \<open>\<open>create_investigation_request\<close>: the accounts and the clock, with the address that
  \<open>find_program_address\<close> gives for the share of a trustee.\<close>

record create_context =
  cx_investigation :: pubkey
  cx_proof_request :: pubkey
  cx_proof_request_owner :: pubkey
  cx_proved :: bool
  cx_service_provider :: pubkey
  cx_threshold :: nat
  cx_authority :: pubkey
  cx_remaining :: "pubkey list"
  cx_share_address :: "pubkey \<Rightarrow> pubkey"
  cx_timestamp :: int

text \<open>The loop: an account that is not there yet is made, numbered from 1 in a byte.\<close>

fun create_shares :: "create_context \<Rightarrow> pubkey list \<Rightarrow> (pubkey \<times> nat) list \<Rightarrow> (pubkey \<times> stored_share) list \<Rightarrow>
    program_error + (pubkey \<times> stored_share) list" where
  "create_shares cx trustees [] shares = Inr shares"
| "create_shares cx trustees ((account, idx) # accounts) shares =
    (if map_of shares account \<noteq> None then create_shares cx trustees accounts shares
     else if account \<noteq> cx_share_address cx (trustees ! idx) then Inl InvalidData
     else create_shares cx trustees accounts (shares @ [(account, blank_share\<lparr> ss_investigation_request := cx_investigation cx,
       ss_proof_request_owner := cx_proof_request_owner cx, ss_trustee := trustees ! idx, ss_created_at := cx_timestamp cx,
       ss_index := (idx + 1) mod 256, ss_share := [] \<rparr>)]))"

definition create_handler :: "create_context \<Rightarrow> (pubkey \<times> stored_share) list \<Rightarrow> pubkey \<Rightarrow> pubkey list \<Rightarrow> program_error + stored_investigation" where
  "create_handler cx existing encryption_key trustees =
    (if \<not> cx_proved cx then Inl Unproved
     else if cx_remaining cx \<noteq> [] \<and> length trustees \<noteq> length (cx_remaining cx) then Inl InvalidData
     else case create_shares cx trustees (zip (cx_remaining cx) [0..<length (cx_remaining cx)]) existing of
       Inl err \<Rightarrow> Inl err
     | Inr shares \<Rightarrow> Inr \<lparr>
         si_request = \<lparr> ir_encryptionKey = encryption_key, ir_requiredShareCount = cx_threshold cx, ir_trustees = trustees, ir_proofRequest = cx_proof_request cx \<rparr>,
         si_authority = cx_authority cx, si_owner = cx_proof_request_owner cx, si_service_provider = cx_service_provider cx,
         si_status = PendingInvestigation, si_created_at = cx_timestamp cx, si_revealed = 0, si_shares = shares \<rparr>)"

text \<open>\<open>reveal_secret_share\<close>, for an account that is initialized if it is not there; the
  result has the count of the trustee's account beside the investigation.\<close>

record reveal_context =
  rx_account :: pubkey
  rx_investigation :: pubkey
  rx_trustee :: pubkey
  rx_trustee_authority :: pubkey
  rx_trustee_count :: nat
  rx_authority :: pubkey
  rx_share_address :: "pubkey \<Rightarrow> pubkey"
  rx_timestamp :: int

definition share_at :: "(pubkey \<times> stored_share) list \<Rightarrow> pubkey \<Rightarrow> stored_share" where
  "share_at shares k = (case map_of shares k of Some s \<Rightarrow> s | None \<Rightarrow> blank_share)"

definition put_share :: "(pubkey \<times> stored_share) list \<Rightarrow> pubkey \<Rightarrow> stored_share \<Rightarrow> (pubkey \<times> stored_share) list" where
  "put_share shares k s = (if map_of shares k = None then shares @ [(k, s)] else map (\<lambda>(k', s'). if k' = k then (k, s) else (k', s')) shares)"

definition reveal_handler :: "reveal_context \<Rightarrow> stored_investigation \<Rightarrow> nat \<Rightarrow> bytes \<Rightarrow> program_error + stored_investigation \<times> nat" where
  "reveal_handler rx inq index share_bytes =
    (let share = share_at (si_shares inq) (rx_account rx);
         by_owner = (si_owner inq = rx_authority rx) in
     if rx_account rx \<noteq> rx_share_address rx (rx_trustee rx) then Inl ConstraintSeeds
     else if ss_revealed_at share \<noteq> 0 then Inl InvalidData
     else if si_revealed inq \<ge> ir_requiredShareCount (si_request inq) then Inl Unauthorized
     else if \<not> by_owner \<and> rx_trustee_authority rx \<noteq> rx_authority rx then Inl Unauthorized
     else Inr (inq\<lparr> si_revealed := si_revealed inq + 1,
         si_shares := put_share (si_shares inq) (rx_account rx) (share\<lparr>
           ss_status := (if by_owner then RevealedByUser else RevealedByTrustee),
           ss_investigation_request := rx_investigation rx, ss_proof_request_owner := si_owner inq, ss_trustee := rx_trustee rx,
           ss_index := index, ss_share := share_bytes, ss_revealed_at := rx_timestamp rx,
           ss_created_at := (if ss_created_at share = 0 then rx_timestamp rx else ss_created_at share) \<rparr>) \<rparr>,
       if by_owner then rx_trustee_count rx else rx_trustee_count rx + 1))"

text \<open>The accounts as the reader gives them; in which order is not known.\<close>

definition found_share :: "pubkey \<times> stored_share \<Rightarrow> pubkey \<times> share_account option" where
  "found_share e = (fst e, Some \<lparr> sa_index = ss_index (snd e), sa_share = ss_share (snd e) \<rparr>)"

end
