(* ===== verification/InvestigationCorrect.thy ===== *)
theory InvestigationCorrect
  imports Investigation CredentialCorrect ProofRequestCorrect
begin

text \<open>
  Investigations are correct: what a trustee reveals is the share of its position, the
  program's histories keep that, and the investigator's \<open>decryptData\<close> recovers the secret.
\<close>

section \<open>Finding the trustee\<close>

lemma no_comma: "CHR '','' \<notin> set (to_radix 10 n)"
proof -
  have d: "digit_char d \<noteq> CHR '',''" if "d < 10" for d
  proof
    assume "digit_char d = CHR '',''"
    then have "digit_val (CHR '','') = Some d" using digit_val_char [of d] that by simp
    then show False by (simp add: digit_val_def)
  qed
  then have "CHR '','' \<notin> set (map digit_char (radix_digits 10 m))" for m
    using radix_digits_less [of 10 _ m] by fastforce
  then show ?thesis by (simp add: to_radix_def)
qed

lemma point_String_inj:
  assumes "point_String p = point_String q" "0 \<le> fst p" "0 \<le> snd p" "0 \<le> fst q" "0 \<le> snd q"
  shows "p = q"
proof -
  have "takeWhile (\<lambda>c. c \<noteq> CHR '','') (point_String r) = to_radix 10 (fst r)" for r
    using no_comma [of "fst r"] by (simp add: point_String_def takeWhile_append1) (auto simp: takeWhile_append)
  then have f: "fst p = fst q" using assms by (metis to_radix_inj)
  then have "to_radix 10 (snd p) = to_radix 10 (snd q)" using assms(1) by (simp add: point_String_def)
  then show ?thesis using f assms(3,5) to_radix_inj by (simp add: prod_eq_iff)
qed

definition point_value :: "int \<times> int \<Rightarrow> signal_value" where
  "point_value p = Arr [Big (fst p), Big (snd p)]"

lemma sig_String_point: "sig_String (point_value p) = point_String p"
  by (simp add: point_value_def point_String_def)

lemma key_index_found:
  assumes "key_index (map point_value Ts) pk = Some i" "\<forall>T \<in> set Ts. 0 \<le> fst T \<and> 0 \<le> snd T" "0 \<le> fst pk" "0 \<le> snd pk"
  shows "i < length Ts \<and> Ts ! i = pk"
proof -
  let ?is = "filter (\<lambda>i. sig_String (map point_value Ts ! i) = point_String pk) [0..<length Ts]"
  have "i \<in> set ?is" using assms(1) by (cases ?is) (auto simp: key_index_def)
  then have i: "i < length Ts" "point_String (Ts ! i) = point_String pk" by (auto simp: sig_String_point)
  then show ?thesis using point_String_inj assms(2-4) nth_mem [OF i(1)] by blast
qed

section \<open>What a proof discloses\<close>

text \<open>The public signals of a circuit that shares its secret (circuits/utils/encryptionProof.circom):
  for the keys \<open>Ts\<close> of the trustees the share of the \<open>i\<close>-th is the value at \<open>i + 1\<close> of the
  polynomial \<open>cs\<close>, whose constant term is the secret, encrypted under the key that the user
  and the trustee agree on, with the timestamp as the nonce.\<close>

definition share_value :: "int \<Rightarrow> int list \<Rightarrow> nat \<Rightarrow> int" where
  "share_value p cs i = horner cs (int i + 1) mod p"

definition discloses :: "credential_env \<Rightarrow> bytes \<Rightarrow> (int \<times> int) list \<Rightarrow> int list \<Rightarrow> signal_map \<Rightarrow> bool" where
  "discloses C user Ts cs sg \<longleftrightarrow> (\<exists>U ciphers t.
     PrivateKey_public (ce_eddsa C) user = ret U \<and> sig_get sg ''userPublicKey'' = point_value U \<and>
     sig_get sg ''trusteePublicKey'' = Arr (map point_value Ts) \<and>
     sig_get sg ''timestamp'' = Big t \<and> t < two128 (ce_pos C) \<and>
     sig_get sg ''encryptedShare'' = Arr (map (\<lambda>c. Arr (map Big c)) ciphers) \<and> length ciphers = length Ts \<and>
     (\<forall>i < length Ts. \<exists>K. generateEcdhSharedKey (ce_eddsa C) user (Ts ! i) = ret K \<and>
        poseidonEncrypt (ce_pos C) [share_value (F_p (pe_F (ce_pos C))) cs i] [fst K, snd K] t = ret (ciphers ! i)))"

text \<open>The two fields are one; a key pair is made from its 64 bytes.\<close>

definition core_ok :: "credential_env \<Rightarrow> bool" where
  "core_ok C \<longleftrightarrow> bj_ok (ee_bj (ce_eddsa C)) \<and> bj_pt (ee_bj (ce_eddsa C)) (Base8 (ee_bj (ce_eddsa C))) \<and> env_ok (ce_pos C) \<and>
     F_p (pe_F (ce_pos C)) = F_p (bj_F (ee_bj (ce_eddsa C))) \<and> codec_ok (ce_codec C) \<and> xc20p_ok (ce_codec C) (ce_xc C) \<and>
     (\<forall>sk kp. ce_keypair C sk = ret kp \<longrightarrow> kp_secretKey kp = sk \<and> length sk = 64)"

definition opens_to :: "credential_env \<Rightarrow> bytes \<Rightarrow> bytes \<Rightarrow> int \<Rightarrow> bool" where
  "opens_to C sk c n \<longleftrightarrow> (\<exists>b. XC20P_decryptBytes (ce_codec C) (ce_xc C) c (Key_bytes sk) None = ret b \<and> bytesToBigInt (ce_codec C) b = ret n)"

definition share_account_of :: "'a sdk_env_scheme \<Rightarrow> pubkey \<Rightarrow> int \<times> int \<Rightarrow> pubkey js" where
  "share_account_of S addr T = bindJ (bindJ (PublicKey_compress (ce_eddsa (se_core S)) T) (pda_trustee (se_derive S)))
     (\<lambda>trustee. pda_investigationRequestShare (se_derive S) addr trustee)"

lemma public_key_pt:
  assumes "core_ok C" "length k = 64" "PrivateKey_public (ce_eddsa C) k = ret P"
  shows "0 \<le> fst P \<and> 0 \<le> snd P"
proof -
  have E: "bj_ok (ee_bj (ce_eddsa C))" "bj_pt (ee_bj (ce_eddsa C)) (Base8 (ee_bj (ce_eddsa C)))" using assms(1) by (simp_all add: core_ok_def)
  have "bj_pt (ee_bj (ce_eddsa C)) P"
    using prv2pub_times [OF E, of k] bj.times_pt [OF E] assms(2,3) by (auto simp: PrivateKey_public_def)
  then show ?thesis by (simp add: bj_pt_def in_field_def)
qed

text \<open>A trustee that holds one of the keys reveals the share of its position.\<close>

lemma decrypts_share:
  assumes "env_ok E" "t < two128 E" "poseidonEncrypt E [x] [a, b] t = ret c" "x mod F_p (pe_F E) = x"
  shows "poseidonDecrypt E c [a, b] 1 t = ret [x]" "c \<noteq> []"
  using decrypt_encrypt [OF assms(1,2), of "[x]" a b "[]"] assms(3,4) by auto

lemma reveal_value:
  assumes C: "core_ok (se_core S)" and user: "length user = 64" and d: "discloses (se_core S) user Ts cs sg"
    and ctx: "ie_request S addr = ret req" "se_proofRequest S (ir_proofRequest req) = ret pq" "se_circuits S (pq_circuit pq) = ret (Some circuit)"
      "request_signals S (Some circuit) pq = ret sg"
    and sk: "ed25519_pair (ce_xc (se_core S)) sk" "ir_encryptionKey req = drop 32 sk"
    and drawn: "x25519_pair (ce_xc (se_core S)) (fst drawn)" "length (snd drawn) = NONCE_LENGTH (ce_xc (se_core S))"
    and key: "ce_keypair (se_core S) k = ret kp" "PrivateKey_public (ce_eddsa (se_core S)) k = ret (Ts ! i)"
      "key_index (map point_value Ts) (Ts ! i) = Some i" "i < length Ts"
    and addrs: "bindJ (PublicKey_compress (ce_eddsa (se_core S)) (Ts ! i)) (pda_trustee (se_derive S)) = ret trustee"
      "pda_investigationRequestShare (se_derive S) addr trustee = ret account"
  shows "\<exists>c U. c \<noteq> [] \<and> opens_to (se_core S) sk c (share_value (F_p (pe_F (ce_pos (se_core S)))) cs i) \<and>
    Investigation_revealShareIx S drawn addr k = ret \<lparr> rv_share = account, rv_userPublicKey = U,
      rv_secretShare = [share_value (F_p (pe_F (ce_pos (se_core S)))) cs i],
      rv_instruction = RevealSecretShare account addr trustee (se_key S) c (i + 1) \<rparr>"
proof -
  define C where "C = se_core S"
  define p where "p = F_p (pe_F (ce_pos C))"
  have E: "bj_ok (ee_bj (ce_eddsa C))" "bj_pt (ee_bj (ce_eddsa C)) (Base8 (ee_bj (ce_eddsa C)))" "env_ok (ce_pos C)" "codec_ok (ce_codec C)"
    "xc20p_ok (ce_codec C) (ce_xc C)" using C by (simp_all add: core_ok_def C_def)
  obtain U ciphers t where U: "PrivateKey_public (ce_eddsa C) user = ret U" "sig_get sg ''userPublicKey'' = point_value U"
    and keys: "sig_get sg ''trusteePublicKey'' = Arr (map point_value Ts)" and t: "sig_get sg ''timestamp'' = Big t" "t < two128 (ce_pos C)"
    and sh: "sig_get sg ''encryptedShare'' = Arr (map (\<lambda>c. Arr (map Big c)) ciphers)" "length ciphers = length Ts"
    and enc: "\<forall>i < length Ts. \<exists>K. generateEcdhSharedKey (ce_eddsa C) user (Ts ! i) = ret K \<and>
        poseidonEncrypt (ce_pos C) [share_value p cs i] [fst K, snd K] t = ret (ciphers ! i)"
    using d unfolding discloses_def C_def p_def by blast
  have k: "kp_secretKey kp = k" "length k = 64" using C key(1) by (auto simp: core_ok_def)
  obtain K where K: "generateEcdhSharedKey (ce_eddsa C) user (Ts ! i) = ret K"
    "poseidonEncrypt (ce_pos C) [share_value p cs i] [fst K, snd K] t = ret (ciphers ! i)" using enc key(4) by blast
  have KU: "generateEcdhSharedKey (ce_eddsa C) k U = ret K"
    using ecdh_agree [OF E(1,2), of user k] user k U(1) key(2) K(1) by (auto simp: C_def)
  have "1 < p" using E(3) F1_wf_p by (auto simp: env_ok_def p_def Let_def)
  then have v: "share_value p cs i mod p = share_value p cs i" "0 \<le> share_value p cs i" by (simp_all add: share_value_def)
  have dec: "poseidonDecrypt (ce_pos C) (ciphers ! i) [fst K, snd K] 1 t = ret [share_value p cs i]"
    using decrypts_share [OF E(3) t(2) K(2)] v(1) by (simp add: p_def)
  obtain bs where bs: "bigintToBytes (ce_codec C) (share_value p cs i) 0 = ret bs" "bytesToBigInt (ce_codec C) bs = ret (share_value p cs i)"
    using bigint_bytes [OF E(4) v(2)] by metis
  have "ephemeral (ce_codec C) (ce_xc C) (fst drawn) None" using drawn(1) by (simp add: ephemeral_def given_key_def C_def)
  then obtain c where c: "XC20P_encryptBytes (ce_codec C) (ce_xc C) (fst drawn) (snd drawn) bs (drop 32 sk) None = ret c"
    "length c = NONCE_LENGTH (ce_xc C) + TAG_LENGTH (ce_xc C) + length bs + 32" "XC20P_decryptBytes (ce_codec C) (ce_xc C) c (Key_bytes sk) None = ret bs"
    using bytes_roundtrip [OF E(5), of sk "fst drawn" None "snd drawn" bs] sk(1) drawn(2) by (auto simp: C_def)
  have big: "mapJ as_bigint (map Big ns) = ret ns" for ns by (induction ns) simp_all
  have at: "sig_at (Arr (map (\<lambda>c. Arr (map Big c)) ciphers)) i = Arr (map Big (ciphers ! i))" using key(4) sh(2) by (simp add: sig_at_def)
  have "Investigation_revealShareIx S drawn addr k = ret \<lparr> rv_share = account, rv_userPublicKey = U,
      rv_secretShare = [share_value p cs i], rv_instruction = RevealSecretShare account addr trustee (se_key S) c (i + 1) \<rparr>"
    unfolding Investigation_revealShareIx_def Let_def ctx bindJ_ret C_def [symmetric]
    using key addrs
    by (simp add: sh(1) keys array_or_empty_def k at U(2) point_value_def big t(1) nonce_of_def KU dec [unfolded One_nat_def]
      first_share_def bs(1) c(1) sk(2) truthy_def flip: C_def)
  moreover have "c \<noteq> []" using c(2) by auto
  ultimately show ?thesis using bs(2) c(3) by (intro exI [of _ c] exI [of _ U]) (auto simp: opens_to_def p_def C_def)
qed

lemma reveals_share:
  assumes C: "core_ok (se_core S)" and user: "length user = 64" and d: "discloses (se_core S) user Ts cs sg"
    and pts: "\<forall>T \<in> set Ts. 0 \<le> fst T \<and> 0 \<le> snd T"
    and ctx: "ie_request S addr = ret req" "se_proofRequest S (ir_proofRequest req) = ret pq" "se_circuits S (pq_circuit pq) = ret (Some circuit)"
      "request_signals S (Some circuit) pq = ret sg"
    and sk: "ed25519_pair (ce_xc (se_core S)) sk" "ir_encryptionKey req = drop 32 sk"
    and drawn: "x25519_pair (ce_xc (se_core S)) (fst drawn)" "length (snd drawn) = NONCE_LENGTH (ce_xc (se_core S))"
    and rv: "Investigation_revealShareIx S drawn addr k = ret rv"
  shows "\<exists>i c trustee account. i < length Ts \<and> share_account_of S addr (Ts ! i) = ret account \<and>
    rv_instruction rv = RevealSecretShare account addr trustee (se_key S) c (i + 1) \<and> c \<noteq> [] \<and>
    opens_to (se_core S) sk c (share_value (F_p (pe_F (ce_pos (se_core S)))) cs i)"
proof -
  have keys: "sig_get sg ''trusteePublicKey'' = Arr (map point_value Ts)" using d by (auto simp: discloses_def)
  have sh: "sig_get sg ''encryptedShare'' \<noteq> Undefined" using d by (auto simp: discloses_def)
  note run = rv [unfolded Investigation_revealShareIx_def Let_def ctx bindJ_ret]
  obtain kp ePk i where kp: "ce_keypair (se_core S) k = ret kp" and pk: "PrivateKey_public (ce_eddsa (se_core S)) (kp_secretKey kp) = ret ePk"
    and i: "key_index (map point_value Ts) ePk = Some i"
    using run sh by (auto simp: keys array_or_empty_def bindJ_eq_ret split: option.splits)
  have k: "kp_secretKey kp = k" "length k = 64" using C kp by (auto simp: core_ok_def)
  have "0 \<le> fst ePk \<and> 0 \<le> snd ePk" using public_key_pt [OF C k(2)] pk by (simp add: k)
  then have T: "i < length Ts" "Ts ! i = ePk" using key_index_found [OF i pts] by simp_all
  obtain trustee account where r: "bindJ (PublicKey_compress (ce_eddsa (se_core S)) ePk) (pda_trustee (se_derive S)) = ret trustee"
    "pda_investigationRequestShare (se_derive S) addr trustee = ret account"
    using run sh by (auto simp: keys array_or_empty_def kp pk i bindJ_eq_ret)
  obtain c U where c: "c \<noteq> []" "opens_to (se_core S) sk c (share_value (F_p (pe_F (ce_pos (se_core S)))) cs i)"
    "Investigation_revealShareIx S drawn addr k = ret \<lparr> rv_share = account, rv_userPublicKey = U,
      rv_secretShare = [share_value (F_p (pe_F (ce_pos (se_core S)))) cs i],
      rv_instruction = RevealSecretShare account addr trustee (se_key S) c (i + 1) \<rparr>"
    using reveal_value [OF C user d ctx sk drawn kp, of i trustee account] pk i T r k(1) by auto
  have acct: "share_account_of S addr (Ts ! i) = ret account"
    unfolding share_account_of_def T(2) r(1) bindJ_ret by (rule r(2))
  have e: "rv_instruction rv = RevealSecretShare account addr trustee (se_key S) c (i + 1)" using c(3) rv by auto
  show ?thesis by (rule exI [of _ i], rule exI [of _ c], rule exI [of _ trustee], rule exI [of _ account]) (use T(1) e c acct in simp)
qed

section \<open>The history of an investigation\<close>

text \<open>An investigation is created, where no share account is yet, and shares are revealed, by
  whoever the program lets reveal them, in any order; the clock is past its zero.\<close>

inductive investigation_run :: "investigation_env \<Rightarrow> pubkey \<Rightarrow> stored_investigation \<Rightarrow> bool" for S addr where
  created: "create_handler cx [] key trustees = Inr st \<Longrightarrow> investigation_run S addr st"
| revealed: "investigation_run S addr st \<Longrightarrow> x25519_pair (ce_xc (se_core S)) (fst drawn) \<Longrightarrow> length (snd drawn) = NONCE_LENGTH (ce_xc (se_core S)) \<Longrightarrow>
    Investigation_revealShareIx S drawn addr k = ret rv \<Longrightarrow> rv_instruction rv = RevealSecretShare account addr trustee authority share index \<Longrightarrow>
    rx_account rx = account \<Longrightarrow> 0 < rx_timestamp rx \<Longrightarrow> reveal_handler rx st index share = Inr (st', n) \<Longrightarrow> investigation_run S addr st'"

definition is_revealed :: "pubkey \<times> stored_share \<Rightarrow> bool" where
  "is_revealed e \<longleftrightarrow> ss_revealed_at (snd e) \<noteq> 0"

definition share_ok :: "'a sdk_env_scheme \<Rightarrow> pubkey \<Rightarrow> bytes \<Rightarrow> (int \<times> int) list \<Rightarrow> int list \<Rightarrow> pubkey \<times> stored_share \<Rightarrow> bool" where
  "share_ok S addr sk Ts cs e \<longleftrightarrow> (if is_revealed e
     then \<exists>i < length Ts. share_account_of S addr (Ts ! i) = ret (fst e) \<and> ss_index (snd e) = i + 1 \<and> ss_share (snd e) \<noteq> [] \<and>
       opens_to (se_core S) sk (ss_share (snd e)) (share_value (F_p (pe_F (ce_pos (se_core S)))) cs i)
     else ss_share (snd e) = [])"

definition run_ok :: "'a sdk_env_scheme \<Rightarrow> pubkey \<Rightarrow> bytes \<Rightarrow> (int \<times> int) list \<Rightarrow> int list \<Rightarrow> stored_investigation \<Rightarrow> bool" where
  "run_ok S addr sk Ts cs st \<longleftrightarrow> distinct (map fst (si_shares st)) \<and> si_revealed st = length (filter is_revealed (si_shares st)) \<and>
     (\<forall>e \<in> set (si_shares st). share_ok S addr sk Ts cs e)"

lemma share_okD:
  assumes "share_ok S addr sk Ts cs e" "is_revealed e"
  obtains i where "i < length Ts" "share_account_of S addr (Ts ! i) = ret (fst e)" "ss_index (snd e) = i + 1" "ss_share (snd e) \<noteq> []"
    "opens_to (se_core S) sk (ss_share (snd e)) (share_value (F_p (pe_F (ce_pos (se_core S)))) cs i)"
  using assms that by (auto simp: share_ok_def)

lemma created_shares:
  "create_shares cx trustees accounts es = Inr es' \<Longrightarrow> distinct (map fst es) \<and> (\<forall>e \<in> set es. \<not> is_revealed e \<and> ss_share (snd e) = []) \<Longrightarrow>
    distinct (map fst es') \<and> (\<forall>e \<in> set es'. \<not> is_revealed e \<and> ss_share (snd e) = [])"
proof (induction cx trustees accounts es arbitrary: es' rule: create_shares.induct)
  case (2 cx trustees account idx accounts shares)
  show ?case
  proof (cases "map_of shares account = None")
    case True
    have a: "account = cx_share_address cx (trustees ! idx)" using 2(3) unfolding create_shares.simps True by (simp split: if_splits)
    have "account \<notin> fst ` set shares" using True by (simp add: map_of_eq_None_iff)
    define s where "s = blank_share\<lparr> ss_investigation_request := cx_investigation cx, ss_proof_request_owner := cx_proof_request_owner cx,
      ss_trustee := trustees ! idx, ss_created_at := cx_timestamp cx, ss_index := (idx + 1) mod 256, ss_share := [] \<rparr>"
    have s: "ss_revealed_at s = 0" "ss_share s = []" by (simp_all add: s_def blank_share_def)
    have run: "create_shares cx trustees accounts (shares @ [(account, s)]) = Inr es'"
      using 2(3) unfolding create_shares.simps True s_def [symmetric] using a by (simp only: simp_thms if_False)
    have "distinct (map fst (shares @ [(account, s)])) \<and> (\<forall>e \<in> set (shares @ [(account, s)]). \<not> is_revealed e \<and> ss_share (snd e) = [])"
      using 2(4) s \<open>account \<notin> fst ` set shares\<close> by (simp add: is_revealed_def ball_Un)
    moreover have "\<not> map_of shares account \<noteq> None" "\<not> account \<noteq> cx_share_address cx (trustees ! idx)" using True a by simp_all
    ultimately show ?thesis using 2(2) [folded s_def, OF _ _ run] by blast
  next
    case False
    then have "create_shares cx trustees accounts shares = Inr es'" using 2(3) unfolding create_shares.simps by (simp only: if_True simp_thms)
    then show ?thesis using 2(1) [OF False] 2(4) by blast
  qed
qed simp

lemma put_share_distinct:
  assumes "distinct (map fst es)"
  shows "distinct (map fst (put_share es k s))"
proof (cases "map_of es k = None")
  case True
  then have "put_share es k s = es @ [(k, s)]" "k \<notin> fst ` set es" by (simp_all add: put_share_def map_of_eq_None_iff)
  then show ?thesis using assms by simp
next
  case False
  have "map fst (map (\<lambda>(k', s'). if k' = k then (k, s) else (k', s')) es) = map fst es" by auto
  then have "map fst (put_share es k s) = map fst es" unfolding put_share_def if_not_P [OF False] .
  then show ?thesis using assms by (simp only:)
qed

lemma put_share_set: "e \<in> set (put_share es k s) \<Longrightarrow> e = (k, s) \<or> e \<in> set es"
  by (auto simp: put_share_def split: if_splits)

lemma put_share_count:
  assumes "distinct (map fst es)" "\<And>s'. map_of es k = Some s' \<Longrightarrow> ss_revealed_at s' = 0" "ss_revealed_at s \<noteq> 0"
  shows "length (filter is_revealed (put_share es k s)) = Suc (length (filter is_revealed es))"
  using assms
proof (induction es)
  case (Cons e es)
  obtain k' s' where e: "e = (k', s')" by (cases e)
  show ?case
  proof (cases "k' = k")
    case True
    then have "map (\<lambda>(k', s'). if k' = k then (k, s) else (k', s')) es = es"
      using Cons.prems(1) e by (intro map_idI) (auto simp: image_iff)
    then show ?thesis using Cons.prems e True by (simp add: put_share_def is_revealed_def)
  next
    case False
    then have "put_share (e # es) k s = e # put_share es k s" by (simp add: put_share_def e)
    then show ?thesis using Cons e False by simp
  qed
qed (simp add: put_share_def is_revealed_def)

lemma investigation_run_ok:
  assumes "core_ok (se_core S)" "length user = 64" "discloses (se_core S) user Ts cs sg" "\<forall>T \<in> set Ts. 0 \<le> fst T \<and> 0 \<le> snd T"
    and "ie_request S addr = ret req" "se_proofRequest S (ir_proofRequest req) = ret pq" "se_circuits S (pq_circuit pq) = ret (Some circuit)"
      "request_signals S (Some circuit) pq = ret sg"
    and "ed25519_pair (ce_xc (se_core S)) sk" "ir_encryptionKey req = drop 32 sk"
  shows "investigation_run S addr st \<Longrightarrow> run_ok S addr sk Ts cs st"
proof (induction rule: investigation_run.induct)
  case (created cx key trustees st)
  have st: "create_shares cx trustees (zip (cx_remaining cx) [0..<length (cx_remaining cx)]) [] = Inr (si_shares st)" "si_revealed st = 0"
    using created by (auto simp: create_handler_def split: if_splits sum.splits)
  have es: "distinct (map fst (si_shares st))" "\<forall>e \<in> set (si_shares st). \<not> is_revealed e \<and> ss_share (snd e) = []"
    using created_shares [OF st(1)] by simp_all
  show ?case unfolding run_ok_def st(2)
  proof (intro conjI ballI)
    show "distinct (map fst (si_shares st))" by (rule es(1))
    have "filter is_revealed (si_shares st) = []" using es(2) unfolding filter_empty_conv by blast
    then show "0 = length (filter is_revealed (si_shares st))" by (simp only: list.size)
    fix e assume "e \<in> set (si_shares st)"
    then have "\<not> is_revealed e" "ss_share (snd e) = []" using es(2) by blast+
    then show "share_ok S addr sk Ts cs e" by (simp add: share_ok_def)
  qed
next
  case (revealed st drawn k rv account trustee authority share index rx st' n)
  obtain i where i: "i < length Ts" "share_account_of S addr (Ts ! i) = ret account" "index = i + 1" "share \<noteq> []"
    "opens_to (se_core S) sk share (share_value (F_p (pe_F (ce_pos (se_core S)))) cs i)"
    using reveals_share [OF assms revealed.hyps(2-4)] revealed.hyps(5) by auto
  obtain s where s: "st' = st\<lparr> si_revealed := si_revealed st + 1, si_shares := put_share (si_shares st) account s \<rparr>"
    "ss_index s = index" "ss_share s = share" "ss_revealed_at s \<noteq> 0" "ss_revealed_at (share_at (si_shares st) account) = 0"
    using revealed.hyps(6-8) by (auto simp: reveal_handler_def Let_def split: if_splits)
  have fresh: "ss_revealed_at s' = 0" if "map_of (si_shares st) account = Some s'" for s' using s(5) that by (simp add: share_at_def)
  have new: "share_ok S addr sk Ts cs (account, s)" using i s(2-4) by (auto simp: share_ok_def is_revealed_def)
  have IH: "distinct (map fst (si_shares st))" "si_revealed st = length (filter is_revealed (si_shares st))"
    "\<forall>e \<in> set (si_shares st). share_ok S addr sk Ts cs e" using revealed.IH by (simp_all add: run_ok_def)
  have "share_ok S addr sk Ts cs e" if "e \<in> set (put_share (si_shares st) account s)" for e
    using put_share_set [OF that] new IH(3) by blast
  moreover have "length (filter is_revealed (put_share (si_shares st) account s)) = Suc (length (filter is_revealed (si_shares st)))"
    by (rule put_share_count [OF IH(1) fresh s(4)])
  ultimately show ?case unfolding run_ok_def s(1) using put_share_distinct [OF IH(1)] IH(2) by simp
qed

section \<open>The investigator\<close>

definition share_pair :: "int \<Rightarrow> int list \<Rightarrow> pubkey \<times> stored_share \<Rightarrow> share" where
  "share_pair p cs e = (int (ss_index (snd e)), Arg_int (horner cs (int (ss_index (snd e))) mod p))"

lemma collect_shares:
  assumes "\<forall>e \<in> set es. share_ok S addr sk Ts cs e" "distinct (map (ss_index \<circ> snd) (filter is_revealed es))"
    and "\<forall>e \<in> set (filter is_revealed es). int (ss_index (snd e)) \<notin> fst ` set m"
  shows "foldJ (collect_share (se_core S) sk) m (map found_share es) =
    ret (m @ map (share_pair (F_p (pe_F (ce_pos (se_core S)))) cs) (filter is_revealed es))"
  using assms
proof (induction es arbitrary: m)
  case (Cons e es)
  show ?case
  proof (cases "is_revealed e")
    case False
    then have "collect_share (se_core S) sk m (found_share e) = ret m" using Cons.prems(1) by (simp add: collect_share_def found_share_def share_ok_def)
    then show ?thesis using Cons.IH [of m] Cons.prems False by simp
  next
    case True
    have "share_ok S addr sk Ts cs e" using Cons.prems(1) by simp
    then obtain i where i: "ss_index (snd e) = i + 1" "ss_share (snd e) \<noteq> []"
      "opens_to (se_core S) sk (ss_share (snd e)) (share_value (F_p (pe_F (ce_pos (se_core S)))) cs i)"
      using share_okD [OF _ True] by blast
    let ?x = "share_pair (F_p (pe_F (ce_pos (se_core S)))) cs e"
    have "collect_share (se_core S) sk m (found_share e) = ret (m @ [?x])"
      using i Cons.prems(3) True by (auto simp: collect_share_def found_share_def opens_to_def share_pair_def share_value_def add.commute)
    moreover have "foldJ (collect_share (se_core S) sk) (m @ [?x]) (map found_share es) =
        ret ((m @ [?x]) @ map (share_pair (F_p (pe_F (ce_pos (se_core S)))) cs) (filter is_revealed es))"
    proof (rule Cons.IH)
      have "ss_index (snd e') \<noteq> ss_index (snd e)" if "e' \<in> set (filter is_revealed es)" for e'
      proof -
        have "ss_index (snd e) \<notin> (ss_index \<circ> snd) ` set (filter is_revealed es)" using Cons.prems(2) True by simp
        then show ?thesis using imageI [OF that, of "ss_index \<circ> snd"] by (metis comp_apply)
      qed
      then show "\<forall>e' \<in> set (filter is_revealed es). int (ss_index (snd e')) \<notin> fst ` set (m @ [?x])"
        using Cons.prems(3) by (simp add: share_pair_def)
    qed (use Cons.prems True in simp_all)
    ultimately show ?thesis using True by simp
  qed
qed simp

lemma revealed_indices:
  assumes "distinct (map fst es)" "\<forall>e \<in> set es. share_ok S addr sk Ts cs e"
  shows "distinct (map (ss_index \<circ> snd) (filter is_revealed es))"
proof -
  have same: "fst e = fst e'" if "e \<in> set (filter is_revealed es)" "e' \<in> set (filter is_revealed es)" "ss_index (snd e) = ss_index (snd e')" for e e'
  proof -
    have ok: "share_ok S addr sk Ts cs e" "share_ok S addr sk Ts cs e'" "is_revealed e" "is_revealed e'" using that assms(2) by auto
    obtain i where "share_account_of S addr (Ts ! i) = ret (fst e)" "ss_index (snd e) = i + 1" using share_okD [OF ok(1,3)] by blast
    moreover obtain j where "share_account_of S addr (Ts ! j) = ret (fst e')" "ss_index (snd e') = j + 1" using share_okD [OF ok(2,4)] by blast
    ultimately show ?thesis using that(3) by simp
  qed
  have inj: "inj_on fst (set es)" and d: "distinct es" using assms(1) unfolding distinct_map by blast+
  show ?thesis unfolding distinct_map
  proof (intro conjI inj_onI)
    show "distinct (filter is_revealed es)" using d by (rule distinct_filter)
    fix e e' assume e: "e \<in> set (filter is_revealed es)" "e' \<in> set (filter is_revealed es)" "(ss_index \<circ> snd) e = (ss_index \<circ> snd) e'"
    have "fst e = fst e'" by (rule same [OF e(1,2)]) (use e(3) in \<open>simp only: comp_apply\<close>)
    moreover have "e \<in> set es" "e' \<in> set es" using e(1,2) by simp_all
    ultimately show "e = e'" by (rule inj_onD [OF inj])
  qed
qed

text \<open>
  C1: an investigation recovers the secret.  A proof discloses the shares of a secret, each
  encrypted for a trustee; the program lets shares be revealed, in any order, until the
  threshold is reached.  Once it is, the investigator who holds the encryption key finds
  the secret, the constant term of the polynomial that was shared, in whatever order the
  accounts are found: trustees without the user, and the user's key, are enough.
\<close>

theorem investigation_recovers_secret:
  assumes "core_ok (se_core S)" "length user = 64" "discloses (se_core S) user Ts cs sg" "\<forall>T \<in> set Ts. 0 \<le> fst T \<and> 0 \<le> snd T"
    and "ie_request S addr = ret req" "se_proofRequest S (ir_proofRequest req) = ret pq" "se_circuits S (pq_circuit pq) = ret (Some circuit)"
      "request_signals S (Some circuit) pq = ret sg"
    and "ed25519_pair (ce_xc (se_core S)) sk" "ir_encryptionKey req = drop 32 sk"
      "ce_keypair (se_core S) sk = ret \<lparr> kp_secretKey = sk, kp_publicKey = drop 32 sk \<rparr>"
    and "investigation_run S addr st" "si_request st = req" "si_revealed st = ir_requiredShareCount req"
    and "ie_shares S addr = ret (map found_share es)" "mset es = mset (si_shares st)"
    and "length cs \<le> ir_requiredShareCount req" "int (length Ts) < F_p (pe_F (ce_pos (se_core S)))"
  shows "Investigation_secret S addr sk = ret (horner cs 0 mod F_p (pe_F (ce_pos (se_core S))))"
proof -
  let ?C = "se_core S" and ?p = "F_p (pe_F (ce_pos (se_core S)))"
  have st: "run_ok S addr sk Ts cs st" by (rule investigation_run_ok [OF assms(1-10,12)])
  have es: "set es = set (si_shares st)" using assms(16) by (rule mset_eq_setD)
  have "mset (map fst es) = mset (map fst (si_shares st))" using assms(16) by simp
  then have d: "distinct (map fst es)" using st mset_eq_imp_distinct_iff unfolding run_ok_def by blast
  have ok: "\<forall>e \<in> set es. share_ok S addr sk Ts cs e" using st es by (simp add: run_ok_def)
  have "mset (filter is_revealed es) = mset (filter is_revealed (si_shares st))" using assms(16) by simp
  then have n: "length (filter is_revealed es) = ir_requiredShareCount req"
    using st assms(14) mset_eq_length by (fastforce simp: run_ok_def)
  then have n': "ir_requiredShareCount req \<le> length es" using length_filter_le [of is_revealed es] by simp
  note idx = revealed_indices [OF d ok]
  let ?shares = "map (share_pair ?p cs) (filter is_revealed es)"
  have collect: "foldJ (collect_share ?C sk) [] (map found_share es) = ret ?shares"
    using collect_shares [OF ok idx, of "[]"] by simp
  have F: "F1_wf (bj_F (ee_bj (ce_eddsa ?C)))" "prime_modulus ?p" "F_p (bj_F (ee_bj (ce_eddsa ?C))) = ?p"
    using assms(1) bj_okD(1,5) by (auto simp: core_ok_def)
  have "map fst ?shares = map int (map (ss_index \<circ> snd) (filter is_revealed es))" by (simp add: share_pair_def comp_def)
  then have "distinct (map fst ?shares)" using idx by (simp add: distinct_map inj_on_def)
  moreover have "\<forall>s \<in> set (take (ir_requiredShareCount req) ?shares). 0 \<le> fst s \<and> fst s < ?p"
  proof
    fix s assume "s \<in> set (take (ir_requiredShareCount req) ?shares)"
    then obtain e where e: "e \<in> set es" "is_revealed e" "s = share_pair ?p cs e" using n by auto
    then obtain i where "i < length Ts" "ss_index (snd e) = i + 1" using ok share_okD [of S addr sk Ts cs e] by blast
    then show "0 \<le> fst s \<and> fst s < ?p" using assms(18) e(3) by (simp add: share_pair_def)
  qed
  moreover have "\<forall>s \<in> set (take (ir_requiredShareCount req) ?shares). share_e (bj_F (ee_bj (ce_eddsa ?C))) (snd s) = ret (horner cs (fst s) mod ?p)"
    using F prime_modulus_gt_1 [OF F(2)] n by (auto simp: share_pair_def share_e_def F1_e_reduced)
  ultimately have "reconstructShamirSecret (bj_F (ee_bj (ce_eddsa ?C))) (ir_requiredShareCount req) ?shares = ret (horner cs 0 mod ?p)"
    using reconstruct_correct [of "bj_F (ee_bj (ce_eddsa ?C))" ?shares "ir_requiredShareCount req" cs] F n assms(17) by simp
  then show ?thesis
    using n' assms(10) by (simp add: Investigation_secret_def assms(5,11,15) collect)
qed

section \<open>A small investigation\<close>

lemma encrypt_one:
  assumes E: "env_ok E" and n: "t < two128 E" and x: "0 \<le> x" "x < F_p (pe_F E)"
  shows "\<exists>c0 c1 c2 c3. poseidonEncrypt E [x] [a, b] t = ret [c0, c1, c2, c3] \<and> (\<forall>c \<in> {c0, c1, c2, c3}. 0 \<le> c \<and> c < F_p (pe_F E))"
proof -
  define F where "F = pe_F E"
  have F: "F1_wf F" using E by (simp add: env_ok_def F_def Let_def)
  define st0 where "st0 = [F_zero F, F1_e F a, F1_e F b, F1_add F (F1_e F t) (F1_mul F (F1_e F 1) (two128 E))]"
  obtain st1 where st1: "poseidonStrategy E st0 = ret st1" "state_ok F 4 st1" using poseidonStrategy_total [OF E, of st0] by (auto simp: F_def st0_def)
  have in1: "in_field F (st1 ! i)" if "i < 4" for i using st1(2) that nth_mem [of i st1] by (simp add: state_ok_def)
  have z: "F_zero F = 0" "1 < F_p F" using F F1_wf_p by (auto simp: F1_wf_def)
  have ex: "F1_e F x = x" using F1_e_reduced [OF F] x by (simp add: F_def)
  have xin: "in_field F x" "in_field F 0" using x z by (simp_all add: in_field_def F_def)
  let ?c = "\<lambda>i m. F1_add F (st1 ! i) m"
  have cin: "in_field F (?c i m)" if "i < 4" "in_field F m" for i m using F1_add_in_field [OF F, of "st1 ! i" m] in1 [OF that(1)] that(2) by (simp add: in_field_def)
  obtain st2 where st2: "poseidonStrategy E [st1 ! 0, ?c 1 x, ?c 2 0, ?c 3 0] = ret st2" "state_ok F 4 st2"
    using poseidonStrategy_total [OF E, of "[st1 ! 0, ?c 1 x, ?c 2 0, ?c 3 0]"] by (auto simp: F_def)
  have in2: "in_field F (st2 ! 1)" using st2(2) nth_mem [of 1 st2] by (simp add: state_ok_def)
  have "poseidonEncrypt E [x] [a, b] t = ret [?c 1 x, ?c 2 0, ?c 3 0, st2 ! 1]"
    using n st1(1) st2(1) by (simp add: poseidonEncrypt_def pad3_def cipher_state_eq z(1) ex numeral_2_eq_2 st0_def Let_def flip: F_def)
  moreover have "in_field F (?c 1 x)" "in_field F (?c 2 0)" "in_field F (?c 3 0)" using cin xin by simp_all
  ultimately show ?thesis
    using in2 by (metis (no_types, lifting) F_def in_field_def insert_iff singletonD)
qed

definition cred13 :: credential_env where
  "cred13 = cred17\<lparr> ce_eddsa := (ce_eddsa cred17)\<lparr> ee_bj := BJ13 \<rparr>,
     ce_keypair := (\<lambda>sk. if length sk = 64 then ret \<lparr> kp_secretKey = sk, kp_publicKey = drop 32 sk \<rparr> else throw (Error ''bad secret key size'')) \<rparr>"

lemma cred13_sel: "ee_bj (ce_eddsa cred13) = BJ13" "ce_codec cred13 = text_codec" "ce_pos cred13 = env13" "ce_xc cred13 = open_cipher"
  by (simp_all add: cred13_def cred17_def E17_def)

lemma BJ13_base: "bj_pt BJ13 (Base8 BJ13)"
  by (simp add: bj_pt_def BJ13_def F13_def in_field_def ed_curve_def)

lemma cred13_ok: "core_ok cred13"
proof -
  have "\<forall>sk kp. ce_keypair cred13 sk = ret kp \<longrightarrow> kp_secretKey kp = sk \<and> length sk = 64" by (auto simp: cred13_def)
  moreover have "F_p (bj_F BJ13) = 13" by (simp add: BJ13_def F13_def)
  ultimately show ?thesis
    using BJ13_ok BJ13_base env13_ok text_codec_ok open_cipher_ok by (simp add: core_ok_def cred13_sel p_env13)
qed

abbreviation "user13 \<equiv> replicate 64 1 :: bytes"
abbreviation "trustee13 \<equiv> replicate 64 2 :: bytes"
abbreviation "other13 \<equiv> replicate 64 3 :: bytes"
abbreviation "investigator13 \<equiv> replicate 64 5 :: bytes"

definition signals13 :: "signal_decl list" where
  "signals13 = [(''encryptedShare'', [2, 4]), (''userPublicKey'', [2]), (''timestamp'', []), (''trusteePublicKey'', [2, 2])]"

definition circuit13 :: circuit_account where
  "circuit13 = circuit17\<lparr> ca_outputs := [''encryptedShare[2][4]'', ''userPublicKey[2]''], ca_publicSignals := [''timestamp'', ''trusteePublicKey[2][2]''] \<rparr>"

definition request13 :: investigation_request where
  "request13 = \<lparr> ir_encryptionKey = drop 32 investigator13, ir_requiredShareCount = 1, ir_trustees = [], ir_proofRequest = [2] \<rparr>"

definition sdk13 :: "int list \<Rightarrow> (pubkey \<times> share_account option) list \<Rightarrow> investigation_env" where
  "sdk13 inputs shares = sdk_env.extend (sdk17\<lparr> se_core := cred13, se_proofRequest := (\<lambda>k. ret (request17\<lparr> pq_publicInputs := map (be_bytes 32) inputs \<rparr>)),
     se_circuits := (\<lambda>k. ret (Some circuit13)) \<rparr>) \<lparr> ie_request = (\<lambda>k. ret request13), ie_shares = (\<lambda>k. ret shares), ie_hasService = (\<lambda>k. ret True) \<rparr>"

lemma sdk13_sel:
  "se_core (sdk13 ns sh) = cred13" "se_derive (sdk13 ns sh) = (\<lambda>seeds. ret (concat seeds))"
  "se_proofRequest (sdk13 ns sh) = (\<lambda>k. ret (request17\<lparr> pq_publicInputs := map (be_bytes 32) ns \<rparr>))" "se_circuits (sdk13 ns sh) = (\<lambda>k. ret (Some circuit13))"
  "ie_request (sdk13 ns sh) = (\<lambda>k. ret request13)" "ie_shares (sdk13 ns sh) = (\<lambda>k. ret sh)"
  by (simp_all add: sdk13_def sdk_env.extend_def sdk17_def)

lemma provider13: "se_provider (sdk13 ns sh) = counting_provider"
  by (simp add: sdk13_def sdk_env.extend_def sdk17_def)

lemma signals13_texts: "map decl_text signals13 = ca_outputs circuit13 @ ca_publicSignals circuit13"
proof -
  have "to_radix 10 2 = ''2''" "to_radix 10 4 = ''4''" by code_simp+
  then show ?thesis by (simp add: signals13_def decl_text_def circuit13_def)
qed

lemma request_signals13:
  assumes "\<forall>n \<in> set ns. 0 \<le> n \<and> n < 13" "length ns = 15"
  shows "\<exists>sg. request_signals (sdk13 ns sh) (Some circuit13) (request17\<lparr> pq_publicInputs := map (be_bytes 32) ns \<rparr>) = ret sg \<and>
    map_of sg = map_of (map (\<lambda>i. (fst (signals13 ! i), shaped (snd (signals13 ! i)) (drop (start_of signals13 i) ns))) [0..<4])"
proof -
  have "bytesToBigInt text_codec (be_bytes 32 n) = ret n" if "n \<in> set ns" for n
  proof -
    have "0 \<le> n" "n < 256 ^ 32" using assms(1) that by auto
    moreover have "be_bytes 32 n \<noteq> []" using length_be_bytes [of 32 n] by fastforce
    ultimately show ?thesis by (simp add: bytesToBigInt_be_val [OF text_codec_ok] be_val_be_bytes)
  qed
  then have i: "mapJ (bytesToBigInt text_codec) (map (be_bytes 32) ns) = ret ns" by (induction ns) simp_all
  have ok: "decls_ok signals13" by (simp add: decls_ok_def signals13_def plain_name_def inherited_names_def good_sizes_def)
  have le: "sum_list (map decl_width signals13) \<le> length ns" by (simp add: signals13_def decl_width_def assms(2))
  have "length signals13 = 4" by (simp add: signals13_def)
  then show ?thesis
    using signals_loop [OF ok le] by (auto simp: request_signals_def sdk13_sel cred13_sel i getSignals_def signals13_texts)
qed

lemma public13:
  assumes "length k = 64"
  shows "\<exists>P. PrivateKey_public (ce_eddsa cred13) k = ret P \<and> bj_pt BJ13 P"
  using prv2pub_times [of "ce_eddsa cred13" k] bj.times_pt [OF BJ13_ok BJ13_base] assms BJ13_ok BJ13_base
  by (simp add: PrivateKey_public_def cred13_sel)

lemma pt13: "bj_pt BJ13 P \<Longrightarrow> 0 \<le> fst P \<and> fst P < 13 \<and> 0 \<le> snd P \<and> snd P < 13"
  by (simp add: bj_pt_def in_field_def BJ13_def F13_def)

text \<open>Two trustees; the secret is 5, shared with a constant polynomial, at time 0.\<close>

lemma encrypted13:
  assumes "length k = 64" "PrivateKey_public (ce_eddsa cred13) k = ret T"
  shows "\<exists>K c0 c1 c2 c3. generateEcdhSharedKey (ce_eddsa cred13) user13 T = ret K \<and>
    poseidonEncrypt env13 [5] [fst K, snd K] 0 = ret [c0, c1, c2, c3] \<and> (\<forall>c \<in> {c0, c1, c2, c3}. 0 \<le> c \<and> c < 13)"
proof -
  obtain K where "generateEcdhSharedKey (ce_eddsa cred13) user13 T = ret K"
    using ecdh_agree [of "ce_eddsa cred13" user13 k] assms BJ13_ok BJ13_base by (auto simp: cred13_sel)
  moreover have "0 < two128 env13" by (simp add: two128_env13)
  ultimately show ?thesis using encrypt_one [OF env13_ok, of 0 5 "fst K" "snd K"] by (auto simp: p_env13)
qed

definition inputs13 :: "int list \<Rightarrow> int list \<Rightarrow> int \<times> int \<Rightarrow> int \<times> int \<Rightarrow> int \<times> int \<Rightarrow> int list" where
  "inputs13 c d U T0 T1 = c @ d @ [fst U, snd U, 0, fst T0, snd T0, fst T1, snd T1]"

lemma signals13_values:
  assumes "map_of sg = map_of (map (\<lambda>i. (fst (signals13 ! i), shaped (snd (signals13 ! i)) (drop (start_of signals13 i) (inputs13 c d U T0 T1)))) [0..<4])"
    "length c = 4" "length d = 4"
  shows "sig_get sg ''encryptedShare'' = Arr [Arr (map Big c), Arr (map Big d)]" "sig_get sg ''userPublicKey'' = point_value U"
    "sig_get sg ''timestamp'' = Big 0" "sig_get sg ''trusteePublicKey'' = Arr (map point_value [T0, T1])"
proof -
  obtain c0 c1 c2 c3 where c: "c = [c0, c1, c2, c3]" using assms(2) by (auto simp: length_Suc_conv numeral_eq_Suc)
  obtain d0 d1 d2 d3 where d: "d = [d0, d1, d2, d3]" using assms(3) by (auto simp: length_Suc_conv numeral_eq_Suc)
  have u: "[0..<4] = [0, 1, 2, 3 :: nat]" by (simp add: upt_rec)
  note m = assms(1) [unfolded u, simplified list.map signals13_def nth_Cons' inputs13_def c d]
  show "sig_get sg ''encryptedShare'' = Arr [Arr (map Big c), Arr (map Big d)]" "sig_get sg ''userPublicKey'' = point_value U"
    "sig_get sg ''timestamp'' = Big 0" "sig_get sg ''trusteePublicKey'' = Arr (map point_value [T0, T1])"
    by (simp_all add: sig_get_def m point_value_def c d numeral_eq_Suc start_of_def decl_width_def)
qed

lemma addresses13:
  assumes "bj_pt BJ13 P"
  shows "\<exists>b. bindJ (PublicKey_compress (ce_eddsa cred13) P) (pda_trustee (se_derive (sdk13 ns sh))) = ret (text_bytes ''trustee'' @ b)"
  using packPoint_bytes [OF BJ13_codec_ok assms] by (simp add: PublicKey_compress_def cred13_sel pda_trustee_def sdk13_sel)

lemma investigation13:
  "\<exists>ns sg T0 T1. request_signals (sdk13 ns sh) (Some circuit13) (request17\<lparr> pq_publicInputs := map (be_bytes 32) ns \<rparr>) = ret sg \<and>
    PrivateKey_public (ce_eddsa cred13) trustee13 = ret T0 \<and> bj_pt BJ13 T0 \<and> bj_pt BJ13 T1 \<and> discloses cred13 user13 [T0, T1] [5] sg"
proof -
  obtain U where U: "PrivateKey_public (ce_eddsa cred13) user13 = ret U" "bj_pt BJ13 U" using public13 [of user13] by auto
  obtain T0 where T0: "PrivateKey_public (ce_eddsa cred13) trustee13 = ret T0" "bj_pt BJ13 T0" using public13 [of trustee13] by auto
  obtain T1 where T1: "PrivateKey_public (ce_eddsa cred13) other13 = ret T1" "bj_pt BJ13 T1" using public13 [of other13] by auto
  obtain K0 c0 c1 c2 c3 where c: "generateEcdhSharedKey (ce_eddsa cred13) user13 T0 = ret K0"
    "poseidonEncrypt env13 [5] [fst K0, snd K0] 0 = ret [c0, c1, c2, c3]" "\<forall>c \<in> {c0, c1, c2, c3}. 0 \<le> c \<and> c < 13"
    using encrypted13 [OF _ T0(1)] by auto
  obtain K1 d0 d1 d2 d3 where d: "generateEcdhSharedKey (ce_eddsa cred13) user13 T1 = ret K1"
    "poseidonEncrypt env13 [5] [fst K1, snd K1] 0 = ret [d0, d1, d2, d3]" "\<forall>c \<in> {d0, d1, d2, d3}. 0 \<le> c \<and> c < 13"
    using encrypted13 [OF _ T1(1)] by auto
  let ?ns = "inputs13 [c0, c1, c2, c3] [d0, d1, d2, d3] U T0 T1"
  have "\<forall>n \<in> set ?ns. 0 \<le> n \<and> n < 13" "length ?ns = 15"
    using c(3) d(3) pt13 [OF U(2)] pt13 [OF T0(2)] pt13 [OF T1(2)] by (simp_all add: inputs13_def)
  then obtain sg where sg: "request_signals (sdk13 ?ns sh) (Some circuit13) (request17\<lparr> pq_publicInputs := map (be_bytes 32) ?ns \<rparr>) = ret sg"
    "map_of sg = map_of (map (\<lambda>i. (fst (signals13 ! i), shaped (snd (signals13 ! i)) (drop (start_of signals13 i) ?ns))) [0..<4])"
    using request_signals13 [of ?ns sh] by auto
  have v: "share_value 13 [5] i = 5" for i by (simp add: share_value_def)
  have "discloses cred13 user13 [T0, T1] [5] sg"
    unfolding discloses_def cred13_sel p_env13
  proof (rule exI [of _ U], rule exI [of _ "[[c0, c1, c2, c3], [d0, d1, d2, d3]]"], rule exI [of _ 0], intro conjI allI impI)
    fix i assume "i < length [T0, T1]"
    then have "i = 0 \<or> i = 1" by auto
    then show "\<exists>K. generateEcdhSharedKey (ce_eddsa cred13) user13 ([T0, T1] ! i) = ret K \<and>
        poseidonEncrypt env13 [share_value 13 [5] i] [fst K, snd K] 0 = ret ([[c0, c1, c2, c3], [d0, d1, d2, d3]] ! i)"
      by (elim disjE) (use c(1,2) d(1,2) in \<open>simp_all add: v, (metis prod.exhaust_sel)?\<close>)
  qed (use U(1) signals13_values [OF sg(2)] in \<open>simp_all add: two128_env13\<close>)
  note d = this
  show ?thesis
    by (rule exI [of _ ?ns], rule exI [of _ sg], rule exI [of _ T0], rule exI [of _ T1]) (use sg(1) T0 T1(2) d in simp)
qed

lemma reveal13_shares: "Investigation_revealShareIx (sdk13 ns sh) drawn addr k = Investigation_revealShareIx (sdk13 ns []) drawn addr k"
  by (simp only: Investigation_revealShareIx_def sdk13_sel request_signals_def key_text_def provider13)

theorem investigation_recovers_secret_witness:
  "\<exists>ns es. Investigation_secret (sdk13 ns (map found_share es)) [9] investigator13 = ret 5"
proof -
  obtain ns sg T0 T1 where i: "\<And>sh. request_signals (sdk13 ns sh) (Some circuit13) (request17\<lparr> pq_publicInputs := map (be_bytes 32) ns \<rparr>) = ret sg"
    "PrivateKey_public (ce_eddsa cred13) trustee13 = ret T0" "bj_pt BJ13 T0" "bj_pt BJ13 T1" "discloses cred13 user13 [T0, T1] [5] sg"
    using investigation13 [of "[]"] by (auto simp: request_signals_def sdk13_sel)
  let ?S = "\<lambda>sh. sdk13 ns sh" and ?drawn = "(\<lparr> kp_secretKey = replicate 32 3, kp_publicKey = replicate 32 3 \<rparr>, replicate 24 9) :: KeyPair \<times> bytes"
  let ?pq = "request17\<lparr> pq_publicInputs := map (be_bytes 32) ns \<rparr>"
  note nn = pt13 [OF i(3)] pt13 [OF i(4)]
  obtain b where b: "\<And>sh. bindJ (PublicKey_compress (ce_eddsa cred13) T0) (pda_trustee (se_derive (?S sh))) = ret b"
    using addresses13 [OF i(3)] by (auto simp: sdk13_sel)
  let ?account = "text_bytes ''investigation-request-share'' @ [9] @ b"
  have sk: "ed25519_pair open_cipher investigator13" "x25519_pair open_cipher (fst ?drawn)" "length (snd ?drawn) = NONCE_LENGTH open_cipher"
    by (simp_all add: ed25519_pair_def x25519_pair_def open_cipher_def)
  have ctx: "ie_request (?S sh) [9] = ret request13" "se_proofRequest (?S sh) (ir_proofRequest request13) = ret ?pq"
    "se_circuits (?S sh) (pq_circuit ?pq) = ret (Some circuit13)" "se_core (?S sh) = cred13" for sh by (simp_all add: sdk13_sel)
  have first: "key_index (map point_value [T0, T1]) ([T0, T1] ! 0) = Some 0"
    by (simp add: key_index_def sig_String_point)
  have kp: "ce_keypair cred13 k = ret \<lparr> kp_secretKey = k, kp_publicKey = drop 32 k \<rparr>" if "length k = 64" for k
    using that by (simp add: cred13_def)
  have "\<exists>c U. c \<noteq> [] \<and> opens_to (se_core (?S [])) investigator13 c (share_value (F_p (pe_F (ce_pos (se_core (?S []))))) [5] 0) \<and>
    Investigation_revealShareIx (?S []) ?drawn [9] trustee13 = ret \<lparr> rv_share = ?account, rv_userPublicKey = U,
      rv_secretShare = [share_value (F_p (pe_F (ce_pos (se_core (?S []))))) [5] 0],
      rv_instruction = RevealSecretShare ?account [9] b (se_key (?S [])) c (0 + 1) \<rparr>"
  proof (rule reveal_value)
    show "request_signals (?S []) (Some circuit13) ?pq = ret sg" by (rule i(1))
    show "discloses (se_core (?S [])) user13 [T0, T1] [5] sg" unfolding ctx by (rule i(5))
    show "key_index (map point_value [T0, T1]) ([T0, T1] ! 0) = Some 0" by (rule first)
    show "ie_request (?S []) [9] = ret request13" "se_proofRequest (?S []) (ir_proofRequest request13) = ret ?pq"
      "se_circuits (?S []) (pq_circuit ?pq) = ret (Some circuit13)" by (rule ctx)+
    show "ce_keypair (se_core (?S [])) trustee13 = ret \<lparr> kp_secretKey = trustee13, kp_publicKey = drop 32 trustee13 \<rparr>"
      unfolding ctx by (rule kp) simp
    show "pda_investigationRequestShare (se_derive (?S [])) [9] b = ret ?account" by (simp add: pda_investigationRequestShare_def sdk13_sel)
  qed (use sk i(2) b in \<open>simp_all add: ctx cred13_ok cred13_sel request13_def\<close>)
  then obtain c U where c: "c \<noteq> []" "Investigation_revealShareIx (?S []) ?drawn [9] trustee13 = ret \<lparr> rv_share = ?account, rv_userPublicKey = U,
      rv_secretShare = [share_value (F_p (pe_F (ce_pos (se_core (?S []))))) [5] 0],
      rv_instruction = RevealSecretShare ?account [9] b (se_key (?S [])) c (0 + 1) \<rparr>" by blast
  define share where "share = (?account, blank_share\<lparr> ss_status := RevealedByUser, ss_investigation_request := [9], ss_proof_request_owner := [4],
    ss_trustee := b, ss_index := 1, ss_share := c, ss_revealed_at := 7, ss_created_at := 7 \<rparr>)"
  define cx where "cx = \<lparr> cx_investigation = [9], cx_proof_request = [2], cx_proof_request_owner = [4], cx_proved = True, cx_service_provider = [5],
    cx_threshold = 1, cx_authority = [6], cx_remaining = [], cx_share_address = (\<lambda>t. ?account), cx_timestamp = 6 \<rparr>"
  define rx where "rx = \<lparr> rx_account = ?account, rx_investigation = [9], rx_trustee = b, rx_trustee_authority = [8], rx_trustee_count = 0,
    rx_authority = [4], rx_share_address = (\<lambda>t. ?account), rx_timestamp = 7 \<rparr>"
  define st0 where "st0 = \<lparr> si_request = request13, si_authority = [6], si_owner = [4], si_service_provider = [5], si_status = PendingInvestigation,
    si_created_at = 6, si_revealed = 0, si_shares = [] \<rparr>"
  define st where "st = st0\<lparr> si_revealed := 1, si_shares := [share] \<rparr>"
  let ?sh = "map found_share [share]"
  have "investigation_run (?S ?sh) [9] st0"
    by (rule investigation_run.created [of cx "drop 32 investigator13" "[]"]) (simp add: create_handler_def cx_def st0_def request13_def)
  moreover have "reveal_handler rx st0 1 c = Inr (st, 0)"
    by (simp add: reveal_handler_def rx_def st0_def st_def share_def share_at_def put_share_def request13_def) (simp add: blank_share_def)
  moreover have "rx_account rx = ?account" "0 < rx_timestamp rx" by (simp_all add: rx_def)
  ultimately have run: "investigation_run (?S ?sh) [9] st"
    using investigation_run.revealed [where drawn = ?drawn and addr = "[9]" and st = st0, OF _ _ _ trans [OF reveal13_shares c(2)]] sk by (simp add: ctx cred13_sel)
  have "Investigation_secret (?S ?sh) [9] investigator13 = ret (horner [5] 0 mod F_p (pe_F (ce_pos (se_core (?S ?sh)))))"
    by (rule investigation_recovers_secret [where user = user13 and Ts = "[T0, T1]" and st = st and es = "[share]" and req = request13 and pq = ?pq
      and circuit = circuit13 and sg = sg])
      (use i nn sk run in \<open>simp_all add: ctx sdk13_sel cred13_sel cred13_ok kp p_env13, simp_all add: request13_def st_def st0_def\<close>)
  then have "Investigation_secret (?S ?sh) [9] investigator13 = ret 5" by (simp add: ctx cred13_sel p_env13)
  then show ?thesis by blast
qed

end
