(* ===== verification/Managers.thy ===== *)
theory Managers
  imports ProofRequest
begin

text \<open>
  The managers of circuits, policies and services: packages/albus-sdk/src/circuitManager.ts,
  policyManager.ts and serviceManager.ts.  An \<open>...Ix\<close> method gives the instructions,
  the method without that ending sends them; the search of the RPC, the readers of accounts
  are arguments.  A public key is its bytes.
\<close>

abbreviation "text_or_empty s \<equiv> (case s of Some x \<Rightarrow> x | None \<Rightarrow> '''')"



text \<open>Sending within a \<open>try\<close> that looks the error up in the table of the program.\<close>

definition send_checked :: "sdk_env \<Rightarrow> instruction list \<Rightarrow> send_opts \<Rightarrow> string js" where
  "send_checked S ixs opts = catchJ (send_instructions S ixs opts) (rethrow (se_provider S))"

section \<open>circuitManager.ts\<close>

definition Circuit_loadById :: "sdk_env \<Rightarrow> (pubkey \<Rightarrow> 'd js) \<Rightarrow> string \<Rightarrow> 'd js" where
  "Circuit_loadById S reader code = bindJ (pda_circuit (se_derive S) code) reader"

definition Circuit_find :: "(gpa \<Rightarrow> (pubkey \<times> 'acc) list js) \<Rightarrow> ('acc \<Rightarrow> 'd js) \<Rightarrow> string option \<Rightarrow> (pubkey \<times> 'd option) list js" where
  "Circuit_find run reader code = find_accounts run reader (addFilter ''code'' (map_option By_text (present code)) (gpaBuilder False))"

definition Circuit_findMapped :: "(gpa \<Rightarrow> (pubkey \<times> 'acc) list js) \<Rightarrow> ('acc \<Rightarrow> 'd js) \<Rightarrow> string option \<Rightarrow> (pubkey \<times> 'd option) list js" where
  "Circuit_findMapped run reader code = bindJ (Circuit_find run reader code) (\<lambda>found. ret (by_address found))"

record create_circuit =
  cc_code :: string
  cc_name :: string
  cc_description :: "string option"
  cc_wasmUri :: string
  cc_zkeyUri :: string
  cc_outputs :: "string list"
  cc_privateSignals :: "string list"
  cc_publicSignals :: "string list"

definition Circuit_createIx :: "sdk_env \<Rightarrow> create_circuit \<Rightarrow> (pubkey \<times> instruction list) js" where
  "Circuit_createIx S props =
    bindJ (pda_circuit (se_derive S) (cc_code props)) (\<lambda>address.
    ret (address, [Account_ix (CreateCircuit address (se_key S) \<lparr> cd_code = cc_code props, cd_name = cc_name props,
      cd_description = text_or_empty (cc_description props), cd_wasmUri = cc_wasmUri props, cd_zkeyUri = cc_zkeyUri props,
      cd_outputs = cc_outputs props, cd_privateSignals = cc_privateSignals props, cd_publicSignals = cc_publicSignals props \<rparr>)]))"

definition Circuit_create :: "sdk_env \<Rightarrow> create_circuit \<Rightarrow> send_opts \<Rightarrow> (string \<times> pubkey) js" where
  "Circuit_create S props opts =
    bindJ (Circuit_createIx S props) (\<lambda>(address, ixs). bindJ (send_checked S ixs opts) (\<lambda>signature. ret (signature, address)))"

definition icFirstSize :: nat where "icFirstSize = 7"
definition icChunkSize :: nat where "icChunkSize = 14"

definition Circuit_updateVkIx :: "sdk_env \<Rightarrow> string \<Rightarrow> vk_data \<Rightarrow> instruction list js" where
  "Circuit_updateVkIx S code vk =
    bindJ (pda_circuit (se_derive S) code) (\<lambda>circuit.
    bindJ (encodeVerifyingKey vk) (\<lambda>vk.
    let first = Account_ix (UpdateCircuitVk circuit (se_key S) \<lparr> vu_alpha = Some (vb_alpha vk), vu_beta = Some (vb_beta vk),
          vu_gamma = Some (vb_gamma vk), vu_delta = Some (vb_delta vk), vu_ic = Some (take icFirstSize (vb_ic vk)), vu_extendIc = False \<rparr>);
        more = (\<lambda>ic. Account_ix (UpdateCircuitVk circuit (se_key S) \<lparr> vu_alpha = None, vu_beta = None,
          vu_gamma = None, vu_delta = None, vu_ic = Some ic, vu_extendIc = True \<rparr>))
    in ret (first # (if length (vb_ic vk) > icFirstSize then map more (se_chunk S (drop icFirstSize (vb_ic vk)) icChunkSize) else []))))"

text \<open>One transaction for each instruction.\<close>

definition Circuit_updateVk :: "sdk_env \<Rightarrow> string \<Rightarrow> vk_data \<Rightarrow> confirm_options option \<Rightarrow> string list js" where
  "Circuit_updateVk S code vk opts =
    bindJ (Circuit_updateVkIx S code vk) (\<lambda>ixs.
    bindJ (foldJ (\<lambda>b ix. add_tx_of S [ix] b) (base_txBuilder S) ixs) (\<lambda>b.
    catchJ (snd (sendAll (se_provider S) opts b)) (rethrow (se_provider S))))"

definition Circuit_deleteByIdIx :: "sdk_env \<Rightarrow> pubkey \<Rightarrow> instruction list" where
  "Circuit_deleteByIdIx S addr = [Account_ix (DeleteCircuit addr (se_key S))]"

definition Circuit_deleteById :: "sdk_env \<Rightarrow> pubkey \<Rightarrow> send_opts \<Rightarrow> string js" where
  "Circuit_deleteById S addr opts = send_checked S (Circuit_deleteByIdIx S addr) opts"

definition Circuit_delete :: "sdk_env \<Rightarrow> string \<Rightarrow> send_opts \<Rightarrow> string js" where
  "Circuit_delete S code opts = bindJ (pda_circuit (se_derive S) code) (\<lambda>circuit. Circuit_deleteById S circuit opts)"

text \<open>What the program does with an update of a key, when the authority may send it:
  programs/albus/src/instructions/circuit/update_circuit_vk.rs.\<close>

record program_vk =
  pk_alpha :: bytes
  pk_beta :: bytes
  pk_gamma :: bytes
  pk_delta :: bytes
  pk_ic :: "bytes list"

definition update_vk_handler :: "vk_update \<Rightarrow> program_vk \<Rightarrow> program_vk" where
  "update_vk_handler d vk = \<lparr>
     pk_alpha = (case vu_alpha d of Some x \<Rightarrow> x | None \<Rightarrow> pk_alpha vk),
     pk_beta = (case vu_beta d of Some x \<Rightarrow> x | None \<Rightarrow> pk_beta vk),
     pk_gamma = (case vu_gamma d of Some x \<Rightarrow> x | None \<Rightarrow> pk_gamma vk),
     pk_delta = (case vu_delta d of Some x \<Rightarrow> x | None \<Rightarrow> pk_delta vk),
     pk_ic = (case vu_ic d of Some ic \<Rightarrow> if vu_extendIc d then pk_ic vk @ ic else ic | None \<Rightarrow> pk_ic vk) \<rparr>"

definition program_vk_step :: "program_vk \<Rightarrow> instruction \<Rightarrow> program_vk" where
  "program_vk_step vk ix = (case ix of Account_ix (UpdateCircuitVk circuit authority d) \<Rightarrow> update_vk_handler d vk | _ \<Rightarrow> vk)"

section \<open>policyManager.ts\<close>

text \<open>The value of a rule: raw bytes, an array of numbers, or a claim.\<close>

datatype rule_value = Rule_bytes bytes | Rule_numbers "int list" | Rule_claim js_value

record rule_props =
  rp_key :: string
  rp_value :: rule_value
  rp_label :: "string option"
  rp_hash :: "bool option"

definition raw_rule :: "bytes \<Rightarrow> bytes js" where
  "raw_rule value = bindJ (typed_set (replicate 32 0) 0 value) (\<lambda>arr. ret (rev arr))"

text \<open>An encoding that is undefined fails in the arithmetic of \<open>beInt2Buff\<close>.\<close>

definition prepare_rule :: "credential_env \<Rightarrow> rule_props \<Rightarrow> policy_rule js" where
  "prepare_rule C r =
    bindJ (case rp_value r of
        Rule_bytes b \<Rightarrow> raw_rule b
      | Rule_numbers ns \<Rightarrow> raw_rule (map word_of_int ns)
      | Rule_claim v \<Rightarrow> bindJ (ClaimsTree_encodeValue (ce_pos C) (ce_codec C) (Inl v) (rp_hash r)) (\<lambda>n. case n of
            None \<Rightarrow> throw (TypeError ''Cannot mix BigInt and other types, use explicit conversions'')
          | Some n \<Rightarrow> beInt2Buff n 32)) (\<lambda>value.
    ret \<lparr> rl_key = rp_key r, rl_label = text_or_empty (rp_label r), rl_value = value \<rparr>)"

definition preparePolicyRules :: "credential_env \<Rightarrow> rule_props list option \<Rightarrow> policy_rule list js" where
  "preparePolicyRules C rules = (case rules of None \<Rightarrow> ret [] | Some rs \<Rightarrow> mapJ (prepare_rule C) rs)"

definition Policy_loadById :: "sdk_env \<Rightarrow> (pubkey \<Rightarrow> 'd js) \<Rightarrow> string \<Rightarrow> 'd js" where
  "Policy_loadById S reader ident = (case js_split (CHR ''_'') ident of
     serviceCode # policyCode # _ \<Rightarrow>
       if serviceCode = '''' \<or> policyCode = '''' then throw (Error ''invalid policy id'')
       else bindJ (pda_serviceProvider (se_derive S) serviceCode) (\<lambda>service. bindJ (pda_policy (se_derive S) service policyCode) reader)
   | _ \<Rightarrow> throw (Error ''invalid policy id''))"

record policy_search =
  ps_circuitCode :: "string option"
  ps_serviceCode :: "string option"
  ps_withoutData :: bool

definition address_filter :: "(string \<Rightarrow> pubkey js) \<Rightarrow> string option \<Rightarrow> filter_value option js" where
  "address_filter address code = (case present code of Some c \<Rightarrow> bindJ (address c) (\<lambda>k. ret (Some (By_key k))) | None \<Rightarrow> ret None)"

definition Policy_find :: "sdk_env \<Rightarrow> (gpa \<Rightarrow> (pubkey \<times> 'acc) list js) \<Rightarrow> ('acc \<Rightarrow> 'd js) \<Rightarrow> policy_search \<Rightarrow> (pubkey \<times> 'd option) list js" where
  "Policy_find S run reader props =
    bindJ (address_filter (pda_circuit (se_derive S)) (ps_circuitCode props)) (\<lambda>circuit.
    bindJ (address_filter (pda_serviceProvider (se_derive S)) (ps_serviceCode props)) (\<lambda>service.
    find_accounts run reader (addFilter ''serviceProvider'' service (addFilter ''circuit'' circuit (gpaBuilder (ps_withoutData props))))))"

record policy_props =
  pp2_circuitCode :: string
  pp2_serviceCode :: string
  pp2_code :: string
  pp2_name :: "string option"
  pp2_description :: "string option"
  pp2_expirationPeriod :: "int option"
  pp2_retentionPeriod :: "int option"
  pp2_rules :: "rule_props list option"

definition Policy_createIx :: "sdk_env \<Rightarrow> string \<Rightarrow> policy_props \<Rightarrow> (pubkey \<times> instruction list) js" where
  "Policy_createIx S name props =
    bindJ (pda_circuit (se_derive S) (pp2_circuitCode props)) (\<lambda>circuit.
    bindJ (pda_serviceProvider (se_derive S) (pp2_serviceCode props)) (\<lambda>serviceProvider.
    bindJ (pda_policy (se_derive S) serviceProvider (pp2_code props)) (\<lambda>address.
    bindJ (preparePolicyRules (se_core S) (pp2_rules props)) (\<lambda>rules.
    ret (address, [Account_ix (CreatePolicy address circuit serviceProvider (se_key S) \<lparr> yd_code = pp2_code props, yd_name = name,
      yd_description = text_or_empty (pp2_description props),
      yd_expirationPeriod = (case pp2_expirationPeriod props of Some n \<Rightarrow> n | None \<Rightarrow> 0),
      yd_retentionPeriod = (case pp2_retentionPeriod props of Some n \<Rightarrow> n | None \<Rightarrow> 0), yd_rules = rules \<rparr>)])))))"

definition Policy_create :: "sdk_env \<Rightarrow> string \<Rightarrow> policy_props \<Rightarrow> send_opts \<Rightarrow> (pubkey \<times> string) js" where
  "Policy_create S name props opts =
    bindJ (Policy_createIx S name props) (\<lambda>(address, ixs). bindJ (send_instructions S ixs opts) (\<lambda>signature. ret (address, signature)))"

definition Policy_updateIx :: "sdk_env \<Rightarrow> policy_props \<Rightarrow> (pubkey \<times> instruction list) js" where
  "Policy_updateIx S props =
    bindJ (pda_serviceProvider (se_derive S) (pp2_serviceCode props)) (\<lambda>serviceProvider.
    bindJ (pda_policy (se_derive S) serviceProvider (pp2_code props)) (\<lambda>address.
    bindJ (preparePolicyRules (se_core S) (pp2_rules props)) (\<lambda>rules.
    ret (address, [Account_ix (UpdatePolicy address serviceProvider (se_key S) \<lparr> yc_name = pp2_name props, yc_description = pp2_description props,
      yc_expirationPeriod = pp2_expirationPeriod props, yc_retentionPeriod = pp2_retentionPeriod props, yc_rules = Some rules \<rparr>)]))))"

definition Policy_update :: "sdk_env \<Rightarrow> policy_props \<Rightarrow> send_opts \<Rightarrow> (pubkey \<times> string) js" where
  "Policy_update S props opts =
    bindJ (Policy_updateIx S props) (\<lambda>(address, ixs). bindJ (send_instructions S ixs opts) (\<lambda>signature. ret (address, signature)))"

definition Policy_deleteIx :: "sdk_env \<Rightarrow> string \<Rightarrow> string \<Rightarrow> instruction list js" where
  "Policy_deleteIx S serviceCode code =
    bindJ (pda_serviceProvider (se_derive S) serviceCode) (\<lambda>serviceProvider.
    bindJ (pda_policy (se_derive S) serviceProvider code) (\<lambda>policy.
    ret [Account_ix (DeletePolicy policy serviceProvider (se_key S))]))"

definition Policy_delete :: "sdk_env \<Rightarrow> string \<Rightarrow> string \<Rightarrow> send_opts \<Rightarrow> string js" where
  "Policy_delete S serviceCode code opts = bindJ (Policy_deleteIx S serviceCode code) (\<lambda>ixs. send_instructions S ixs opts)"

text \<open>Deleting by address reads the policy for its service.\<close>

definition Policy_deleteByAddrIx :: "sdk_env \<Rightarrow> (pubkey \<Rightarrow> pubkey js) \<Rightarrow> pubkey \<Rightarrow> instruction list js" where
  "Policy_deleteByAddrIx S serviceOf addr =
    bindJ (serviceOf addr) (\<lambda>serviceProvider. ret [Account_ix (DeletePolicy addr serviceProvider (se_key S))])"

definition Policy_deleteByAddr :: "sdk_env \<Rightarrow> (pubkey \<Rightarrow> pubkey js) \<Rightarrow> pubkey \<Rightarrow> send_opts \<Rightarrow> string js" where
  "Policy_deleteByAddr S serviceOf addr opts = bindJ (Policy_deleteByAddrIx S serviceOf addr) (\<lambda>ixs. send_instructions S ixs opts)"

text \<open>What the program keeps of a policy, when the constraints on the accounts hold: the handlers of
  programs/albus/src/instructions/policy, without counters, time and bump.  The account must
  be new when it is created.\<close>

record program_policy =
  pl_serviceProvider :: pubkey
  pl_circuit :: pubkey
  pl_code :: string
  pl_name :: string
  pl_description :: string
  pl_expirationPeriod :: int
  pl_retentionPeriod :: int
  pl_rules :: "policy_rule list"

definition given_or :: "'a option \<Rightarrow> 'a \<Rightarrow> 'a" where
  "given_or v old = (case v of Some x \<Rightarrow> x | None \<Rightarrow> old)"

definition create_policy_handler :: "pubkey \<Rightarrow> pubkey \<Rightarrow> policy_data \<Rightarrow> program_policy" where
  "create_policy_handler circuit service d = \<lparr> pl_serviceProvider = service, pl_circuit = circuit, pl_code = yd_code d, pl_name = yd_name d,
     pl_description = yd_description d, pl_expirationPeriod = yd_expirationPeriod d, pl_retentionPeriod = yd_retentionPeriod d, pl_rules = yd_rules d \<rparr>"

definition update_policy_handler :: "policy_changes \<Rightarrow> program_policy \<Rightarrow> program_policy" where
  "update_policy_handler d p = p\<lparr> pl_name := given_or (yc_name d) (pl_name p), pl_description := given_or (yc_description d) (pl_description p),
     pl_expirationPeriod := given_or (yc_expirationPeriod d) (pl_expirationPeriod p),
     pl_retentionPeriod := given_or (yc_retentionPeriod d) (pl_retentionPeriod p), pl_rules := given_or (yc_rules d) (pl_rules p) \<rparr>"

definition program_policy_step :: "pubkey \<Rightarrow> program_policy option \<Rightarrow> instruction \<Rightarrow> program_policy option" where
  "program_policy_step addr p ix = (case ix of
     Account_ix (CreatePolicy policy circuit service authority d) \<Rightarrow>
       if policy = addr \<and> p = None then Some (create_policy_handler circuit service d) else p
   | Account_ix (UpdatePolicy policy service authority d) \<Rightarrow> if policy = addr then map_option (update_policy_handler d) p else p
   | Account_ix (DeletePolicy policy service authority) \<Rightarrow> if policy = addr then None else p
   | _ \<Rightarrow> p)"

section \<open>serviceManager.ts\<close>

definition Service_loadMultiple :: "(pubkey list \<Rightarrow> 'acc option list js) \<Rightarrow> ('acc \<Rightarrow> 'd js) \<Rightarrow> pubkey list \<Rightarrow> 'd list js" where
  "Service_loadMultiple infos reader addrs = load_existing infos reader addrs"

definition Service_loadById :: "sdk_env \<Rightarrow> (pubkey \<Rightarrow> 'd js) \<Rightarrow> string \<Rightarrow> 'd js" where
  "Service_loadById S reader ident = bindJ (pda_serviceProvider (se_derive S) ident) reader"

text \<open>The 40 bytes after the discriminator of each trustee; a missing account stays \<open>null\<close>,
  and so does a key that does not unpack.\<close>

definition loadTrusteeKeys :: "sdk_env \<Rightarrow> (pubkey list \<Rightarrow> nat \<Rightarrow> nat \<Rightarrow> bytes option list js) \<Rightarrow> pubkey list \<Rightarrow> (int \<times> int) option list js" where
  "loadTrusteeKeys S infos trustees =
    (if trustees = [] then ret []
     else bindJ (infos trustees 8 40) (mapJ (\<lambda>acc. case acc of
       None \<Rightarrow> ret None
     | Some dat \<Rightarrow> bindJ (unpackPubkey (ce_eddsa (se_core S)) dat) (\<lambda>(P, _). ret P))))"

record service_search =
  ss2_authority :: "pubkey option"
  ss2_code :: "string option"
  ss2_name :: "string option"
  ss2_noData :: bool
  ss2_trustees :: "pubkey list option"

text \<open>The search for trustees looks for a new key object in the list of an account: it is
  never there, so only an empty list of trustees passes.  Without data there is nothing to read.\<close>

definition has_trustees :: "pubkey list \<Rightarrow> 'd option \<Rightarrow> bool js" where
  "has_trustees trustees dat = (case trustees of
     [] \<Rightarrow> ret True
   | _ \<Rightarrow> (case dat of None \<Rightarrow> throw (TypeError ''Cannot read properties of null'') | Some _ \<Rightarrow> ret False))"

definition Service_find :: "(gpa \<Rightarrow> (pubkey \<times> 'acc) list js) \<Rightarrow> ('acc \<Rightarrow> 'd js) \<Rightarrow> service_search \<Rightarrow> (pubkey \<times> 'd option) list js" where
  "Service_find run reader props =
    bindJ (find_accounts run reader
      (addFilter ''name'' (map_option By_text (present (ss2_name props)))
      (addFilter ''code'' (map_option By_text (present (ss2_code props)))
      (addFilter ''authority'' (map_option By_key (ss2_authority props)) (gpaBuilder (ss2_noData props)))))) (\<lambda>res.
    case ss2_trustees props of
      None \<Rightarrow> ret res
    | Some ts \<Rightarrow> foldJ (\<lambda>kept (k, d). bindJ (has_trustees ts d) (\<lambda>ok. ret (if ok then kept @ [(k, d)] else kept))) [] res)"

definition Service_findMapped :: "(gpa \<Rightarrow> (pubkey \<times> 'acc) list js) \<Rightarrow> ('acc \<Rightarrow> 'd js) \<Rightarrow> service_search \<Rightarrow> (pubkey \<times> 'd option) list js" where
  "Service_findMapped run reader props = bindJ (Service_find run reader props) (\<lambda>found. ret (by_address found))"

record create_service =
  cv_code :: string
  cv_name :: string
  cv_website :: "string option"
  cv_contactInfo :: "contact_info option"
  cv_secretShareThreshold :: "int option"
  cv_trustees :: "pubkey list option"
  cv_authority :: "pubkey option"

definition Service_createIx :: "sdk_env \<Rightarrow> create_service \<Rightarrow> (pubkey \<times> instruction list) js" where
  "Service_createIx S props =
    bindJ (pda_serviceProvider (se_derive S) (cv_code props)) (\<lambda>address.
    ret (address, [Account_ix (CreateServiceProvider address (se_key S) \<lparr> sd_code = cv_code props, sd_name = cv_name props,
      sd_website = text_or_empty (cv_website props), sd_contactInfo = cv_contactInfo props,
      sd_secretShareThreshold = cv_secretShareThreshold props, sd_trustees = cv_trustees props, sd_authority = cv_authority props \<rparr>)]))"

definition Service_create :: "sdk_env \<Rightarrow> create_service \<Rightarrow> send_opts \<Rightarrow> (pubkey \<times> string) js" where
  "Service_create S props opts =
    bindJ (Service_createIx S props) (\<lambda>(address, ixs). bindJ (send_instructions S ixs opts) (\<lambda>signature. ret (address, signature)))"

record update_service =
  uv_serviceProvider :: pubkey
  uv_name :: "string option"
  uv_website :: "string option"
  uv_contactInfo :: "contact_info option"
  uv_secretShareThreshold :: "int option"
  uv_newAuthority :: "pubkey option"
  uv_trustees :: "pubkey list option"

definition Service_updateIx :: "sdk_env \<Rightarrow> update_service \<Rightarrow> instruction list" where
  "Service_updateIx S props = [Account_ix (UpdateServiceProvider (uv_serviceProvider props) (se_key S)
     (map_option (map (\<lambda>k. \<lparr> am_pubkey = k, am_isSigner = False, am_isWritable = False \<rparr>)) (uv_trustees props))
     \<lparr> sc_name = uv_name props, sc_website = uv_website props, sc_contactInfo = uv_contactInfo props,
       sc_secretShareThreshold = uv_secretShareThreshold props, sc_newAuthority = uv_newAuthority props,
       sc_clearTrustees = (uv_trustees props = Some []) \<rparr>)]"

definition Service_update :: "sdk_env \<Rightarrow> update_service \<Rightarrow> send_opts \<Rightarrow> string js" where
  "Service_update S props opts = send_instructions S (Service_updateIx S props) opts"

definition Service_deleteIx :: "sdk_env \<Rightarrow> string \<Rightarrow> instruction list js" where
  "Service_deleteIx S code =
    bindJ (pda_serviceProvider (se_derive S) code) (\<lambda>serviceProvider. ret [Account_ix (DeleteServiceProvider serviceProvider (se_key S))])"

definition Service_delete :: "sdk_env \<Rightarrow> string \<Rightarrow> send_opts \<Rightarrow> string js" where
  "Service_delete S code opts = bindJ (Service_deleteIx S code) (\<lambda>ixs. send_instructions S ixs opts)"

end
