(* ===== verification/Parties.thy ===== *)
theory Parties
  imports Managers
begin

text \<open>
  The managers of trustees, issuers, credential specifications and credential requests:
  packages/albus-sdk/src/trusteeManager.ts, issuerManager.ts, credentialSpecManager.ts and
  credentialRequestManager.ts, and the addresses of utils/web3.ts that they use.  The
  derivation of an address for any program, the test for a point of the curve, the programs
  that are always the same and lodash's \<open>capitalize\<close> are arguments.
\<close>

section \<open>trusteeManager.ts\<close>

definition Trustee_loadMultiple :: "(pubkey list \<Rightarrow> 'acc option list js) \<Rightarrow> ('acc \<Rightarrow> 'd js) \<Rightarrow> pubkey list \<Rightarrow> 'd list js" where
  "Trustee_loadMultiple infos reader addrs = load_existing infos reader addrs"

definition Trustee_loadByKey :: "sdk_env \<Rightarrow> (pubkey \<Rightarrow> 'd js) \<Rightarrow> bytes \<Rightarrow> 'd js" where
  "Trustee_loadByKey S reader key = bindJ (pda_trustee (se_derive S) key) reader"

record trustee_search =
  ts_name :: "string option"
  ts_email :: "string option"
  ts_authority :: "pubkey option"
  ts_verified :: bool
  ts_key :: "bytes option"
  ts_noData :: bool

definition Trustee_find :: "(gpa \<Rightarrow> (pubkey \<times> 'acc) list js) \<Rightarrow> ('acc \<Rightarrow> 'd js) \<Rightarrow> trustee_search \<Rightarrow> (pubkey \<times> 'd option) list js" where
  "Trustee_find run reader props =
    find_accounts run reader
      (addFilter ''isVerified'' (if ts_verified props then Some (By_bool True) else None)
      (addFilter ''email'' (map_option By_text (present (ts_email props)))
      (addFilter ''name'' (map_option By_text (present (ts_name props)))
      (addFilter ''key'' (map_option By_bytes (ts_key props))
      (addFilter ''authority'' (map_option By_key (ts_authority props)) (gpaBuilder (ts_noData props)))))))"

text \<open>The first one found, \<open>undefined\<close> when there is none.\<close>

definition Trustee_loadByAuthority :: "(gpa \<Rightarrow> (pubkey \<times> 'acc) list js) \<Rightarrow> ('acc \<Rightarrow> 'd js) \<Rightarrow> pubkey \<Rightarrow> (pubkey \<times> 'd option) option js" where
  "Trustee_loadByAuthority run reader authority =
    bindJ (Trustee_find run reader \<lparr> ts_name = None, ts_email = None, ts_authority = Some authority, ts_verified = False, ts_key = None, ts_noData = False \<rparr>)
      (\<lambda>res. ret (case res of [] \<Rightarrow> None | r # _ \<Rightarrow> Some r))"

definition Trustee_createIx :: "sdk_env \<Rightarrow> trustee_data \<Rightarrow> (pubkey \<times> instruction list) js" where
  "Trustee_createIx S props =
    bindJ (pda_trustee (se_derive S) (td_key props)) (\<lambda>address. ret (address, [Account_ix (CreateTrustee address (se_key S) props)]))"

text \<open>Send the instructions of a method that gives an address with them.\<close>

definition send_at :: "sdk_env \<Rightarrow> (pubkey \<times> instruction list) js \<Rightarrow> send_opts \<Rightarrow> (pubkey \<times> string) js" where
  "send_at S made opts = bindJ made (\<lambda>(address, ixs). bindJ (send_instructions S ixs opts) (\<lambda>signature. ret (address, signature)))"

definition Trustee_create :: "sdk_env \<Rightarrow> trustee_data \<Rightarrow> send_opts \<Rightarrow> (pubkey \<times> string) js" where
  "Trustee_create S props opts = send_at S (Trustee_createIx S props) opts"

definition Trustee_updateIx :: "sdk_env \<Rightarrow> bytes \<Rightarrow> trustee_changes \<Rightarrow> (pubkey \<times> instruction list) js" where
  "Trustee_updateIx S key changes =
    bindJ (pda_trustee (se_derive S) key) (\<lambda>address. ret (address, [Account_ix (UpdateTrustee address (se_key S) changes)]))"

definition Trustee_update :: "sdk_env \<Rightarrow> bytes \<Rightarrow> trustee_changes \<Rightarrow> send_opts \<Rightarrow> (pubkey \<times> string) js" where
  "Trustee_update S key changes opts = send_at S (Trustee_updateIx S key changes) opts"

definition Trustee_verifyIx :: "sdk_env \<Rightarrow> pubkey \<Rightarrow> instruction list" where
  "Trustee_verifyIx S trustee = [Account_ix (VerifyTrustee trustee (se_key S))]"

definition Trustee_verify :: "sdk_env \<Rightarrow> pubkey \<Rightarrow> send_opts \<Rightarrow> string js" where
  "Trustee_verify S addr opts = send_instructions S (Trustee_verifyIx S addr) opts"

definition Trustee_deleteIx :: "sdk_env \<Rightarrow> pubkey \<Rightarrow> instruction list" where
  "Trustee_deleteIx S addr = [Account_ix (DeleteTrustee addr (se_key S))]"

definition Trustee_delete :: "sdk_env \<Rightarrow> pubkey \<Rightarrow> send_opts \<Rightarrow> string js" where
  "Trustee_delete S addr opts = send_instructions S (Trustee_deleteIx S addr) opts"

definition Trustee_deleteByKeyIx :: "sdk_env \<Rightarrow> bytes \<Rightarrow> instruction list js" where
  "Trustee_deleteByKeyIx S key = bindJ (pda_trustee (se_derive S) key) (\<lambda>addr. ret (Trustee_deleteIx S addr))"

definition Trustee_deleteByKey :: "sdk_env \<Rightarrow> bytes \<Rightarrow> send_opts \<Rightarrow> string js" where
  "Trustee_deleteByKey S key opts = bindJ (pda_trustee (se_derive S) key) (\<lambda>addr. Trustee_delete S addr opts)"

section \<open>issuerManager.ts\<close>

definition zkPubkeyToBytes :: "sdk_env \<Rightarrow> int list \<Rightarrow> bytes js" where
  "zkPubkeyToBytes S pubkey =
    foldJ (\<lambda>bs i. bindJ (bigintToBytes (ce_codec (se_core S)) i 32) (\<lambda>b. ret (bs @ b))) [] pubkey"

definition Issuer_load :: "(pubkey \<Rightarrow> 'd js) \<Rightarrow> pubkey + 'd \<Rightarrow> 'd js" where
  "Issuer_load reader addr = load_account reader addr"

definition Issuer_loadById :: "sdk_env \<Rightarrow> (pubkey \<Rightarrow> 'd js) \<Rightarrow> string \<Rightarrow> 'd js" where
  "Issuer_loadById S reader ident = bindJ (pda_issuer (se_derive S) ident) (\<lambda>addr. Issuer_load reader (Inl addr))"

record issuer_search =
  is_code :: "string option"
  is_authority :: "pubkey option"
  is_pubkey :: "pubkey option"
  is_zkPubkey :: "bytes option"
  is_active :: bool
  is_noData :: bool

definition Issuer_find :: "(gpa \<Rightarrow> (pubkey \<times> 'acc) list js) \<Rightarrow> ('acc \<Rightarrow> 'd js) \<Rightarrow> issuer_search \<Rightarrow> (pubkey \<times> 'd option) list js" where
  "Issuer_find run reader props =
    find_accounts run reader
      (addFilter ''isDisabled'' (if is_active props then Some (By_bool False) else None)
      (addFilter ''code'' (map_option By_text (present (is_code props)))
      (addFilter ''zkPubkey'' (map_option By_bytes (is_zkPubkey props))
      (addFilter ''pubkey'' (map_option By_key (is_pubkey props))
      (addFilter ''authority'' (map_option By_key (is_authority props)) (gpaBuilder (is_noData props)))))))"

definition any_issuer :: "bool \<Rightarrow> issuer_search" where
  "any_issuer noData = \<lparr> is_code = None, is_authority = None, is_pubkey = None, is_zkPubkey = None, is_active = False, is_noData = noData \<rparr>"

definition first_issuer :: "(pubkey \<times> 'd option) list \<Rightarrow> (pubkey \<times> 'd option) js" where
  "first_issuer accounts = (case accounts of [] \<Rightarrow> throw (Error ''Unable to find Issuer account by provided pubkey'') | a # _ \<Rightarrow> ret a)"

definition Issuer_loadByAuthority :: "(gpa \<Rightarrow> (pubkey \<times> 'acc) list js) \<Rightarrow> ('acc \<Rightarrow> 'd js) \<Rightarrow> pubkey \<Rightarrow> bool \<Rightarrow> (pubkey \<times> 'd option) js" where
  "Issuer_loadByAuthority run reader authority noData =
    bindJ (Issuer_find run reader ((any_issuer noData)\<lparr> is_authority := Some authority \<rparr>)) first_issuer"

definition Issuer_loadByZkPubkey :: "sdk_env \<Rightarrow> (gpa \<Rightarrow> (pubkey \<times> 'acc) list js) \<Rightarrow> ('acc \<Rightarrow> 'd js) \<Rightarrow> int \<times> int \<Rightarrow> bool \<Rightarrow> (pubkey \<times> 'd option) js" where
  "Issuer_loadByZkPubkey S run reader pubkey noData =
    bindJ (zkPubkeyToBytes S [fst pubkey, snd pubkey]) (\<lambda>bs.
    bindJ (Issuer_find run reader ((any_issuer noData)\<lparr> is_zkPubkey := Some bs \<rparr>)) first_issuer)"

definition Issuer_loadMultiple :: "(pubkey list \<Rightarrow> 'acc option list js) \<Rightarrow> ('acc \<Rightarrow> 'd js) \<Rightarrow> pubkey list \<Rightarrow> 'd list js" where
  "Issuer_loadMultiple infos reader addrs = load_existing infos reader addrs"

definition Issuer_findMapped :: "(gpa \<Rightarrow> (pubkey \<times> 'acc) list js) \<Rightarrow> ('acc \<Rightarrow> 'd js) \<Rightarrow> issuer_search \<Rightarrow> (pubkey \<times> 'd option) list js" where
  "Issuer_findMapped run reader props = bindJ (Issuer_find run reader props) (\<lambda>found. ret (by_address found))"

text \<open>The pair of keys is a signer of web3.js: its public key and its secret key.\<close>

record create_issuer =
  ci_code :: string
  ci_name :: string
  ci_description :: "string option"
  ci_authority :: "pubkey option"
  ci_publicKey :: pubkey
  ci_secretKey :: bytes

definition Issuer_createIx :: "sdk_env \<Rightarrow> create_issuer \<Rightarrow> (pubkey \<times> instruction list) js" where
  "Issuer_createIx S props =
    bindJ (pda_issuer (se_derive S) (ci_code props)) (\<lambda>address.
    bindJ (prv2pub (ce_eddsa (se_core S)) (ci_secretKey props)) (\<lambda>A.
    bindJ (zkPubkeyToBytes S [fst A, snd A]) (\<lambda>zkPubkey.
    ret (address, [Account_ix (CreateIssuer address (se_key S) \<lparr> id_code = ci_code props, id_name = ci_name props,
      id_description = text_or_empty (ci_description props),
      id_authority = (case ci_authority props of Some k \<Rightarrow> k | None \<Rightarrow> ci_publicKey props),
      id_pubkey = ci_publicKey props, id_zkPubkey = zkPubkey \<rparr>)]))))"

definition Issuer_create :: "sdk_env \<Rightarrow> create_issuer \<Rightarrow> send_opts \<Rightarrow> (pubkey \<times> string) js" where
  "Issuer_create S props opts =
    bindJ (Issuer_createIx S props) (\<lambda>(address, ixs). bindJ (send_checked S ixs opts) (\<lambda>signature. ret (address, signature)))"

definition Issuer_deleteIx :: "sdk_env \<Rightarrow> pubkey \<Rightarrow> instruction list" where
  "Issuer_deleteIx S issuer = [Account_ix (DeleteIssuer issuer (se_key S))]"

definition Issuer_delete :: "sdk_env \<Rightarrow> pubkey \<Rightarrow> send_opts \<Rightarrow> string js" where
  "Issuer_delete S issuer opts = send_checked S (Issuer_deleteIx S issuer) opts"

section \<open>credentialSpecManager.ts\<close>

definition MAX_CRED_SPEC_CODE_LEN :: nat where "MAX_CRED_SPEC_CODE_LEN = 16"
definition MAX_CRED_SPEC_NAME_LEN :: nat where "MAX_CRED_SPEC_NAME_LEN = 32"

definition Spec_load :: "(pubkey \<Rightarrow> 'd js) \<Rightarrow> pubkey + 'd \<Rightarrow> 'd js" where
  "Spec_load reader addr = load_account reader addr"

definition Spec_loadMultiple :: "(pubkey list \<Rightarrow> 'acc option list js) \<Rightarrow> ('acc \<Rightarrow> 'd js) \<Rightarrow> pubkey list \<Rightarrow> 'd list js" where
  "Spec_loadMultiple infos reader addrs = load_existing infos reader addrs"

record create_spec =
  cs_issuer :: pubkey
  cs_code :: string
  cs_name :: "string option"
  cs_uri :: "string option"

definition Spec_createIx :: "sdk_env \<Rightarrow> (string \<Rightarrow> string) \<Rightarrow> create_spec \<Rightarrow> (pubkey \<times> instruction list) js" where
  "Spec_createIx S capitalize props =
    bindJ (pda_credentialSpec (se_derive S) (cs_issuer props) (cs_code props)) (\<lambda>address.
    if length (cs_code props) > MAX_CRED_SPEC_CODE_LEN then throw (Error ''Code length must be less or equal than 16 bytes'')
    else if (case cs_name props of Some n \<Rightarrow> length n > MAX_CRED_SPEC_NAME_LEN | None \<Rightarrow> False)
    then throw (Error ''Name length must be less or equal than 32 bytes'')
    else ret (address, [Account_ix (CreateCredentialSpec address (cs_issuer props) (se_key S) (cs_code props)
      (case cs_name props of Some n \<Rightarrow> n | None \<Rightarrow> capitalize (cs_code props)) (text_or_empty (cs_uri props)))]))"

definition Spec_create :: "sdk_env \<Rightarrow> (string \<Rightarrow> string) \<Rightarrow> create_spec \<Rightarrow> send_opts \<Rightarrow> (pubkey \<times> string) js" where
  "Spec_create S capitalize props opts = send_at S (Spec_createIx S capitalize props) opts"

definition Spec_deleteIx :: "sdk_env \<Rightarrow> pubkey \<Rightarrow> string \<Rightarrow> (pubkey \<times> instruction list) js" where
  "Spec_deleteIx S issuer code =
    bindJ (pda_credentialSpec (se_derive S) issuer code) (\<lambda>address.
    ret (address, [Account_ix (DeleteCredentialSpec address issuer (se_key S))]))"

definition Spec_delete :: "sdk_env \<Rightarrow> pubkey \<Rightarrow> string \<Rightarrow> send_opts \<Rightarrow> string js" where
  "Spec_delete S issuer code opts = bindJ (Spec_deleteIx S issuer code) (\<lambda>(address, ixs). send_instructions S ixs opts)"

record spec_search =
  ss_code :: "string option"
  ss_name :: "string option"
  ss_issuer :: "pubkey option"
  ss_noData :: bool

definition Spec_find :: "(gpa \<Rightarrow> (pubkey \<times> 'acc) list js) \<Rightarrow> ('acc \<Rightarrow> 'd js) \<Rightarrow> spec_search \<Rightarrow> (pubkey \<times> 'd option) list js" where
  "Spec_find run reader props =
    find_accounts run reader
      (addFilter ''issuer'' (map_option By_key (ss_issuer props))
      (addFilter ''name'' (map_option By_text (present (ss_name props)))
      (addFilter ''code'' (map_option By_text (present (ss_code props))) (gpaBuilder (ss_noData props)))))"

section \<open>Addresses of a credential: utils/web3.ts\<close>

record nft_env =
  ne_derive :: "pubkey \<Rightarrow> deriver"
  ne_onCurve :: "bytes \<Rightarrow> bool"
  ne_metadataProgram :: pubkey
  ne_tokenProgram :: pubkey
  ne_associatedProgram :: pubkey

definition getMetadataPDA :: "nft_env \<Rightarrow> pubkey \<Rightarrow> pubkey js" where
  "getMetadataPDA N mint = ne_derive N (ne_metadataProgram N) [text_bytes ''metadata'', ne_metadataProgram N, mint]"

definition getMasterEditionPDA :: "nft_env \<Rightarrow> pubkey \<Rightarrow> pubkey js" where
  "getMasterEditionPDA N mint = ne_derive N (ne_metadataProgram N) [text_bytes ''metadata'', ne_metadataProgram N, mint, text_bytes ''edition'']"

definition getAssociatedTokenAddress :: "nft_env \<Rightarrow> pubkey \<Rightarrow> pubkey \<Rightarrow> bool \<Rightarrow> pubkey js" where
  "getAssociatedTokenAddress N mint owner allowOwnerOffCurve =
    (if \<not> allowOwnerOffCurve \<and> \<not> ne_onCurve N owner then throw (Error ''Invalid token owner account'')
     else ne_derive N (ne_associatedProgram N) [owner, ne_tokenProgram N, mint])"

section \<open>credentialRequestManager.ts\<close>

definition Request_load :: "(pubkey \<Rightarrow> 'd js) \<Rightarrow> pubkey + 'd \<Rightarrow> 'd js" where
  "Request_load reader addr = load_account reader addr"

definition Request_loadMultiple :: "(pubkey list \<Rightarrow> 'acc option list js) \<Rightarrow> ('acc \<Rightarrow> 'd js) \<Rightarrow> pubkey list \<Rightarrow> 'd list js" where
  "Request_loadMultiple infos reader addrs = load_existing infos reader addrs"

text \<open>The owner is a pair of keys: the key that signs.\<close>

record create_credential_request =
  cr_mint :: pubkey
  cr_issuer :: pubkey
  cr_spec :: "pubkey option"
  cr_specCode :: "string option"
  cr_owner :: "pubkey option"
  cr_uri :: "string option"

definition Request_createIx :: "sdk_env \<Rightarrow> nft_env \<Rightarrow> create_credential_request \<Rightarrow> (pubkey \<times> instruction list) js" where
  "Request_createIx S N props =
    (let authority = se_key S; owner = (case cr_owner props of Some k \<Rightarrow> k | None \<Rightarrow> authority) in
     bindJ (getAssociatedTokenAddress N (cr_mint props) owner False) (\<lambda>token.
     bindJ (case cr_spec props of
         Some s \<Rightarrow> ret s
       | None \<Rightarrow> (case present (cr_specCode props) of
           Some c \<Rightarrow> pda_credentialSpec (se_derive S) (cr_issuer props) c
         | None \<Rightarrow> throw (Error ''Either `spec` or `specCode` must be provided''))) (\<lambda>spec.
     bindJ (pda_credentialRequest (se_derive S) spec authority) (\<lambda>address.
     bindJ (pda_authority (se_derive S) (se_programId S)) (\<lambda>albusAuthority.
     bindJ (getMetadataPDA N (cr_mint props)) (\<lambda>metadata.
     ret (address, [Account_ix (RequestCredential \<lparr> qa_credentialRequest = address, qa_credentialSpec = spec,
       qa_credentialMint = cr_mint props, qa_credentialMetadata = metadata, qa_credentialToken = token, qa_credentialOwner = owner,
       qa_issuer = cr_issuer props, qa_authority = authority, qa_albusAuthority = albusAuthority \<rparr> (text_or_empty (cr_uri props)))])))))))"

text \<open>An owner that is given signs too.\<close>

definition sign_as :: "pubkey option \<Rightarrow> instruction tx_builder \<Rightarrow> instruction tx_builder" where
  "sign_as owner b = (case owner of Some k \<Rightarrow> addSigner [k] b | None \<Rightarrow> b)"

definition Request_create :: "sdk_env \<Rightarrow> nft_env \<Rightarrow> create_credential_request \<Rightarrow> send_opts \<Rightarrow> (pubkey \<times> string) js" where
  "Request_create S N props opts =
    bindJ (Request_createIx S N props) (\<lambda>(address, ixs).
    bindJ (addInstruction (se_provider S) (map Add_ix ixs) (base_txBuilder S)) (\<lambda>b.
    bindJ (snd (sendAndConfirm (se_provider S) opts (sign_as (cr_owner props) b))) (\<lambda>signature. ret (address, signature))))"

definition Request_updateIx :: "sdk_env \<Rightarrow> pubkey \<Rightarrow> pubkey \<Rightarrow> int \<Rightarrow> string option \<Rightarrow> instruction list" where
  "Request_updateIx S request issuer status message =
    [Account_ix (UpdateCredentialRequest request issuer (se_key S) status (text_or_empty message))]"

definition Request_update :: "sdk_env \<Rightarrow> pubkey \<Rightarrow> pubkey \<Rightarrow> int \<Rightarrow> string option \<Rightarrow> send_opts \<Rightarrow> string js" where
  "Request_update S request issuer status message opts = send_instructions S (Request_updateIx S request issuer status message) opts"

definition Request_deleteIx :: "sdk_env \<Rightarrow> pubkey \<Rightarrow> instruction list" where
  "Request_deleteIx S request = [Account_ix (DeleteCredentialRequest request (se_key S))]"

definition Request_delete :: "sdk_env \<Rightarrow> pubkey \<Rightarrow> send_opts \<Rightarrow> string js" where
  "Request_delete S request opts = send_instructions S (Request_deleteIx S request) opts"

record request_search =
  rs_authority :: "pubkey option"
  rs_issuer :: "pubkey option"
  rs_credentialOwner :: "pubkey option"
  rs_credentialSpec :: "pubkey option"
  rs_credentialMint :: "pubkey option"
  rs_status :: "int option"
  rs_noData :: bool

text \<open>The status 0, pending, is falsy: it is no filter.\<close>

definition status_filter :: "int option \<Rightarrow> filter_value option" where
  "status_filter status = (case status of Some n \<Rightarrow> if n \<noteq> 0 then Some (By_number n) else None | None \<Rightarrow> None)"

definition Request_find :: "(gpa \<Rightarrow> (pubkey \<times> 'acc) list js) \<Rightarrow> ('acc \<Rightarrow> 'd js) \<Rightarrow> request_search \<Rightarrow> (pubkey \<times> 'd option) list js" where
  "Request_find run reader props =
    find_accounts run reader
      (addFilter ''status'' (status_filter (rs_status props))
      (addFilter ''issuer'' (map_option By_key (rs_issuer props))
      (addFilter ''credentialMint'' (map_option By_key (rs_credentialMint props))
      (addFilter ''credentialSpec'' (map_option By_key (rs_credentialSpec props))
      (addFilter ''credentialOwner'' (map_option By_key (rs_credentialOwner props))
      (addFilter ''authority'' (map_option By_key (rs_authority props)) (gpaBuilder (rs_noData props))))))))"

end
