(* ===== verification/CredentialNft.thy ===== *)
theory CredentialNft
  imports Parties
begin

text \<open>
  Credentials as tokens: packages/albus-sdk/src/credentialManager.ts, issuerClient.ts and the
  readers of utils/web3.ts.  The accounts of the network, the generated reader of metadata,
  the download of a URI and lodash's \<open>chunk\<close> are arguments.  Of a downloaded JSON the model
  keeps its \<open>vc\<close>.
\<close>

section \<open>Metadata\<close>

text \<open>A creator is an object, compared by identity: its reference.\<close>

record nft_metadata =
  mt_updateAuthority :: pubkey
  mt_mint :: pubkey
  mt_name :: string
  mt_symbol :: string
  mt_uri :: string
  mt_creators :: "nat list option"
  mt_vc :: "verifiable_credential option"

record network =
  nw_account :: "pubkey \<Rightarrow> bytes option js"
  nw_accounts :: "pubkey list \<Rightarrow> bytes option list js"
  nw_metadata :: "bytes \<Rightarrow> nft_metadata js"
  nw_fetch :: "string \<Rightarrow> verifiable_credential option js"
  nw_chunk :: "pubkey list \<Rightarrow> nat \<Rightarrow> pubkey list list"
  nw_slot :: "nat js"
  nw_slotTime :: "nat \<Rightarrow> int option js"

definition NFT_SYMBOL_PREFIX :: string where "NFT_SYMBOL_PREFIX = ''ALBUS''"
definition CREDENTIAL_NAME :: string where "CREDENTIAL_NAME = ''Albus Digital Credential''"
definition CREDENTIAL_SYMBOL_CODE :: string where "CREDENTIAL_SYMBOL_CODE = ''DC''"

definition getSolanaTimestamp :: "network \<Rightarrow> int js" where
  "getSolanaTimestamp W = bindJ (nw_slot W) (\<lambda>slot. bindJ (nw_slotTime W slot) (\<lambda>t. ret (case t of Some n \<Rightarrow> n | None \<Rightarrow> 0)))"

definition sanitizeString :: "string \<Rightarrow> string" where
  "sanitizeString s = filter (\<lambda>c. c \<noteq> CHR 0x00) s"

definition sanitizeMetadata :: "nft_metadata \<Rightarrow> nft_metadata" where
  "sanitizeMetadata m = m\<lparr> mt_name := sanitizeString (mt_name m), mt_symbol := sanitizeString (mt_symbol m), mt_uri := sanitizeString (mt_uri m) \<rparr>"

record nft_check =
  va_authority :: "pubkey option"
  va_code :: "string option"
  va_creators :: "nat list option"

definition validateNft :: "nft_metadata \<Rightarrow> nft_check \<Rightarrow> unit js" where
  "validateNft nft props =
    (if (case va_authority props of Some k \<Rightarrow> mt_updateAuthority nft \<noteq> k | None \<Rightarrow> False) then throw (Error ''Unauthorized NFT'')
     else if (case va_code props of Some c \<Rightarrow> c \<noteq> '''' \<and> mt_symbol nft \<noteq> NFT_SYMBOL_PREFIX @ ''-'' @ c | None \<Rightarrow> False)
     then throw (Error (''Invalid NFT Symbol. Expected: '' @ NFT_SYMBOL_PREFIX @ ''-'' @ the (va_code props)))
     else if (case va_creators props of
         Some cs \<Rightarrow> \<not> list_all (\<lambda>c. c \<in> set (case mt_creators nft of Some l \<Rightarrow> l | None \<Rightarrow> [])) cs | None \<Rightarrow> False)
     then throw (Error ''Invalid NFT creator'')
     else ret ())"

text \<open>A download that fails leaves an empty JSON.\<close>

definition getMetadataByAccountInfo :: "network \<Rightarrow> bytes \<Rightarrow> bool \<Rightarrow> nft_metadata js" where
  "getMetadataByAccountInfo W info loadJson =
    bindJ (nw_metadata W info) (\<lambda>raw.
    let m = sanitizeMetadata raw in
    if loadJson then bindJ (catchJ (nw_fetch W (mt_uri m)) (\<lambda>_. ret None)) (\<lambda>vc. ret (m\<lparr> mt_vc := vc \<rparr>))
    else ret (m\<lparr> mt_vc := None \<rparr>))"

definition getMetadataByMint :: "nft_env \<Rightarrow> network \<Rightarrow> pubkey \<Rightarrow> bool \<Rightarrow> nft_metadata option js" where
  "getMetadataByMint N W mint loadJson =
    bindJ (getMetadataPDA N mint) (\<lambda>addr. bindJ (nw_account W addr) (\<lambda>info. case info of
      Some b \<Rightarrow> bindJ (getMetadataByAccountInfo W b loadJson) (\<lambda>m. ret (Some m))
    | None \<Rightarrow> ret None))"

text \<open>\<open>shown\<close> is the text of the mint in the message.\<close>

definition loadNft :: "nft_env \<Rightarrow> network \<Rightarrow> (pubkey \<Rightarrow> string) \<Rightarrow> pubkey \<Rightarrow> nft_check \<Rightarrow> nft_metadata js" where
  "loadNft N W shown mint validate =
    bindJ (getMetadataByMint N W mint True) (\<lambda>metadata. case metadata of
      None \<Rightarrow> throw (Error (''Unable to find Metadata account at '' @ shown mint))
    | Some m \<Rightarrow> bindJ (validateNft m validate) (\<lambda>_. ret m))"

section \<open>Many tokens\<close>

record metadata_search =
  ms_mints :: "pubkey list"
  ms_updateAuthority :: "pubkey option"
  ms_symbol :: "string option"
  ms_name :: "string option"
  ms_uri :: "string option"
  ms_chunkSize :: "nat option"
  ms_withJson :: bool

definition startsWith :: "string \<Rightarrow> string \<Rightarrow> bool" where
  "startsWith s t = (take (length t) s = t)"

fun str_includes :: "string \<Rightarrow> string \<Rightarrow> bool" where
  "str_includes [] t = (t = [])"
| "str_includes (c # s) t = (startsWith (c # s) t \<or> str_includes s t)"

definition metadata_matches :: "metadata_search \<Rightarrow> nft_metadata \<Rightarrow> bool" where
  "metadata_matches props acc =
    ((case ms_updateAuthority props of Some k \<Rightarrow> mt_updateAuthority acc = k | None \<Rightarrow> True) \<and>
     (case ms_symbol props of Some s \<Rightarrow> startsWith (mt_symbol acc) s | None \<Rightarrow> True) \<and>
     (case ms_name props of Some s \<Rightarrow> str_includes (mt_name acc) s | None \<Rightarrow> True) \<and>
     (case ms_uri props of Some u \<Rightarrow> let uri = sanitizeString (mt_uri acc) in if u = '''' then uri = '''' else startsWith uri u | None \<Rightarrow> True))"

definition is_http :: "string \<Rightarrow> bool" where
  "is_http uri \<longleftrightarrow> startsWith uri ''http://'' \<or> startsWith uri ''https://''"

definition with_json :: "network \<Rightarrow> nft_metadata \<Rightarrow> nft_metadata js" where
  "with_json W acc = (if is_http (sanitizeString (mt_uri acc))
     then catchJ (bindJ (nw_fetch W (mt_uri acc)) (\<lambda>vc. ret (acc\<lparr> mt_vc := vc \<rparr>))) (\<lambda>_. ret acc) else ret acc)"

definition findMetadataAccounts :: "nft_env \<Rightarrow> network \<Rightarrow> metadata_search \<Rightarrow> nft_metadata list js" where
  "findMetadataAccounts N W props =
    bindJ (mapJ (getMetadataPDA N) (ms_mints props)) (\<lambda>pdas.
    bindJ (foldJ (\<lambda>raw keys. bindJ (nw_accounts W keys) (\<lambda>accs. ret (raw @ accs))) []
      (nw_chunk W pdas (case ms_chunkSize props of Some n \<Rightarrow> n | None \<Rightarrow> 100))) (\<lambda>raw.
    bindJ (mapJ (\<lambda>b. bindJ (nw_metadata W b) (\<lambda>m. ret ((sanitizeMetadata m)\<lparr> mt_vc := None \<rparr>))) (List.map_filter (\<lambda>a. a) raw)) (\<lambda>accounts.
    let found = filter (metadata_matches props) accounts in
    if ms_withJson props then mapJ (with_json W) found else ret found)))"

text \<open>A token account as the RPC parses it; a field that is missing is \<open>undefined\<close>.\<close>

record parsed_token =
  pt_amount :: "int option"
  pt_decimals :: "int option"
  pt_mint :: pubkey

definition getParsedNftAccountsByOwner :: "nft_env \<Rightarrow> network \<Rightarrow> (pubkey \<Rightarrow> parsed_token list js) \<Rightarrow> pubkey \<Rightarrow> metadata_search \<Rightarrow> nft_metadata list js" where
  "getParsedNftAccountsByOwner N W tokens owner search =
    bindJ (tokens owner) (\<lambda>accounts.
    findMetadataAccounts N W (search\<lparr> ms_mints := map pt_mint (filter (\<lambda>t. pt_decimals t = Some 0 \<and> pt_amount t = Some 1) accounts) \<rparr>))"

definition getParsedNftAccountsByUpdateAuthority :: "network \<Rightarrow> (pubkey \<Rightarrow> bytes list js) \<Rightarrow> pubkey \<Rightarrow> nft_metadata list js" where
  "getParsedNftAccountsByUpdateAuthority W accountsOf authority =
    catchJ (bindJ (accountsOf authority) (mapJ (\<lambda>b. bindJ (nw_metadata W b) (\<lambda>m. ret (sanitizeMetadata m))))) (\<lambda>_. ret [])"

section \<open>What a credential says\<close>

text \<open>The assignment to \<open>__proto__\<close> of a string changes nothing.\<close>

definition set_text :: "(string \<rightharpoonup> string) \<Rightarrow> string \<Rightarrow> string \<Rightarrow> (string \<rightharpoonup> string)" where
  "set_text m k v = (if k = ''__proto__'' then m else m(k \<mapsto> v))"

definition parse_part :: "(string \<rightharpoonup> string) \<Rightarrow> string \<Rightarrow> (string \<rightharpoonup> string)" where
  "parse_part m p = (case js_split (CHR ''='') p of k # v # _ \<Rightarrow> if k \<noteq> '''' \<and> v \<noteq> '''' then set_text m k v else m | _ \<Rightarrow> m)"

definition parseUriData :: "string \<Rightarrow> string \<rightharpoonup> string" where
  "parseUriData uri =
    (if startsWith uri ''data:''
     then foldl parse_part Map.empty (js_split (CHR ''&'') (case js_split (CHR '','') uri of _ # qs # _ \<Rightarrow> qs | _ \<Rightarrow> ''''))
     else Map.empty)"

record load_opts =
  lo_decryptionKey :: "bytes option"
  lo_throwOnError :: bool
  lo_resolve :: "vc_issuer \<Rightarrow> did_result js"

datatype credential_info = Verified verifiable_credential | Uri_data "string \<rightharpoonup> string" | Verification_error js_error

definition getCredentialInfo :: "credential_env \<Rightarrow> nft_metadata \<Rightarrow> load_opts \<Rightarrow> credential_info js" where
  "getCredentialInfo C nft props = (case mt_vc nft of
     Some vc \<Rightarrow> catchJ (bindJ (verifyCredential C (lo_resolve props) vc (lo_decryptionKey props)) (\<lambda>vc. ret (Verified vc)))
       (\<lambda>e. if lo_throwOnError props then throw e else ret (Verification_error e))
   | None \<Rightarrow> ret (Uri_data (parseUriData (mt_uri nft))))"

section \<open>credentialManager.ts\<close>

text \<open>The subscriptions are a \<open>Map\<close>, but a subscription is stored as a property of the object
  and looked up as an entry.  The connection gives each listener a number.\<close>

record listeners =
  ls_entries :: "(pubkey \<times> nat) list"
  ls_properties :: "pubkey \<rightharpoonup> nat"
  ls_active :: "(nat \<times> pubkey) list"
  ls_next :: nat

definition no_listeners :: listeners where
  "no_listeners = \<lparr> ls_entries = [], ls_properties = Map.empty, ls_active = [], ls_next = 0 \<rparr>"

definition removeAccountChangeListener :: "nat option \<Rightarrow> listeners \<Rightarrow> listeners" where
  "removeAccountChangeListener n L = L\<lparr> ls_active := filter (\<lambda>(i, k). Some i \<noteq> n) (ls_active L) \<rparr>"

definition removeListener :: "pubkey \<Rightarrow> listeners \<Rightarrow> listeners" where
  "removeListener mint L =
    (if mint \<in> fst ` set (ls_entries L) then removeAccountChangeListener (ls_properties L mint) L else L)"

definition addListener :: "nft_env \<Rightarrow> pubkey \<Rightarrow> listeners \<Rightarrow> listeners \<times> unit js" where
  "addListener N mint L =
    (let L = removeListener mint L; n = ls_next L in
     case getMetadataPDA N mint of
       Some (Inr addr) \<Rightarrow>
         (L\<lparr> ls_active := ls_active L @ [(n, addr)], ls_properties := (ls_properties L)(mint \<mapsto> n), ls_next := n + 1 \<rparr>, ret ())
     | Some (Inl e) \<Rightarrow> (L, throw e)
     | None \<Rightarrow> (L, None))"

definition removeAllListener :: "listeners \<Rightarrow> listeners" where
  "removeAllListener L = foldl (\<lambda>L n. removeAccountChangeListener (Some n) L) L (map snd (ls_entries L))"

text \<open>What a listener does when its account changes: the information that it calls back with.\<close>

definition credential_changed :: "credential_env \<Rightarrow> network \<Rightarrow> bytes \<Rightarrow> load_opts \<Rightarrow> credential_info js" where
  "credential_changed C W acc props = bindJ (getMetadataByAccountInfo W acc True) (\<lambda>m. getCredentialInfo C m props)"

text \<open>\<open>mint\<close> is the public key of \<open>Keypair.generate()\<close>.\<close>

definition credential_accounts_of :: "sdk_env \<Rightarrow> nft_env \<Rightarrow> pubkey \<Rightarrow> pubkey option \<Rightarrow> credential_accounts js" where
  "credential_accounts_of S N mint owner =
    (let authority = (case owner of Some k \<Rightarrow> k | None \<Rightarrow> se_key S) in
     bindJ (getAssociatedTokenAddress N mint authority False) (\<lambda>token.
     bindJ (pda_authority (se_derive S) (se_programId S)) (\<lambda>albusAuthority.
     bindJ (getMasterEditionPDA N mint) (\<lambda>edition.
     bindJ (getMetadataPDA N mint) (\<lambda>metadata.
     ret \<lparr> xa_albusAuthority = albusAuthority, xa_mint = mint, xa_tokenAccount = token, xa_metadataAccount = metadata,
       xa_editionAccount = edition, xa_authority = authority \<rparr>)))))"

definition Credential_createIx :: "sdk_env \<Rightarrow> nft_env \<Rightarrow> pubkey \<Rightarrow> pubkey option \<Rightarrow> instruction list js" where
  "Credential_createIx S N mint owner =
    bindJ (credential_accounts_of S N mint owner) (\<lambda>accounts. ret [Account_ix (CreateCredential accounts (se_key S))])"

definition Credential_create :: "sdk_env \<Rightarrow> nft_env \<Rightarrow> pubkey \<Rightarrow> pubkey option \<Rightarrow> send_opts \<Rightarrow> (pubkey \<times> string) js" where
  "Credential_create S N mint owner opts =
    bindJ (Credential_createIx S N mint owner) (\<lambda>ixs.
    bindJ (addInstruction (se_provider S) [Add_ix (SetComputeUnitLimit 300000)] (base_txBuilder S)) (\<lambda>b.
    bindJ (addInstruction (se_provider S) (map Add_ix ixs) b) (\<lambda>b.
    bindJ (snd (sendAndConfirm (se_provider S) opts (sign_as owner (addSigner [mint] b)))) (\<lambda>signature. ret (mint, signature)))))"

record update_credential =
  up_uri :: string
  up_name :: "string option"
  up_mint :: "pubkey option"
  up_credentialRequest :: "pubkey option"

text \<open>The account of a request is read for its issuer and its mint.\<close>

definition Credential_updateIx :: "sdk_env \<Rightarrow> nft_env \<Rightarrow> (pubkey \<Rightarrow> (pubkey \<times> pubkey) js) \<Rightarrow> update_credential \<Rightarrow> instruction list js" where
  "Credential_updateIx S N loadRequest props =
    bindJ (case up_credentialRequest props of
        Some r \<Rightarrow> bindJ (loadRequest r) (\<lambda>(issuer, mint). ret (mint, Some issuer))
      | None \<Rightarrow> (case up_mint props of None \<Rightarrow> throw (Error ''Missing mint address'') | Some m \<Rightarrow> ret (m, None))) (\<lambda>(mint, issuer).
    bindJ (pda_authority (se_derive S) (se_programId S)) (\<lambda>albusAuthority.
    bindJ (getMetadataPDA N mint) (\<lambda>metadata.
    ret [Account_ix (UpdateCredential \<lparr> ua_albusAuthority = albusAuthority, ua_credentialRequest = up_credentialRequest props,
      ua_credentialRequestIssuer = issuer, ua_mint = mint, ua_metadataAccount = metadata, ua_authority = se_key S \<rparr>
      (case up_name props of Some n \<Rightarrow> n | None \<Rightarrow> CREDENTIAL_NAME) (up_uri props))])))"

definition Credential_update :: "sdk_env \<Rightarrow> nft_env \<Rightarrow> (pubkey \<Rightarrow> (pubkey \<times> pubkey) js) \<Rightarrow> update_credential \<Rightarrow> send_opts \<Rightarrow> string js" where
  "Credential_update S N loadRequest props opts =
    bindJ (Credential_updateIx S N loadRequest props) (\<lambda>ixs. send_instructions S ixs opts)"

definition Credential_deleteIx :: "sdk_env \<Rightarrow> nft_env \<Rightarrow> pubkey \<Rightarrow> pubkey option \<Rightarrow> instruction list js" where
  "Credential_deleteIx S N mint owner = bindJ (credential_accounts_of S N mint owner) (\<lambda>accounts. ret [Account_ix (DeleteCredential accounts)])"

definition Credential_delete :: "sdk_env \<Rightarrow> nft_env \<Rightarrow> pubkey \<Rightarrow> pubkey option \<Rightarrow> send_opts \<Rightarrow> string js" where
  "Credential_delete S N mint owner opts =
    bindJ (Credential_deleteIx S N mint owner) (\<lambda>ixs.
    bindJ (addInstruction (se_provider S) (map Add_ix ixs) (base_txBuilder S)) (\<lambda>b.
    snd (sendAndConfirm (se_provider S) opts (sign_as owner b))))"

definition Credential_load :: "sdk_env \<Rightarrow> nft_env \<Rightarrow> network \<Rightarrow> (pubkey \<Rightarrow> string) \<Rightarrow> pubkey \<Rightarrow> load_opts \<Rightarrow> credential_info js" where
  "Credential_load S N W shown mint props =
    bindJ (pda_authority (se_derive S) (se_programId S)) (\<lambda>authority.
    bindJ (loadNft N W shown mint \<lparr> va_authority = Some authority, va_code = Some CREDENTIAL_SYMBOL_CODE, va_creators = None \<rparr>) (\<lambda>nft.
    getCredentialInfo (se_core S) nft props))"

definition all_search :: "pubkey \<Rightarrow> bool \<Rightarrow> metadata_search" where
  "all_search authority pending = \<lparr> ms_mints = [], ms_updateAuthority = Some authority,
     ms_symbol = Some (NFT_SYMBOL_PREFIX @ ''-'' @ CREDENTIAL_SYMBOL_CODE), ms_name = None,
     ms_uri = (if pending then Some '''' else None), ms_chunkSize = None, ms_withJson = (\<not> pending) \<rparr>"

definition Credential_loadAll :: "sdk_env \<Rightarrow> nft_env \<Rightarrow> network \<Rightarrow> (pubkey \<Rightarrow> parsed_token list js) \<Rightarrow> pubkey option \<Rightarrow> bool \<Rightarrow> load_opts \<Rightarrow> (pubkey \<times> credential_info) list js" where
  "Credential_loadAll S N W tokens owner pending props =
    bindJ (pda_authority (se_derive S) (se_programId S)) (\<lambda>authority.
    bindJ (getParsedNftAccountsByOwner N W tokens (case owner of Some k \<Rightarrow> k | None \<Rightarrow> se_key S) (all_search authority pending)) (\<lambda>accounts.
    mapJ (\<lambda>account. bindJ (getCredentialInfo (se_core S) account props) (\<lambda>info. ret (mt_mint account, info))) accounts))"

section \<open>issuerClient.ts\<close>

definition Status_Approved :: int where "Status_Approved = 2"
definition Status_Rejected :: int where "Status_Rejected = 3"

text \<open>The request and its credential are updated in one transaction.\<close>

definition decide_request :: "sdk_env \<Rightarrow> nft_env \<Rightarrow> (pubkey \<Rightarrow> (pubkey \<times> pubkey) js) \<Rightarrow> pubkey \<Rightarrow> pubkey \<Rightarrow> int \<Rightarrow> string option \<Rightarrow> string \<Rightarrow> send_opts \<Rightarrow> string js" where
  "decide_request S N loadRequest request issuer status message uri opts =
    bindJ (addInstruction (se_provider S) (map Add_ix (Request_updateIx S request issuer status message)) (base_txBuilder S)) (\<lambda>b.
    bindJ (Credential_updateIx S N loadRequest \<lparr> up_uri = uri, up_name = None, up_mint = None, up_credentialRequest = Some request \<rparr>) (\<lambda>ixs.
    bindJ (addInstruction (se_provider S) (map Add_ix ixs) b) (\<lambda>b.
    snd (sendAndConfirm (se_provider S) opts b))))"

definition rejectCredentialRequest :: "sdk_env \<Rightarrow> nft_env \<Rightarrow> (pubkey \<Rightarrow> (pubkey \<times> pubkey) js) \<Rightarrow> pubkey \<Rightarrow> pubkey \<Rightarrow> string option \<Rightarrow> send_opts \<Rightarrow> string js" where
  "rejectCredentialRequest S N loadRequest request issuer message opts =
    decide_request S N loadRequest request issuer Status_Rejected message ''data:,status=rejected&ref=cr'' opts"

definition approveCredentialRequest :: "sdk_env \<Rightarrow> nft_env \<Rightarrow> (pubkey \<Rightarrow> (pubkey \<times> pubkey) js) \<Rightarrow> pubkey \<Rightarrow> pubkey \<Rightarrow> string \<Rightarrow> send_opts \<Rightarrow> string js" where
  "approveCredentialRequest S N loadRequest request issuer uri opts =
    decide_request S N loadRequest request issuer Status_Approved None uri opts"

text \<open>An update by an issuer: the name of the caller is dropped.\<close>

definition updateCredential :: "sdk_env \<Rightarrow> nft_env \<Rightarrow> (pubkey \<Rightarrow> (pubkey \<times> pubkey) js) \<Rightarrow> update_credential \<Rightarrow> send_opts \<Rightarrow> string js" where
  "updateCredential S N loadRequest props opts =
    Credential_update S N loadRequest \<lparr> up_uri = up_uri props, up_name = None, up_mint = None, up_credentialRequest = up_credentialRequest props \<rparr> opts"

end
