(* ===== verification/ManagersCorrect.thy ===== *)
theory ManagersCorrect
  imports CredentialNft ProofRequestCorrect
begin

text \<open>
  What the account managers achieve together with the program and with the readers of the
  accounts: a verifying key reaches its circuit, the rules of a policy reach the inputs of
  a proof, the keys of trustees and issuers are read back, and a decision about a request
  is one transaction; and that no listener of a credential is ever removed.
\<close>

section \<open>Verifying keys\<close>

definition vk_upload :: "pubkey \<Rightarrow> instruction \<Rightarrow> bool" where
  "vk_upload circuit ix = (case ix of
     Account_ix (UpdateCircuitVk c authority d) \<Rightarrow> c = circuit \<and> (case vu_ic d of Some ic \<Rightarrow> ic = [] \<or> length ic \<le> 14 | None \<Rightarrow> False)
   | _ \<Rightarrow> False)"

lemma upload_extends:
  "foldl program_vk_step vk (map (\<lambda>ic. Account_ix (UpdateCircuitVk c a \<lparr> vu_alpha = None, vu_beta = None,
      vu_gamma = None, vu_delta = None, vu_ic = Some ic, vu_extendIc = True \<rparr>)) ics) = vk\<lparr> pk_ic := pk_ic vk @ concat ics \<rparr>"
  by (induction ics arbitrary: vk) (simp_all add: program_vk_step_def update_vk_handler_def)

definition vk_account :: "string \<Rightarrow> string \<Rightarrow> program_vk \<Rightarrow> vk_bytes" where
  "vk_account curve nPublic vk = \<lparr> vb_curve = curve, vb_nPublic = nPublic, vb_alpha = pk_alpha vk, vb_beta = pk_beta vk,
     vb_gamma = pk_gamma vk, vb_delta = pk_delta vk, vb_ic = pk_ic vk \<rparr>"

lemma updateVkIx_uploads:
  assumes "chunks_ok (se_chunk S)" "pda_circuit (se_derive S) code = ret circuit" "encodeVerifyingKey vk = ret e"
  shows "\<exists>ixs. Circuit_updateVkIx S code vk = ret ixs \<and> (\<forall>ix \<in> set ixs. vk_upload circuit ix) \<and>
    foldl program_vk_step stored ixs =
      \<lparr> pk_alpha = vb_alpha e, pk_beta = vb_beta e, pk_gamma = vb_gamma e, pk_delta = vb_delta e, pk_ic = vb_ic e \<rparr>"
proof -
  define rest where "rest = (if length (vb_ic e) > icFirstSize then se_chunk S (drop icFirstSize (vb_ic e)) icChunkSize else [])"
  have "0 < icChunkSize" by (simp add: icChunkSize_def)
  then have c: "concat rest = drop icFirstSize (vb_ic e)" "\<forall>ic \<in> set rest. length ic \<le> 14"
    using assms(1) unfolding chunks_ok_def rest_def by (auto simp: icChunkSize_def)
  have t: "take icFirstSize (vb_ic e) @ concat rest = vb_ic e" using c(1) by simp
  define ixs where "ixs = Account_ix (UpdateCircuitVk circuit (se_key S) \<lparr> vu_alpha = Some (vb_alpha e), vu_beta = Some (vb_beta e),
          vu_gamma = Some (vb_gamma e), vu_delta = Some (vb_delta e), vu_ic = Some (take icFirstSize (vb_ic e)), vu_extendIc = False \<rparr>) #
      map (\<lambda>ic. Account_ix (UpdateCircuitVk circuit (se_key S) \<lparr> vu_alpha = None, vu_beta = None,
          vu_gamma = None, vu_delta = None, vu_ic = Some ic, vu_extendIc = True \<rparr>)) rest"
  have "Circuit_updateVkIx S code vk = ret ixs"
    by (simp add: Circuit_updateVkIx_def assms(2,3) Let_def ixs_def rest_def)
  moreover have "\<forall>ix \<in> set ixs. vk_upload circuit ix"
    using c(2) by (auto simp: ixs_def vk_upload_def icFirstSize_def)
  moreover have "foldl program_vk_step stored ixs =
      \<lparr> pk_alpha = vb_alpha e, pk_beta = vb_beta e, pk_gamma = vb_gamma e, pk_delta = vb_delta e, pk_ic = vb_ic e \<rparr>"
    using t unfolding ixs_def foldl.simps upload_extends by (simp add: program_vk_step_def update_vk_handler_def)
  ultimately show ?thesis by blast
qed

text \<open>
  C16: \<open>updateVk\<close> uploads a verifying key.  Every instruction goes to the circuit and carries at
  most 14 points; whatever key the program had stored, they leave it with a key that decodes
  to the points of the given one, whatever curve and number of inputs the account states.
\<close>

theorem vk_update_stores_key:
  assumes "chunks_ok (se_chunk S)" "pda_circuit (se_derive S) code = ret circuit"
    and "g1_denotes (vk_alpha_1 d) A" "g2_denotes (vk_beta_2 d) B" "g2_denotes (vk_gamma_2 d) G" "g2_denotes (vk_delta_2 d) D"
    and "list_all2 g1_denotes (vk_IC d) Is"
  shows "\<exists>ixs. Circuit_updateVkIx S code d = ret ixs \<and> (\<forall>ix \<in> set ixs. vk_upload circuit ix) \<and>
    decodeVerifyingKey (vk_account curve nPublic (foldl program_vk_step stored ixs)) None None =
      ret \<lparr> vk_curve = ''bn128'', vk_protocol = ''groth16'', vk_nPublic = int (length Is) - 1, vk_alpha_1 = g1_point A,
        vk_beta_2 = g2_point B, vk_gamma_2 = g2_point G, vk_delta_2 = g2_point D, vk_IC = map g1_point Is \<rparr>"
proof -
  note rt = verifyingKey_roundtrip [OF assms(3-7)]
  then obtain e where e: "encodeVerifyingKey d = ret e"
    by (cases "encodeVerifyingKey d" rule: js_cases) simp_all
  let ?vk = "\<lparr> pk_alpha = vb_alpha e, pk_beta = vb_beta e, pk_gamma = vb_gamma e, pk_delta = vb_delta e, pk_ic = vb_ic e \<rparr>"
  have "decodeVerifyingKey (vk_account curve nPublic ?vk) None None =
    bindJ (decodeVerifyingKey e (Some (vb_curve e)) None) (\<lambda>k. ret (k\<lparr> vk_curve := ''bn128'' \<rparr>))"
    by (simp add: decodeVerifyingKey_def vk_account_def bindJ_assoc)
  also have "\<dots> = ret \<lparr> vk_curve = ''bn128'', vk_protocol = ''groth16'', vk_nPublic = int (length Is) - 1, vk_alpha_1 = g1_point A,
        vk_beta_2 = g2_point B, vk_gamma_2 = g2_point G, vk_delta_2 = g2_point D, vk_IC = map g1_point Is \<rparr>"
    using rt e by simp
  finally show ?thesis using updateVkIx_uploads [OF assms(1,2) e, of stored] by auto
qed

definition vk17 :: vk_data where
  "vk17 = \<lparr> vk_curve = ''bn128'', vk_protocol = ''groth16'', vk_nPublic = 8, vk_alpha_1 = pi_a proof17,
     vk_beta_2 = pi_b proof17, vk_gamma_2 = pi_b proof17, vk_delta_2 = pi_b proof17, vk_IC = replicate 9 (pi_c proof17) \<rparr>"

theorem vk_update_stores_key_witness:
  "\<exists>ixs. Circuit_updateVkIx sdk17 ''kyc'' vk17 = ret ixs \<and>
    decodeVerifyingKey (vk_account '''' '''' (foldl program_vk_step \<lparr> pk_alpha = [], pk_beta = [], pk_gamma = [], pk_delta = [], pk_ic = [[1]] \<rparr> ixs)) None None =
      ret \<lparr> vk_curve = ''bn128'', vk_protocol = ''groth16'', vk_nPublic = 8, vk_alpha_1 = g1_point (5, 11),
        vk_beta_2 = g2_point ((1, 2), (3, 16)), vk_gamma_2 = g2_point ((1, 2), (3, 16)), vk_delta_2 = g2_point ((1, 2), (3, 16)),
        vk_IC = replicate 9 (g1_point (7, 8)) \<rparr>"
proof -
  have s: "chunks_ok (se_chunk sdk17)" "pda_circuit (se_derive sdk17) ''kyc'' = ret (text_bytes ''circuit'' @ text_bytes ''kyc'')"
    using sdk17_ok by (simp_all add: pda_circuit_def) (simp add: sdk17_def)
  have d: "g1_denotes (vk_alpha_1 vk17) (5, 11)" "g2_denotes (vk_beta_2 vk17) ((1, 2), (3, 16))" "g2_denotes (vk_gamma_2 vk17) ((1, 2), (3, 16))"
    "g2_denotes (vk_delta_2 vk17) ((1, 2), (3, 16))" "list_all2 g1_denotes (vk_IC vk17) (replicate 9 (7, 8))"
    by (simp_all add: vk17_def proof17_def denotes_strings fits_def list_all2_conv_all_nth)
  show ?thesis
    using vk_update_stores_key [OF s d, where curve = "''''" and nPublic = "''''" and
        stored = "\<lparr> pk_alpha = [], pk_beta = [], pk_gamma = [], pk_delta = [], pk_ic = [[1]] \<rparr>"] by auto
qed

section \<open>Rules of a policy\<close>

text \<open>The number that a rule stands for: its bytes with the least significant first, or
  the encoding of its claim.\<close>

definition rule_number :: "credential_env \<Rightarrow> rule_props \<Rightarrow> int" where
  "rule_number C r = (case rp_value r of
     Rule_bytes b \<Rightarrow> le_val b
   | Rule_numbers ns \<Rightarrow> le_val (map word_of_int ns)
   | Rule_claim v \<Rightarrow> (case ClaimsTree_encodeValue (ce_pos C) (ce_codec C) (Inl v) (rp_hash r) of Some (Inr (Some n)) \<Rightarrow> n | _ \<Rightarrow> 0))"

lemma le_val_zeros: "le_val (replicate n 0) = 0"
  by (induction n) simp_all

lemma raw_rule_value:
  assumes "raw_rule b = ret v"
  shows "beBuff2int v = le_val b \<and> length v = 32"
proof -
  have l: "length b \<le> 32" and v: "v = rev (b @ drop (length b) (replicate 32 0))"
    using assms by (auto simp: raw_rule_def typed_set_def put_bytes_def split: if_splits)
  have "v = rev (b @ replicate (32 - length b) 0)" unfolding v by (simp only: drop_replicate)
  then show ?thesis using l by (simp add: beBuff2int_eq be_val_def le_val_append le_val_zeros)
qed

lemma prepare_rule_value:
  assumes "prepare_rule C r = ret p"
  shows "rl_key p = rp_key r \<and> beBuff2int (rl_value p) = rule_number C r \<and> length (rl_value p) = 32"
proof (cases "rp_value r")
  case (Rule_claim v)
  then obtain m w where m: "ClaimsTree_encodeValue (ce_pos C) (ce_codec C) (Inl v) (rp_hash r) = ret m"
    and w: "(case m of None \<Rightarrow> throw (TypeError ''Cannot mix BigInt and other types, use explicit conversions'') | Some n \<Rightarrow> beInt2Buff n 32) = ret w"
    and p: "p = \<lparr> rl_key = rp_key r, rl_label = text_or_empty (rp_label r), rl_value = w \<rparr>"
    using assms by (auto simp: prepare_rule_def bindJ_eq_ret)
  obtain n where n: "m = Some n" using w by (cases m) simp_all
  then have "0 \<le> n" "n < 256 ^ 32" "w = be_bytes 32 n" using w by (auto simp: beInt2Buff_eq split: if_splits)
  then show ?thesis using m n p by (simp add: rule_number_def Rule_claim ret_def beBuff2int_eq be_val_be_bytes)
qed (use assms raw_rule_value in \<open>auto simp: prepare_rule_def rule_number_def bindJ_eq_ret\<close>)

lemma mapJ_all2: "mapJ f xs = ret ys \<Longrightarrow> list_all2 (\<lambda>x y. f x = ret y) xs ys"
  by (induction xs arbitrary: ys) (auto simp: bindJ_eq_ret)

lemma prepared_values:
  "list_all2 (\<lambda>r p. prepare_rule C r = ret p) rs ps \<Longrightarrow>
    map (\<lambda>p. beBuff2int (rl_value p)) (filter (\<lambda>p. rl_key p = k) ps) = map (rule_number C) (filter (\<lambda>r. rp_key r = k) rs)"
proof (induction rs ps rule: list_all2_induct)
  case (Cons r rs p ps)
  then show ?case using prepare_rule_value [of C r p] by simp
qed simp

text \<open>
  C15: the rules of a policy reach the inputs of a proof.  What \<open>preparePolicyRules\<close> stores, the
  input builder reads back as the numbers of the rules, in their order: a signal takes those
  of the rules with its name, followed by zeros up to its size, and is a single number when
  it has no size.
\<close>

theorem policy_rules_reach_inputs:
  fixes b :: ProofInputBuilder
  assumes "preparePolicyRules C (Some rs) = ret ps" "filter (\<lambda>r. rp_key r = sig_name sig) rs \<noteq> []" "sig_size sig < 2 ^ 32"
  defines "ns \<equiv> map (rule_number C) (filter (\<lambda>r. rp_key r = sig_name sig) rs)"
    and "b' \<equiv> withPolicy (map (\<lambda>p. (rl_key p, rl_value p)) ps) b"
  shows "applyPolicySignal b' sig = ret (set_data b' (sig_name sig)
    (if sig_size sig = 0 then In_int (hd ns) else int_values (ns @ replicate (nat (sig_size sig) - length ns) 0)))
    \<and> (\<forall>n \<in> set ns. 0 \<le> n \<and> n < 2 ^ 256)"
proof -
  have ps: "list_all2 (\<lambda>r p. prepare_rule C r = ret p) rs ps" using assms(1) mapJ_all2 by (simp add: preparePolicyRules_def)
  have "map (beBuff2int \<circ> snd) (filter (\<lambda>r. fst r = k) (map (\<lambda>p. (rl_key p, rl_value p)) qs)) =
      map (\<lambda>p. beBuff2int (rl_value p)) (filter (\<lambda>p. rl_key p = k) qs)" for k and qs :: "policy_rule list"
    by (induction qs) simp_all
  then have v: "policy_values b' sig = ns" using prepared_values [OF ps] by (simp add: policy_values_def b'_def withPolicy_def ns_def)
  have ne: "ns \<noteq> []" using assms(2) by (simp add: ns_def)
  have "0 \<le> rule_number C r \<and> rule_number C r < 2 ^ 256" if "r \<in> set rs" for r
  proof -
    obtain p where "prepare_rule C r = ret p" using ps \<open>r \<in> set rs\<close> by (auto simp: list_all2_conv_all_nth in_set_conv_nth)
    then show ?thesis using prepare_rule_value [of C r p] be_val_less [of "rl_value p"] be_val_nonneg [of "rl_value p"] by (auto simp: beBuff2int_eq)
  qed
  then show ?thesis using ne assms(3) by (auto simp: applyPolicySignal_def v Let_def hd_append hd_conv_nth nth_append ns_def)
qed

theorem policy_rules_reach_inputs_witness:
  "\<exists>ps. preparePolicyRules cred17 (Some [\<lparr> rp_key = ''minAge'', rp_value = Rule_bytes [18], rp_label = None, rp_hash = None \<rparr>,
      \<lparr> rp_key = ''other'', rp_value = Rule_numbers [1], rp_label = None, rp_hash = None \<rparr>]) = ret ps \<and>
    (let b' = withPolicy (map (\<lambda>p. (rl_key p, rl_value p)) ps) (ProofInputBuilder_new vc17) in
     applyPolicySignal b' (Signal ''minAge'' 2 None) = ret (set_data b' ''minAge'' (int_values [18, 0])))"
proof -
  let ?rs = "[\<lparr> rp_key = ''minAge'', rp_value = Rule_bytes [18], rp_label = None, rp_hash = None \<rparr>,
      \<lparr> rp_key = ''other'', rp_value = Rule_numbers [1], rp_label = None, rp_hash = None \<rparr>]"
  obtain ps where "preparePolicyRules cred17 (Some ?rs) = ret ps"
    by (simp add: preparePolicyRules_def prepare_rule_def raw_rule_def typed_set_def)
  then show ?thesis
    using policy_rules_reach_inputs [where C = cred17 and rs = ?rs and ps = ps and sig = "Signal ''minAge'' 2 None" and b = "ProofInputBuilder_new vc17"]
    by (simp add: rule_number_def Let_def)
qed

text \<open>
  C17: an update of a policy that does not mention its rules erases them.  The program keeps
  every field that an update leaves out, but \<open>updateIx\<close> always sends a list of rules, the
  empty one when it was given none: a policy that was created with rules has no rules after
  any such update, and a proof made with it lacks every signal of its policy.
\<close>

theorem policy_update_erases_rules:
  assumes "Policy_createIx S name props = ret (addr, ixs)" "Policy_updateIx S changes = ret (addr, ixs')" "pp2_rules changes = None"
  shows "\<exists>p p' rules. foldl (program_policy_step addr) None ixs = Some p \<and> foldl (program_policy_step addr) (Some p) ixs' = Some p' \<and>
    preparePolicyRules (se_core S) (pp2_rules props) = ret rules \<and> pl_rules p = rules \<and> pl_name p = name \<and>
    p' = p\<lparr> pl_name := given_or (pp2_name changes) name, pl_description := given_or (pp2_description changes) (pl_description p),
      pl_expirationPeriod := given_or (pp2_expirationPeriod changes) (pl_expirationPeriod p),
      pl_retentionPeriod := given_or (pp2_retentionPeriod changes) (pl_retentionPeriod p), pl_rules := [] \<rparr> \<and>
    (let b' = withPolicy (map (\<lambda>r. (rl_key r, rl_value r)) (pl_rules p')) b in applyPolicySignal b' sig = ret b')"
proof -
  obtain circuit service rules where c: "preparePolicyRules (se_core S) (pp2_rules props) = ret rules"
    "ixs = [Account_ix (CreatePolicy addr circuit service (se_key S) \<lparr> yd_code = pp2_code props, yd_name = name,
      yd_description = text_or_empty (pp2_description props),
      yd_expirationPeriod = (case pp2_expirationPeriod props of Some n \<Rightarrow> n | None \<Rightarrow> 0),
      yd_retentionPeriod = (case pp2_retentionPeriod props of Some n \<Rightarrow> n | None \<Rightarrow> 0), yd_rules = rules \<rparr>)]"
    using assms(1) by (auto simp: Policy_createIx_def bindJ_eq_ret)
  obtain service' where u: "ixs' = [Account_ix (UpdatePolicy addr service' (se_key S) \<lparr> yc_name = pp2_name changes,
      yc_description = pp2_description changes, yc_expirationPeriod = pp2_expirationPeriod changes,
      yc_retentionPeriod = pp2_retentionPeriod changes, yc_rules = Some [] \<rparr>)]"
    using assms(2,3) by (auto simp: Policy_updateIx_def bindJ_eq_ret preparePolicyRules_def)
  have e: "applyPolicySignal (withPolicy [] b) sig = ret (withPolicy [] b)"
    by (simp add: applyPolicySignal_def policy_values_def withPolicy_def)
  show ?thesis
    using c(1) e by (cases "pp2_name changes") (simp_all add: c(2) u program_policy_step_def create_policy_handler_def update_policy_handler_def given_or_def)
qed

theorem policy_update_erases_rules_witness:
  "\<exists>addr ixs ixs' p p'. Policy_createIx sdk17 ''P'' \<lparr> pp2_circuitCode = ''c'', pp2_serviceCode = ''s'', pp2_code = ''p'', pp2_name = None, pp2_description = None,
      pp2_expirationPeriod = None, pp2_retentionPeriod = None,
      pp2_rules = Some [\<lparr> rp_key = ''minAge'', rp_value = Rule_bytes [18], rp_label = None, rp_hash = None \<rparr>] \<rparr> = ret (addr, ixs) \<and>
    Policy_updateIx sdk17 \<lparr> pp2_circuitCode = ''c'', pp2_serviceCode = ''s'', pp2_code = ''p'', pp2_name = Some ''Q'', pp2_description = None,
      pp2_expirationPeriod = None, pp2_retentionPeriod = None, pp2_rules = None \<rparr> = ret (addr, ixs') \<and>
    foldl (program_policy_step addr) None ixs = Some p \<and> map rl_key (pl_rules p) = [''minAge''] \<and>
    foldl (program_policy_step addr) (Some p) ixs' = Some p' \<and> pl_name p' = ''Q'' \<and> pl_rules p' = []"
proof -
  let ?p = "\<lparr> pp2_circuitCode = ''c'', pp2_serviceCode = ''s'', pp2_code = ''p'', pp2_name = None, pp2_description = None,
      pp2_expirationPeriod = None, pp2_retentionPeriod = None,
      pp2_rules = Some [\<lparr> rp_key = ''minAge'', rp_value = Rule_bytes [18], rp_label = None, rp_hash = None \<rparr>] \<rparr>"
  let ?q = "?p\<lparr> pp2_name := Some ''Q'', pp2_rules := None \<rparr>"
  obtain addr ixs where c: "Policy_createIx sdk17 ''P'' ?p = ret (addr, ixs)" "pda_policy (se_derive sdk17) (text_bytes ''service-providers'') ''p'' = ret addr"
    by (simp add: Policy_createIx_def pda_circuit_def pda_serviceProvider_def pda_policy_def preparePolicyRules_def prepare_rule_def raw_rule_def typed_set_def)
      (simp add: sdk17_def text_bytes_def)
  obtain ixs' where u: "Policy_updateIx sdk17 ?q = ret (addr, ixs')"
    using c(2) by (simp add: Policy_updateIx_def pda_serviceProvider_def preparePolicyRules_def) (simp add: sdk17_def text_bytes_def)
  have "pp2_rules ?q = None" by simp
  from policy_update_erases_rules [OF c(1) u this, where b = "ProofInputBuilder_new vc17"] obtain p p' rules where
    p: "foldl (program_policy_step addr) None ixs = Some p" "foldl (program_policy_step addr) (Some p) ixs' = Some p'"
    and r: "preparePolicyRules (se_core sdk17) (pp2_rules ?p) = ret rules" "pl_rules p = rules"
    and q: "p' = p\<lparr> pl_name := given_or (pp2_name ?q) ''P'', pl_description := given_or (pp2_description ?q) (pl_description p),
      pl_expirationPeriod := given_or (pp2_expirationPeriod ?q) (pl_expirationPeriod p),
      pl_retentionPeriod := given_or (pp2_retentionPeriod ?q) (pl_retentionPeriod p), pl_rules := [] \<rparr>"
    by blast
  have "map rl_key rules = [''minAge'']" using r(1) by (auto simp: preparePolicyRules_def prepare_rule_def bindJ_eq_ret)
  moreover have "pl_name p' = ''Q''" "pl_rules p' = []" using q by (simp_all add: given_or_def)
  ultimately have "map rl_key (pl_rules p) = [''minAge''] \<and> pl_name p' = ''Q'' \<and> pl_rules p' = []" using r(2) by simp
  then show ?thesis
    using c(1) p u by (intro exI [of _ addr] exI [of _ ixs] exI [of _ ixs'] exI [of _ p] exI [of _ p']) simp
qed

section \<open>A search that finds nothing\<close>

lemma none_has_trustees:
  "\<forall>r \<in> set rs. snd r \<noteq> None \<Longrightarrow>
    foldJ (\<lambda>kept (k, d). bindJ (has_trustees (t # ts) d) (\<lambda>ok. ret (if ok then kept @ [(k, d)] else kept))) kept rs = ret kept"
  by (induction rs) (auto simp: has_trustees_def)

text \<open>A search for services by their trustees drops every service that was found.\<close>

lemma service_find_by_trustees:
  assumes "ss2_trustees props = Some (t # ts)" "Service_find run reader (props\<lparr> ss2_trustees := None \<rparr>) = ret res"
    and "\<forall>r \<in> set res. snd r \<noteq> None"
  shows "Service_find run reader props = ret []"
  using assms none_has_trustees [OF assms(3), of t ts "[]"] by (simp add: Service_find_def)

end
