(* ===== verification/PartiesCorrect.thy ===== *)
theory PartiesCorrect
  imports ManagersCorrect
begin

text \<open>
  Trustees, issuers and credentials as the rest of the system meets them: the key that a
  trustee registered is the one \<open>loadTrusteeKeys\<close> reads, an issuer that registers is resolved
  to its key, a decision about a request is one transaction, and listeners pile up.
\<close>

section \<open>Trustees\<close>

lemma fromRprLE_tail:
  assumes "0 < n8" "n8 mod 4 = 0" "n8 \<le> length b"
  shows "Scalar_fromRprLE (b @ t) 0 n8 = Scalar_fromRprLE b 0 n8"
  using assms by (simp add: fromRprLE_words)

text \<open>\<open>unpackPoint\<close> reads 32 bytes and leaves what follows them.\<close>

lemma unpackPoint_tail:
  assumes "bj_codec_ok B" "length b = 32"
  shows "unpackPoint B (b @ t) = bindJ (unpackPoint B b) (\<lambda>(P, r). ret (P, r @ t))"
proof -
  have n: "0 < F_n8 (bj_F B)" "F_n8 (bj_F B) mod 4 = 0" "F_n8 (bj_F B) \<le> 32" using assms(1) by (auto simp: bj_codec_ok_def)
  have tail: "F1_fromRprLE (bj_F B) (c @ t) 0 = F1_fromRprLE (bj_F B) c 0" if "length c = 32" for c
    using n that by (simp add: F1_fromRprLE_def fromRprLE_tail)
  let ?s = "b ! 31 AND 0x80 \<noteq> 0"
  let ?c = "if ?s then b[31 := b ! 31 AND 0x7F] else b"
  have c: "length ?c = 32" "(if ?s then (b @ t)[31 := b ! 31 AND 0x7F] else b @ t) = ?c @ t"
    using assms(2) by (simp_all add: list_update_append)
  have e: "bindJ (case r of None \<Rightarrow> ret (None, z) | Some x \<Rightarrow> ret (Some (g x), z)) (\<lambda>(P, r). ret (P, r @ t)) =
      (case r of None \<Rightarrow> ret (None, z @ t) | Some x \<Rightarrow> ret (Some (g x), z @ t))" for r :: "int option" and z and g :: "int \<Rightarrow> int \<times> int"
    by (cases r) simp_all
  show ?thesis
    using assms(2) c tail [OF c(1)]
    by (simp add: unpackPoint_def Let_def nth_append bindJ_assoc if_distrib [of "\<lambda>m. bindJ m (\<lambda>(P, r). ret (P, r @ t))"] e cong: if_cong)
qed

lemma mapJ_map_ret: "(\<And>x. x \<in> set xs \<Longrightarrow> f (g x) = ret (h x)) \<Longrightarrow> mapJ f (map g xs) = ret (map h xs)"
  by (induction xs) simp_all

text \<open>What the RPC gives of an account: a slice of its data.\<close>

definition account_slices :: "(pubkey \<Rightarrow> bytes option) \<Rightarrow> pubkey list \<Rightarrow> nat \<Rightarrow> nat \<Rightarrow> bytes option list js" where
  "account_slices accounts ts off len = ret (map (\<lambda>t. map_option (\<lambda>d. take len (drop off d)) (accounts t)) ts)"

text \<open>
  C18: the key with which a trustee registers is the key that \<open>loadTrusteeKeys\<close> reads from its
  account, although it reads eight bytes of the next field too; a trustee without an account
  is \<open>null\<close>, and so is a key whose first coordinate is 0.
\<close>

theorem trustee_keys_read:
  assumes "bj_codec_ok (ee_bj (ce_eddsa (se_core S)))"
    and "\<forall>t \<in> set trustees. accounts t = None \<or> (\<exists>key disc rest. accounts t = Some (disc @ key @ rest) \<and> length disc = 8 \<and>
      bj_pt (ee_bj (ce_eddsa (se_core S))) (keyOf t) \<and> packPubkey (ce_eddsa (se_core S)) (keyOf t) = ret key)"
  shows "loadTrusteeKeys S (account_slices accounts) trustees =
    ret (map (\<lambda>t. if accounts t = None \<or> fst (keyOf t) = 0 then None else Some (keyOf t)) trustees)"
proof (cases "trustees = []")
  case False
  let ?B = "ee_bj (ce_eddsa (se_core S))"
  define read where "read = (\<lambda>acc. case acc of None \<Rightarrow> ret None
    | Some dat \<Rightarrow> bindJ (unpackPubkey (ce_eddsa (se_core S)) dat) (\<lambda>(P, _). ret P))"
  define slice where "slice = (\<lambda>t. map_option (\<lambda>d. take 40 (drop 8 d)) (accounts t))"
  have one: "read (slice t) = ret (if accounts t = None \<or> fst (keyOf t) = 0 then None else Some (keyOf t))" if t: "t \<in> set trustees" for t
  proof (cases "accounts t")
    case (Some d)
    obtain key disc rest where d: "d = disc @ key @ rest" "length disc = 8" "bj_pt ?B (keyOf t)" "packPoint ?B (keyOf t) = ret key"
      using bspec [OF assms(2) t] Some by (auto simp: packPubkey_def)
    note u = unpack_pack [OF assms(1) d(3,4)]
    have "take 40 (drop 8 d) = key @ take 8 rest" using d(1,2) u(2) by simp
    then show ?thesis using Some u(1) unpackPoint_tail [OF assms(1) u(2), of "take 8 rest"] by (simp add: unpackPubkey_def read_def slice_def)
  qed (simp add: read_def slice_def)
  have "mapJ read (map slice trustees) = ret (map (\<lambda>t. if accounts t = None \<or> fst (keyOf t) = 0 then None else Some (keyOf t)) trustees)"
    by (rule mapJ_map_ret) (rule one)
  then show ?thesis using False by (simp add: loadTrusteeKeys_def account_slices_def flip: read_def slice_def)
qed (simp add: loadTrusteeKeys_def)

theorem trustee_keys_read_witness:
  "\<exists>key. packPubkey (ce_eddsa cred17) (3, 13) = ret key \<and>
    loadTrusteeKeys sdk17 (account_slices (\<lambda>t. if t = [1] then Some (replicate 8 5 @ key @ replicate 32 9) else None)) [[1], [2]] =
      ret [Some (3, 13), None]"
proof -
  have B: "bj_codec_ok (ee_bj (ce_eddsa (se_core sdk17)))" "bj_pt curve17 (3, 13)"
    using curve17_ok BJ17_pt by (simp_all add: curve17_pt)
  then obtain key where k: "packPubkey (ce_eddsa cred17) (3, 13) = ret key"
    using packPoint_bytes [of curve17 "(3, 13)"] by (auto simp: packPubkey_def)
  let ?a = "\<lambda>t :: pubkey. if t = [1] then Some (replicate 8 5 @ key @ replicate 32 9) else None"
  have a: "\<forall>t \<in> set ([[1], [2]] :: pubkey list). ?a t = None \<or> (\<exists>key disc rest. ?a t = Some (disc @ key @ rest) \<and> length disc = 8 \<and>
      bj_pt (ee_bj (ce_eddsa (se_core sdk17))) (3, 13) \<and> packPubkey (ce_eddsa (se_core sdk17)) (3, 13) = ret key)"
  proof -
    have "\<exists>key' disc rest. replicate 8 5 @ key @ replicate 32 9 = disc @ key' @ rest \<and> length disc = 8 \<and>
        bj_pt (ee_bj (ce_eddsa (se_core sdk17))) (3, 13) \<and> packPubkey (ce_eddsa (se_core sdk17)) (3, 13) = ret key'"
      by (rule exI [of _ key], rule exI [of _ "replicate 8 5"], rule exI [of _ "replicate 32 9"]) (use B(2) k in simp)
    then show ?thesis by simp
  qed
  show ?thesis using trustee_keys_read [OF B(1), of "[[1], [2]]" ?a "\<lambda>t. (3, 13)", OF a] k by simp
qed

section \<open>Issuers\<close>

lemma zkPubkeyToBytes_pair:
  assumes "codec_ok (ce_codec (se_core S))" "0 \<le> x" "x < 256 ^ 32" "0 \<le> y" "y < 256 ^ 32"
  shows "zkPubkeyToBytes S [x, y] = ret (be_bytes 32 x @ be_bytes 32 y)"
proof -
  have "bigintToBytes (ce_codec (se_core S)) n 32 = ret (be_bytes 32 n)" if "0 \<le> n" "n < 256 ^ 32" for n
  proof -
    define k where "k = (length (radix_digits 16 (nat n)) + 1) div 2"
    have "k \<le> 32"
    proof (rule ccontr)
      assume "\<not> k \<le> 32"
      then have l: "64 < length (radix_digits 16 (nat n))" by (simp add: k_def)
      then have "nat n \<noteq> 0" by (intro notI) (simp add: radix_digits.simps [of 16 0])
      then have "16 ^ (length (radix_digits 16 (nat n)) - 1) \<le> nat n" using length_radix_digits(2) [of 16 "nat n"] by simp
      moreover have "(16 :: nat) ^ 64 \<le> 16 ^ (length (radix_digits 16 (nat n)) - 1)" using l by (intro power_increasing) simp_all
      moreover have "nat n < 16 ^ 64" using that by (simp add: nat_less_iff)
      ultimately show False by linarith
    qed
    then show ?thesis using bigintToBytes_be_bytes [OF assms(1) that(1), of 32] by (simp add: k_def max_def)
  qed
  then show ?thesis using assms by (simp add: zkPubkeyToBytes_def)
qed

text \<open>
  C19: an issuer that registers is resolved to its key.  The instruction of \<open>createIx\<close> names
  the key that belongs to the secret key, in the bytes that \<open>loadByZkPubkey\<close> searches for;
  the document that \<open>generateDid\<close> makes of the pair of keys gives \<open>verifyCredential\<close> exactly
  this key, and so does the one that the albus resolver makes of an account that starts
  with the two keys of that instruction, wherever it is and whatever follows.
\<close>

theorem issuer_registered_resolves:
  assumes "credential_ok (se_core S)" "u_fromString (ce_codec (se_core S)) Base58btc '''' = ret []"
    and "8 * length (ci_secretKey props) < 2 ^ 128" "length (ci_publicKey props) = 32" "pda_issuer (se_derive S) (ci_code props) = ret address"
  shows "\<exists>d A. Issuer_createIx S props = ret (address, [Account_ix (CreateIssuer address (se_key S) d)]) \<and>
    prv2pub (ce_eddsa (se_core S)) (ci_secretKey props) = ret A \<and> zkPubkeyToBytes S [fst A, snd A] = ret (id_zkPubkey d) \<and>
    resolves_to (se_core S) (\<lambda>i. bindJ (generateDid (ce_eddsa (se_core S)) \<lparr> kp_secretKey = ci_secretKey props, kp_publicKey = ci_publicKey props \<rparr> (Some did))
      (\<lambda>doc. ret (found_document doc))) i A \<and>
    (\<forall>accounts place rest. accounts place = ret (Some (issuer_discriminator @ id_pubkey d @ id_zkPubkey d @ rest)) \<and> CHR '':'' \<notin> set place \<longrightarrow>
      resolves_to (se_core S) (\<lambda>i. albus_resolve (ce_eddsa (se_core S)) accounts (albus_endpoint urls None cluster) did (''issuer:'' @ place)) i A)"
proof -
  let ?C = "se_core S"
  note ok = credential_okD [OF assms(1)]
  have b: "0 \<le> (0 :: int)" "(0 :: int) < 2 ^ 256" by simp_all
  obtain A kb where A: "prv2pub (ce_eddsa ?C) (ci_secretKey props) = ret A" and kb: "PublicKey_compress (ce_eddsa ?C) A = ret kb" "length kb = 32"
    using signature_parts [OF assms(1,3) b] by metis
  have "A = bj.times (ee_bj (ce_eddsa ?C)) (nat (secret_scalar (ci_secretKey props) div 8)) (Base8 (ee_bj (ce_eddsa ?C)))"
    using prv2pub_times [OF ok(5,6) assms(3)] A by simp
  then have "bj_pt (ee_bj (ce_eddsa ?C)) A" using bj.times_pt [OF ok(5,6)] by simp
  moreover have "F_p (bj_F (ee_bj (ce_eddsa ?C))) < 2 ^ 255" using ok(2) by (simp add: bj_codec_ok_def)
  moreover have "(2 :: int) ^ 255 < 256 ^ 32" by simp
  ultimately have r: "0 \<le> fst A" "fst A < 256 ^ 32" "0 \<le> snd A" "snd A < 256 ^ 32"
    unfolding bj_pt_def in_field_def by linarith+
  let ?z = "be_bytes 32 (fst A) @ be_bytes 32 (snd A)"
  have z: "zkPubkeyToBytes S [fst A, snd A] = ret ?z" using zkPubkeyToBytes_pair [OF ok(3) r] .
  have res: "resolves_to ?C (\<lambda>i. albus_resolve (ce_eddsa ?C) accounts (albus_endpoint urls None cluster) did (''issuer:'' @ place)) i A"
    if acc: "accounts place = ret (Some (issuer_account (ci_publicKey props) A rest))" "CHR '':'' \<notin> set place" for accounts place rest
  proof -
    have "js_split (CHR '':'') place = [place]" using that(2) by (induction place) auto
    then have "js_split (CHR '':'') (''issuer:'' @ place) = [''issuer'', place]" by simp
    then show ?thesis
      using document_resolves [OF ok(3) assms(2) kb] acc(1)
        albus_resolve_account [OF ok(3) r kb(1) assms(4), where accounts = accounts and address = place]
      by (simp add: albus_endpoint_def)
  qed
  have gen: "resolves_to ?C (\<lambda>i. bindJ (generateDid (ce_eddsa ?C) \<lparr> kp_secretKey = ci_secretKey props, kp_publicKey = ci_publicKey props \<rparr> (Some did))
      (\<lambda>doc. ret (found_document doc))) i A"
    using document_resolves [OF ok(3) assms(2) kb] A
      generateDid_document [OF _ kb(1), of "\<lparr> kp_secretKey = ci_secretKey props, kp_publicKey = ci_publicKey props \<rparr>" did]
    by (simp add: PrivateKey_public_def)
  define d where "d = \<lparr> id_code = ci_code props, id_name = ci_name props, id_description = text_or_empty (ci_description props),
      id_authority = (case ci_authority props of Some k \<Rightarrow> k | None \<Rightarrow> ci_publicKey props), id_pubkey = ci_publicKey props, id_zkPubkey = ?z \<rparr>"
  have "Issuer_createIx S props = ret (address, [Account_ix (CreateIssuer address (se_key S) d)])"
    by (simp add: Issuer_createIx_def assms(5) A z d_def)
  then show ?thesis using A z gen res by (intro exI [of _ d] exI [of _ A]) (simp add: d_def issuer_account_def)
qed

theorem issuer_registered_resolves_witness:
  "\<exists>d A. Issuer_createIx sdk17 \<lparr> ci_code = ''x'', ci_name = ''X'', ci_description = None, ci_authority = None,
      ci_publicKey = replicate 32 1, ci_secretKey = [1, 2, 3] \<rparr> = ret (text_bytes ''issuerx'', [Account_ix (CreateIssuer (text_bytes ''issuerx'') [7] d)]) \<and>
    prv2pub (ce_eddsa cred17) [1, 2, 3] = ret A \<and>
    resolves_to cred17 (\<lambda>i. albus_resolve (ce_eddsa cred17) (\<lambda>a. ret (Some (issuer_discriminator @ id_pubkey d @ id_zkPubkey d)))
      (albus_endpoint (\<lambda>c. c) None None) ''did:albus'' (''issuer:'' @ ''abc'')) (Issuer_string '''') A"
proof -
  let ?p = "\<lparr> ci_code = ''x'', ci_name = ''X'', ci_description = None, ci_authority = None, ci_publicKey = replicate 32 1, ci_secretKey = [1, 2, 3] \<rparr>"
  have U: "u_fromString (ce_codec cred17) Base58btc '''' = ret []" by (simp add: text_codec_def plain_codec_def)
  have k: "pda_issuer (se_derive sdk17) ''x'' = ret (text_bytes ''issuerx'')" by (simp add: pda_issuer_def sdk17_def text_bytes_def)
  have key: "se_key sdk17 = [7]" by (simp add: counting_provider_def)
  have c: "CHR '':'' \<notin> set ''abc''" by simp
  have h: "credential_ok (se_core sdk17)" "u_fromString (ce_codec (se_core sdk17)) Base58btc '''' = ret []" "8 * length (ci_secretKey ?p) < 2 ^ 128"
    "length (ci_publicKey ?p) = 32" "pda_issuer (se_derive sdk17) (ci_code ?p) = ret (text_bytes ''issuerx'')"
    using cred17_ok U k by simp_all
  obtain d A where r: "Issuer_createIx sdk17 ?p = ret (text_bytes ''issuerx'', [Account_ix (CreateIssuer (text_bytes ''issuerx'') (se_key sdk17) d)])"
    "prv2pub (ce_eddsa (se_core sdk17)) (ci_secretKey ?p) = ret A"
    and a: "\<And>accounts place rest. accounts place = ret (Some (issuer_discriminator @ id_pubkey d @ id_zkPubkey d @ rest)) \<Longrightarrow> CHR '':'' \<notin> set place \<Longrightarrow>
      resolves_to (se_core sdk17) (\<lambda>i. albus_resolve (ce_eddsa (se_core sdk17)) accounts (albus_endpoint (\<lambda>c. c) None None) ''did:albus'' (''issuer:'' @ place)) (Issuer_string '''') A"
    using issuer_registered_resolves [OF h, where urls = "\<lambda>c. c" and cluster = None and did = "''did:albus''" and i = "Issuer_string ''''"] by blast
  show ?thesis using r key a [where accounts = "\<lambda>a. ret (Some (issuer_discriminator @ id_pubkey d @ id_zkPubkey d))" and place = "''abc''" and rest = "[]"]
    by (intro exI [of _ d] exI [of _ A]) simp
qed

section \<open>Listeners\<close>

datatype listener_call = Call_addListener pubkey | Call_removeListener pubkey | Call_removeAllListener

definition listener_step :: "nft_env \<Rightarrow> listeners \<Rightarrow> listener_call \<Rightarrow> listeners" where
  "listener_step N L c = (case c of
     Call_addListener mint \<Rightarrow> fst (addListener N mint L)
   | Call_removeListener mint \<Rightarrow> removeListener mint L
   | Call_removeAllListener \<Rightarrow> removeAllListener L)"

text \<open>The states that the calls reach, with the accounts for which a listener was asked.\<close>

inductive listeners_reach :: "nft_env \<Rightarrow> pubkey list \<Rightarrow> listeners \<Rightarrow> bool" for N where
  Reach_start: "listeners_reach N [] no_listeners"
| Reach_add: "listeners_reach N asked L \<Longrightarrow> getMetadataPDA N mint = ret addr \<Longrightarrow>
    listeners_reach N (asked @ [addr]) (listener_step N L (Call_addListener mint))"
| Reach_remove: "listeners_reach N asked L \<Longrightarrow> listeners_reach N asked (listener_step N L (Call_removeListener mint))"
| Reach_remove_all: "listeners_reach N asked L \<Longrightarrow> listeners_reach N asked (listener_step N L Call_removeAllListener)"

lemma no_entries:
  assumes "ls_entries L = []"
  shows "removeListener mint L = L" "removeAllListener L = L"
  using assms by (simp_all add: removeListener_def removeAllListener_def)

text \<open>
  C26: a listener that was added is never removed.  Whatever calls are made, one listener is
  active for every \<open>addListener\<close> so far, in the order of the calls, several for an account
  that was given several times; \<open>removeListener\<close> and \<open>removeAllListener\<close> change nothing,
  since the subscriptions are stored beside the \<open>Map\<close> and looked up in it.
\<close>

theorem listeners_accumulate:
  assumes "listeners_reach N asked L"
  shows "ls_active L = zip [0..<length asked] asked \<and> ls_next L = length asked \<and> ls_entries L = [] \<and>
    removeListener mint L = L \<and> removeAllListener L = L"
proof -
  have "ls_active L = zip [0..<length asked] asked \<and> ls_next L = length asked \<and> ls_entries L = []"
    using assms
  proof induction
    case (Reach_add asked L mint addr)
    then show ?case by (simp add: listener_step_def addListener_def no_entries ret_def Let_def)
  qed (simp_all add: no_listeners_def listener_step_def no_entries)
  then show ?thesis using no_entries by simp
qed

definition nft17 :: nft_env where
  "nft17 = \<lparr> ne_derive = (\<lambda>program seeds. ret (concat seeds)), ne_onCurve = (\<lambda>k. True), ne_metadataProgram = [8], ne_tokenProgram = [9],
     ne_associatedProgram = [10] \<rparr>"

theorem listeners_accumulate_witness:
  "ls_active (listener_step nft17 (listener_step nft17 (listener_step nft17 no_listeners (Call_addListener [1])) (Call_addListener [1])) (Call_removeListener [1])) =
    [(0, text_bytes ''metadata'' @ [8, 1]), (1, text_bytes ''metadata'' @ [8, 1])]"
proof -
  have a: "getMetadataPDA nft17 [1] = ret (text_bytes ''metadata'' @ [8, 1])" by (simp add: getMetadataPDA_def nft17_def)
  have "listeners_reach nft17 ([text_bytes ''metadata'' @ [8, 1]] @ [text_bytes ''metadata'' @ [8, 1]]) (listener_step nft17 (listener_step nft17
      (listener_step nft17 no_listeners (Call_addListener [1])) (Call_addListener [1])) (Call_removeListener [1]))"
    using Reach_remove [OF Reach_add [OF Reach_add [OF Reach_start a] a]] by simp
  then show ?thesis by (subst listeners_accumulate [THEN conjunct1]) (auto simp: upt_conv_Cons)
qed

section \<open>Decisions about a request\<close>

lemma decided_tx:
  assumes "adds_in_order (se_provider S)" "se_fee S \<le> 0" "se_feeLoader S = None" "snd_priorityFee opts = None"
    and "Credential_updateIx S N loadRequest \<lparr> up_uri = uri, up_name = None, up_mint = None, up_credentialRequest = Some request \<rparr> = ret ixs" "ixs \<noteq> []"
  shows "decide_request S N loadRequest request issuer status message uri opts =
    catchJ (pv_sendAndConfirm (se_provider S) \<lparr> tx_instructions = Request_updateIx S request issuer status message @ ixs, tx_feePayer = snd_feePayer opts \<rparr>
      (Some (case snd_feePayer opts of Some k \<Rightarrow> [k] | None \<Rightarrow> []))
      (obj_merge (pv_opts (se_provider S)) (case snd_confirm opts of Some os \<Rightarrow> os | None \<Rightarrow> []))) (rethrow (se_provider S))"
proof -
  let ?P = "se_provider S"
  have add: "addInstruction ?P (map Add_ix is) b = ret (b\<lparr> tb_txs := [e\<lparr> te_tx := (te_tx e)\<lparr> tx_instructions := tx_instructions (te_tx e) @ is \<rparr> \<rparr>] \<rparr>)"
    if "tb_txs b = [e]" "is \<noteq> []" for b e "is"
    using assms(1) that by (simp add: addInstruction_def adds_in_order_def comp_def)
  have b0: "tb_txs (base_txBuilder S) = [empty_entry]" "fixed_fee (base_txBuilder S) = None" "tb_priorityFeeLoader (base_txBuilder S) = None"
    using assms(2,3) by (simp_all add: base_txBuilder_def withPriorityFee_def withPriorityFeeLoader_def TxBuilder_new_def addTransaction_def empty_entry_def fixed_fee_def)
  have u: "Request_updateIx S request issuer status message \<noteq> []" by (simp add: Request_updateIx_def)
  have f: "fixed_fee (b\<lparr> tb_txs := x \<rparr>) = fixed_fee b" for b :: "instruction tx_builder" and x by (simp add: fixed_fee_def)
  show ?thesis
    unfolding decide_request_def add [OF b0(1) u] bindJ_ret assms(5)
    by (subst add [OF _ assms(6)], simp, cases "snd_feePayer opts")
      (simp_all add: sendAndConfirm_first_only [THEN conjunct1] f b0 assms(4) empty_entry_def new_transaction_def)
qed



end
