(* ===== verification/Spec2Isabelle.thy ===== *)
theory Spec2Isabelle
  imports Prelude ScalarOps ModArith F1Field PolyMod Shamir CryptoUtils FFUtils Poseidon Blake Edwards BabyJub Eddsa Zkp Smt SmtSpec SmtRefine SmtCorrect ClaimsTree Xc20p Did Credential CredentialCorrect KeySuites KeySuitesCorrect Signals ProofInput ProofInputCorrect TxBuilder Pda ProofRequest ProofRequestCorrect Investigation InvestigationCorrect Accounts Managers Parties CredentialNft ManagersCorrect PartiesCorrect
begin

text \<open>
  \<^bold>\<open>Albus: a verification development for its TypeScript packages.\<close>

  Albus lets a user prove claims of a signed credential to a service on Solana without
  showing them.  An issuer signs the root of a tree of claims; the user proves, with a
  circuit, statements about claims of that tree; the proof and its public inputs are sent to
  the program in transactions; if the circuit shares the user's secret among trustees, an
  investigator can later collect enough shares to recover it.  The theories follow that
  path, each part on the one before.

  \<^bold>\<open>Errors, loops and numbers.\<close>  A call that may throw or may not return has the type
  \<open>'a js\<close> (Prelude): \<open>None\<close> when it does not return, \<open>Some (Inl e)\<close> when it throws, \<open>Some (Inr x)\<close>
  for a result.  Loops whose end is not plain are \<open>partial_function (option)\<close>, and that they
  end is proved where it is so; no fuel is used.  A bigint is an \<open>int\<close>, a byte an \<open>8 word\<close>, the
  halves of the words of BLAKE are \<open>32 word\<close>s; buffers are lists of bytes, and a write outside
  them throws as it does in JavaScript.  Objects with an order of keys are association lists.

  \<^bold>\<open>packages/albus-core/src/crypto.\<close>
  \<^item> ScalarOps (ff/scalar.ts): bigint helpers, NAF, words in buffers.  The lemmas give their
    value as arithmetic on \<open>int\<close>.
  \<^item> F1Field (ff/f1field.ts), on ModArith: the field object, its constructor and methods.
    Inversion, powers by NAF and Tonelli-Shanks roots are proved right and total; \<open>e\<close> is
    characterised, its result \<open>p\<close> for negative multiples included.
  \<^item> FFUtils, CryptoUtils (ff/utils.ts, utils.ts, multibase.ts): conversions, with round trips.
  \<^item> Shamir (shamir.ts), on PolyMod (interpolation modulo a prime): reconstruction from any
    \<open>k\<close> shares.
  \<^item> Poseidon (poseidon/poseidon-opt.ts): hash, sponges, cipher.  The constant tables are a
    parameter; \<open>env_ok\<close> is their shape.
  \<^item> Blake (blake.ts): BLAKE-512 as the object does it, and a reference on 64-bit words that it
    refines for every way of splitting the message.
  \<^item> BabyJub (babyjub/babyjub.ts), on Edwards (the group of a twisted Edwards curve).
  \<^item> Eddsa (babyjub/eddsa.ts, eddsa-keys.ts): signatures verify; the guards of verification.
  \<^item> Zkp (zkp.ts): proofs, keys and public signals as bytes, shared keys, unbiased values.
  \<^item> Xc20p (xc20p.ts): encryption to a key, over parameters for the primitives of stablelib.
  \<^item> Smt (smt.ts): the tree over its database.  SmtSpec has the abstract tree, SmtRefine the
    representation by the nodes of the database, SmtCorrect the refinement of \<open>get\<close>, \<open>add\<close>,
    \<open>update\<close> and \<open>delete\<close> and the canonicity of the root.  The node store is the locale
    \<open>node_store\<close> where the proofs need only its laws.

  \<^bold>\<open>packages/albus-core/src/credential and utils.\<close>
  \<^item> ClaimsTree (tree.ts, date.ts): flattening, encoding of claims, the tree of a credential.
  \<^item> Did (did.ts, did-resolver): identifiers, documents and their resolvers.
  \<^item> Credential (index.ts, utils.ts): creating, signing, encrypting, verifying credentials and
    presentations.  CredentialCorrect: what is created verifies, for the holder of the key.
  \<^item> KeySuites (crypto): the keys and suites of linked-data signatures.  KeySuitesCorrect: a
    suite verifies what it signed, and what its verifier holds afterwards; the forms of an
    Ed25519 key; the locale \<open>key_scheme\<close> is what the Ed25519 suite uses of a key.

  \<^bold>\<open>packages/albus-sdk/src.\<close>
  \<^item> Signals (utils/circuit.ts): the distribution of public inputs over declared signals.
  \<^item> ProofInput (utils/proofInputBuilder.ts): the builder; the two concurrent passes of
    \<open>build\<close> are threads under a schedule, and ProofInputCorrect shows the result is the same
    for each.
  \<^item> TxBuilder (utils/txBuilder.ts, base.ts): transactions, fees and sending; Pda (pda.ts): seeds.
  \<^item> ProofRequest (proofRequestManager.ts): requests, verification, decryption and proving.
    ProofRequestCorrect: the chunks that are sent make the program store exactly the encoded
    signals.
  \<^item> Investigation (investigationManager.ts, with the handlers of programs/albus that create the
    share accounts and accept a share).  InvestigationCorrect: \<open>investigation_run\<close> is the
    step relation of client and program; its invariant says that every revealed account
    holds its trustee's share, and once the threshold is reached the secret is recovered.

  \<^item> Accounts: the instructions of the account managers as constructors, searches as lists of
    filters.  Managers (circuitManager.ts, policyManager.ts, serviceManager.ts, with the handlers
    of programs/albus that store a verifying key and a policy), Parties (trusteeManager.ts,
    issuerManager.ts, credentialSpecManager.ts, credentialRequestManager.ts) and CredentialNft
    (credentialManager.ts, issuerClient.ts, utils/web3.ts): every method that builds, sends or
    searches.  ManagersCorrect: an uploaded verifying key decodes to the given one, the rules of
    a policy reach the inputs of a proof, and an update without rules erases them.
    PartiesCorrect: keys of trustees and issuers are read back, a rejection is one
    transaction, and \<open>listeners_reach\<close> is the relation in which listeners are never removed.

  \<^bold>\<open>What is assumed.\<close>  Code that is not in the repository is an argument: the codecs of
  uint8arrays, the primitives of stablelib, web3.js, snarkjs, jsonld-signatures, lodash, the
  clock, random bytes, JSON and dates.  The predicates \<open>codec_ok\<close>, \<open>env_ok\<close>, \<open>bj_ok\<close>, \<open>eddsa_ok\<close>,
  \<open>xc20p_ok\<close>, \<open>adds_in_order\<close>, \<open>chunks_ok\<close>, \<open>discloses\<close> (the last for the circuit) and
  \<open>ed25519_ok\<close>, \<open>no_collisions\<close> (for the hashes of one tree) say what is relied on; small instances over the
  fields of 13 and 17 elements show that each can hold.

  \<^bold>\<open>Not modelled.\<close>  Generating and checking a proof (snarkjs and the circom circuits), the
  generated byte layouts and how the network runs a search, the client that holds the
  managers, storage, logging, the command line, the
  document loader, the copied stake pool client, the example SDKs, and the rest of the Rust programs:
  they pass values to libraries or to the network and keep no state of their own.
\<close>

end
